(* ===== verification/Net_Prelude.thy ===== *)
theory Net_Prelude
  imports "HOL-Library.Word" "HOL-Library.Monad_Syntax"
begin

text \<open>
  Shared vocabulary of the development: the machine integer types of the C sources, the
  signed reading of a word, the error numbers the sources return, and the generic lemmas on
  words, options and lists that the component theories use. The collection \<open>s64_simps\<close>
  holds the facts that turn two's complement arithmetic on 64-bit words into integer
  arithmetic while nothing wraps.
\<close>

unbundle bit_operations_syntax

type_synonym u8 = "8 word"
type_synonym u16 = "16 word"
type_synonym u32 = "32 word"
type_synonym u64 = "64 word"
type_synonym s64 = "64 word"

named_theorems s64_simps \<open>signed 64-bit arithmetic that does not wrap\<close>

abbreviation (input) EINVAL :: int where "EINVAL \<equiv> 22"
abbreviation (input) ENOMEM :: int where "ENOMEM \<equiv> 12"

section \<open>Signed 64-bit arithmetic\<close>

abbreviation s64_min :: int where "s64_min \<equiv> - (2 ^ 63)"
abbreviation s64_max :: int where "s64_max \<equiv> 2 ^ 63 - 1"

definition in_s64 :: "int \<Rightarrow> bool" where
  "in_s64 i \<longleftrightarrow> - (2 ^ 63) \<le> i \<and> i < 2 ^ 63"

lemma sint_in_s64 [simp]: "in_s64 (sint (w :: s64))"
  using sint_range_size [of w] by (simp add: in_s64_def word_size)

lemma signed_take_bit_in_s64: "in_s64 i \<Longrightarrow> signed_take_bit 63 i = i"
  by (simp add: in_s64_def signed_take_bit_int_eq_self_iff)

lemma sint_add_s64 [s64_simps]:
  "in_s64 (sint a + sint b) \<Longrightarrow> sint (a + b :: s64) = sint a + sint b"
  by (simp add: signed_take_bit_in_s64 sint_word_ariths)

lemma sint_sub_s64 [s64_simps]:
  "in_s64 (sint a - sint b) \<Longrightarrow> sint (a - b :: s64) = sint a - sint b"
  by (simp add: signed_take_bit_in_s64 sint_word_ariths)

lemma sint_neg_s64 [s64_simps]:
  "in_s64 (- sint a) \<Longrightarrow> sint (- a :: s64) = - sint a"
  by (simp add: signed_take_bit_in_s64 sint_word_ariths)

lemma sint_eq_uint_s64: "uint (w :: s64) < 2 ^ 63 \<Longrightarrow> sint w = uint w"
  by (simp add: sint_uint signed_take_bit_int_eq_self_iff order_trans [OF _ uint_ge_0])

text \<open>Both operands of a bitwise or are non-negative exactly when the result is.\<close>

lemma sint_or_nonneg: "0 \<le> sint (a OR b :: s64) \<longleftrightarrow> 0 \<le> sint a \<and> 0 \<le> sint b"
proof -
  have "0 \<le> sint w \<longleftrightarrow> \<not> bit w 63" for w :: s64
    by (simp add: sint_uint signed_take_bit_nonnegative_iff bit_uint_iff)
  then show ?thesis by (simp add: bit_or_iff)
qed

section \<open>Bits and widths of unsigned words\<close>

lemma top_bit_nat:
  assumes "(n :: nat) < 2 * 2 ^ k"
  shows "bit n k \<longleftrightarrow> 2 ^ k \<le> n"
proof -
  have "n div 2 ^ k < 2" using assms by (simp add: less_mult_imp_div_less)
  then have "n div 2 ^ k = (if 2 ^ k \<le> n then 1 else 0)"
    using div_greater_zero_iff [of n "2 ^ k"] by auto
  then show ?thesis by (simp add: bit_iff_odd)
qed

lemma bit_unat: "bit (unat (w :: 'a::len word)) n = bit w n"
  by transfer (simp add: bit_take_bit_iff bit_nat_iff)

lemma top_bit_u32: "(w :: u32) AND 2147483648 = 0 \<longleftrightarrow> unat w < 2147483648"
  using top_bit_nat [of "unat w" 31] unsigned_less [of w, where ?'a = nat]
    bit_iff_and_push_bit_not_eq_0 [of w 31]
  by (auto simp: bit_unat)

lemma top_bit_u64: "(w :: u64) AND 9223372036854775808 = 0 \<longleftrightarrow> unat w < 9223372036854775808"
  using top_bit_nat [of "unat w" 63] unsigned_less [of w, where ?'a = nat]
    bit_iff_and_push_bit_not_eq_0 [of w 63]
  by (auto simp: bit_unat)

lemma unat_ucast_less:
  "unat (w :: 'a::len word) < 2 ^ LENGTH('b) \<Longrightarrow> unat (ucast w :: 'b::len word) = unat w"
  by (simp add: unsigned_ucast_eq take_bit_nat_eq_self_iff)

lemma unat_ucast_up [simp]:
  "LENGTH('a) \<le> LENGTH('b) \<Longrightarrow> unat (ucast (w :: 'a::len word) :: 'b::len word) = unat w"
  by (rule unat_ucast_less)
     (rule less_le_trans [OF unsigned_less], simp add: power_increasing)

lemma unat_double_u64: "unat (w :: u64) < 2 ^ 63 \<Longrightarrow> unat (w * 2) = 2 * unat w"
  by (simp add: unat_word_ariths)

lemma unat_Suc_less:
  "Suc (unat (w :: 'a::len word)) < 2 ^ LENGTH('a) \<Longrightarrow> unat (w + 1) = Suc (unat w)"
  by (simp add: unat_word_ariths)

section \<open>Little-endian integers in byte buffers\<close>

primrec bytes_le :: "nat \<Rightarrow> nat \<Rightarrow> u8 list" where
  "bytes_le 0 n = []"
| "bytes_le (Suc k) n = of_nat n # bytes_le k (n div 256)"

fun le_nat :: "u8 list \<Rightarrow> nat" where
  "le_nat [] = 0"
| "le_nat (b # bs) = unat b + 256 * le_nat bs"

definition le16 :: "u8 list \<Rightarrow> u16" where "le16 bs = of_nat (le_nat (take 2 bs))"
definition le32 :: "u8 list \<Rightarrow> u32" where "le32 bs = of_nat (le_nat (take 4 bs))"
definition le64 :: "u8 list \<Rightarrow> u64" where "le64 bs = of_nat (le_nat (take 8 bs))"

definition bytes16 :: "u16 \<Rightarrow> u8 list" where "bytes16 w = bytes_le 2 (unat w)"
definition bytes32 :: "u32 \<Rightarrow> u8 list" where "bytes32 w = bytes_le 4 (unat w)"
definition bytes64 :: "u64 \<Rightarrow> u8 list" where "bytes64 w = bytes_le 8 (unat w)"

lemma length_bytes_le [simp]: "length (bytes_le k n) = k"
  by (induction k arbitrary: n) auto

lemma le_nat_bytes_le: "le_nat (bytes_le k n) = n mod 256 ^ k"
proof (induction k arbitrary: n)
  case (Suc k)
  then show ?case
    by (simp add: unat_of_nat take_bit_eq_mod mod_mult2_eq add.commute)
qed simp

lemma length_bytes [simp]:
  "length (bytes16 a) = 2" "length (bytes32 b) = 4" "length (bytes64 c) = 8"
  by (simp_all add: bytes16_def bytes32_def bytes64_def)

lemma le_bytes [simp]:
  "le16 (bytes16 a @ xs) = a" "le32 (bytes32 b @ xs) = b" "le64 (bytes64 c @ xs) = c"
  using unsigned_less [of a, where ?'a = nat] unsigned_less [of b, where ?'a = nat]
    unsigned_less [of c, where ?'a = nat]
  by (simp_all add: le16_def le32_def le64_def bytes16_def bytes32_def bytes64_def le_nat_bytes_le)

lemmas le_bytes0 [simp] = le_bytes [of _ "[]", simplified]

section \<open>Queues as lists\<close>

definition hd_opt :: "'a list \<Rightarrow> 'a option" where
  "hd_opt xs = (case xs of [] \<Rightarrow> None | x # _ \<Rightarrow> Some x)"

lemma hd_opt_simps [simp]: "hd_opt [] = None" "hd_opt (x # xs) = Some x"
  by (simp_all add: hd_opt_def)

lemma hd_opt_eq_None [simp]: "hd_opt xs = None \<longleftrightarrow> xs = []"
  by (cases xs) auto

lemma hd_opt_eq_Some: "hd_opt xs = Some x \<longleftrightarrow> (\<exists>ys. xs = x # ys)"
  by (cases xs) auto

end
