(* ===== verification/Psched.thy ===== *)
theory Psched
  imports Net_Prelude
begin

text \<open>
  Rate arithmetic of the packet schedulers: the rate records of
  \<^verbatim>\<open>pkt_sched.h\<close>, \<^verbatim>\<open>psched_ratecfg_precompute\<close>
  (\<^verbatim>\<open>net/sched/sch_generic.c\<close>), which replaces a division by a multiplication and a
  shift, and \<^verbatim>\<open>psched_ns_t2l\<close> (\<^verbatim>\<open>sch_tbf.c\<close>). The search loop of the
  precomputation is a \<^theory_text>\<open>partial_function\<close>: \<open>None\<close> is a loop that never ends, and
  it is proved not to occur. The inline conversion \<^verbatim>\<open>psched_l2t_ns\<close> lives in a kernel
  header outside the repository; its users take it as an argument.
\<close>

section \<open>Definitions\<close>

abbreviation (input) TC_LINKLAYER_UNAWARE :: u8 where "TC_LINKLAYER_UNAWARE \<equiv> 0"
abbreviation (input) TC_LINKLAYER_ETHERNET :: u8 where "TC_LINKLAYER_ETHERNET \<equiv> 1"
abbreviation (input) TC_LINKLAYER_ATM :: u8 where "TC_LINKLAYER_ATM \<equiv> 2"
abbreviation (input) TC_LINKLAYER_MASK :: u8 where "TC_LINKLAYER_MASK \<equiv> 15"
abbreviation (input) NSEC_PER_SEC :: u64 where "NSEC_PER_SEC \<equiv> 1000000000"

record tc_ratespec =
  rs_cell_log :: u8
  rs_linklayer :: u8
  rs_overhead :: u16
  rs_cell_align :: u16
  rs_mpu :: u16
  rs_rate :: u32

record psched_ratecfg =
  rate_bytes_ps :: u64
  rc_mult :: u32
  rc_overhead :: u16
  rc_linklayer :: u8
  rc_shift :: u8

definition ratecfg_zero :: psched_ratecfg where
  "ratecfg_zero = \<lparr>rate_bytes_ps = 0, rc_mult = 0, rc_overhead = 0, rc_linklayer = 0, rc_shift = 0\<rparr>"

partial_function (option) precompute_loop :: "u64 \<Rightarrow> u64 \<Rightarrow> u8 \<Rightarrow> (u32 \<times> u8) option" where
  "precompute_loop rate factor shift =
     (let mult = ucast (factor div rate) :: u32 in
      if mult AND push_bit 31 1 \<noteq> 0 \<or> factor AND push_bit 63 1 \<noteq> 0
      then Some (mult, shift)
      else precompute_loop rate (push_bit 1 factor) (shift + 1))"

declare precompute_loop.simps [code]

definition psched_ratecfg_precompute :: "tc_ratespec \<Rightarrow> u64 \<Rightarrow> psched_ratecfg option" where
  "psched_ratecfg_precompute conf rate64 =
     (let r = \<lparr>rate_bytes_ps = max (ucast (rs_rate conf)) rate64,
               rc_mult = 1,
               rc_overhead = rs_overhead conf,
               rc_linklayer = rs_linklayer conf AND TC_LINKLAYER_MASK,
               rc_shift = 0\<rparr>
      in if 0 < rate_bytes_ps r
         then do { (m, s) \<leftarrow> precompute_loop (rate_bytes_ps r) NSEC_PER_SEC (rc_shift r);
                   Some (r\<lparr>rc_mult := m, rc_shift := s\<rparr>) }
         else Some r)"

text \<open>Time to length: how many bytes fit in a number of nanoseconds.\<close>

definition psched_ns_t2l :: "psched_ratecfg \<Rightarrow> u64 \<Rightarrow> u64" where
  "psched_ns_t2l r time_in_ns =
     (let len = time_in_ns * rate_bytes_ps r;
          len = len div NSEC_PER_SEC;
          len = (if rc_linklayer r = TC_LINKLAYER_ATM then len div 53 * 48 else len)
      in if ucast (rc_overhead r) < len then len - ucast (rc_overhead r) else 0)"

text \<open>
  The conversion the precomputed pair stands for, as the comment in
  \<^verbatim>\<open>psched_ratecfg_precompute\<close> states it: \<^verbatim>\<open>time_in_ns = (len * mult) >> shift\<close>.
\<close>

definition reciprocal_ns :: "psched_ratecfg \<Rightarrow> u32 \<Rightarrow> u64" where
  "reciprocal_ns r len = drop_bit (unat (rc_shift r)) (ucast len * ucast (rc_mult r))"

section \<open>The reciprocal: termination and exactness\<close>

lemma precompute_loop_exact:
  assumes "k \<le> 34" "unat rate > 0" "unat factor = 10 ^ 9 * 2 ^ k" "unat shift = k"
    and "10 ^ 9 * 2 ^ k div unat rate < 2 ^ 32"
  shows "\<exists>mult shift'. precompute_loop rate factor shift = Some (mult, shift') \<and>
           k \<le> unat shift' \<and> unat shift' \<le> 34 \<and>
           unat mult = 10 ^ 9 * 2 ^ unat shift' div unat rate \<and>
           (2 ^ 31 \<le> unat mult \<or> unat shift' = 34)"
  using assms
proof (induction "34 - k" arbitrary: k factor shift)
  case 0
  then show ?case
    by (subst precompute_loop.simps)
       (auto simp: Let_def top_bit_u64 top_bit_u32 unat_ucast_less unat_div_distrib)
next
  case (Suc d)
  define m where "m = (ucast (factor div rate) :: u32)"
  have m: "unat m = 10 ^ 9 * 2 ^ k div unat rate"
    using Suc.prems by (simp add: m_def unat_ucast_less unat_div_distrib)
  have "(2 :: nat) ^ k \<le> 2 ^ 33"
    using Suc.hyps(2) Suc.prems(1) by (intro power_increasing) auto
  then have f: "unat factor < 2 ^ 63"
    using Suc.prems(3) by simp
  show ?case
  proof (cases "2 ^ 31 \<le> unat m")
    case True
    then show ?thesis
      using m Suc.prems by (subst precompute_loop.simps)
        (auto simp: Let_def top_bit_u64 top_bit_u32 simp flip: m_def)
  next
    case False
    have step: "precompute_loop rate factor shift = precompute_loop rate (factor * 2) (shift + 1)"
      using False f by (subst precompute_loop.simps)
        (simp add: Let_def top_bit_u64 top_bit_u32 mult.commute flip: m_def)
    have "10 ^ 9 * 2 ^ k < 2 ^ 31 * unat rate"
      using False m by (simp add: Suc.prems(2) less_mult_imp_div_less not_le div_less_iff_less_mult)
    then have "10 ^ 9 * 2 ^ Suc k div unat rate < 2 ^ 32"
      using Suc.prems(2) by (simp add: div_less_iff_less_mult)
    moreover have "unat (factor * 2) = 10 ^ 9 * 2 ^ Suc k"
      using f Suc.prems(3) by (simp add: unat_double_u64)
    moreover have "unat (shift + 1) = Suc k"
      using Suc.prems(1,4) by (subst unat_Suc_less) auto
    moreover have "d = 34 - Suc k" "Suc k \<le> 34"
      using Suc.hyps(2) by auto
    ultimately show ?thesis
      using Suc.hyps(1) [of "Suc k" "factor * 2" "shift + 1"] Suc.prems(2)
      unfolding step by (auto dest: Suc_leD)
  qed
qed

lemma precompute_loop_start:
  assumes "0 < rate"
  shows "\<exists>mult shift. precompute_loop rate NSEC_PER_SEC 0 = Some (mult, shift) \<and>
           unat shift \<le> 34 \<and> unat mult = 10 ^ 9 * 2 ^ unat shift div unat rate \<and>
           (2 ^ 31 \<le> unat mult \<or> unat shift = 34)"
proof -
  have "10 ^ 9 div unat rate < 2 ^ 32"
    by (rule le_less_trans [OF div_le_dividend]) simp
  then show ?thesis
    using precompute_loop_exact [of 0 rate NSEC_PER_SEC 0] assms
    by (auto simp: word_less_nat_alt)
qed

lemma precompute_SomeD:
  assumes "psched_ratecfg_precompute conf rate64 = Some r" "0 < rate_bytes_ps r"
  shows "unat (rc_shift r) \<le> 34"
    and "unat (rc_mult r) = 10 ^ 9 * 2 ^ unat (rc_shift r) div unat (rate_bytes_ps r)"
    and "2 ^ 31 \<le> unat (rc_mult r) \<or> unat (rc_shift r) = 34"
proof -
  define rate where "rate = max (ucast (rs_rate conf)) rate64"
  have "0 < rate"
    using assms by (auto simp: psched_ratecfg_precompute_def Let_def rate_def split: if_splits bind_splits)
  with precompute_loop_start obtain m s where ms:
    "precompute_loop rate NSEC_PER_SEC 0 = Some (m, s)" "unat s \<le> 34"
    "unat m = 10 ^ 9 * 2 ^ unat s div unat rate" "2 ^ 31 \<le> unat m \<or> unat s = 34"
    by blast
  have "rate_bytes_ps r = rate" "rc_mult r = m" "rc_shift r = s"
    using assms(1) \<open>0 < rate\<close> ms(1)
    by (auto simp: psched_ratecfg_precompute_def Let_def simp flip: rate_def)
  with ms(2-) show "unat (rc_shift r) \<le> 34"
    and "unat (rc_mult r) = 10 ^ 9 * 2 ^ unat (rc_shift r) div unat (rate_bytes_ps r)"
    and "2 ^ 31 \<le> unat (rc_mult r) \<or> unat (rc_shift r) = 34"
    by simp_all
qed

lemma precompute_fields:
  assumes "psched_ratecfg_precompute conf rate64 = Some r"
  shows "rate_bytes_ps r = max (ucast (rs_rate conf)) rate64"
    and "rc_overhead r = rs_overhead conf"
    and "rc_linklayer r = rs_linklayer conf AND TC_LINKLAYER_MASK"
  using assms by (auto simp: psched_ratecfg_precompute_def Let_def split: if_splits bind_splits)

lemma precompute_total: "\<exists>r. psched_ratecfg_precompute conf rate64 = Some r"
  using precompute_loop_start [of "max (ucast (rs_rate conf)) rate64"]
  by (auto simp: psched_ratecfg_precompute_def Let_def)

lemma unat_reciprocal_ns:
  "unat (reciprocal_ns r len) = unat len * unat (rc_mult r) div 2 ^ unat (rc_shift r)"
proof -
  have "unat len * unat (rc_mult r) < 2 ^ 32 * 2 ^ 32"
    using unsigned_less [of len, where ?'a = nat] unsigned_less [of "rc_mult r", where ?'a = nat]
    by (intro mult_strict_mono) auto
  then have "unat (ucast len * ucast (rc_mult r) :: u64) = unat len * unat (rc_mult r)"
    by (simp add: unat_word_ariths)
  then show ?thesis
    unfolding reciprocal_ns_def unat_drop_bit_eq by (simp add: drop_bit_eq_div)
qed

text \<open>Floor of a product with a floored reciprocal: never above, and below by less than stated.\<close>

lemma floored_reciprocal:
  fixes n d l s m t :: nat
  assumes "0 < d" "m = n * 2 ^ s div d" "t = l * m div 2 ^ s"
  shows "t * d \<le> n * l" and "n * l * 2 ^ s < ((t + 1) * 2 ^ s + l) * d"
proof -
  have md: "m * d \<le> n * 2 ^ s" "n * 2 ^ s < (m + 1) * d"
    using assms(1,2) dividend_less_times_div [of d "n * 2 ^ s"] by (simp_all add: mult.commute)
  have ts: "t * 2 ^ s \<le> l * m" "l * m < (t + 1) * 2 ^ s"
    using assms(3) dividend_less_times_div [of "2 ^ s" "l * m"] by (simp_all add: mult.commute)
  have "t * 2 ^ s * d \<le> l * m * d" using ts(1) by (rule mult_le_mono1)
  also have "\<dots> \<le> l * (n * 2 ^ s)" unfolding mult.assoc using md(1) by (rule mult_le_mono2)
  finally have "t * d * 2 ^ s \<le> n * l * 2 ^ s" by (simp add: ac_simps)
  then show "t * d \<le> n * l" by simp
  have "n * l * 2 ^ s = l * (n * 2 ^ s)" by simp
  also have "\<dots> \<le> l * ((m + 1) * d)" using less_imp_le [OF md(2)] by (rule mult_le_mono2)
  also have "\<dots> = (l * m + l) * d" by (simp add: algebra_simps)
  also have "\<dots> < ((t + 1) * 2 ^ s + l) * d"
    using ts(2) assms(1) by simp
  finally show "n * l * 2 ^ s < ((t + 1) * 2 ^ s + l) * d" .
qed

lemma reciprocal_ns_le:
  assumes "psched_ratecfg_precompute conf rate64 = Some r" "0 < rate_bytes_ps r"
  shows "unat (reciprocal_ns r len) * unat (rate_bytes_ps r) \<le> 10 ^ 9 * unat len"
  using floored_reciprocal(1) [OF _ precompute_SomeD(2) [OF assms] unat_reciprocal_ns] assms(2)
  by (simp add: word_less_nat_alt)

lemma reciprocal_ns_mono: "len \<le> len' \<Longrightarrow> reciprocal_ns r len \<le> reciprocal_ns r len'"
  by (simp add: word_le_nat_alt unat_reciprocal_ns div_le_mono mult_le_mono1)

lemma reciprocal_ns_small:
  assumes r: "psched_ratecfg_precompute conf rate64 = Some r"
  shows "unat (reciprocal_ns r len) < 2 ^ 62"
proof (cases "0 < rate_bytes_ps r")
  case True
  then have "unat (reciprocal_ns r len) \<le> unat (reciprocal_ns r len) * unat (rate_bytes_ps r)"
    by (simp add: word_less_nat_alt)
  also have "\<dots> \<le> 10 ^ 9 * unat len" by (rule reciprocal_ns_le [OF r True])
  also have "\<dots> < 2 ^ 62" using unsigned_less [of len, where ?'a = nat] by simp
  finally show ?thesis .
next
  case False
  then have "unat (rc_mult r) = 1" "unat (rc_shift r) = 0"
    using r by (auto simp: psched_ratecfg_precompute_def Let_def split: if_splits bind_splits)
  with unsigned_less [of len, where ?'a = nat] show ?thesis
    by (simp add: unat_reciprocal_ns)
qed

text \<open>A faster rate makes no packet more expensive, although the two reciprocals are rounded apart.\<close>

lemma precompute_mult_mono:
  assumes r: "psched_ratecfg_precompute conf rate64 = Some r" "0 < rate_bytes_ps r"
    and p: "psched_ratecfg_precompute conf' rate64' = Some p" "rate_bytes_ps r \<le> rate_bytes_ps p"
  shows "unat (rc_mult p) * 2 ^ unat (rc_shift r) \<le> unat (rc_mult r) * 2 ^ unat (rc_shift p)"
proof -
  let ?mp = "unat (rc_mult p)" and ?sp = "unat (rc_shift p)" and ?mr = "unat (rc_mult r)"
    and ?sr = "unat (rc_shift r)" and ?P = "unat (rate_bytes_ps p)" and ?R = "unat (rate_bytes_ps r)"
  have p0: "0 < rate_bytes_ps p" using r(2) p(2) by (rule less_le_trans)
  have RP: "0 < ?R" "?R \<le> ?P" using r(2) p(2) by (simp_all add: word_less_nat_alt word_le_nat_alt)
  show ?thesis
  proof (cases "?sp \<le> ?sr")
    case True
    have "?mp * ?P \<le> 10 ^ 9 * 2 ^ ?sp"
      unfolding precompute_SomeD(2) [OF p(1) p0] by (rule div_times_less_eq_dividend)
    then have "?mp * ?R \<le> 10 ^ 9 * 2 ^ ?sp"
      using RP(2) by (meson le_trans mult_le_mono2)
    then have "?mp * ?R * 2 ^ (?sr - ?sp) \<le> 10 ^ 9 * 2 ^ ?sp * 2 ^ (?sr - ?sp)" by (rule mult_le_mono1)
    also have "\<dots> = 10 ^ 9 * 2 ^ ?sr" using True by (simp flip: power_add)
    finally have "?mp * 2 ^ (?sr - ?sp) \<le> ?mr"
      unfolding precompute_SomeD(2) [OF r] using RP(1) by (simp add: less_eq_div_iff_mult_less_eq ac_simps)
    then have "?mp * 2 ^ (?sr - ?sp) * 2 ^ ?sp \<le> ?mr * 2 ^ ?sp" by (rule mult_le_mono1)
    with True show ?thesis by (simp add: mult.assoc flip: power_add)
  next
    case False
    then have "2 ^ 31 \<le> ?mr"
      using precompute_SomeD(3) [OF r] precompute_SomeD(1) [OF p(1) p0] by auto
    moreover have "?mp < 2 ^ 32" using unsigned_less [of "rc_mult p", where ?'a = nat] by simp
    moreover have "(2 :: nat) ^ Suc ?sr \<le> 2 ^ ?sp" using False by (intro power_increasing) auto
    ultimately have "?mp * 2 ^ ?sr \<le> 2 ^ 31 * 2 ^ Suc ?sr" "2 ^ 31 * 2 ^ Suc ?sr \<le> ?mr * 2 ^ ?sp"
      by (simp, intro mult_le_mono) auto
    then show ?thesis by (rule le_trans)
  qed
qed

lemma reciprocal_ns_rate_mono:
  assumes "psched_ratecfg_precompute conf rate64 = Some r" "0 < rate_bytes_ps r"
    and "psched_ratecfg_precompute conf' rate64' = Some p" "rate_bytes_ps r \<le> rate_bytes_ps p"
  shows "unat (reciprocal_ns p len) \<le> unat (reciprocal_ns r len)"
proof -
  let ?sp = "unat (rc_shift p)" and ?sr = "unat (rc_shift r)"
  define t where "t = unat len * unat (rc_mult p) div 2 ^ ?sp"
  have "t * 2 ^ ?sp \<le> unat len * unat (rc_mult p)" by (simp add: t_def div_times_less_eq_dividend)
  then have "t * 2 ^ ?sp * 2 ^ ?sr \<le> unat len * (unat (rc_mult p) * 2 ^ ?sr)"
    by (metis mult.assoc mult_le_mono1)
  also have "\<dots> \<le> unat len * (unat (rc_mult r) * 2 ^ ?sp)"
    by (intro mult_le_mono2 precompute_mult_mono [OF assms])
  finally have "t * 2 ^ ?sr * 2 ^ ?sp \<le> unat len * unat (rc_mult r) * 2 ^ ?sp" by (simp add: ac_simps)
  then have "t * 2 ^ ?sr \<le> unat len * unat (rc_mult r)" by simp
  then show ?thesis
    by (simp add: unat_reciprocal_ns t_def less_eq_div_iff_mult_less_eq)
qed

lemma psched_ns_t2l_plain:
  assumes "rc_overhead r = 0" "rc_linklayer r \<noteq> TC_LINKLAYER_ATM"
    and "unat t * unat (rate_bytes_ps r) < 2 ^ 64"
  shows "unat (psched_ns_t2l r t) = unat t * unat (rate_bytes_ps r) div 10 ^ 9"
  using assms by (auto simp: psched_ns_t2l_def Let_def unat_div_distrib unat_word_ariths word_less_nat_alt)

lemma l2t_of_t2l_le:
  assumes "psched_ratecfg_precompute conf rate64 = Some r" "0 < rate_bytes_ps r"
    and "rc_overhead r = 0" "rc_linklayer r \<noteq> TC_LINKLAYER_ATM"
    and "unat t * unat (rate_bytes_ps r) < 2 ^ 64"
    and "unat len \<le> unat (psched_ns_t2l r t)"
  shows "unat (reciprocal_ns r len) \<le> unat t"
proof -
  let ?d = "unat (rate_bytes_ps r)"
  have "unat (reciprocal_ns r len) * ?d \<le> 10 ^ 9 * unat len"
    by (rule reciprocal_ns_le [OF assms(1,2)])
  also have "\<dots> \<le> 10 ^ 9 * (unat t * ?d div 10 ^ 9)"
    using assms(6) by (simp add: psched_ns_t2l_plain [OF assms(3-5)])
  also have "\<dots> \<le> unat t * ?d" by (rule times_div_less_eq_dividend)
  finally show ?thesis using assms(2) by (simp add: word_less_nat_alt)
qed

section \<open>Properties\<close>

text \<open>
  C39. The rate precomputation always returns: for every rate specification the search for the
  largest multiplier ends, and its shift is at most 34. The multiplier is the exact quotient
  \<open>10^9 * 2^shift div rate\<close>: the division result is never truncated by the 32-bit field. The
  search stops at a multiplier with its top bit set or at shift 34.
\<close>

theorem psched_ratecfg_precompute_total:
  "\<exists>r. psched_ratecfg_precompute conf rate64 = Some r \<and>
     rate_bytes_ps r = max (ucast (rs_rate conf)) rate64 \<and>
     rc_overhead r = rs_overhead conf \<and>
     (rate_bytes_ps r = 0 \<or>
      unat (rc_shift r) \<le> 34 \<and>
      unat (rc_mult r) = 10 ^ 9 * 2 ^ unat (rc_shift r) div unat (rate_bytes_ps r) \<and>
      (2 ^ 31 \<le> unat (rc_mult r) \<or> unat (rc_shift r) = 34))"
proof -
  obtain r where r: "psched_ratecfg_precompute conf rate64 = Some r"
    using precompute_total by blast
  with precompute_fields [OF r] precompute_SomeD [OF r] show ?thesis
    by (metis word_neq_0_conv)
qed

text \<open>
  C40. The multiply-and-shift conversion is accurate: with the precomputed pair, the number of
  nanoseconds charged for \<open>len\<close> bytes never exceeds the exact \<open>10^9 * len / rate\<close>, and falls short
  of it by less than \<open>1 + len / 2^shift\<close>; the 64-bit product never overflows.
\<close>

theorem psched_ratecfg_accurate:
  assumes "psched_ratecfg_precompute conf rate64 = Some r" "0 < rate_bytes_ps r"
  shows "let t = unat (reciprocal_ns r len); rate = unat (rate_bytes_ps r); s = unat (rc_shift r) in
           t = unat len * unat (rc_mult r) div 2 ^ s \<and>
           t * rate \<le> 10 ^ 9 * unat len \<and>
           10 ^ 9 * unat len * 2 ^ s < ((t + 1) * 2 ^ s + unat len) * rate"
  using floored_reciprocal [OF _ precompute_SomeD(2) [OF assms] unat_reciprocal_ns, of len] assms(2)
  by (simp add: Let_def unat_reciprocal_ns word_less_nat_alt)

theorem psched_ratecfg_accurate_witness:
  "\<exists>r. psched_ratecfg_precompute
         \<lparr>rs_cell_log = 3, rs_linklayer = 1, rs_overhead = 0, rs_cell_align = -1, rs_mpu = 0,
          rs_rate = 625000000\<rparr> 0 = Some r \<and>
       unat (reciprocal_ns r 1514) * 625000000 \<le> 10 ^ 9 * 1514"
proof -
  obtain r where r: "psched_ratecfg_precompute
         \<lparr>rs_cell_log = 3, rs_linklayer = 1, rs_overhead = 0, rs_cell_align = -1, rs_mpu = 0,
          rs_rate = 625000000\<rparr> 0 = Some r"
    using precompute_total by blast
  then have "rate_bytes_ps r = 625000000"
    using precompute_fields(1) [OF r] by (simp add: max_def)
  then show ?thesis
    using psched_ratecfg_accurate [OF r, of 1514] r by (auto simp: Let_def)
qed

end
