(* ===== verification/Qdisc.thy ===== *)
theory Qdisc
  imports Psched
begin

text \<open>
  Queueing disciplines: packets, the statistics block of \<^verbatim>\<open>struct Qdisc\<close>, the operation
  table \<^verbatim>\<open>struct Qdisc_ops\<close> through which a classful qdisc drives its inner qdisc, the
  simple FIFOs of \<^verbatim>\<open>net/sched/sch_fifo.c\<close>, the no-op qdisc of
  \<^verbatim>\<open>net/sched/sch_generic.c\<close> and the watchdog of \<^verbatim>\<open>net/sched/sch_api.c\<close>.
  The inline helpers of the kernel headers (\<^verbatim>\<open>include/net/sch_generic.h\<close>,
  \<^verbatim>\<open>include/net/pkt_sched.h\<close>), which are not part of the repository, are the fields of the
  parameter record \<open>sched_hdr\<close>; \<open>sched_hdr_ok\<close> states what they are documented to do.
  The locale \<open>inner_qdisc\<close> is the contract an inner qdisc offers.
\<close>

section \<open>Definitions\<close>

record sk_buff =
  skb_id :: nat
  skb_len :: u32
  pkt_len :: u32

datatype net_xmit = NET_XMIT_SUCCESS | NET_XMIT_DROP | NET_XMIT_CN | NET_XMIT_OTHER u32

record qdisc_stats =
  q_qlen :: u32
  qs_backlog :: u32
  qs_drops :: u32
  qs_overlimits :: u32
  bs_bytes :: u64
  bs_packets :: u32

datatype qdisc_kind = Noop_ops | Pfifo_ops | Bfifo_ops | Pfifo_head_drop_ops | Pfifo_fast_ops

record Qdisc =
  sch_ops :: qdisc_kind
  sch_flags :: u32
  sch_limit :: u32
  sch_handle :: u32
  sch_parent :: u32
  sch_q :: "sk_buff list"
  sch_gso_skb :: "sk_buff list"
  sch_st :: qdisc_stats

text \<open>The header helpers, a parameter of everything below.\<close>

record sched_hdr =
  qdisc_drop :: "sk_buff \<Rightarrow> qdisc_stats \<Rightarrow> sk_buff list \<Rightarrow> net_xmit \<times> qdisc_stats \<times> sk_buff list"
  qdisc_drop_nostat :: "sk_buff \<Rightarrow> sk_buff list \<Rightarrow> sk_buff list"
  qdisc_qstats_drop :: "qdisc_stats \<Rightarrow> qdisc_stats"
  qdisc_qstats_drop_n :: "u32 \<Rightarrow> qdisc_stats \<Rightarrow> qdisc_stats"
  qdisc_qstats_overlimit :: "qdisc_stats \<Rightarrow> qdisc_stats"
  qdisc_qstats_backlog_dec :: "sk_buff \<Rightarrow> qdisc_stats \<Rightarrow> qdisc_stats"
  qdisc_bstats_update :: "sk_buff \<Rightarrow> qdisc_stats \<Rightarrow> qdisc_stats"
  net_xmit_drop_count :: "net_xmit \<Rightarrow> bool"
  qdisc_enqueue_tail :: "sk_buff \<Rightarrow> Qdisc \<Rightarrow> net_xmit \<times> Qdisc"
  qdisc_dequeue_head :: "Qdisc \<Rightarrow> sk_buff option \<times> Qdisc"
  qdisc_peek_head :: "Qdisc \<Rightarrow> sk_buff option"
  qdisc_reset_queue :: "Qdisc \<Rightarrow> Qdisc"
  qdisc_queue_drop_head :: "Qdisc \<Rightarrow> sk_buff list \<Rightarrow> Qdisc \<times> sk_buff list"
  qdisc_dequeue_peeked :: "(Qdisc \<Rightarrow> sk_buff option \<times> Qdisc) \<Rightarrow> Qdisc \<Rightarrow> sk_buff option \<times> Qdisc"
  psched_mtu :: u32
  tx_queue_len :: u32
  tcq_f_can_bypass :: u32
  tcq_f_builtin :: u32
  psched_l2t_ns :: "psched_ratecfg \<Rightarrow> u32 \<Rightarrow> u64"
  psched_ticks2ns :: "u32 \<Rightarrow> s64"
  psched_ns2ticks :: "s64 \<Rightarrow> u32"
  psched_ratecfg_getrate :: "psched_ratecfg \<Rightarrow> tc_ratespec"

subsection \<open>The FIFOs of \<^verbatim>\<open>sch_fifo.c\<close>\<close>

definition bfifo_enqueue ::
  "sched_hdr \<Rightarrow> sk_buff \<Rightarrow> Qdisc \<Rightarrow> sk_buff list \<Rightarrow> net_xmit \<times> Qdisc \<times> sk_buff list" where
  "bfifo_enqueue h skb sch to_free =
     (if qs_backlog (sch_st sch) + pkt_len skb \<le> sch_limit sch
      then (let (ret, sch') = qdisc_enqueue_tail h skb sch in (ret, sch', to_free))
      else (let (ret, st, tf) = qdisc_drop h skb (sch_st sch) to_free
            in (ret, sch\<lparr>sch_st := st\<rparr>, tf)))"

definition pfifo_enqueue ::
  "sched_hdr \<Rightarrow> sk_buff \<Rightarrow> Qdisc \<Rightarrow> sk_buff list \<Rightarrow> net_xmit \<times> Qdisc \<times> sk_buff list" where
  "pfifo_enqueue h skb sch to_free =
     (if q_qlen (sch_st sch) < sch_limit sch
      then (let (ret, sch') = qdisc_enqueue_tail h skb sch in (ret, sch', to_free))
      else (let (ret, st, tf) = qdisc_drop h skb (sch_st sch) to_free
            in (ret, sch\<lparr>sch_st := st\<rparr>, tf)))"

text \<open>
  The head-drop variant also reports the change of backlog to its ancestors; the reported pair
  (packets, bytes) is the last component of the result.
\<close>

definition pfifo_tail_enqueue ::
  "sched_hdr \<Rightarrow> sk_buff \<Rightarrow> Qdisc \<Rightarrow> sk_buff list \<Rightarrow>
   net_xmit \<times> Qdisc \<times> sk_buff list \<times> (u32 \<times> u32) option" where
  "pfifo_tail_enqueue h skb sch to_free =
     (if q_qlen (sch_st sch) < sch_limit sch
      then (let (ret, sch') = qdisc_enqueue_tail h skb sch in (ret, sch', to_free, None))
      else (let prev_backlog = qs_backlog (sch_st sch);
                (sch1, tf) = qdisc_queue_drop_head h sch to_free;
                sch2 = sch1\<lparr>sch_st := qdisc_qstats_drop h (sch_st sch1)\<rparr>;
                (_, sch3) = qdisc_enqueue_tail h skb sch2
            in (NET_XMIT_CN, sch3, tf, Some (0, prev_backlog - qs_backlog (sch_st sch3)))))"

definition fifo_init :: "sched_hdr \<Rightarrow> Qdisc \<Rightarrow> u8 list option \<Rightarrow> int \<times> Qdisc" where
  "fifo_init h sch opt =
     (let is_bfifo = (sch_ops sch = Bfifo_ops);
          set_flags = (\<lambda>s. let bypass = (if is_bfifo then psched_mtu h \<le> sch_limit s
                                         else 1 \<le> sch_limit s)
             in if bypass then s\<lparr>sch_flags := sch_flags s OR tcq_f_can_bypass h\<rparr>
                else s\<lparr>sch_flags := sch_flags s AND NOT (tcq_f_can_bypass h)\<rparr>)
      in case opt of
           None \<Rightarrow>
             let limit = tx_queue_len h;
                 limit = (if is_bfifo then limit * psched_mtu h else limit)
             in (0, set_flags (sch\<lparr>sch_limit := limit\<rparr>))
         | Some ctl \<Rightarrow>
             if length ctl < 4 then (- EINVAL, sch)
             else (0, set_flags (sch\<lparr>sch_limit := le32 ctl\<rparr>)))"

subsection \<open>The no-op qdisc of \<^verbatim>\<open>sch_generic.c\<close>\<close>

definition noop_enqueue ::
  "sched_hdr \<Rightarrow> sk_buff \<Rightarrow> Qdisc \<Rightarrow> sk_buff list \<Rightarrow> net_xmit \<times> Qdisc \<times> sk_buff list" where
  "noop_enqueue h skb sch to_free = (NET_XMIT_CN, sch, qdisc_drop_nostat h skb to_free)"

definition noop_dequeue :: "Qdisc \<Rightarrow> sk_buff option" where
  "noop_dequeue sch = None"

definition qdisc_stats_zero :: qdisc_stats where
  "qdisc_stats_zero = \<lparr>q_qlen = 0, qs_backlog = 0, qs_drops = 0, qs_overlimits = 0,
                       bs_bytes = 0, bs_packets = 0\<rparr>"

definition noop_qdisc :: "sched_hdr \<Rightarrow> Qdisc" where
  "noop_qdisc h = \<lparr>sch_ops = Noop_ops, sch_flags = tcq_f_builtin h, sch_limit = 0, sch_handle = 0,
                   sch_parent = 0, sch_q = [], sch_gso_skb = [], sch_st = qdisc_stats_zero\<rparr>"

subsection \<open>The operation table\<close>

text \<open>
  \<^verbatim>\<open>struct Qdisc_ops\<close> as a classful qdisc uses it on an inner qdisc of type \<open>'c\<close>. A
  \<^verbatim>\<open>change\<close> entry of \<open>None\<close> is a NULL function pointer.
\<close>

record 'c Qdisc_ops =
  op_id :: "'c \<Rightarrow> string"
  op_enqueue :: "sk_buff \<Rightarrow> 'c \<Rightarrow> sk_buff list \<Rightarrow> net_xmit \<times> 'c \<times> sk_buff list"
  op_peek :: "'c \<Rightarrow> sk_buff option \<times> 'c"
  op_dequeue_peeked :: "'c \<Rightarrow> sk_buff option \<times> 'c"
  op_reset :: "'c \<Rightarrow> 'c"
  op_change :: "'c \<Rightarrow> (u8 list \<Rightarrow> int \<times> 'c) option"
  op_stats :: "'c \<Rightarrow> qdisc_stats"
  op_handle :: "'c \<Rightarrow> u32"

fun kind_id :: "qdisc_kind \<Rightarrow> string" where
  "kind_id Noop_ops = ''noop''"
| "kind_id Pfifo_ops = ''pfifo''"
| "kind_id Bfifo_ops = ''bfifo''"
| "kind_id Pfifo_head_drop_ops = ''pfifo_head_drop''"
| "kind_id Pfifo_fast_ops = ''pfifo_fast''"

text \<open>Reset of a qdisc: its own reset operation, then the parts common to all.\<close>

definition qdisc_reset :: "(Qdisc \<Rightarrow> Qdisc) option \<Rightarrow> Qdisc \<Rightarrow> Qdisc" where
  "qdisc_reset ops_reset q =
     (let q = (case ops_reset of None \<Rightarrow> q | Some f \<Rightarrow> f q)
      in q\<lparr>sch_gso_skb := [], sch_st := (sch_st q)\<lparr>q_qlen := 0, qs_backlog := 0\<rparr>\<rparr>)"

text \<open>
  The operations of the FIFOs, by the kind of the qdisc. The multi-band queue \<^verbatim>\<open>pfifo_fast\<close> is a kind only because a new device may have it as
  its default; its own queueing is not modelled, it refuses packets here, and no property speaks of a qdisc of this kind.
\<close>

definition fifo_ops :: "sched_hdr \<Rightarrow> Qdisc Qdisc_ops" where
  "fifo_ops h = \<lparr>
     op_id = (\<lambda>q. kind_id (sch_ops q)),
     op_enqueue = (\<lambda>skb q tf. case sch_ops q of
          Pfifo_ops \<Rightarrow> pfifo_enqueue h skb q tf
        | Bfifo_ops \<Rightarrow> bfifo_enqueue h skb q tf
        | Pfifo_head_drop_ops \<Rightarrow>
            (let (ret, q', tf', _) = pfifo_tail_enqueue h skb q tf in (ret, q', tf'))
        | _ \<Rightarrow> noop_enqueue h skb q tf),
     op_peek = (\<lambda>q. (if sch_ops q = Noop_ops then noop_dequeue q else qdisc_peek_head h q, q)),
     op_dequeue_peeked = qdisc_dequeue_peeked h
        (\<lambda>q. if sch_ops q = Noop_ops then (noop_dequeue q, q) else qdisc_dequeue_head h q),
     op_reset = (\<lambda>q. qdisc_reset
        (if sch_ops q = Noop_ops then None else Some (qdisc_reset_queue h)) q),
     op_change = (\<lambda>q. if sch_ops q \<in> {Pfifo_ops, Bfifo_ops, Pfifo_head_drop_ops}
                      then Some (\<lambda>nla. fifo_init h q (Some nla)) else None),
     op_stats = sch_st,
     op_handle = sch_handle\<rparr>"

text \<open>
  Passing a new limit down to an embedded FIFO. \<open>None\<close> is a call through a NULL
  \<^verbatim>\<open>change\<close> pointer; the flag says whether \<^verbatim>\<open>kmalloc\<close> succeeds.
\<close>

definition fifo_set_limit ::
  "'c Qdisc_ops \<Rightarrow> bool \<Rightarrow> 'c \<Rightarrow> u32 \<Rightarrow> (int \<times> 'c) option" where
  "fifo_set_limit ops kmalloc_ok q limit =
     (if take 4 (tl (op_id ops q)) \<noteq> ''fifo'' then Some (0, q)
      else if \<not> kmalloc_ok then Some (- ENOMEM, q)
      else case op_change ops q of
             None \<Rightarrow> None
           | Some change \<Rightarrow> Some (change (bytes32 limit)))"

abbreviation (input) TC_H_MAKE :: "u32 \<Rightarrow> u32 \<Rightarrow> u32" where
  "TC_H_MAKE maj mi \<equiv> (maj AND 0xFFFF0000) OR (mi AND 0x0000FFFF)"

text \<open>Default creation: \<open>fresh\<close> is what \<^verbatim>\<open>qdisc_alloc\<close> returned, \<open>None\<close> on failure.\<close>

definition qdisc_create_dflt :: "sched_hdr \<Rightarrow> Qdisc option \<Rightarrow> u32 \<Rightarrow> Qdisc option" where
  "qdisc_create_dflt h fresh parentid =
     (case fresh of
        None \<Rightarrow> None
      | Some sch \<Rightarrow>
          let (err, sch') = fifo_init h (sch\<lparr>sch_parent := parentid\<rparr>) None
          in if err = 0 then Some sch' else None)"

definition fifo_create_dflt ::
  "'c Qdisc_ops \<Rightarrow> bool \<Rightarrow> 'c option \<Rightarrow> u32 \<Rightarrow> (int + 'c) option" where
  "fifo_create_dflt ops kmalloc_ok created limit =
     (case created of
        None \<Rightarrow> Some (Inl (- ENOMEM))
      | Some q \<Rightarrow>
          (case fifo_set_limit ops kmalloc_ok q limit of
             None \<Rightarrow> None
           | Some (err, q') \<Rightarrow> Some (if err < 0 then Inl err else Inr q')))"

subsection \<open>Reporting a change of backlog to the ancestors\<close>

text \<open>
  \<^verbatim>\<open>qdisc_tree_reduce_backlog\<close> walks from a qdisc to the root. The chain of parents that
  \<^verbatim>\<open>qdisc_lookup\<close> finds is a list, nearest first; the walk ends where the list does (root,
  ingress, a qdisc marked parentless, or a failed lookup). \<open>an_qlen_notify\<close> is the parent's
  optional callback. Numbers of packets and bytes are C \<^verbatim>\<open>int\<close>s, as 32-bit words.
\<close>

record ancestor =
  an_st :: qdisc_stats
  an_qlen_notify :: "(qdisc_stats \<Rightarrow> qdisc_stats) option"

fun tree_reduce_loop ::
  "sched_hdr \<Rightarrow> bool \<Rightarrow> u32 \<Rightarrow> u32 \<Rightarrow> u32 \<Rightarrow> ancestor list \<Rightarrow> ancestor list" where
  "tree_reduce_loop h offloaded n len qlen [] = []"
| "tree_reduce_loop h offloaded n len qlen (a # as) =
     (let notify = (qlen = 0 \<and> \<not> (n = 0 \<and> \<not> offloaded));
          st = (if notify then (case an_qlen_notify a of None \<Rightarrow> an_st a | Some f \<Rightarrow> f (an_st a))
                else an_st a);
          st = st\<lparr>q_qlen := q_qlen st - n, qs_backlog := qs_backlog st - len\<rparr>;
          st = qdisc_qstats_drop_n h (if 0 <s n then n else 0) st
      in a\<lparr>an_st := st\<rparr> # tree_reduce_loop h offloaded n len (q_qlen st) as)"

definition qdisc_tree_reduce_backlog ::
  "sched_hdr \<Rightarrow> bool \<Rightarrow> u32 \<Rightarrow> u32 \<Rightarrow> u32 \<Rightarrow> ancestor list \<Rightarrow> ancestor list" where
  "qdisc_tree_reduce_backlog h offloaded qlen n len ancs =
     (if n = 0 \<and> len = 0 then ancs else tree_reduce_loop h offloaded n len qlen ancs)"

subsection \<open>The watchdog of \<^verbatim>\<open>sch_api.c\<close>\<close>

record qdisc_watchdog =
  wd_last_expires :: u64
  wd_timer :: "u64 option"

definition qdisc_watchdog_init :: "qdisc_watchdog \<Rightarrow> qdisc_watchdog" where
  "qdisc_watchdog_init wd = wd\<lparr>wd_timer := None\<rparr>"

definition qdisc_watchdog_schedule_ns :: "bool \<Rightarrow> u64 \<Rightarrow> qdisc_watchdog \<Rightarrow> qdisc_watchdog" where
  "qdisc_watchdog_schedule_ns deactivated expires wd =
     (if deactivated then wd
      else if wd_last_expires wd = expires then wd
      else wd\<lparr>wd_last_expires := expires, wd_timer := Some expires\<rparr>)"

definition qdisc_watchdog_cancel :: "qdisc_watchdog \<Rightarrow> qdisc_watchdog" where
  "qdisc_watchdog_cancel wd = wd\<lparr>wd_timer := None\<rparr>"

text \<open>The timer interrupt at time \<open>now\<close>: a timer that is due runs once, and the result says whether it makes the qdisc run again.\<close>

definition qdisc_watchdog_expire :: "u64 \<Rightarrow> qdisc_watchdog \<Rightarrow> bool \<times> qdisc_watchdog" where
  "qdisc_watchdog_expire now wd =
     (case wd_timer wd of
        None \<Rightarrow> (False, wd)
      | Some expires \<Rightarrow> if sint expires \<le> sint now then (True, wd\<lparr>wd_timer := None\<rparr>) else (False, wd))"

text \<open>
  The expiry remembered last is the one the timer is set to, or it has passed. Scheduling and the interrupt keep it so; cancelling does not, and
  afterwards the timer is not set again for the expiry that was cancelled.
\<close>

definition watchdog_ok :: "u64 \<Rightarrow> qdisc_watchdog \<Rightarrow> bool" where
  "watchdog_ok now wd \<longleftrightarrow>
     (case wd_timer wd of None \<Rightarrow> sint (wd_last_expires wd) \<le> sint now | Some expires \<Rightarrow> expires = wd_last_expires wd)"

lemma watchdog_ok_schedule: "watchdog_ok now wd \<Longrightarrow> watchdog_ok now (qdisc_watchdog_schedule_ns deactivated expires wd)"
  by (auto simp: watchdog_ok_def qdisc_watchdog_schedule_ns_def)

lemma watchdog_ok_expire: "watchdog_ok before wd \<Longrightarrow> sint before \<le> sint now \<Longrightarrow> watchdog_ok now (snd (qdisc_watchdog_expire now wd))"
  by (auto simp: watchdog_ok_def qdisc_watchdog_expire_def split: option.splits)

lemma watchdog_armed:
  assumes "watchdog_ok now wd" "sint now < sint expires"
  shows "wd_timer (qdisc_watchdog_schedule_ns False expires wd) = Some expires"
  using assms by (auto simp: watchdog_ok_def qdisc_watchdog_schedule_ns_def split: option.splits)

lemma watchdog_cancel_not_rearmed:
  "wd_timer (qdisc_watchdog_schedule_ns False (wd_last_expires wd) (qdisc_watchdog_cancel wd)) = None"
  by (simp add: qdisc_watchdog_schedule_ns_def qdisc_watchdog_cancel_def)

section \<open>What the header helpers are documented to do\<close>

definition qlen_backlog :: "Qdisc \<Rightarrow> bool" where
  "qlen_backlog q \<longleftrightarrow>
     q_qlen (sch_st q) = of_nat (length (sch_q q)) \<and>
     qs_backlog (sch_st q) = sum_list (map pkt_len (sch_q q))"

definition same_config :: "Qdisc \<Rightarrow> Qdisc \<Rightarrow> bool" where
  "same_config q q' \<longleftrightarrow> sch_ops q' = sch_ops q \<and> sch_limit q' = sch_limit q \<and>
     sch_flags q' = sch_flags q \<and> sch_gso_skb q' = sch_gso_skb q"

definition stat_helpers_ok :: "sched_hdr \<Rightarrow> bool" where
  "stat_helpers_ok h \<longleftrightarrow>
     (\<forall>skb st tf. qdisc_drop h skb st tf = (NET_XMIT_DROP, qdisc_qstats_drop h st, skb # tf)) \<and>
     (\<forall>st. qdisc_qstats_drop h st = st\<lparr>qs_drops := qs_drops st + 1\<rparr>) \<and>
     (\<forall>st. qdisc_qstats_overlimit h st = st\<lparr>qs_overlimits := qs_overlimits st + 1\<rparr>) \<and>
     (\<forall>skb st. qdisc_qstats_backlog_dec h skb st = st\<lparr>qs_backlog := qs_backlog st - pkt_len skb\<rparr>) \<and>
     (\<forall>skb st. q_qlen (qdisc_bstats_update h skb st) = q_qlen st \<and>
               qs_backlog (qdisc_bstats_update h skb st) = qs_backlog st \<and>
               qs_drops (qdisc_bstats_update h skb st) = qs_drops st \<and>
               qs_overlimits (qdisc_bstats_update h skb st) = qs_overlimits st)"

definition queue_helpers_ok :: "sched_hdr \<Rightarrow> bool" where
  "queue_helpers_ok h \<longleftrightarrow>
     (\<forall>skb q. case qdisc_enqueue_tail h skb q of (ret, q') \<Rightarrow>
        ret = NET_XMIT_SUCCESS \<and> sch_q q' = sch_q q @ [skb] \<and> same_config q q' \<and>
        q_qlen (sch_st q') = q_qlen (sch_st q) + 1 \<and>
        qs_backlog (sch_st q') = qs_backlog (sch_st q) + pkt_len skb) \<and>
     (\<forall>q. case qdisc_dequeue_head h q of (skb, q') \<Rightarrow>
        skb = hd_opt (sch_q q) \<and> sch_q q' = tl (sch_q q) \<and> same_config q q' \<and>
        (case hd_opt (sch_q q) of
           None \<Rightarrow> q' = q
         | Some s \<Rightarrow> q_qlen (sch_st q') = q_qlen (sch_st q) - 1 \<and>
                     qs_backlog (sch_st q') = qs_backlog (sch_st q) - pkt_len s)) \<and>
     (\<forall>q. qdisc_peek_head h q = hd_opt (sch_q q)) \<and>
     (\<forall>q. sch_q (qdisc_reset_queue h q) = [] \<and> same_config q (qdisc_reset_queue h q)) \<and>
     (\<forall>d q. sch_gso_skb q = [] \<longrightarrow> qdisc_dequeue_peeked h d q = d q)"

definition sched_hdr_ok :: "sched_hdr \<Rightarrow> bool" where
  "sched_hdr_ok h \<longleftrightarrow> stat_helpers_ok h \<and> queue_helpers_ok h \<and>
     (\<forall>r len. rc_overhead r = 0 \<and> rc_linklayer r \<noteq> TC_LINKLAYER_ATM \<longrightarrow>
        psched_l2t_ns h r len = reciprocal_ns r len) \<and>
     (\<forall>conf rate64 r len. psched_ratecfg_precompute conf rate64 = Some r \<longrightarrow>
        unat (psched_l2t_ns h r len) < 2 ^ 62) \<and>
     (\<forall>t. unat (psched_ticks2ns h t) < 2 ^ 62)"

text \<open>A concrete set of helpers with this behaviour, for the witnesses.\<close>

definition list_hdr :: sched_hdr where
  "list_hdr = \<lparr>
     qdisc_drop = (\<lambda>skb st tf. (NET_XMIT_DROP, st\<lparr>qs_drops := qs_drops st + 1\<rparr>, skb # tf)),
     qdisc_drop_nostat = (\<lambda>skb tf. skb # tf),
     qdisc_qstats_drop = (\<lambda>st. st\<lparr>qs_drops := qs_drops st + 1\<rparr>),
     qdisc_qstats_drop_n = (\<lambda>n st. st\<lparr>qs_drops := qs_drops st + n\<rparr>),
     qdisc_qstats_overlimit = (\<lambda>st. st\<lparr>qs_overlimits := qs_overlimits st + 1\<rparr>),
     qdisc_qstats_backlog_dec = (\<lambda>skb st. st\<lparr>qs_backlog := qs_backlog st - pkt_len skb\<rparr>),
     qdisc_bstats_update = (\<lambda>skb st. st\<lparr>bs_bytes := bs_bytes st + ucast (pkt_len skb),
                                       bs_packets := bs_packets st + 1\<rparr>),
     net_xmit_drop_count = (\<lambda>_. True),
     qdisc_enqueue_tail = (\<lambda>skb q. (NET_XMIT_SUCCESS,
        q\<lparr>sch_q := sch_q q @ [skb],
          sch_st := (sch_st q)\<lparr>q_qlen := q_qlen (sch_st q) + 1,
                               qs_backlog := qs_backlog (sch_st q) + pkt_len skb\<rparr>\<rparr>)),
     qdisc_dequeue_head = (\<lambda>q. case sch_q q of
          [] \<Rightarrow> (None, q)
        | skb # rest \<Rightarrow> (Some skb,
            q\<lparr>sch_q := rest,
              sch_st := (sch_st q)\<lparr>q_qlen := q_qlen (sch_st q) - 1,
                                   qs_backlog := qs_backlog (sch_st q) - pkt_len skb\<rparr>\<rparr>)),
     qdisc_peek_head = (\<lambda>q. hd_opt (sch_q q)),
     qdisc_reset_queue = (\<lambda>q. q\<lparr>sch_q := []\<rparr>),
     qdisc_queue_drop_head = (\<lambda>q tf. case sch_q q of
          [] \<Rightarrow> (q, tf)
        | skb # rest \<Rightarrow> (q\<lparr>sch_q := rest,
              sch_st := (sch_st q)\<lparr>q_qlen := q_qlen (sch_st q) - 1,
                                   qs_backlog := qs_backlog (sch_st q) - pkt_len skb\<rparr>\<rparr>, skb # tf)),
     qdisc_dequeue_peeked = (\<lambda>d q. case sch_gso_skb q of
          [] \<Rightarrow> d q
        | skb # rest \<Rightarrow> (Some skb, q\<lparr>sch_gso_skb := rest\<rparr>)),
     psched_mtu = 1514,
     tx_queue_len = 1000,
     tcq_f_can_bypass = 4,
     tcq_f_builtin = 1,
     psched_l2t_ns = reciprocal_ns,
     psched_ticks2ns = (\<lambda>t. push_bit 6 (ucast t)),
     psched_ns2ticks = (\<lambda>t. ucast (drop_bit 6 t)),
     psched_ratecfg_getrate = (\<lambda>r. \<lparr>rs_cell_log = 0, rs_linklayer = rc_linklayer r AND TC_LINKLAYER_MASK,
        rs_overhead = rc_overhead r, rs_cell_align = 0, rs_mpu = 0,
        rs_rate = (if rate_bytes_ps r < 2 ^ 32 then ucast (rate_bytes_ps r) else -1)\<rparr>)\<rparr>"

lemma list_hdr_stat_ok: "stat_helpers_ok list_hdr"
  by (simp add: stat_helpers_ok_def list_hdr_def)

lemma list_hdr_queue_ok: "queue_helpers_ok list_hdr"
  by (auto simp: queue_helpers_ok_def list_hdr_def same_config_def split: list.splits)

lemma list_hdr_ok: "sched_hdr_ok list_hdr"
proof -
  have t: "unat (push_bit 6 (ucast t) :: s64) < 2 ^ 62" for t :: u32
  proof -
    have "unat t * 64 < 2 ^ 38"
      using unsigned_less [of t, where ?'a = nat] by simp
    then show ?thesis
      by (simp add: push_bit_eq_mult unat_word_ariths)
  qed
  show ?thesis
    unfolding sched_hdr_ok_def
    using t reciprocal_ns_small by (auto simp: list_hdr_stat_ok list_hdr_queue_ok)
      (auto simp: list_hdr_def)
qed

section \<open>The contract of an inner qdisc\<close>

text \<open>
  What a classful qdisc relies on: the inner qdisc is a queue of packets. \<open>skbs\<close> is its
  abstraction, \<open>inv\<close> its invariant. A successful enqueue appends the packet, any other
  return value leaves the queue as it was; peek shows the head, dequeue removes it.
\<close>

locale inner_qdisc =
  fixes ops :: "'c Qdisc_ops"
    and skbs :: "'c \<Rightarrow> sk_buff list"
    and inv :: "'c \<Rightarrow> bool"
  assumes peek_law: "inv c \<Longrightarrow> op_peek ops c = (p, c') \<Longrightarrow>
      p = hd_opt (skbs c) \<and> skbs c' = skbs c \<and> inv c'"
    and dequeue_law: "inv c \<Longrightarrow> op_dequeue_peeked ops c = (p, c') \<Longrightarrow>
      p = hd_opt (skbs c) \<and> skbs c' = tl (skbs c) \<and> inv c'"
    and enqueue_law: "inv c \<Longrightarrow> op_enqueue ops skb c tf = (ret, c', tf') \<Longrightarrow>
      skbs c' = (if ret = NET_XMIT_SUCCESS then skbs c @ [skb] else skbs c) \<and> inv c'"
    and reset_law: "inv c \<Longrightarrow> skbs (op_reset ops c) = [] \<and> inv (op_reset ops c)"
begin

lemma peek_then_dequeue:
  assumes "inv c" "op_peek ops c = (Some skb, c1)" "op_dequeue_peeked ops c1 = (p, c2)"
  shows "p = Some skb \<and> skbs c = skb # skbs c2 \<and> inv c2"
  using peek_law [OF assms(1,2)] dequeue_law [OF _ assms(3)]
  by (auto simp: hd_opt_def split: list.splits)

lemma dequeue_nonempty:
  assumes "inv c" "skbs c = skb # rest"
  shows "\<exists>c1 c2. op_peek ops c = (Some skb, c1) \<and> op_dequeue_peeked ops c1 = (Some skb, c2) \<and>
           skbs c2 = rest \<and> inv c2"
proof -
  obtain p c1 where 1: "op_peek ops c = (p, c1)" by fastforce
  obtain p2 c2 where 2: "op_dequeue_peeked ops c1 = (p2, c2)" by fastforce
  from peek_law [OF assms(1) 1] dequeue_law [OF _ 2] 1 2 assms(2) show ?thesis by auto
qed

end

text \<open>
  The FIFOs and the no-op qdisc meet the contract; their invariant also says that the length
  and byte counters agree with the packets queued. The head-drop FIFO does not: it answers
  with a congestion notice although it has queued the packet.
\<close>

definition fifo_inv :: "Qdisc \<Rightarrow> bool" where
  "fifo_inv q \<longleftrightarrow> sch_ops q \<in> {Noop_ops, Pfifo_ops, Bfifo_ops} \<and> sch_gso_skb q = [] \<and>
     qlen_backlog q \<and> (sch_ops q = Noop_ops \<longrightarrow> sch_q q = [])"

lemmas helper_defs = sched_hdr_ok_def stat_helpers_ok_def queue_helpers_ok_def

lemma enqueue_tail_law:
  assumes "sched_hdr_ok h" "qdisc_enqueue_tail h skb q = (ret, q')"
  shows "ret = NET_XMIT_SUCCESS" "sch_q q' = sch_q q @ [skb]" "same_config q q'"
    "qlen_backlog q \<Longrightarrow> qlen_backlog q'"
proof -
  have all: "\<forall>skb q. case qdisc_enqueue_tail h skb q of (ret, q') \<Rightarrow>
        ret = NET_XMIT_SUCCESS \<and> sch_q q' = sch_q q @ [skb] \<and> same_config q q' \<and>
        q_qlen (sch_st q') = q_qlen (sch_st q) + 1 \<and>
        qs_backlog (sch_st q') = qs_backlog (sch_st q) + pkt_len skb"
    using assms(1) unfolding helper_defs by (elim conjE)
  note law = all [THEN spec [of _ skb], THEN spec [of _ q], unfolded assms(2), simplified]
  from law show "ret = NET_XMIT_SUCCESS" "sch_q q' = sch_q q @ [skb]" "same_config q q'"
    "qlen_backlog q \<Longrightarrow> qlen_backlog q'"
    by (simp_all add: qlen_backlog_def)
qed

lemma drop_law:
  assumes "sched_hdr_ok h"
  shows "qdisc_drop h skb st tf = (NET_XMIT_DROP, st\<lparr>qs_drops := qs_drops st + 1\<rparr>, skb # tf)"
  using assms by (simp add: sched_hdr_ok_def stat_helpers_ok_def)

lemma dequeue_head_law:
  assumes "sched_hdr_ok h" "qdisc_dequeue_head h q = (p, q')"
  shows "p = hd_opt (sch_q q)" "sch_q q' = tl (sch_q q)" "same_config q q'"
    "qlen_backlog q \<Longrightarrow> qlen_backlog q'"
proof -
  have all: "\<forall>q. case qdisc_dequeue_head h q of (skb, q') \<Rightarrow>
        skb = hd_opt (sch_q q) \<and> sch_q q' = tl (sch_q q) \<and> same_config q q' \<and>
        (case hd_opt (sch_q q) of
           None \<Rightarrow> q' = q
         | Some s \<Rightarrow> q_qlen (sch_st q') = q_qlen (sch_st q) - 1 \<and>
                     qs_backlog (sch_st q') = qs_backlog (sch_st q) - pkt_len s)"
    using assms(1) unfolding helper_defs by (elim conjE)
  note law = all [THEN spec [of _ q], unfolded assms(2), simplified]
  from law show "p = hd_opt (sch_q q)" "sch_q q' = tl (sch_q q)" "same_config q q'" by simp_all
  from law show "qlen_backlog q \<Longrightarrow> qlen_backlog q'"
    by (cases "sch_q q") (simp_all add: qlen_backlog_def)
qed

lemma small_helper_laws:
  assumes "sched_hdr_ok h"
  shows "qdisc_peek_head h q = hd_opt (sch_q q)"
    and "sch_q (qdisc_reset_queue h q) = []"
    and "same_config q (qdisc_reset_queue h q)"
    and "sch_gso_skb q = [] \<Longrightarrow> qdisc_dequeue_peeked h d q = d q"
  using assms unfolding sched_hdr_ok_def queue_helpers_ok_def by blast+

lemma fifo_peek_law:
  assumes "sched_hdr_ok h" "fifo_inv c" "op_peek (fifo_ops h) c = (p, c')"
  shows "p = hd_opt (sch_q c) \<and> sch_q c' = sch_q c \<and> fifo_inv c'"
  using assms(2,3)
  by (auto simp: fifo_ops_def noop_dequeue_def fifo_inv_def small_helper_laws [OF assms(1)]
      split: if_splits)

lemma fifo_dequeue_law:
  assumes "sched_hdr_ok h" "fifo_inv c" "op_dequeue_peeked (fifo_ops h) c = (p, c')"
  shows "p = hd_opt (sch_q c) \<and> sch_q c' = tl (sch_q c) \<and> fifo_inv c'"
proof -
  have d: "(if sch_ops c = Noop_ops then (noop_dequeue c, c) else qdisc_dequeue_head h c) = (p, c')"
    using assms(2,3) by (simp add: fifo_ops_def fifo_inv_def small_helper_laws [OF assms(1)])
  show ?thesis
  proof (cases "sch_ops c = Noop_ops")
    case True
    with d assms(2) show ?thesis by (auto simp: fifo_inv_def noop_dequeue_def)
  next
    case False
    with d have "qdisc_dequeue_head h c = (p, c')" by simp
    from dequeue_head_law [OF assms(1) this] assms(2) False show ?thesis
      by (simp add: fifo_inv_def same_config_def)
  qed
qed

lemma fifo_inv_drop:
  assumes "sched_hdr_ok h" "fifo_inv c"
  shows "fifo_inv (c\<lparr>sch_st := (sch_st c)\<lparr>qs_drops := n\<rparr>\<rparr>)"
  using assms(2) by (simp add: fifo_inv_def qlen_backlog_def)

lemma fifo_enqueue_law:
  assumes h: "sched_hdr_ok h" and inv: "fifo_inv c"
    and enq: "op_enqueue (fifo_ops h) skb c tf = (ret, c', tf')"
  shows "sch_q c' = (if ret = NET_XMIT_SUCCESS then sch_q c @ [skb] else sch_q c) \<and> fifo_inv c'"
proof -
  obtain r q where tail: "qdisc_enqueue_tail h skb c = (r, q)" by fastforce
  note tail_law = enqueue_tail_law [OF h tail]
  have "sch_ops c = Noop_ops \<or> sch_ops c = Pfifo_ops \<or> sch_ops c = Bfifo_ops"
    using inv by (simp add: fifo_inv_def)
  then consider "ret = NET_XMIT_SUCCESS" "c' = q" "sch_ops c \<noteq> Noop_ops"
    | "ret = NET_XMIT_DROP" "c' = c\<lparr>sch_st := (sch_st c)\<lparr>qs_drops := qs_drops (sch_st c) + 1\<rparr>\<rparr>"
    | "ret = NET_XMIT_CN" "c' = c"
    using enq tail tail_law(1)
    by (auto simp: fifo_ops_def pfifo_enqueue_def bfifo_enqueue_def noop_enqueue_def
        drop_law [OF h] split: if_splits)
  then show ?thesis
  proof cases
    case 1
    with tail_law inv show ?thesis by (simp add: fifo_inv_def same_config_def)
  qed (use inv in \<open>simp_all add: fifo_inv_drop [OF h]\<close>)
qed

lemma fifo_reset_law:
  assumes "sched_hdr_ok h" "fifo_inv c"
  shows "sch_q (op_reset (fifo_ops h) c) = [] \<and> fifo_inv (op_reset (fifo_ops h) c)"
  using assms(2) small_helper_laws(2,3) [OF assms(1), of c]
  by (cases "sch_ops c = Noop_ops")
     (simp_all add: fifo_ops_def qdisc_reset_def fifo_inv_def same_config_def qlen_backlog_def Let_def)

lemma fifo_inner_qdisc:
  assumes "sched_hdr_ok h"
  shows "inner_qdisc (fifo_ops h) sch_q fifo_inv"
  by unfold_locales
     (fact fifo_peek_law [OF assms] fifo_dequeue_law [OF assms] fifo_enqueue_law [OF assms]
       fifo_reset_law [OF assms])+

interpretation fifo: inner_qdisc "fifo_ops list_hdr" sch_q fifo_inv
  by (rule fifo_inner_qdisc [OF list_hdr_ok])

section \<open>Properties\<close>

lemma backlog_exact:
  assumes "qlen_backlog q" "(\<Sum>s \<leftarrow> sch_q q. unat (pkt_len s)) < 2 ^ 32"
  shows "unat (qs_backlog (sch_st q)) = (\<Sum>s \<leftarrow> sch_q q. unat (pkt_len s))"
proof -
  have "unat (sum_list (map pkt_len xs)) = (\<Sum>s \<leftarrow> xs. unat (pkt_len s))"
    if "(\<Sum>s \<leftarrow> xs. unat (pkt_len s)) < 2 ^ 32" for xs
    using that by (induction xs) (auto simp: unat_word_ariths)
  with assms show ?thesis by (simp add: qlen_backlog_def)
qed

text \<open>
  The byte FIFO keeps its limit: a packet is taken exactly when the queued bytes and it together
  stay within the limit, and is otherwise put on the free list and counted as dropped, with the queue
  as before; so the queued bytes never exceed the limit. The sum is exact as long as the limit and the
  packet length together fit in 32 bits.
\<close>

theorem bfifo_respects_limit:
  assumes "sched_hdr_ok h" "fifo_inv c" "sch_ops c = Bfifo_ops"
    and "(\<Sum>s \<leftarrow> sch_q c. unat (pkt_len s)) \<le> unat (sch_limit c)"
    and "unat (sch_limit c) + unat (pkt_len skb) < 2 ^ 32"
    and "bfifo_enqueue h skb c tf = (ret, c', tf')"
  shows "(\<Sum>s \<leftarrow> sch_q c'. unat (pkt_len s)) \<le> unat (sch_limit c') \<and> sch_limit c' = sch_limit c \<and>
    (if (\<Sum>s \<leftarrow> sch_q c. unat (pkt_len s)) + unat (pkt_len skb) \<le> unat (sch_limit c)
     then ret = NET_XMIT_SUCCESS \<and> sch_q c' = sch_q c @ [skb] \<and> tf' = tf
     else ret = NET_XMIT_DROP \<and> sch_q c' = sch_q c \<and> tf' = skb # tf \<and>
          qs_drops (sch_st c') = qs_drops (sch_st c) + 1)"
proof -
  have b: "unat (qs_backlog (sch_st c)) = (\<Sum>s \<leftarrow> sch_q c. unat (pkt_len s))"
    using assms(2,4,5) by (intro backlog_exact) (auto simp: fifo_inv_def)
  then have cond: "qs_backlog (sch_st c) + pkt_len skb \<le> sch_limit c \<longleftrightarrow>
      (\<Sum>s \<leftarrow> sch_q c. unat (pkt_len s)) + unat (pkt_len skb) \<le> unat (sch_limit c)"
    using assms(4,5) by (simp add: word_le_nat_alt unat_word_ariths)
  obtain r q where tail: "qdisc_enqueue_tail h skb c = (r, q)" by fastforce
  show ?thesis
    using assms(4,6) cond tail enqueue_tail_law(1-3) [OF assms(1) tail]
    by (auto simp: bfifo_enqueue_def drop_law [OF assms(1)] same_config_def split: if_splits)
qed

definition demo_bfifo :: Qdisc where
  "demo_bfifo = \<lparr>sch_ops = Bfifo_ops, sch_flags = 0, sch_limit = 100, sch_handle = 0, sch_parent = 0,
     sch_q = [], sch_gso_skb = [], sch_st = qdisc_stats_zero\<rparr>"

theorem bfifo_respects_limit_witness:
  "\<exists>c' tf. bfifo_enqueue list_hdr \<lparr>skb_id = 1, skb_len = 60, pkt_len = 60\<rparr> demo_bfifo [] = (NET_XMIT_SUCCESS, c', tf) \<and>
     (\<Sum>s \<leftarrow> sch_q c'. unat (pkt_len s)) \<le> unat (sch_limit c')"
proof -
  let ?skb = "\<lparr>skb_id = 1, skb_len = 60, pkt_len = 60\<rparr>"
  obtain r c' tf where e: "bfifo_enqueue list_hdr ?skb demo_bfifo [] = (r, c', tf)" by (metis prod_cases3)
  have inv: "fifo_inv demo_bfifo" "sch_ops demo_bfifo = Bfifo_ops" "sch_q demo_bfifo = []" "sch_limit demo_bfifo = 100"
    by (simp_all add: demo_bfifo_def fifo_inv_def qlen_backlog_def qdisc_stats_zero_def)
  from bfifo_respects_limit [OF list_hdr_ok inv(1,2) _ _ e] e inv show ?thesis by auto
qed

text \<open>
  Passing a limit down: a qdisc whose name does not end in \<^verbatim>\<open>fifo\<close> is left alone, a packet or
  byte FIFO gets the limit and keeps its packets, and the default \<^verbatim>\<open>pfifo_fast\<close>, whose name passes
  the test although it has no change operation, makes the kernel call a NULL pointer.
\<close>

theorem fifo_set_limit_kinds:
  "fifo_set_limit (fifo_ops h) True q limit =
     (case sch_ops q of
        Noop_ops \<Rightarrow> Some (0, q)
      | Pfifo_fast_ops \<Rightarrow> None
      | _ \<Rightarrow> Some (0, q\<lparr>sch_limit := limit,
              sch_flags := (if (if sch_ops q = Bfifo_ops then psched_mtu h else 1) \<le> limit
                            then sch_flags q OR tcq_f_can_bypass h
                            else sch_flags q AND NOT (tcq_f_can_bypass h))\<rparr>))"
  by (cases "sch_ops q") (simp_all add: fifo_set_limit_def fifo_ops_def fifo_init_def Let_def)

end
