(* ===== verification/Rate_Table.thy ===== *)
theory Rate_Table
  imports Psched
begin

text \<open>
  The byte layout of the rate records that travel in netlink attributes
  (\<^verbatim>\<open>struct tc_ratespec\<close> and \<^verbatim>\<open>struct tc_tbf_qopt\<close>, little endian, no padding) and
  the shared rate-table list of \<^verbatim>\<open>net/sched/sch_api.c\<close>: \<^verbatim>\<open>__detect_linklayer\<close>,
  \<^verbatim>\<open>qdisc_get_rtab\<close> and \<^verbatim>\<open>qdisc_put_rtab\<close>. The macro \<^verbatim>\<open>roundup\<close> of
  \<^verbatim>\<open>linux/kernel.h\<close> is an argument.
\<close>

section \<open>Layout of the option records\<close>

record tc_tbf_qopt =
  qopt_rate :: tc_ratespec
  qopt_peakrate :: tc_ratespec
  qopt_limit :: u32
  qopt_buffer :: u32
  qopt_mtu :: u32

definition ratespec_bytes :: "tc_ratespec \<Rightarrow> u8 list" where
  "ratespec_bytes r = [rs_cell_log r, rs_linklayer r] @ bytes16 (rs_overhead r) @
     bytes16 (rs_cell_align r) @ bytes16 (rs_mpu r) @ bytes32 (rs_rate r)"

definition ratespec_of_bytes :: "u8 list \<Rightarrow> tc_ratespec" where
  "ratespec_of_bytes bs = \<lparr>
     rs_cell_log = bs ! 0, rs_linklayer = bs ! 1, rs_overhead = le16 (drop 2 bs),
     rs_cell_align = le16 (drop 4 bs), rs_mpu = le16 (drop 6 bs), rs_rate = le32 (drop 8 bs)\<rparr>"

definition qopt_bytes :: "tc_tbf_qopt \<Rightarrow> u8 list" where
  "qopt_bytes q = ratespec_bytes (qopt_rate q) @ ratespec_bytes (qopt_peakrate q) @
     bytes32 (qopt_limit q) @ bytes32 (qopt_buffer q) @ bytes32 (qopt_mtu q)"

definition qopt_of_bytes :: "u8 list \<Rightarrow> tc_tbf_qopt" where
  "qopt_of_bytes bs = \<lparr>
     qopt_rate = ratespec_of_bytes bs, qopt_peakrate = ratespec_of_bytes (drop 12 bs),
     qopt_limit = le32 (drop 24 bs), qopt_buffer = le32 (drop 28 bs), qopt_mtu = le32 (drop 32 bs)\<rparr>"

text \<open>\<^verbatim>\<open>struct tc_netem_qopt\<close>, and \<^verbatim>\<open>struct tc_netem_rate\<close> with no overheads and no cells.\<close>

record tc_netem_qopt =
  ne_latency :: u32
  ne_limit :: u32
  ne_loss :: u32
  ne_gap :: u32
  ne_duplicate :: u32
  ne_jitter :: u32

definition netem_bytes :: "tc_netem_qopt \<Rightarrow> u8 list" where
  "netem_bytes q = bytes32 (ne_latency q) @ bytes32 (ne_limit q) @ bytes32 (ne_loss q) @ bytes32 (ne_gap q) @
     bytes32 (ne_duplicate q) @ bytes32 (ne_jitter q)"

definition netem_qopt_of_bytes :: "u8 list \<Rightarrow> tc_netem_qopt" where
  "netem_qopt_of_bytes bs = \<lparr>ne_latency = le32 bs, ne_limit = le32 (drop 4 bs), ne_loss = le32 (drop 8 bs),
     ne_gap = le32 (drop 12 bs), ne_duplicate = le32 (drop 16 bs), ne_jitter = le32 (drop 20 bs)\<rparr>"

definition netem_rate_bytes :: "u32 \<Rightarrow> u8 list" where
  "netem_rate_bytes rate = bytes32 rate @ replicate 12 0"

lemma length_netem_bytes [simp]: "length (netem_bytes q) = 24" "length (netem_rate_bytes rate) = 16"
  by (simp_all add: netem_bytes_def netem_rate_bytes_def)

lemma netem_qopt_roundtrip [simp]: "netem_qopt_of_bytes (netem_bytes q @ xs) = q"
  by (simp add: netem_qopt_of_bytes_def netem_bytes_def)

lemma length_ratespec_bytes [simp]: "length (ratespec_bytes r) = 12"
  by (simp add: ratespec_bytes_def)

lemma length_qopt_bytes [simp]: "length (qopt_bytes q) = 36"
  by (simp add: qopt_bytes_def)

lemma ratespec_roundtrip [simp]: "ratespec_of_bytes (ratespec_bytes r @ xs) = r"
  by (simp add: ratespec_of_bytes_def ratespec_bytes_def numeral_2_eq_2)

lemma qopt_roundtrip [simp]: "qopt_of_bytes (qopt_bytes q @ xs) = q"
  by (simp add: qopt_of_bytes_def qopt_bytes_def)

lemmas qopt_roundtrip0 [simp] = qopt_roundtrip [of _ "[]", simplified]

section \<open>The rate-table list\<close>

text \<open>
  An entry carries the address \<^verbatim>\<open>kmalloc\<close> gave it, which is what \<^verbatim>\<open>qdisc_put_rtab\<close>
  compares. The table data is the payload of the attribute, read as 32-bit words.
\<close>

record qdisc_rate_table =
  rtab_addr :: nat
  rtab_rate :: tc_ratespec
  rtab_data :: "u8 list"
  rtab_refcnt :: int

definition rtab_word :: "u8 list \<Rightarrow> nat \<Rightarrow> u32" where
  "rtab_word data i = le32 (drop (4 * i) data)"

text \<open>
  The cell size of a rate is a byte that no caller bounds. C leaves a shift by 32 or more undefined; here it gives zero, and the
  link layer is Ethernet.
\<close>

definition detect_linklayer :: "(int \<Rightarrow> int \<Rightarrow> int) \<Rightarrow> tc_ratespec \<Rightarrow> u8 list \<Rightarrow> u8" where
  "detect_linklayer roundup r rtab =
     (let low = roundup (uint (rs_mpu r)) 48;
          high = roundup (low + 1) 48;
          cell_low = drop_bit (unat (rs_cell_log r)) low;
          cell_high = drop_bit (unat (rs_cell_log r)) high - 1
      in if 100000000 div 8 < rs_rate r \<or> rtab_word rtab 0 = 0 then TC_LINKLAYER_ETHERNET
         else if cell_low < cell_high \<and> cell_high < 256 \<and>
                 rtab_word rtab (nat cell_low) = rtab_word rtab (nat cell_high)
              then TC_LINKLAYER_ATM
         else TC_LINKLAYER_ETHERNET)"

fun rtab_find :: "tc_ratespec \<Rightarrow> u8 list \<Rightarrow> qdisc_rate_table list \<Rightarrow>
    (nat \<times> qdisc_rate_table list) option" where
  "rtab_find r data [] = None"
| "rtab_find r data (t # ts) =
     (if rtab_rate t = r \<and> rtab_data t = data
      then Some (rtab_addr t, t\<lparr>rtab_refcnt := rtab_refcnt t + 1\<rparr> # ts)
      else map_option (\<lambda>(a, ts'). (a, t # ts')) (rtab_find r data ts))"

text \<open>
  The result is the table returned (its address, or \<open>None\<close> for NULL), the rate record, whose
  link layer is filled in when it was not set, and the list. \<open>kmalloc\<close> is the address the
  allocator would return.
\<close>

definition qdisc_get_rtab :: "(int \<Rightarrow> int \<Rightarrow> int) \<Rightarrow> nat option \<Rightarrow> tc_ratespec \<Rightarrow> u8 list option \<Rightarrow>
    qdisc_rate_table list \<Rightarrow> nat option \<times> tc_ratespec \<times> qdisc_rate_table list" where
  "qdisc_get_rtab roundup kmalloc r tab rtab_list =
     (case tab of
        None \<Rightarrow> (None, r, rtab_list)
      | Some data \<Rightarrow>
          if rs_rate r = 0 \<or> rs_cell_log r = 0 \<or> length data \<noteq> 1024 then (None, r, rtab_list)
          else case rtab_find r data rtab_list of
                 Some (a, ts) \<Rightarrow> (Some a, r, ts)
               | None \<Rightarrow>
                   (case kmalloc of
                      None \<Rightarrow> (None, r, rtab_list)
                    | Some a \<Rightarrow>
                        (Some a,
                         if rs_linklayer r = TC_LINKLAYER_UNAWARE
                         then r\<lparr>rs_linklayer := detect_linklayer roundup r data\<rparr> else r,
                         \<lparr>rtab_addr = a, rtab_rate = r, rtab_data = data, rtab_refcnt = 1\<rparr>
                         # rtab_list)))"

fun rtab_unlink :: "nat \<Rightarrow> qdisc_rate_table list \<Rightarrow> qdisc_rate_table list" where
  "rtab_unlink a [] = []"
| "rtab_unlink a (t # ts) = (if rtab_addr t = a then ts else t # rtab_unlink a ts)"

definition rtab_dec :: "nat \<Rightarrow> qdisc_rate_table list \<Rightarrow> qdisc_rate_table list" where
  "rtab_dec a = map (\<lambda>t. if rtab_addr t = a then t\<lparr>rtab_refcnt := rtab_refcnt t - 1\<rparr> else t)"

definition qdisc_put_rtab :: "nat option \<Rightarrow> qdisc_rate_table list \<Rightarrow> qdisc_rate_table list" where
  "qdisc_put_rtab tab rtab_list =
     (case tab of
        None \<Rightarrow> rtab_list
      | Some a \<Rightarrow>
          let ts = rtab_dec a rtab_list
          in if \<exists>t\<in>set ts. rtab_addr t = a \<and> rtab_refcnt t \<noteq> 0 then ts else rtab_unlink a ts)"

text \<open>Every address occurs once and every listed table is referenced.\<close>

definition rtab_wf :: "qdisc_rate_table list \<Rightarrow> bool" where
  "rtab_wf ts \<longleftrightarrow> distinct (map rtab_addr ts) \<and> (\<forall>t\<in>set ts. 0 < rtab_refcnt t)"

section \<open>Taking and releasing a table\<close>

lemma rtab_find_Some:
  assumes "rtab_find r data ts = Some (a, ts')"
  shows "\<exists>xs t ys. ts = xs @ t # ys \<and> rtab_addr t = a \<and> rtab_rate t = r \<and> rtab_data t = data \<and>
           ts' = xs @ t\<lparr>rtab_refcnt := rtab_refcnt t + 1\<rparr> # ys"
  using assms
proof (induction ts arbitrary: ts')
  case (Cons t ts)
  show ?case
  proof (cases "rtab_rate t = r \<and> rtab_data t = data")
    case True
    with Cons.prems show ?thesis by (intro exI [of _ "[]"]) auto
  next
    case False
    with Cons.prems obtain us where "rtab_find r data ts = Some (a, us)" "ts' = t # us" by auto
    with Cons.IH [of us] obtain xs t' ys where "ts = xs @ t' # ys" "rtab_addr t' = a"
      "rtab_rate t' = r" "rtab_data t' = data" "us = xs @ t'\<lparr>rtab_refcnt := rtab_refcnt t' + 1\<rparr> # ys"
      by blast
    with \<open>ts' = t # us\<close> show ?thesis by (intro exI [of _ "t # xs"]) auto
  qed
qed simp

lemma rtab_dec_id: "a \<notin> rtab_addr ` set ts \<Longrightarrow> rtab_dec a ts = ts"
  by (auto simp: rtab_dec_def intro!: map_idI)

lemma rtab_dec_append [simp]:
  "rtab_dec a (xs @ ys) = rtab_dec a xs @ rtab_dec a ys"
  "rtab_dec a (t # ts) =
     (if rtab_addr t = a then t\<lparr>rtab_refcnt := rtab_refcnt t - 1\<rparr> else t) # rtab_dec a ts"
  by (simp_all add: rtab_dec_def)

lemma put_after_get:
  assumes wf: "rtab_wf ts" and fresh: "\<forall>a. kmalloc = Some a \<longrightarrow> a \<notin> rtab_addr ` set ts"
    and get: "qdisc_get_rtab roundup kmalloc r tab ts = (p, r', ts')"
  shows "qdisc_put_rtab p ts' = ts"
proof -
  consider "p = None" "ts' = ts"
    | a data where "p = Some a" "rtab_find r data ts = Some (a, ts')"
    | a data where "p = Some a" "kmalloc = Some a"
        "ts' = \<lparr>rtab_addr = a, rtab_rate = r, rtab_data = data, rtab_refcnt = 1\<rparr> # ts"
    using get by (auto simp: qdisc_get_rtab_def split: option.splits if_splits)
  then show ?thesis
  proof cases
    case 2
    from rtab_find_Some [OF 2(2)] obtain xs t ys where
      ts: "ts = xs @ t # ys" "rtab_addr t = a" "ts' = xs @ t\<lparr>rtab_refcnt := rtab_refcnt t + 1\<rparr> # ys"
      by blast
    with wf have "a \<notin> rtab_addr ` set xs" "a \<notin> rtab_addr ` set ys" "rtab_refcnt t \<noteq> 0"
      by (auto simp: rtab_wf_def)
    with ts 2(1) show ?thesis by (simp add: qdisc_put_rtab_def rtab_dec_id)
  next
    case 3
    with fresh have "a \<notin> rtab_addr ` set ts" by blast
    with 3 show ?thesis by (auto simp: qdisc_put_rtab_def rtab_dec_id Let_def)
  qed (simp add: qdisc_put_rtab_def)
qed

end
