(* ===== verification/Sch_Tbf.thy ===== *)
theory Sch_Tbf
  imports Qdisc Rate_Table
begin

text \<open>
  The token bucket filter, \<^verbatim>\<open>sch_tbf.c\<close>: the state \<^verbatim>\<open>struct tbf_sched_data\<close>, one
  definition per operation of \<^verbatim>\<open>tbf_qdisc_ops\<close> and \<^verbatim>\<open>tbf_class_ops\<close>, in the order of
  the file. Time and tokens are signed 64-bit nanoseconds, kept as words with signed
  comparisons. The inner qdisc is of any type \<open>'c\<close>, driven through its operation table.
  Segmentation offload and the netlink attribute library are kernel code outside the
  repository; they are the parameter records \<open>gso_env\<close>, \<open>tbf_change_env\<close> and
  \<open>nla_ops\<close>. The current time \<^verbatim>\<open>ktime_get_ns()\<close> is an argument.
\<close>

section \<open>State\<close>

record 'c tbf_sched_data =
  tbf_limit :: u32
  tbf_max_size :: u32
  tbf_buffer :: s64
  tbf_mtu :: s64
  tbf_rate :: psched_ratecfg
  tbf_peak :: psched_ratecfg
  tbf_tokens :: s64
  tbf_ptokens :: s64
  tbf_t_c :: s64
  tbf_qdisc :: 'c
  tbf_watchdog :: qdisc_watchdog

text \<open>The filter's own \<^verbatim>\<open>struct Qdisc\<close> with its private data and the chain of its parents.\<close>

record 'c tbf_sch =
  t_handle :: u32
  t_offloaded :: bool
  t_deactivated :: bool
  t_st :: qdisc_stats
  t_q :: "'c tbf_sched_data"
  t_ancs :: "ancestor list"

record gso_env =
  netif_skb_features :: "sk_buff \<Rightarrow> u64"
  netif_f_gso_mask :: u64
  skb_gso_segment :: "sk_buff \<Rightarrow> u64 \<Rightarrow> sk_buff list option"
  skb_is_gso :: "sk_buff \<Rightarrow> bool"
  skb_gso_validate_mac_len :: "sk_buff \<Rightarrow> u32 \<Rightarrow> bool"

section \<open>Enqueue\<close>

text \<open>The loop over the segments: accumulated length, packets accepted, inner qdisc, statistics.\<close>

fun tbf_segment_loop ::
  "sched_hdr \<Rightarrow> 'c Qdisc_ops \<Rightarrow> sk_buff list \<Rightarrow> u32 \<Rightarrow> nat \<Rightarrow> 'c \<Rightarrow> qdisc_stats \<Rightarrow> sk_buff list \<Rightarrow>
   u32 \<times> nat \<times> 'c \<times> qdisc_stats \<times> sk_buff list" where
  "tbf_segment_loop h ops [] len nb c st tf = (len, nb, c, st, tf)"
| "tbf_segment_loop h ops (seg # segs) len nb c st tf =
     (let seg = seg\<lparr>pkt_len := skb_len seg\<rparr>;
          len = len + skb_len seg;
          (ret, c, tf) = op_enqueue ops seg c tf
      in if ret \<noteq> NET_XMIT_SUCCESS
         then tbf_segment_loop h ops segs len nb c
                (if net_xmit_drop_count h ret then qdisc_qstats_drop h st else st) tf
         else tbf_segment_loop h ops segs len (Suc nb) c st tf)"

definition tbf_segment ::
  "sched_hdr \<Rightarrow> gso_env \<Rightarrow> 'c Qdisc_ops \<Rightarrow> sk_buff \<Rightarrow> 'c tbf_sch \<Rightarrow> sk_buff list \<Rightarrow>
   net_xmit \<times> 'c tbf_sch \<times> sk_buff list" where
  "tbf_segment h g ops skb sch to_free =
     (let q = t_q sch;
          prev_len = pkt_len skb;
          segs = skb_gso_segment g skb (netif_skb_features g skb AND NOT (netif_f_gso_mask g))
      in case segs of
           None \<Rightarrow> (let (ret, st, tf) = qdisc_drop h skb (t_st sch) to_free
                    in (ret, sch\<lparr>t_st := st\<rparr>, tf))
         | Some segs \<Rightarrow>
             if segs = [] then
               (let (ret, st, tf) = qdisc_drop h skb (t_st sch) to_free
                in (ret, sch\<lparr>t_st := st\<rparr>, tf))
             else
               (let (len, nb, c, st, tf) =
                      tbf_segment_loop h ops segs 0 0 (tbf_qdisc q) (t_st sch) to_free;
                    st = st\<lparr>q_qlen := q_qlen st + of_nat nb\<rparr>;
                    ancs = (if 1 < nb
                            then qdisc_tree_reduce_backlog h (t_offloaded sch) (q_qlen st)
                                   (1 - of_nat nb) (prev_len - len) (t_ancs sch)
                            else t_ancs sch)
                in (if 0 < nb then NET_XMIT_SUCCESS else NET_XMIT_DROP,
                    sch\<lparr>t_st := st, t_q := q\<lparr>tbf_qdisc := c\<rparr>, t_ancs := ancs\<rparr>, tf)))"

definition tbf_enqueue ::
  "sched_hdr \<Rightarrow> gso_env \<Rightarrow> 'c Qdisc_ops \<Rightarrow> sk_buff \<Rightarrow> 'c tbf_sch \<Rightarrow> sk_buff list \<Rightarrow>
   net_xmit \<times> 'c tbf_sch \<times> sk_buff list" where
  "tbf_enqueue h g ops skb sch to_free =
     (let q = t_q sch; len = pkt_len skb in
      if tbf_max_size q < pkt_len skb then
        (if skb_is_gso g skb \<and> skb_gso_validate_mac_len g skb (tbf_max_size q)
         then tbf_segment h g ops skb sch to_free
         else (let (ret, st, tf) = qdisc_drop h skb (t_st sch) to_free
               in (ret, sch\<lparr>t_st := st\<rparr>, tf)))
      else
        (let (ret, c, tf) = op_enqueue ops skb (tbf_qdisc q) to_free;
             sch = sch\<lparr>t_q := q\<lparr>tbf_qdisc := c\<rparr>\<rparr>
         in if ret \<noteq> NET_XMIT_SUCCESS
            then (ret, if net_xmit_drop_count h ret
                       then sch\<lparr>t_st := qdisc_qstats_drop h (t_st sch)\<rparr> else sch, tf)
            else (NET_XMIT_SUCCESS,
                  sch\<lparr>t_st := (t_st sch)\<lparr>qs_backlog := qs_backlog (t_st sch) + len,
                                        q_qlen := q_qlen (t_st sch) + 1\<rparr>\<rparr>, tf)))"

section \<open>Dequeue\<close>

definition tbf_peak_present :: "'c tbf_sched_data \<Rightarrow> bool" where
  "tbf_peak_present q \<longleftrightarrow> rate_bytes_ps (tbf_peak q) \<noteq> 0"

definition s64_min_t :: "s64 \<Rightarrow> s64 \<Rightarrow> s64" where
  "s64_min_t a b = (if a <s b then a else b)"

definition s64_max_t :: "s64 \<Rightarrow> s64 \<Rightarrow> s64" where
  "s64_max_t a b = (if b <s a then a else b)"

text \<open>The token arithmetic of \<^verbatim>\<open>tbf_dequeue\<close>: what the two buckets would hold after the packet.\<close>

definition tbf_toks :: "sched_hdr \<Rightarrow> 'c tbf_sched_data \<Rightarrow> s64 \<Rightarrow> u32 \<Rightarrow> s64 \<times> s64" where
  "tbf_toks h q now len =
     (let toks = s64_min_t (now - tbf_t_c q) (tbf_buffer q);
          ptoks = (if tbf_peak_present q then
                     (let p = toks + tbf_ptokens q;
                          p = (if tbf_mtu q <s p then tbf_mtu q else p)
                      in p - psched_l2t_ns h (tbf_peak q) len)
                   else 0);
          toks = toks + tbf_tokens q;
          toks = (if tbf_buffer q <s toks then tbf_buffer q else toks)
      in (toks - psched_l2t_ns h (tbf_rate q) len, ptoks))"

definition tbf_dequeue ::
  "sched_hdr \<Rightarrow> 'c Qdisc_ops \<Rightarrow> s64 \<Rightarrow> 'c tbf_sch \<Rightarrow> sk_buff option \<times> 'c tbf_sch" where
  "tbf_dequeue h ops now sch =
     (let (skb, c) = op_peek ops (tbf_qdisc (t_q sch));
          q = (t_q sch)\<lparr>tbf_qdisc := c\<rparr>;
          sch = sch\<lparr>t_q := q\<rparr>
      in case skb of
           None \<Rightarrow> (None, sch)
         | Some skb \<Rightarrow>
             let (toks, ptoks) = tbf_toks h q now (pkt_len skb) in
             if 0 \<le>s (toks OR ptoks) then
               (let (skb, c) = op_dequeue_peeked ops (tbf_qdisc q);
                    q = q\<lparr>tbf_qdisc := c\<rparr>
                in case skb of
                     None \<Rightarrow> (None, sch\<lparr>t_q := q\<rparr>)
                   | Some skb \<Rightarrow>
                       let q = q\<lparr>tbf_t_c := now, tbf_tokens := toks, tbf_ptokens := ptoks\<rparr>;
                           st = qdisc_qstats_backlog_dec h skb (t_st sch);
                           st = st\<lparr>q_qlen := q_qlen st - 1\<rparr>;
                           st = qdisc_bstats_update h skb st
                       in (Some skb, sch\<lparr>t_q := q, t_st := st\<rparr>))
             else
               (let wd = qdisc_watchdog_schedule_ns (t_deactivated sch)
                           (now + s64_max_t (- toks) (- ptoks)) (tbf_watchdog q)
                in (None, sch\<lparr>t_q := q\<lparr>tbf_watchdog := wd\<rparr>,
                             t_st := qdisc_qstats_overlimit h (t_st sch)\<rparr>)))"

definition tbf_reset :: "'c Qdisc_ops \<Rightarrow> s64 \<Rightarrow> 'c tbf_sch \<Rightarrow> 'c tbf_sch" where
  "tbf_reset ops now sch =
     (let q = t_q sch;
          q = q\<lparr>tbf_qdisc := op_reset ops (tbf_qdisc q), tbf_t_c := now,
                tbf_tokens := tbf_buffer q, tbf_ptokens := tbf_mtu q,
                tbf_watchdog := qdisc_watchdog_cancel (tbf_watchdog q)\<rparr>
      in sch\<lparr>t_st := (t_st sch)\<lparr>qs_backlog := 0, q_qlen := 0\<rparr>, t_q := q\<rparr>)"

section \<open>Configuration\<close>

abbreviation (input) TCA_OPTIONS :: nat where "TCA_OPTIONS \<equiv> 2"
abbreviation (input) TCA_TBF_PARMS :: nat where "TCA_TBF_PARMS \<equiv> 1"
abbreviation (input) TCA_TBF_RTAB :: nat where "TCA_TBF_RTAB \<equiv> 2"
abbreviation (input) TCA_TBF_PTAB :: nat where "TCA_TBF_PTAB \<equiv> 3"
abbreviation (input) TCA_TBF_RATE64 :: nat where "TCA_TBF_RATE64 \<equiv> 4"
abbreviation (input) TCA_TBF_PRATE64 :: nat where "TCA_TBF_PRATE64 \<equiv> 5"
abbreviation (input) TCA_TBF_BURST :: nat where "TCA_TBF_BURST \<equiv> 6"
abbreviation (input) TCA_TBF_PBURST :: nat where "TCA_TBF_PBURST \<equiv> 7"
abbreviation (input) TCA_TBF_PAD :: nat where "TCA_TBF_PAD \<equiv> 8"

text \<open>The attribute table \<^verbatim>\<open>tb\<close>: attribute type to payload.\<close>

type_synonym nlattrs = "nat \<Rightarrow> u8 list option"

datatype nla_policy = Nla_min_len nat | Nla_binary nat | Nla_u64 | Nla_u32 | Nla_s64 | Nla_nested

definition tbf_policy :: "(nat \<times> nla_policy) list" where
  "tbf_policy = [(TCA_TBF_PARMS, Nla_min_len 36), (TCA_TBF_RTAB, Nla_binary 1024),
     (TCA_TBF_PTAB, Nla_binary 1024), (TCA_TBF_RATE64, Nla_u64), (TCA_TBF_PRATE64, Nla_u64),
     (TCA_TBF_BURST, Nla_u32), (TCA_TBF_PBURST, Nla_u32)]"

record 'c tbf_change_env =
  nla_parse_nested :: "nat \<Rightarrow> u8 list \<Rightarrow> (nat \<times> nla_policy) list \<Rightarrow> int + nlattrs"
  env_roundup :: "int \<Rightarrow> int \<Rightarrow> int"
  rtab_kmalloc :: "nat option"
  ptab_kmalloc :: "nat option"
  is_noop_qdisc :: "'c \<Rightarrow> bool"
  nla_kmalloc_ok :: bool
  created_qdisc :: "'c option"
  qdisc_tree_flush_backlog :: "'c \<Rightarrow> 'c tbf_sch \<Rightarrow> 'c tbf_sch"

record tbf_params =
  p_qopt :: tc_tbf_qopt
  p_rate :: psched_ratecfg
  p_peak :: psched_ratecfg
  p_max_size :: u64
  p_buffer :: s64
  p_mtu :: s64
  p_burst_given :: bool
  p_pburst_given :: bool

definition rtab_probe :: "(int \<Rightarrow> int \<Rightarrow> int) \<Rightarrow> nat option \<Rightarrow> tc_ratespec \<Rightarrow> u8 list option \<Rightarrow>
    qdisc_rate_table list \<Rightarrow> tc_ratespec \<times> qdisc_rate_table list" where
  "rtab_probe roundup kmalloc r tab rtabs =
     (if rs_linklayer r = TC_LINKLAYER_UNAWARE
      then (let (p, r', rtabs') = qdisc_get_rtab roundup kmalloc r tab rtabs
            in (r', qdisc_put_rtab p rtabs'))
      else (r, rtabs))"

text \<open>
  The first half of \<^verbatim>\<open>tbf_change\<close>: from the attributes to the new parameters, or an error
  number. \<open>None\<close> would be a rate precomputation that does not end.
\<close>

definition tbf_change_peak ::
  "sched_hdr \<Rightarrow> nlattrs \<Rightarrow> tc_tbf_qopt \<Rightarrow> psched_ratecfg \<Rightarrow> u64 \<Rightarrow> s64 \<Rightarrow>
   (int + psched_ratecfg \<times> u64 \<times> s64) option" where
  "tbf_change_peak h tb qopt rate max_size mtu =
     (if rs_rate (qopt_peakrate qopt) \<noteq> 0 then do {
        let prate64 = (case tb TCA_TBF_PRATE64 of None \<Rightarrow> 0 | Some a \<Rightarrow> le64 a);
        peak \<leftarrow> psched_ratecfg_precompute (qopt_peakrate qopt) prate64;
        Some (if rate_bytes_ps peak \<le> rate_bytes_ps rate then Inl (- EINVAL)
              else case tb TCA_TBF_PBURST of
                     Some a \<Rightarrow>
                       let pburst = le32 a
                       in Inr (peak, ucast (min (ucast max_size) pburst), psched_l2t_ns h peak pburst)
                   | None \<Rightarrow> Inr (peak, min max_size (psched_ns_t2l peak mtu), mtu)) }
      else Some (Inr (ratecfg_zero, max_size, mtu)))"

definition tbf_change_params ::
  "sched_hdr \<Rightarrow> 'c tbf_change_env \<Rightarrow> u8 list \<Rightarrow> qdisc_rate_table list \<Rightarrow>
   ((int + tbf_params) \<times> qdisc_rate_table list) option" where
  "tbf_change_params h env opt rtabs =
     (case nla_parse_nested env 8 opt tbf_policy of
        Inl err \<Rightarrow> Some (Inl err, rtabs)
      | Inr tb \<Rightarrow>
          (case tb TCA_TBF_PARMS of
             None \<Rightarrow> Some (Inl (- EINVAL), rtabs)
           | Some parms \<Rightarrow> do {
               let qopt = qopt_of_bytes parms;
               let (rspec, rtabs) =
                 rtab_probe (env_roundup env) (rtab_kmalloc env) (qopt_rate qopt) (tb TCA_TBF_RTAB) rtabs;
               let (pspec, rtabs) =
                 rtab_probe (env_roundup env) (ptab_kmalloc env) (qopt_peakrate qopt) (tb TCA_TBF_PTAB) rtabs;
               let qopt = qopt\<lparr>qopt_rate := rspec, qopt_peakrate := pspec\<rparr>;
               let buffer = min (psched_ticks2ns h (qopt_buffer qopt)) 0xFFFFFFFF;
               let mtu = min (psched_ticks2ns h (qopt_mtu qopt)) 0xFFFFFFFF;
               let rate64 = (case tb TCA_TBF_RATE64 of None \<Rightarrow> 0 | Some a \<Rightarrow> le64 a);
               rate \<leftarrow> psched_ratecfg_precompute (qopt_rate qopt) rate64;
               let (max_size, buffer) =
                 (case tb TCA_TBF_BURST of
                    Some a \<Rightarrow> (ucast (le32 a) :: u64, psched_l2t_ns h rate (le32 a))
                  | None \<Rightarrow> (min (psched_ns_t2l rate buffer) 0xFFFFFFFF, buffer));
               pk \<leftarrow> tbf_change_peak h tb qopt rate max_size mtu;
               Some (case pk of
                       Inl err \<Rightarrow> Inl err
                     | Inr (peak, max_size, mtu) \<Rightarrow>
                         if max_size = 0 then Inl (- EINVAL)
                         else Inr \<lparr>p_qopt = qopt, p_rate = rate, p_peak = peak,
                                   p_max_size = max_size, p_buffer = buffer, p_mtu = mtu,
                                   p_burst_given = (tb TCA_TBF_BURST \<noteq> None),
                                   p_pburst_given = (tb TCA_TBF_PBURST \<noteq> None)\<rparr>,
                     rtabs) }))"

text \<open>
  The inner qdisc of the new configuration: an existing one gets the new limit, a missing one is
  created when there is a limit. The result is the error, the inner qdisc and the child to
  install. \<open>None\<close> is a call through a NULL pointer.
\<close>

definition tbf_change_child ::
  "'c Qdisc_ops \<Rightarrow> 'c tbf_change_env \<Rightarrow> 'c \<Rightarrow> u32 \<Rightarrow> (int \<times> 'c \<times> 'c option) option" where
  "tbf_change_child ops env c limit =
     (if \<not> is_noop_qdisc env c then do {
        (err, c') \<leftarrow> fifo_set_limit ops (nla_kmalloc_ok env) c limit;
        Some (err, c', None) }
      else if 0 < limit then do {
        r \<leftarrow> fifo_create_dflt ops (nla_kmalloc_ok env) (created_qdisc env) limit;
        Some (case r of Inl err \<Rightarrow> (err, c, None) | Inr child \<Rightarrow> (0, c, Some child)) }
      else Some (0, c, None))"

text \<open>The assignments under the tree lock. The bucket levels are not touched.\<close>

definition tbf_change_commit ::
  "sched_hdr \<Rightarrow> 'c tbf_change_env \<Rightarrow> tbf_params \<Rightarrow> 'c option \<Rightarrow> 'c tbf_sch \<Rightarrow> 'c tbf_sch" where
  "tbf_change_commit h env p child sch =
     (let sch = (case child of
                   None \<Rightarrow> sch
                 | Some ch \<Rightarrow>
                     let sch = qdisc_tree_flush_backlog env (tbf_qdisc (t_q sch)) sch
                     in sch\<lparr>t_q := (t_q sch)\<lparr>tbf_qdisc := ch\<rparr>\<rparr>);
          q = t_q sch;
          q = q\<lparr>tbf_limit := qopt_limit (p_qopt p),
                tbf_mtu := (if p_pburst_given p then p_mtu p
                            else psched_ticks2ns h (qopt_mtu (p_qopt p))),
                tbf_max_size := ucast (p_max_size p),
                tbf_buffer := (if p_burst_given p then p_buffer p
                               else psched_ticks2ns h (qopt_buffer (p_qopt p))),
                tbf_rate := p_rate p,
                tbf_peak := p_peak p\<rparr>
      in sch\<lparr>t_q := q\<rparr>)"

definition tbf_change ::
  "sched_hdr \<Rightarrow> 'c Qdisc_ops \<Rightarrow> 'c tbf_change_env \<Rightarrow> u8 list \<Rightarrow> 'c tbf_sch \<Rightarrow>
   qdisc_rate_table list \<Rightarrow> (int \<times> 'c tbf_sch \<times> qdisc_rate_table list) option" where
  "tbf_change h ops env opt sch rtabs = do {
     (r, rtabs') \<leftarrow> tbf_change_params h env opt rtabs;
     (case r of
        Inl err \<Rightarrow> Some (err, sch, rtabs')
      | Inr p \<Rightarrow> do {
          (err, c, child) \<leftarrow> tbf_change_child ops env (tbf_qdisc (t_q sch)) (qopt_limit (p_qopt p));
          let sch = sch\<lparr>t_q := (t_q sch)\<lparr>tbf_qdisc := c\<rparr>\<rparr>;
          Some (if err \<noteq> 0 then (err, sch, rtabs')
                else (0, tbf_change_commit h env p child sch, rtabs')) }) }"

text \<open>
  \<^verbatim>\<open>tbf_change\<close> of the mainline kernel, \<^verbatim>\<open>net/sched/sch_tbf.c\<close> of the same repository, translated from its own text, statement by
  statement: none of the definitions for the steps of the function above are used, only the functions that both call.
\<close>

definition tbf_change_mainline ::
  "sched_hdr \<Rightarrow> 'c Qdisc_ops \<Rightarrow> 'c tbf_change_env \<Rightarrow> u8 list \<Rightarrow> 'c tbf_sch \<Rightarrow>
   qdisc_rate_table list \<Rightarrow> (int \<times> 'c tbf_sch \<times> qdisc_rate_table list) option" where
  "tbf_change_mainline h ops env opt sch rtabs =
     (case nla_parse_nested env 8 opt tbf_policy of
        Inl err \<Rightarrow> Some (err, sch, rtabs)
      | Inr tb \<Rightarrow>
     (case tb TCA_TBF_PARMS of
        None \<Rightarrow> Some (- EINVAL, sch, rtabs)
      | Some data \<Rightarrow> do {
     let qopt = qopt_of_bytes data;
     let (qopt, rtabs) =
       (if rs_linklayer (qopt_rate qopt) = TC_LINKLAYER_UNAWARE then
          (case qdisc_get_rtab (env_roundup env) (rtab_kmalloc env) (qopt_rate qopt) (tb TCA_TBF_RTAB) rtabs of
             (tab, r, rtabs) \<Rightarrow> (qopt\<lparr>qopt_rate := r\<rparr>, qdisc_put_rtab tab rtabs))
        else (qopt, rtabs));
     let (qopt, rtabs) =
       (if rs_linklayer (qopt_peakrate qopt) = TC_LINKLAYER_UNAWARE then
          (case qdisc_get_rtab (env_roundup env) (ptab_kmalloc env) (qopt_peakrate qopt) (tb TCA_TBF_PTAB) rtabs of
             (tab, r, rtabs) \<Rightarrow> (qopt\<lparr>qopt_peakrate := r\<rparr>, qdisc_put_rtab tab rtabs))
        else (qopt, rtabs));
     let buffer = min (psched_ticks2ns h (qopt_buffer qopt)) 0xFFFFFFFF;
     let mtu = min (psched_ticks2ns h (qopt_mtu qopt)) 0xFFFFFFFF;
     let rate64 = (if tb TCA_TBF_RATE64 \<noteq> None then le64 (the (tb TCA_TBF_RATE64)) else 0);
     rate \<leftarrow> psched_ratecfg_precompute (qopt_rate qopt) rate64;
     let max_size = (if tb TCA_TBF_BURST \<noteq> None then ucast (le32 (the (tb TCA_TBF_BURST))) else min (psched_ns_t2l rate buffer) 0xFFFFFFFF :: u64);
     let buffer = (if tb TCA_TBF_BURST \<noteq> None then psched_l2t_ns h rate (ucast max_size) else buffer);
     let has_peak = (rs_rate (qopt_peakrate qopt) \<noteq> 0);
     let prate64 = (if tb TCA_TBF_PRATE64 \<noteq> None then le64 (the (tb TCA_TBF_PRATE64)) else 0);
     peak \<leftarrow> (if has_peak then psched_ratecfg_precompute (qopt_peakrate qopt) prate64 else Some ratecfg_zero);
     if has_peak \<and> rate_bytes_ps peak \<le> rate_bytes_ps rate then Some (- EINVAL, sch, rtabs)
     else do {
       let pburst = le32 (the (tb TCA_TBF_PBURST));
       let max_size = (if \<not> has_peak then max_size
                       else if tb TCA_TBF_PBURST \<noteq> None then ucast (min (ucast max_size) pburst)
                       else min max_size (psched_ns_t2l peak mtu));
       let mtu = (if has_peak \<and> tb TCA_TBF_PBURST \<noteq> None then psched_l2t_ns h peak pburst else mtu);
       if max_size = 0 then Some (- EINVAL, sch, rtabs)
       else do {
         let q = t_q sch;
         (err, q, child) \<leftarrow>
           (if \<not> is_noop_qdisc env (tbf_qdisc q) then do {
              (err, c) \<leftarrow> fifo_set_limit ops (nla_kmalloc_ok env) (tbf_qdisc q) (qopt_limit qopt);
              Some (err, q\<lparr>tbf_qdisc := c\<rparr>, None) }
            else if 0 < qopt_limit qopt then do {
              r \<leftarrow> fifo_create_dflt ops (nla_kmalloc_ok env) (created_qdisc env) (qopt_limit qopt);
              Some (case r of Inl err \<Rightarrow> (err, q, None) | Inr child \<Rightarrow> (0, q, Some child)) }
            else Some (0, q, None));
         let sch = sch\<lparr>t_q := q\<rparr>;
         if err \<noteq> 0 then Some (err, sch, rtabs)
         else do {
           let sch = (if child \<noteq> None then qdisc_tree_flush_backlog env (tbf_qdisc q) sch else sch);
           let q = (if child \<noteq> None then (t_q sch)\<lparr>tbf_qdisc := the child\<rparr> else t_q sch);
           let q = q\<lparr>tbf_limit := qopt_limit qopt\<rparr>;
           let q = (if tb TCA_TBF_PBURST \<noteq> None then q\<lparr>tbf_mtu := mtu\<rparr> else q\<lparr>tbf_mtu := psched_ticks2ns h (qopt_mtu qopt)\<rparr>);
           let q = q\<lparr>tbf_max_size := ucast max_size\<rparr>;
           let q = (if tb TCA_TBF_BURST \<noteq> None then q\<lparr>tbf_buffer := buffer\<rparr> else q\<lparr>tbf_buffer := psched_ticks2ns h (qopt_buffer qopt)\<rparr>);
           let q = q\<lparr>tbf_tokens := tbf_buffer q\<rparr>;
           let q = q\<lparr>tbf_ptokens := tbf_mtu q\<rparr>;
           let q = q\<lparr>tbf_rate := rate, tbf_peak := peak\<rparr>;
           Some (0, sch\<lparr>t_q := q\<rparr>, rtabs) } } } }))"

definition tbf_init ::
  "sched_hdr \<Rightarrow> 'c Qdisc_ops \<Rightarrow> 'c tbf_change_env \<Rightarrow> 'c \<Rightarrow> s64 \<Rightarrow> u8 list option \<Rightarrow> 'c tbf_sch \<Rightarrow>
   qdisc_rate_table list \<Rightarrow> (int \<times> 'c tbf_sch \<times> qdisc_rate_table list) option" where
  "tbf_init h ops env noop now opt sch rtabs =
     (let q = (t_q sch)\<lparr>tbf_watchdog := qdisc_watchdog_init (tbf_watchdog (t_q sch)), tbf_qdisc := noop\<rparr>
      in case opt of
           None \<Rightarrow> Some (- EINVAL, sch\<lparr>t_q := q\<rparr>, rtabs)
         | Some opt \<Rightarrow> tbf_change h ops env opt (sch\<lparr>t_q := q\<lparr>tbf_t_c := now\<rparr>\<rparr>) rtabs)"

text \<open>The reference to the inner qdisc is dropped; it is returned as released.\<close>

definition tbf_destroy :: "'c tbf_sch \<Rightarrow> 'c tbf_sch \<times> 'c" where
  "tbf_destroy sch =
     (sch\<lparr>t_q := (t_q sch)\<lparr>tbf_watchdog := qdisc_watchdog_cancel (tbf_watchdog (t_q sch))\<rparr>\<rparr>,
      tbf_qdisc (t_q sch))"

section \<open>Dump and class operations\<close>

record 'm nla_ops =
  nla_nest_start :: "'m \<Rightarrow> nat \<Rightarrow> 'm option"
  nla_put :: "'m \<Rightarrow> nat \<Rightarrow> u8 list \<Rightarrow> 'm option"
  nla_put_u64_64bit :: "'m \<Rightarrow> nat \<Rightarrow> u64 \<Rightarrow> nat \<Rightarrow> 'm option"
  nla_nest_end :: "'m \<Rightarrow> int \<times> 'm"
  nla_nest_cancel :: "'m \<Rightarrow> 'm"

definition ratespec_zero :: tc_ratespec where
  "ratespec_zero = \<lparr>rs_cell_log = 0, rs_linklayer = 0, rs_overhead = 0, rs_cell_align = 0,
                    rs_mpu = 0, rs_rate = 0\<rparr>"

definition tbf_dump_opt :: "sched_hdr \<Rightarrow> 'c tbf_sched_data \<Rightarrow> tc_tbf_qopt" where
  "tbf_dump_opt h q = \<lparr>
     qopt_rate = psched_ratecfg_getrate h (tbf_rate q),
     qopt_peakrate = (if tbf_peak_present q then psched_ratecfg_getrate h (tbf_peak q)
                      else ratespec_zero),
     qopt_limit = tbf_limit q,
     qopt_buffer = psched_ns2ticks h (tbf_buffer q),
     qopt_mtu = psched_ns2ticks h (tbf_mtu q)\<rparr>"

definition tbf_dump ::
  "sched_hdr \<Rightarrow> 'm nla_ops \<Rightarrow> 'c Qdisc_ops \<Rightarrow> 'c tbf_sch \<Rightarrow> 'm \<Rightarrow> int \<times> 'c tbf_sch \<times> 'm" where
  "tbf_dump h n ops sch skb =
     (let q = t_q sch;
          sch = sch\<lparr>t_st := (t_st sch)\<lparr>qs_backlog := qs_backlog (op_stats ops (tbf_qdisc q))\<rparr>\<rparr>;
          opt = tbf_dump_opt h q;
          put64 = (\<lambda>cond attr v m. if cond then nla_put_u64_64bit n m attr v TCA_TBF_PAD else Some m);
          full = do {
            m \<leftarrow> nla_nest_start n skb TCA_OPTIONS;
            m \<leftarrow> nla_put n m TCA_TBF_PARMS (qopt_bytes opt);
            m \<leftarrow> put64 (push_bit 32 1 \<le> rate_bytes_ps (tbf_rate q)) TCA_TBF_RATE64
                   (rate_bytes_ps (tbf_rate q)) m;
            m \<leftarrow> put64 (tbf_peak_present q \<and> push_bit 32 1 \<le> rate_bytes_ps (tbf_peak q))
                   TCA_TBF_PRATE64 (rate_bytes_ps (tbf_peak q)) m;
            Some m }
      in case full of
           None \<Rightarrow> (-1, sch, nla_nest_cancel n skb)
         | Some m \<Rightarrow> (let (ret, m) = nla_nest_end n m in (ret, sch, m)))"

definition tbf_dump_class :: "'c Qdisc_ops \<Rightarrow> 'c tbf_sch \<Rightarrow> u32 \<Rightarrow> u32 \<times> u32" where
  "tbf_dump_class ops sch tcm_handle =
     (tcm_handle OR (1 AND 0x0000FFFF), op_handle ops (tbf_qdisc (t_q sch)))"

text \<open>
  \<open>replace\<close> is the header function \<^verbatim>\<open>qdisc_replace\<close>: it swaps the inner qdisc and settles the
  counters; the old inner qdisc is handed back.
\<close>

definition tbf_graft ::
  "('c tbf_sch \<Rightarrow> 'c \<Rightarrow> 'c \<times> 'c tbf_sch) \<Rightarrow> 'c \<Rightarrow> 'c option \<Rightarrow> 'c tbf_sch \<Rightarrow> int \<times> 'c \<times> 'c tbf_sch" where
  "tbf_graft replace noop new sch =
     (let new = (case new of None \<Rightarrow> noop | Some c \<Rightarrow> c);
          (old, sch) = replace sch new
      in (0, old, sch))"

definition tbf_leaf :: "'c tbf_sch \<Rightarrow> 'c" where
  "tbf_leaf sch = tbf_qdisc (t_q sch)"

definition tbf_find :: "'c tbf_sch \<Rightarrow> u32 \<Rightarrow> nat" where
  "tbf_find sch classid = 1"

record 'a qdisc_walker =
  w_stop :: bool
  w_skip :: int
  w_count :: int
  w_data :: 'a

definition tbf_walk ::
  "('c tbf_sch \<Rightarrow> nat \<Rightarrow> 'a \<Rightarrow> int \<times> 'a) \<Rightarrow> 'c tbf_sch \<Rightarrow> 'a qdisc_walker \<Rightarrow> 'a qdisc_walker" where
  "tbf_walk fn sch w =
     (if w_stop w then w
      else if w_skip w \<le> w_count w then
        (let (r, d) = fn sch 1 (w_data w); w = w\<lparr>w_data := d\<rparr>
         in if r < 0 then w\<lparr>w_stop := True\<rparr> else w\<lparr>w_count := w_count w + 1\<rparr>)
      else w\<lparr>w_count := w_count w + 1\<rparr>)"

end
