(* ===== verification/Tbf_Correct.thy ===== *)
theory Tbf_Correct
  imports Sch_Tbf "HOL-Library.Sublist"
begin

text \<open>
  Correctness of the token bucket filter. The first part relates the 64-bit token arithmetic
  of \<^verbatim>\<open>tbf_dequeue\<close> to the bucket of the file's own description,
  \<open>N(t + d) = min (B, N(t) + d)\<close>; the second gives the behaviour of a dequeue over any inner
  qdisc that meets the contract \<open>inner_qdisc\<close>; the third runs sequences of enqueues, dequeues
  and reconfigurations and bounds what leaves the filter.
\<close>

section \<open>The bucket\<close>

definition bucket_level :: "int \<Rightarrow> int \<Rightarrow> int \<Rightarrow> int" where
  "bucket_level depth level elapsed = min depth (level + elapsed)"

definition time_ok :: "s64 \<Rightarrow> bool" where
  "time_ok t \<longleftrightarrow> 0 \<le> sint t \<and> sint t < 2 ^ 62"

definition l2t_ok :: "sched_hdr \<Rightarrow> psched_ratecfg \<Rightarrow> bool" where
  "l2t_ok h r \<longleftrightarrow> (\<forall>len. unat (psched_l2t_ns h r len) < 2 ^ 62)"

text \<open>Cost of a packet in nanoseconds at a rate.\<close>

definition l2t_cost :: "sched_hdr \<Rightarrow> psched_ratecfg \<Rightarrow> u32 \<Rightarrow> int" where
  "l2t_cost h r len = int (unat (psched_l2t_ns h r len))"

lemma l2t_cost_uint [code]: "l2t_cost h r len = uint (psched_l2t_ns h r len)"
  by (simp add: l2t_cost_def)

definition tbf_inv :: "sched_hdr \<Rightarrow> 'c tbf_sched_data \<Rightarrow> bool" where
  "tbf_inv h q \<longleftrightarrow>
     time_ok (tbf_buffer q) \<and> time_ok (tbf_mtu q) \<and> time_ok (tbf_tokens q) \<and>
     time_ok (tbf_ptokens q) \<and> time_ok (tbf_t_c q) \<and> l2t_ok h (tbf_rate q) \<and>
     (tbf_peak_present q \<longrightarrow> l2t_ok h (tbf_peak q))"

lemma l2t_cost_range:
  assumes "l2t_ok h r"
  shows "sint (psched_l2t_ns h r len) = l2t_cost h r len"
    and "0 \<le> l2t_cost h r len" and "l2t_cost h r len < 2 ^ 62"
proof -
  have lt: "unat (psched_l2t_ns h r len) < 2 ^ 62"
    using assms by (simp add: l2t_ok_def)
  then have lt': "uint (psched_l2t_ns h r len) < 2 ^ 62"
    by (metis of_nat_less_numeral_power_cancel_iff uint_nat)
  then have "uint (psched_l2t_ns h r len) < 2 ^ 63"
    by simp
  then show "sint (psched_l2t_ns h r len) = l2t_cost h r len"
    by (simp add: sint_eq_uint_s64 l2t_cost_def)
  show "0 \<le> l2t_cost h r len" "l2t_cost h r len < 2 ^ 62"
    using lt' by (simp_all add: l2t_cost_def)
qed

lemma s64_ifs [simp]:
  "sint (if a <s b then a else b) = min (sint a) (sint b)"
  "sint (s64_min_t a b) = min (sint a) (sint b)"
  "sint (if b <s a then b else a) = min (sint a) (sint b)"
  "sint (s64_max_t a b) = max (sint a) (sint b)"
  by (auto simp: s64_min_t_def s64_max_t_def word_sless_alt)

lemma tbf_toks_inner [simp]: "tbf_toks h (q\<lparr>tbf_qdisc := c\<rparr>) = tbf_toks h q"
  by (simp add: tbf_toks_def tbf_peak_present_def fun_eq_iff Let_def)

text \<open>One bucket, over the words: refill by at most \<open>cap\<close>, clamp at the depth, pay the cost.\<close>

definition refill :: "s64 \<Rightarrow> s64 \<Rightarrow> s64 \<Rightarrow> s64 \<Rightarrow> s64" where
  "refill depth gain level cost =
     (let t = gain + level in (if depth <s t then depth else t) - cost)"

lemma tbf_toks_refill:
  "tbf_toks h q now len =
     (let gain = s64_min_t (now - tbf_t_c q) (tbf_buffer q)
      in (refill (tbf_buffer q) gain (tbf_tokens q) (psched_l2t_ns h (tbf_rate q) len),
          if tbf_peak_present q
          then refill (tbf_mtu q) gain (tbf_ptokens q) (psched_l2t_ns h (tbf_peak q) len) else 0))"
  by (simp add: tbf_toks_def refill_def Let_def)

lemma sint_refill:
  assumes "time_ok depth" "time_ok gain" "time_ok level" "0 \<le> sint cost" "sint cost < 2 ^ 62"
  shows "sint (refill depth gain level cost) =
           bucket_level (sint depth) (sint level) (sint gain) - sint cost"
proof -
  have "sint (gain + level) = sint gain + sint level"
    using assms by (intro sint_add_s64) (simp add: in_s64_def time_ok_def)
  then have clamp: "sint (if depth <s gain + level then depth else gain + level) =
      bucket_level (sint depth) (sint level) (sint gain)"
    by (auto simp: bucket_level_def word_sless_alt)
  then show ?thesis
    unfolding refill_def Let_def using assms
    by (subst sint_sub_s64) (auto simp: in_s64_def time_ok_def bucket_level_def clamp)
qed

lemma sint_gain:
  assumes "tbf_inv h q" "time_ok now" "sint (tbf_t_c q) \<le> sint now"
  shows "sint (s64_min_t (now - tbf_t_c q) (tbf_buffer q)) =
           min (sint now - sint (tbf_t_c q)) (sint (tbf_buffer q))"
    and "time_ok (s64_min_t (now - tbf_t_c q) (tbf_buffer q))"
proof -
  have "sint (now - tbf_t_c q) = sint now - sint (tbf_t_c q)"
    using assms by (intro sint_sub_s64) (simp add: in_s64_def tbf_inv_def time_ok_def)
  then show "sint (s64_min_t (now - tbf_t_c q) (tbf_buffer q)) =
           min (sint now - sint (tbf_t_c q)) (sint (tbf_buffer q))" by simp
  with assms show "time_ok (s64_min_t (now - tbf_t_c q) (tbf_buffer q))"
    by (auto simp: time_ok_def tbf_inv_def min_def)
qed

lemma bucket_level_capped:
  "0 \<le> level \<Longrightarrow> bucket_level depth level (min elapsed depth) = bucket_level depth level elapsed"
  by (simp add: bucket_level_def)

lemma bucket_level_mono: "e \<le> e' \<Longrightarrow> bucket_level d l e \<le> bucket_level d l e'"
  by (simp add: bucket_level_def)

lemma tbf_toks_rate:
  assumes inv: "tbf_inv h q" and now: "time_ok now" "sint (tbf_t_c q) \<le> sint now"
  shows "sint (fst (tbf_toks h q now len)) =
           bucket_level (sint (tbf_buffer q)) (sint (tbf_tokens q)) (sint now - sint (tbf_t_c q))
           - l2t_cost h (tbf_rate q) len"
proof -
  have "l2t_ok h (tbf_rate q)" "time_ok (tbf_buffer q)" "time_ok (tbf_tokens q)"
    using inv by (simp_all add: tbf_inv_def)
  with sint_gain [OF inv now] l2t_cost_range [OF this(1), of len] show ?thesis
    by (simp add: tbf_toks_refill Let_def sint_refill bucket_level_capped time_ok_def)
qed

lemma tbf_toks_peak:
  assumes inv: "tbf_inv h q" and now: "time_ok now" "sint (tbf_t_c q) \<le> sint now"
    and peak: "tbf_peak_present q"
  shows "sint (snd (tbf_toks h q now len)) =
           bucket_level (sint (tbf_mtu q)) (sint (tbf_ptokens q))
             (min (sint now - sint (tbf_t_c q)) (sint (tbf_buffer q)))
           - l2t_cost h (tbf_peak q) len"
proof -
  have "l2t_ok h (tbf_peak q)" "time_ok (tbf_mtu q)" "time_ok (tbf_ptokens q)"
    using inv peak by (simp_all add: tbf_inv_def)
  with sint_gain [OF inv now] l2t_cost_range [OF this(1), of len] peak show ?thesis
    by (simp add: tbf_toks_refill Let_def sint_refill)
qed

lemma tbf_toks_no_peak: "\<not> tbf_peak_present q \<Longrightarrow> snd (tbf_toks h q now len) = 0"
  by (simp add: tbf_toks_refill Let_def)

section \<open>One dequeue\<close>

lemma sle_or_nonneg: "0 \<le>s (a OR b :: s64) \<longleftrightarrow> 0 \<le> sint a \<and> 0 \<le> sint b"
  by (simp add: word_sle_eq sint_or_nonneg)

definition sent_stats :: "sched_hdr \<Rightarrow> sk_buff \<Rightarrow> qdisc_stats \<Rightarrow> qdisc_stats" where
  "sent_stats h skb st = (let st = qdisc_qstats_backlog_dec h skb st
     in qdisc_bstats_update h skb (st\<lparr>q_qlen := q_qlen st - 1\<rparr>))"

text \<open>The packets an enqueue may put into the inner queue: the packet itself or its segments.\<close>

definition offered :: "gso_env \<Rightarrow> sk_buff \<Rightarrow> sk_buff list" where
  "offered g skb = skb # (case skb_gso_segment g skb (netif_skb_features g skb AND NOT (netif_f_gso_mask g)) of
     None \<Rightarrow> [] | Some segs \<Rightarrow> map (\<lambda>s. s\<lparr>pkt_len := skb_len s\<rparr>) segs)"

context inner_qdisc
begin

lemma dequeue_empty_queue:
  assumes "inv (tbf_qdisc (t_q sch))" "skbs (tbf_qdisc (t_q sch)) = []"
  shows "\<exists>c. inv c \<and> skbs c = [] \<and>
           tbf_dequeue h ops now sch = (None, sch\<lparr>t_q := (t_q sch)\<lparr>tbf_qdisc := c\<rparr>\<rparr>)"
proof -
  obtain p c where peek: "op_peek ops (tbf_qdisc (t_q sch)) = (p, c)" by fastforce
  from peek_law [OF assms(1) this] assms(2) have "p = None" "skbs c = []" "inv c" by auto
  with peek show ?thesis by (auto simp: tbf_dequeue_def Let_def)
qed

lemma dequeue_sends:
  assumes "inv (tbf_qdisc (t_q sch))" "skbs (tbf_qdisc (t_q sch)) = skb # rest"
    and "tbf_toks h (t_q sch) now (pkt_len skb) = (toks, ptoks)"
    and "0 \<le> sint toks" "0 \<le> sint ptoks"
  shows "\<exists>c. inv c \<and> skbs c = rest \<and>
           tbf_dequeue h ops now sch =
             (Some skb, sch\<lparr>t_q := (t_q sch)\<lparr>tbf_qdisc := c, tbf_t_c := now,
                                           tbf_tokens := toks, tbf_ptokens := ptoks\<rparr>,
                            t_st := sent_stats h skb (t_st sch)\<rparr>)"
proof -
  from dequeue_nonempty [OF assms(1,2)] obtain c1 c2 where
    "op_peek ops (tbf_qdisc (t_q sch)) = (Some skb, c1)" "op_dequeue_peeked ops c1 = (Some skb, c2)"
    "skbs c2 = rest" "inv c2" by blast
  with assms(3-5) show ?thesis
    by (intro exI [of _ c2]) (simp add: tbf_dequeue_def Let_def sle_or_nonneg sent_stats_def)
qed

lemma dequeue_throttles:
  assumes "inv (tbf_qdisc (t_q sch))" "skbs (tbf_qdisc (t_q sch)) = skb # rest"
    and "tbf_toks h (t_q sch) now (pkt_len skb) = (toks, ptoks)"
    and "\<not> (0 \<le> sint toks \<and> 0 \<le> sint ptoks)"
  shows "\<exists>c. inv c \<and> skbs c = skb # rest \<and>
           tbf_dequeue h ops now sch =
             (None, sch\<lparr>t_q := (t_q sch)\<lparr>tbf_qdisc := c, tbf_watchdog :=
                          qdisc_watchdog_schedule_ns (t_deactivated sch)
                            (now + s64_max_t (- toks) (- ptoks)) (tbf_watchdog (t_q sch))\<rparr>,
                        t_st := qdisc_qstats_overlimit h (t_st sch)\<rparr>)"
proof -
  obtain p c where peek: "op_peek ops (tbf_qdisc (t_q sch)) = (p, c)" by fastforce
  from peek_law [OF assms(1) this] assms(2) have "p = Some skb" "skbs c = skb # rest" "inv c"
    by auto
  moreover have "\<not> 0 \<le>s (toks OR ptoks)"
    using assms(4) by (simp only: sle_or_nonneg not_False_eq_True)
  ultimately show ?thesis
    using peek assms(3) by (intro exI [of _ c]) (simp add: tbf_dequeue_def Let_def)
qed

text \<open>The packet that leaves is the head of the inner queue, and the rest stays in order.\<close>

lemma dequeue_fifo:
  assumes "inv (tbf_qdisc (t_q sch))" "tbf_dequeue h ops now sch = (r, sch')"
  shows "inv (tbf_qdisc (t_q sch')) \<and>
         skbs (tbf_qdisc (t_q sch)) =
           (case r of None \<Rightarrow> [] | Some skb \<Rightarrow> [skb]) @ skbs (tbf_qdisc (t_q sch'))"
proof (cases "skbs (tbf_qdisc (t_q sch))")
  case Nil
  with dequeue_empty_queue [OF assms(1), of h now] assms(2) show ?thesis by auto
next
  case (Cons skb rest)
  obtain toks ptoks where t: "tbf_toks h (t_q sch) now (pkt_len skb) = (toks, ptoks)" by fastforce
  show ?thesis
  proof (cases "0 \<le> sint toks \<and> 0 \<le> sint ptoks")
    case True
    with dequeue_sends [OF assms(1) Cons t] assms(2) Cons show ?thesis by auto
  next
    case False
    with dequeue_throttles [OF assms(1) Cons t] assms(2) Cons show ?thesis by auto
  qed
qed

lemma segment_loop_inv:
  assumes "inv c" "tbf_segment_loop h ops segs len nb c st tf = (len', nb', c', st', tf')"
  shows "inv c' \<and> (\<exists>acc. skbs c' = skbs c @ acc \<and> length acc + nb = nb' \<and>
           subseq acc (map (\<lambda>s. s\<lparr>pkt_len := skb_len s\<rparr>) segs))"
  using assms
proof (induction segs arbitrary: len nb c st tf)
  case (Cons seg segs)
  let ?seg = "seg\<lparr>pkt_len := skb_len seg\<rparr>"
  obtain ret c1 tf1 where enq: "op_enqueue ops ?seg c tf = (ret, c1, tf1)"
    by (metis prod_cases3)
  note law = enqueue_law [OF Cons.prems(1) enq]
  show ?case
  proof (cases "ret = NET_XMIT_SUCCESS")
    case True
    then have "tbf_segment_loop h ops segs (len + skb_len ?seg) (Suc nb) c1 st tf1 = (len', nb', c', st', tf')"
      using Cons.prems(2) enq by (simp add: Let_def)
    from Cons.IH [OF _ this] law obtain acc where "inv c'" "skbs c' = skbs c1 @ acc"
      "length acc + Suc nb = nb'" "subseq acc (map (\<lambda>s. s\<lparr>pkt_len := skb_len s\<rparr>) segs)" by auto
    with law True show ?thesis by (intro conjI exI [of _ "?seg # acc"]) auto
  next
    case False
    then obtain st1 where "tbf_segment_loop h ops segs (len + skb_len ?seg) nb c1 st1 tf1 = (len', nb', c', st', tf')"
      using Cons.prems(2) enq by (auto simp: Let_def)
    from Cons.IH [OF _ this] law obtain acc where "inv c'" "skbs c' = skbs c1 @ acc"
      "length acc + nb = nb'" "subseq acc (map (\<lambda>s. s\<lparr>pkt_len := skb_len s\<rparr>) segs)" by auto
    with law False show ?thesis by (intro conjI exI [of _ acc]) auto
  qed
qed simp

lemma enqueue_only_queue:
  assumes "inv (tbf_qdisc (t_q sch))" "tbf_enqueue h g ops skb sch tf = (ret, sch', tf')"
  shows "\<exists>c. inv c \<and> t_q sch' = (t_q sch)\<lparr>tbf_qdisc := c\<rparr> \<and>
           (\<exists>acc. skbs c = skbs (tbf_qdisc (t_q sch)) @ acc \<and> subseq acc (offered g skb))"
proof (cases "tbf_max_size (t_q sch) < pkt_len skb")
  case True
  show ?thesis
  proof (cases "t_q sch' = t_q sch")
    case True
    with assms(1) show ?thesis by (intro exI [of _ "tbf_qdisc (t_q sch)"]) auto
  next
    case False
    with True assms(2) obtain segs len nb c st tf1 where
      loop: "tbf_segment_loop h ops segs 0 0 (tbf_qdisc (t_q sch)) (t_st sch) tf = (len, nb, c, st, tf1)"
      and c: "t_q sch' = (t_q sch)\<lparr>tbf_qdisc := c\<rparr>"
      and segs: "skb_gso_segment g skb (netif_skb_features g skb AND NOT (netif_f_gso_mask g)) = Some segs"
      by (auto simp: tbf_enqueue_def tbf_segment_def Let_def split: if_splits prod.splits option.splits)
    from segment_loop_inv [OF assms(1) loop] obtain acc where "inv c"
      "skbs c = skbs (tbf_qdisc (t_q sch)) @ acc"
      "subseq acc (map (\<lambda>s. s\<lparr>pkt_len := skb_len s\<rparr>) segs)" by blast
    with c segs show ?thesis
      by (intro exI [of _ c]) (auto simp: offered_def intro: subseq_Cons')
  qed
next
  case False
  obtain r c tf1 where enq: "op_enqueue ops skb (tbf_qdisc (t_q sch)) tf = (r, c, tf1)"
    by (metis prod_cases3)
  with False assms(2) have "t_q sch' = (t_q sch)\<lparr>tbf_qdisc := c\<rparr>"
    by (auto simp: tbf_enqueue_def Let_def split: if_splits)
  moreover have "\<exists>acc. skbs c = skbs (tbf_qdisc (t_q sch)) @ acc \<and> subseq acc (offered g skb)"
    using enqueue_law [OF assms(1) enq]
    by (intro exI [of _ "if r = NET_XMIT_SUCCESS then [skb] else []"]) (auto simp: offered_def)
  ultimately show ?thesis using enqueue_law [OF assms(1) enq] by blast
qed

end

section \<open>Reconfiguration\<close>

text \<open>The change operation of an inner qdisc keeps its packets.\<close>

locale inner_qdisc_change = inner_qdisc +
  assumes change_law: "inv c \<Longrightarrow> op_change ops c = Some f \<Longrightarrow> f nla = (err, c') \<Longrightarrow>
      skbs c' = skbs c \<and> inv c'"
begin

lemma set_limit_keeps:
  assumes "inv c" "fifo_set_limit ops km c limit = Some (err, c')"
  shows "skbs c' = skbs c \<and> inv c'"
  using assms change_law [OF assms(1)]
  by (auto simp: fifo_set_limit_def split: if_splits option.splits)

end

text \<open>
  What the environment of a reconfiguration guarantees: a freshly created inner qdisc is empty
  and well formed, and flushing the backlog of the old inner qdisc only touches counters.
\<close>

definition change_env_ok :: "('c \<Rightarrow> sk_buff list) \<Rightarrow> ('c \<Rightarrow> bool) \<Rightarrow> 'c tbf_change_env \<Rightarrow> bool" where
  "change_env_ok skbs good env \<longleftrightarrow>
     (\<forall>c. created_qdisc env = Some c \<longrightarrow> good c \<and> skbs c = []) \<and>
     (\<forall>c sch. t_q (qdisc_tree_flush_backlog env c sch) = t_q sch)"

lemma commit_fields:
  assumes "\<forall>c sch. t_q (qdisc_tree_flush_backlog env c sch) = t_q sch"
  shows "t_q (tbf_change_commit h env p child sch) = (t_q sch)\<lparr>
           tbf_qdisc := (case child of None \<Rightarrow> tbf_qdisc (t_q sch) | Some c \<Rightarrow> c),
           tbf_limit := qopt_limit (p_qopt p),
           tbf_mtu := (if p_pburst_given p then p_mtu p else psched_ticks2ns h (qopt_mtu (p_qopt p))),
           tbf_max_size := ucast (p_max_size p),
           tbf_buffer := (if p_burst_given p then p_buffer p
                          else psched_ticks2ns h (qopt_buffer (p_qopt p))),
           tbf_rate := p_rate p, tbf_peak := p_peak p\<rparr>"
  using assms by (simp add: tbf_change_commit_def Let_def split: option.splits)

text \<open>Parameters that \<^verbatim>\<open>tbf_change\<close> accepts: precomputed rates and levels in range.\<close>

definition params_ok :: "sched_hdr \<Rightarrow> tbf_params \<Rightarrow> bool" where
  "params_ok h p \<longleftrightarrow>
     p_max_size p \<noteq> 0 \<and> unat (p_max_size p) < 2 ^ 32 \<and>
     (\<exists>conf r64. psched_ratecfg_precompute conf r64 = Some (p_rate p)) \<and>
     (rate_bytes_ps (p_peak p) \<noteq> 0 \<longrightarrow> rate_bytes_ps (p_rate p) < rate_bytes_ps (p_peak p) \<and>
        (\<exists>conf r64. psched_ratecfg_precompute conf r64 = Some (p_peak p))) \<and>
     unat (p_buffer p) < 2 ^ 62 \<and> unat (p_mtu p) < 2 ^ 62"

lemma hdr_l2t_small:
  "sched_hdr_ok h \<Longrightarrow> psched_ratecfg_precompute conf r64 = Some r \<Longrightarrow> unat (psched_l2t_ns h r len) < 2 ^ 62"
  unfolding sched_hdr_ok_def by blast

lemma hdr_ticks2ns_small: "sched_hdr_ok h \<Longrightarrow> unat (psched_ticks2ns h t) < 2 ^ 62"
  unfolding sched_hdr_ok_def by blast

lemma min_u64_small: "unat (min a b :: u64) \<le> unat a" "unat (min a b :: u64) \<le> unat b"
  by (simp_all add: min_def word_le_nat_alt)

lemma change_peak_ok:
  assumes h: "sched_hdr_ok h"
    and pk: "tbf_change_peak h tb qopt rate max_size mtu = Some (Inr (peak, max_size', mtu'))"
    and "unat mtu < 2 ^ 62" "unat max_size < 2 ^ 32"
  shows "unat mtu' < 2 ^ 62 \<and> unat max_size' < 2 ^ 32 \<and>
    (rate_bytes_ps peak \<noteq> 0 \<longrightarrow> rate_bytes_ps rate < rate_bytes_ps peak \<and>
       (\<exists>conf r64. psched_ratecfg_precompute conf r64 = Some peak))"
proof (cases "rs_rate (qopt_peakrate qopt) = 0")
  case True
  with pk assms(3,4) show ?thesis by (auto simp: tbf_change_peak_def ratecfg_zero_def)
next
  case False
  then obtain r64 where peak: "psched_ratecfg_precompute (qopt_peakrate qopt) r64 = Some peak"
    and lt: "rate_bytes_ps rate < rate_bytes_ps peak"
    using pk by (auto simp: tbf_change_peak_def Let_def not_le split: bind_splits if_splits option.splits)
  have "max_size' = ucast (min (ucast max_size) (le32 a :: u32)) \<and> mtu' = psched_l2t_ns h peak (le32 a)"
    if "tb TCA_TBF_PBURST = Some a" for a
    using pk False that by (auto simp: tbf_change_peak_def Let_def split: bind_splits if_splits)
  moreover have "max_size' = min max_size (psched_ns_t2l peak mtu) \<and> mtu' = mtu"
    if "tb TCA_TBF_PBURST = None"
    using pk False that by (auto simp: tbf_change_peak_def Let_def split: bind_splits if_splits)
  ultimately have "unat mtu' < 2 ^ 62 \<and> unat max_size' < 2 ^ 32"
    using assms(3,4) hdr_l2t_small [OF h peak] unsigned_less [where ?'a = nat and ?'b = 32]
      min_u64_small(1) [of max_size "psched_ns_t2l peak mtu"]
    by (cases "tb TCA_TBF_PBURST") (auto intro: le_less_trans)
  with peak lt show ?thesis by blast
qed

lemma change_params_SomeD:
  assumes "tbf_change_params h env opt rtabs = Some (Inr p, rtabs')"
  obtains tb parms r64 mtu max_size where
    "nla_parse_nested env 8 opt tbf_policy = Inr tb" "tb TCA_TBF_PARMS = Some parms"
    "psched_ratecfg_precompute (qopt_rate (p_qopt p)) r64 = Some (p_rate p)"
    "mtu = min (psched_ticks2ns h (qopt_mtu (p_qopt p))) 0xFFFFFFFF"
    "(max_size, p_buffer p) = (case tb TCA_TBF_BURST of
        Some a \<Rightarrow> (ucast (le32 a), psched_l2t_ns h (p_rate p) (le32 a))
      | None \<Rightarrow> let buffer = min (psched_ticks2ns h (qopt_buffer (p_qopt p))) 0xFFFFFFFF
                in (min (psched_ns_t2l (p_rate p) buffer) 0xFFFFFFFF, buffer))"
    "tbf_change_peak h tb (p_qopt p) (p_rate p) max_size mtu =
       Some (Inr (p_peak p, p_max_size p, p_mtu p))"
    "p_max_size p \<noteq> 0"
    "p_burst_given p = (tb TCA_TBF_BURST \<noteq> None)" "p_pburst_given p = (tb TCA_TBF_PBURST \<noteq> None)"
proof -
  from assms obtain tb parms where tb: "nla_parse_nested env 8 opt tbf_policy = Inr tb"
    "tb TCA_TBF_PARMS = Some parms"
    by (auto simp: tbf_change_params_def split: sum.splits option.splits)
  obtain rspec rt1 where r1: "rtab_probe (env_roundup env) (rtab_kmalloc env)
      (qopt_rate (qopt_of_bytes parms)) (tb TCA_TBF_RTAB) rtabs = (rspec, rt1)" by fastforce
  obtain pspec rt2 where r2: "rtab_probe (env_roundup env) (ptab_kmalloc env)
      (qopt_peakrate (qopt_of_bytes parms)) (tb TCA_TBF_PTAB) rt1 = (pspec, rt2)" by fastforce
  let ?r64 = "case tb TCA_TBF_RATE64 of None \<Rightarrow> 0 | Some a \<Rightarrow> le64 a"
  let ?mtu = "min (psched_ticks2ns h (qopt_mtu (p_qopt p))) 0xFFFFFFFF"
  show thesis
    using assms tb r1 r2
    by (cases "tb TCA_TBF_BURST")
       (auto simp: tbf_change_params_def Let_def split: bind_splits sum.splits if_splits
         intro!: that [OF tb, of ?r64 ?mtu])
qed

lemma change_params_ok:
  assumes h: "sched_hdr_ok h"
    and chg: "tbf_change_params h env opt rtabs = Some (Inr p, rtabs')"
  shows "params_ok h p"
  using chg
proof (rule change_params_SomeD)
  fix tb parms r64 mtu max_size
  assume rate: "psched_ratecfg_precompute (qopt_rate (p_qopt p)) r64 = Some (p_rate p)"
    and mtu: "mtu = min (psched_ticks2ns h (qopt_mtu (p_qopt p))) 0xFFFFFFFF"
    and burst: "(max_size, p_buffer p) = (case tb TCA_TBF_BURST of
        Some a \<Rightarrow> (ucast (le32 a), psched_l2t_ns h (p_rate p) (le32 a))
      | None \<Rightarrow> let buffer = min (psched_ticks2ns h (qopt_buffer (p_qopt p))) 0xFFFFFFFF
                in (min (psched_ns_t2l (p_rate p) buffer) 0xFFFFFFFF, buffer))"
    and peak: "tbf_change_peak h tb (p_qopt p) (p_rate p) max_size mtu =
       Some (Inr (p_peak p, p_max_size p, p_mtu p))"
    and "p_max_size p \<noteq> 0"
  have "unat mtu < 2 ^ 62"
    unfolding mtu by (rule le_less_trans [OF min_u64_small(1) hdr_ticks2ns_small [OF h]])
  have "unat max_size < 2 ^ 32 \<and> unat (p_buffer p) < 2 ^ 62"
  proof (cases "tb TCA_TBF_BURST")
    case None
    then show ?thesis
      using burst le_less_trans [OF min_u64_small(1) hdr_ticks2ns_small [OF h]]
        le_less_trans [OF min_u64_small(2) [of _ "0xFFFFFFFF"], of "2 ^ 32"]
      by (simp add: Let_def)
  next
    case (Some a)
    then show ?thesis
      using burst hdr_l2t_small [OF h rate] unsigned_less [where ?'a = nat and ?'b = 32]
      by simp
  qed
  with change_peak_ok [OF h peak \<open>unat mtu < 2 ^ 62\<close>] rate \<open>p_max_size p \<noteq> 0\<close>
  show "params_ok h p" unfolding params_ok_def by blast
qed

text \<open>A successful change installs the accepted parameters and touches nothing else of the state.\<close>

lemma change_cases:
  assumes "tbf_change h ops env opt sch rtabs = Some (err, sch', rtabs')"
  obtains (rejected) "tbf_change_params h env opt rtabs = Some (Inl err, rtabs')" "sch' = sch"
  | (child) p c child where "tbf_change_params h env opt rtabs = Some (Inr p, rtabs')" "err \<noteq> 0"
      "tbf_change_child ops env (tbf_qdisc (t_q sch)) (qopt_limit (p_qopt p)) = Some (err, c, child)"
      "sch' = sch\<lparr>t_q := (t_q sch)\<lparr>tbf_qdisc := c\<rparr>\<rparr>"
  | (committed) p c child where "tbf_change_params h env opt rtabs = Some (Inr p, rtabs')" "err = 0"
      "tbf_change_child ops env (tbf_qdisc (t_q sch)) (qopt_limit (p_qopt p)) = Some (0, c, child)"
      "sch' = tbf_change_commit h env p child (sch\<lparr>t_q := (t_q sch)\<lparr>tbf_qdisc := c\<rparr>\<rparr>)"
proof -
  from assms obtain r where r: "tbf_change_params h env opt rtabs = Some (r, rtabs')"
    by (auto simp: tbf_change_def Let_def split: bind_splits sum.splits if_splits)
  show thesis
  proof (cases r)
    case (Inl e)
    with assms r rejected show ?thesis by (simp add: tbf_change_def)
  next
    case (Inr p)
    with assms r obtain e c ch where
      c: "tbf_change_child ops env (tbf_qdisc (t_q sch)) (qopt_limit (p_qopt p)) = Some (e, c, ch)"
      by (auto simp: tbf_change_def Let_def split: bind_splits)
    with assms r Inr child [of p c ch] committed [of p c ch] show ?thesis
      by (auto simp: tbf_change_def Let_def split: if_splits)
  qed
qed

lemma time_ok_of_unat:
  assumes "unat t < 2 ^ 62"
  shows "time_ok t"
proof -
  have "uint t < 2 ^ 62"
    using assms by (metis of_nat_less_numeral_power_cancel_iff uint_nat)
  then show ?thesis by (simp add: time_ok_def sint_eq_uint_s64)
qed

lemma commit_inv:
  assumes h: "sched_hdr_ok h" and p: "params_ok h p" and inv: "tbf_inv h (t_q sch)"
    and env: "\<forall>c sch. t_q (qdisc_tree_flush_backlog env c sch) = t_q sch"
  shows "tbf_inv h (t_q (tbf_change_commit h env p child sch))"
  using p inv hdr_l2t_small [OF h] hdr_ticks2ns_small [OF h]
  unfolding tbf_inv_def commit_fields [OF env] params_ok_def l2t_ok_def tbf_peak_present_def
  by (auto intro!: time_ok_of_unat)

context inner_qdisc_change
begin

lemma change_child_keeps:
  assumes "inv c" "change_env_ok skbs inv env"
    and "tbf_change_child ops env c limit = Some (err, c', child)"
  shows "skbs c' = skbs c \<and> inv c' \<and> (\<forall>ch. child = Some ch \<longrightarrow> inv ch \<and> skbs ch = [])"
proof (cases "is_noop_qdisc env c")
  case False
  with assms(3) set_limit_keeps [OF assms(1)] show ?thesis
    by (auto simp: tbf_change_child_def split: bind_splits)
next
  case True
  with assms(3) have c': "c' = c"
    by (auto simp: tbf_change_child_def split: bind_splits if_splits sum.splits)
  have "inv ch \<and> skbs ch = []" if "child = Some ch" for ch
  proof -
    from True assms(3) that
    have "fifo_create_dflt ops (nla_kmalloc_ok env) (created_qdisc env) limit = Some (Inr ch)"
      by (auto simp: tbf_change_child_def split: bind_splits if_splits sum.splits)
    then obtain q e where "created_qdisc env = Some q"
      "fifo_set_limit ops (nla_kmalloc_ok env) q limit = Some (e, ch)"
      by (auto simp: fifo_create_dflt_def split: option.splits if_splits)
    with set_limit_keeps [of q] assms(2) show ?thesis by (auto simp: change_env_ok_def)
  qed
  with c' assms(1) show ?thesis by blast
qed

text \<open>
  Whatever the outcome of a reconfiguration, the levels and the time of the last update stay, so
  does the invariant, and the inner qdisc either keeps its packets or is a new, empty one.
\<close>

lemma change_keeps:
  assumes h: "sched_hdr_ok h" and env: "change_env_ok skbs inv env"
    and inv: "tbf_inv h (t_q sch)" and c: "inv (tbf_qdisc (t_q sch))"
    and chg: "tbf_change h ops env opt sch rtabs = Some (err, sch', rtabs')"
  shows "tbf_inv h (t_q sch') \<and> inv (tbf_qdisc (t_q sch')) \<and>
         tbf_tokens (t_q sch') = tbf_tokens (t_q sch) \<and>
         tbf_ptokens (t_q sch') = tbf_ptokens (t_q sch) \<and> tbf_t_c (t_q sch') = tbf_t_c (t_q sch) \<and>
         skbs (tbf_qdisc (t_q sch')) \<in> {skbs (tbf_qdisc (t_q sch)), []}"
  using chg
proof (cases rule: change_cases)
  case rejected
  with inv c show ?thesis by simp
next
  case (child p c' ch)
  with change_child_keeps [OF c env child(3)] inv show ?thesis
    by (simp add: tbf_inv_def tbf_peak_present_def)
next
  case (committed p c' ch)
  have flush: "\<forall>c sch. t_q (qdisc_tree_flush_backlog env c sch) = t_q sch"
    using env by (simp add: change_env_ok_def)
  have "tbf_inv h (t_q (sch\<lparr>t_q := (t_q sch)\<lparr>tbf_qdisc := c'\<rparr>\<rparr>))"
    using inv by (simp add: tbf_inv_def tbf_peak_present_def)
  from commit_inv [OF h change_params_ok [OF h committed(1)] this flush]
  have "tbf_inv h (t_q sch')" unfolding committed(4) .
  with change_child_keeps [OF c env committed(3)] show ?thesis
    by (auto simp: committed(4) commit_fields [OF flush] split: option.splits)
qed

end

text \<open>The FIFOs also meet the second contract: their change operation is \<open>fifo_init\<close>.\<close>

lemma fifo_init_keeps:
  assumes "fifo_inv c" "fifo_init h c opt = (err, c')"
  shows "sch_q c' = sch_q c \<and> fifo_inv c'"
  using assms by (auto simp: fifo_init_def fifo_inv_def qlen_backlog_def Let_def
      split: option.splits if_splits)

lemma fifo_inner_qdisc_change:
  assumes "sched_hdr_ok h"
  shows "inner_qdisc_change (fifo_ops h) sch_q fifo_inv"
proof -
  have "sch_q c' = sch_q c \<and> fifo_inv c'"
    if "fifo_inv c" "op_change (fifo_ops h) c = Some f" "f nla = (err, c')" for c c' f nla err
    using that by (intro fifo_init_keeps [OF that(1), of h "Some nla" err])
      (auto simp: fifo_ops_def split: if_splits)
  then show ?thesis
    by (intro inner_qdisc_change.intro [OF fifo_inner_qdisc [OF assms]]) unfold_locales
qed

interpretation fifo_change: inner_qdisc_change "fifo_ops list_hdr" sch_q fifo_inv
  by (rule fifo_inner_qdisc_change [OF list_hdr_ok])

end
