(* ===== verification/Tbf_Run.thy ===== *)
theory Tbf_Run
  imports Tbf_Correct
begin

text \<open>
  Sequences of operations on a token bucket filter. An event is an enqueue, a dequeue at some
  time, or a reconfiguration request; \<open>tbf_run\<close> performs them in order with the operations of
  \<^verbatim>\<open>sch_tbf.c\<close> and lists the packets that leave, each with its cost and the bucket depth in
  force. \<open>bucket_trace\<close> is the specification: the list of departures is one that the bucket
  \<open>N(t + d) = min (B, N(t) + d)\<close> of the file's description allows. The run theorems show
  that the filter only ever produces such traces, whatever the interleaving of traffic and
  reconfigurations, and bound the traffic of every window.
\<close>

section \<open>Events and departures\<close>

datatype 'c tbf_event =
    Ev_enqueue gso_env sk_buff
  | Ev_dequeue s64
  | Ev_change "'c tbf_change_env" "u8 list"

record departure =
  dep_time :: int
  dep_skb :: sk_buff
  dep_rate :: psched_ratecfg
  dep_cost :: int
  dep_depth :: int
  dep_level :: int
  dep_pcost :: int
  dep_pdepth :: int
  dep_plevel :: int

definition departure_of :: "sched_hdr \<Rightarrow> s64 \<Rightarrow> sk_buff \<Rightarrow> 'c tbf_sched_data \<Rightarrow> departure" where
  "departure_of h now skb q = \<lparr>
     dep_time = sint now, dep_skb = skb, dep_rate = tbf_rate q,
     dep_cost = l2t_cost h (tbf_rate q) (pkt_len skb), dep_depth = sint (tbf_buffer q),
     dep_level = sint (tbf_tokens q),
     dep_pcost = (if tbf_peak_present q then l2t_cost h (tbf_peak q) (pkt_len skb) else 0),
     dep_pdepth = sint (tbf_mtu q), dep_plevel = sint (tbf_ptokens q)\<rparr>"

fun tbf_step ::
  "sched_hdr \<Rightarrow> 'c Qdisc_ops \<Rightarrow> 'c tbf_event \<Rightarrow> 'c tbf_sch \<times> qdisc_rate_table list \<Rightarrow>
   (departure list \<times> 'c tbf_sch \<times> qdisc_rate_table list) option" where
  "tbf_step h ops (Ev_enqueue g skb) (sch, rtabs) =
     (let (ret, sch', tf) = tbf_enqueue h g ops skb sch [] in Some ([], sch', rtabs))"
| "tbf_step h ops (Ev_dequeue now) (sch, rtabs) =
     (let (r, sch') = tbf_dequeue h ops now sch
      in Some (case r of None \<Rightarrow> [] | Some skb \<Rightarrow> [departure_of h now skb (t_q sch')], sch', rtabs))"
| "tbf_step h ops (Ev_change env opt) (sch, rtabs) =
     (case tbf_change h ops env opt sch rtabs of
        None \<Rightarrow> None
      | Some (err, sch', rtabs') \<Rightarrow> Some ([], sch', rtabs'))"

fun tbf_run ::
  "sched_hdr \<Rightarrow> 'c Qdisc_ops \<Rightarrow> 'c tbf_event list \<Rightarrow> 'c tbf_sch \<times> qdisc_rate_table list \<Rightarrow>
   (departure list \<times> 'c tbf_sch \<times> qdisc_rate_table list) option" where
  "tbf_run h ops [] s = Some ([], s)"
| "tbf_run h ops (ev # evs) s =
     (case tbf_step h ops ev s of
        None \<Rightarrow> None
      | Some (ds, s') \<Rightarrow>
          (case tbf_run h ops evs s' of
             None \<Rightarrow> None
           | Some (ds', s'') \<Rightarrow> Some (ds @ ds', s'')))"

text \<open>Dequeues happen at times that do not go back; reconfigurations get fresh, empty qdiscs.\<close>

fun evs_ok :: "('c \<Rightarrow> sk_buff list) \<Rightarrow> ('c \<Rightarrow> bool) \<Rightarrow> int \<Rightarrow> 'c tbf_event list \<Rightarrow> bool" where
  "evs_ok skbs good t [] \<longleftrightarrow> True"
| "evs_ok skbs good t (Ev_enqueue g skb # evs) \<longleftrightarrow> evs_ok skbs good t evs"
| "evs_ok skbs good t (Ev_dequeue now # evs) \<longleftrightarrow>
     time_ok now \<and> t \<le> sint now \<and> evs_ok skbs good (sint now) evs"
| "evs_ok skbs good t (Ev_change env opt # evs) \<longleftrightarrow>
     change_env_ok skbs good env \<and> evs_ok skbs good t evs"

section \<open>The bucket's traces\<close>

text \<open>
  The specification of both buckets: the level before a departure is the old level plus the time
  passed, at most the depth; the cost is paid from it and never overdraws it. The filter refills
  the peak bucket by at most the depth of the other one.
\<close>

fun bucket_trace :: "int \<Rightarrow> int \<Rightarrow> int \<Rightarrow> departure list \<Rightarrow> bool" where
  "bucket_trace t level plevel [] \<longleftrightarrow> True"
| "bucket_trace t level plevel (d # ds) \<longleftrightarrow>
     t \<le> dep_time d \<and> 0 \<le> dep_cost d \<and> 0 \<le> dep_pcost d \<and>
     dep_level d = bucket_level (dep_depth d) level (dep_time d - t) - dep_cost d \<and> 0 \<le> dep_level d \<and>
     dep_plevel d \<le> bucket_level (dep_pdepth d) plevel (min (dep_time d - t) (dep_depth d)) - dep_pcost d \<and>
     0 \<le> dep_plevel d \<and>
     bucket_trace (dep_time d) (dep_level d) (dep_plevel d) ds"

lemma bucket_trace_append:
  "bucket_trace t l pl (xs @ ys) \<longleftrightarrow>
     bucket_trace t l pl xs \<and>
     (if xs = [] then bucket_trace t l pl ys
      else bucket_trace (dep_time (last xs)) (dep_level (last xs)) (dep_plevel (last xs)) ys)"
  by (induction xs arbitrary: t l pl) auto

lemma bucket_trace_later:
  assumes "bucket_trace t l pl ds"
    and "ds \<noteq> [] \<Longrightarrow> t' \<le> t"
  shows "ds = [] \<or> t' \<le> dep_time (hd ds)"
  using assms by (cases ds) auto

lemma trace_sum:
  assumes "bucket_trace t l pl ds" "ds \<noteq> []"
  shows "sum_list (map dep_cost ds) + dep_level (last ds) \<le> l + (dep_time (last ds) - t)"
    and "sum_list (map dep_pcost ds) + dep_plevel (last ds) \<le> pl + (dep_time (last ds) - t)"
  using assms
proof (induction ds arbitrary: t l pl)
  case (Cons d ds)
  { case 1 with Cons.IH(1) show ?case by (cases "ds = []") (fastforce simp: bucket_level_def)+ }
  { case 2 with Cons.IH(2) show ?case by (cases "ds = []") (fastforce simp: bucket_level_def)+ }
qed auto

lemma trace_window:
  assumes tr: "bucket_trace t l pl (xs @ d # ys @ zs)"
  shows "sum_list (map dep_cost (d # ys)) \<le> dep_depth d + (dep_time (last (d # ys)) - dep_time d)"
    and "sum_list (map dep_pcost (d # ys)) \<le> dep_pdepth d + (dep_time (last (d # ys)) - dep_time d)"
proof -
  from tr have "\<exists>t l pl. bucket_trace t l pl ((d # ys) @ zs)"
    by (auto simp: bucket_trace_append [of _ _ _ xs] split: if_splits)
  then obtain t l pl where dy: "bucket_trace t l pl (d # ys)"
    by (auto simp only: bucket_trace_append)
  then have d: "dep_level d + dep_cost d \<le> dep_depth d" "dep_plevel d + dep_pcost d \<le> dep_pdepth d"
    and y: "bucket_trace (dep_time d) (dep_level d) (dep_plevel d) ys"
    by (auto simp: bucket_level_def)
  have nn: "ys \<noteq> [] \<Longrightarrow> 0 \<le> dep_level (last ys) \<and> 0 \<le> dep_plevel (last ys)"
    using y by (cases ys rule: rev_cases) (auto simp: bucket_trace_append split: if_splits)
  show "sum_list (map dep_cost (d # ys)) \<le> dep_depth d + (dep_time (last (d # ys)) - dep_time d)"
    "sum_list (map dep_pcost (d # ys)) \<le> dep_pdepth d + (dep_time (last (d # ys)) - dep_time d)"
    using d nn trace_sum [OF y] dy by (cases "ys = []"; simp)+
qed

section \<open>Runs\<close>

lemma tbf_inv_inner [simp]: "tbf_inv h (q\<lparr>tbf_qdisc := c\<rparr>) = tbf_inv h q"
  by (simp add: tbf_inv_def tbf_peak_present_def)

lemma departure_trace:
  assumes inv: "tbf_inv h q" and now: "time_ok now" "sint (tbf_t_c q) \<le> sint now"
    and toks: "tbf_toks h q now (pkt_len skb) = (toks, ptoks)" "0 \<le> sint toks" "0 \<le> sint ptoks"
    and q': "q' = q\<lparr>tbf_qdisc := c, tbf_t_c := now, tbf_tokens := toks, tbf_ptokens := ptoks\<rparr>"
  shows "tbf_inv h q' \<and>
         bucket_trace (sint (tbf_t_c q)) (sint (tbf_tokens q)) (sint (tbf_ptokens q)) [departure_of h now skb q']"
proof -
  note rate = tbf_toks_rate [OF inv now, of "pkt_len skb", unfolded toks(1) fst_conv]
  have ok: "time_ok (tbf_buffer q)" "time_ok (tbf_mtu q)" "time_ok (tbf_ptokens q)" "l2t_ok h (tbf_rate q)"
    using inv by (simp_all add: tbf_inv_def)
  note cost = l2t_cost_range [OF ok(4), of "pkt_len skb"]
  have peak: "if tbf_peak_present q
    then sint ptoks = bucket_level (sint (tbf_mtu q)) (sint (tbf_ptokens q))
             (min (sint now - sint (tbf_t_c q)) (sint (tbf_buffer q))) - l2t_cost h (tbf_peak q) (pkt_len skb)
         \<and> 0 \<le> l2t_cost h (tbf_peak q) (pkt_len skb)
    else ptoks = 0"
    using tbf_toks_peak [OF inv now, of "pkt_len skb", unfolded toks(1) snd_conv]
      tbf_toks_no_peak [of q h now "pkt_len skb", unfolded toks(1) snd_conv]
    by (simp add: l2t_cost_def)
  have "time_ok toks" "time_ok ptoks"
    using rate cost peak toks(2,3) ok by (auto simp: time_ok_def bucket_level_def split: if_splits)
  with inv now(1) have "tbf_inv h q'"
    by (simp add: q' tbf_inv_def tbf_peak_present_def)
  moreover have "0 \<le> bucket_level (sint (tbf_mtu q)) (sint (tbf_ptokens q))
      (min (sint now - sint (tbf_t_c q)) (sint (tbf_buffer q)))"
    using ok now by (auto simp: bucket_level_def time_ok_def)
  ultimately show ?thesis
    using rate cost peak toks(2,3) now(2)
    by (auto simp: departure_of_def q' tbf_peak_present_def split: if_splits)
qed

lemma run_costs:
  assumes "tbf_run h ops evs s = Some (ds, s')" "d \<in> set ds"
  shows "dep_cost d = l2t_cost h (dep_rate d) (pkt_len (dep_skb d))"
  using assms
proof (induction evs arbitrary: s ds)
  case (Cons ev evs)
  from Cons.prems(1) obtain ds1 s1 ds2 where
    step: "tbf_step h ops ev s = Some (ds1, s1)" and
    run: "tbf_run h ops evs s1 = Some (ds2, s')" and ds: "ds = ds1 @ ds2"
    by (auto split: option.splits)
  have "\<forall>d \<in> set ds1. dep_cost d = l2t_cost h (dep_rate d) (pkt_len (dep_skb d))"
    using step by (cases ev; cases s) (auto simp: departure_of_def split: option.splits prod.splits)
  with Cons.IH [OF run] Cons.prems(2) ds show ?case by auto
qed simp

fun offered_by :: "'c tbf_event list \<Rightarrow> sk_buff list" where
  "offered_by [] = []"
| "offered_by (Ev_enqueue g skb # evs) = offered g skb @ offered_by evs"
| "offered_by (ev # evs) = offered_by evs"

context inner_qdisc_change
begin

lemma dequeue_run:
  assumes inv: "tbf_inv h (t_q sch)" and c: "inv (tbf_qdisc (t_q sch))"
    and now: "time_ok now" "sint (tbf_t_c (t_q sch)) \<le> sint now"
    and deq: "tbf_dequeue h ops now sch = (r, sch')"
  shows "tbf_inv h (t_q sch') \<and>
    (case r of
       None \<Rightarrow> tbf_t_c (t_q sch') = tbf_t_c (t_q sch) \<and> tbf_tokens (t_q sch') = tbf_tokens (t_q sch) \<and>
               tbf_ptokens (t_q sch') = tbf_ptokens (t_q sch)
     | Some skb \<Rightarrow> tbf_t_c (t_q sch') = now \<and>
         bucket_trace (sint (tbf_t_c (t_q sch))) (sint (tbf_tokens (t_q sch))) (sint (tbf_ptokens (t_q sch)))
           [departure_of h now skb (t_q sch')])"
proof (cases "skbs (tbf_qdisc (t_q sch))")
  case Nil
  with dequeue_empty_queue [OF c, of h now] deq inv show ?thesis by auto
next
  case (Cons skb rest)
  obtain toks ptoks where t: "tbf_toks h (t_q sch) now (pkt_len skb) = (toks, ptoks)" by fastforce
  show ?thesis
  proof (cases "0 \<le> sint toks \<and> 0 \<le> sint ptoks")
    case True
    then have pos: "0 \<le> sint toks" "0 \<le> sint ptoks" by simp_all
    with dequeue_sends [OF c Cons t] deq obtain c' where r: "r = Some skb"
      and q': "t_q sch' = (t_q sch)\<lparr>tbf_qdisc := c', tbf_t_c := now, tbf_tokens := toks, tbf_ptokens := ptoks\<rparr>"
      by auto
    from departure_trace [OF inv now t pos q'] r q' show ?thesis by simp
  next
    case False
    with dequeue_throttles [OF c Cons t] deq inv show ?thesis
      by (auto simp: tbf_inv_def tbf_peak_present_def)
  qed
qed

text \<open>
  The run theorem: from a state with the invariant, the departures are a trace of the bucket that
  starts with the levels of the state, and packets leave in the order in which they came.
\<close>

lemma run_trace:
  assumes "sched_hdr_ok h" "tbf_inv h (t_q sch)" "inv (tbf_qdisc (t_q sch))"
    and "evs_ok skbs inv t evs" "sint (tbf_t_c (t_q sch)) \<le> t"
    and "tbf_run h ops evs (sch, rt) = Some (ds, sch', rt')"
  shows "tbf_inv h (t_q sch') \<and> inv (tbf_qdisc (t_q sch')) \<and>
         bucket_trace (sint (tbf_t_c (t_q sch))) (sint (tbf_tokens (t_q sch))) (sint (tbf_ptokens (t_q sch))) ds \<and>
         subseq (map dep_skb ds @ skbs (tbf_qdisc (t_q sch')))
                (skbs (tbf_qdisc (t_q sch)) @ offered_by evs)"
  using assms(2-)
proof (induction evs arbitrary: sch rt t ds)
  case (Cons ev evs)
  from Cons.prems(5) obtain ds1 sch1 rt1 ds2 where
    step: "tbf_step h ops ev (sch, rt) = Some (ds1, sch1, rt1)" and
    run: "tbf_run h ops evs (sch1, rt1) = Some (ds2, sch', rt')" and ds: "ds = ds1 @ ds2"
    by (auto split: option.splits)
  note IH = Cons.IH [OF _ _ _ _ run]
  show ?case
  proof (cases ev)
    case (Ev_enqueue g skb)
    obtain ret tf where enq: "tbf_enqueue h g ops skb sch [] = (ret, sch1, tf)" and ds1: "ds1 = []"
      using step Ev_enqueue by (auto split: prod.splits)
    from enqueue_only_queue [OF Cons.prems(2) enq] obtain c acc where c: "inv c"
      "t_q sch1 = (t_q sch)\<lparr>tbf_qdisc := c\<rparr>" "skbs c = skbs (tbf_qdisc (t_q sch)) @ acc"
      "subseq acc (offered g skb)" by blast
    have "subseq (map dep_skb ds2 @ skbs (tbf_qdisc (t_q sch'))) ((skbs (tbf_qdisc (t_q sch)) @ acc) @ offered_by evs)"
      using IH [of t] Cons.prems Ev_enqueue c by simp
    moreover have "subseq \<dots> (skbs (tbf_qdisc (t_q sch)) @ offered g skb @ offered_by evs)"
      using c(4) by (simp add: subseq_append')
    ultimately show ?thesis
      using IH [of t] Cons.prems Ev_enqueue c ds ds1 by (auto elim: subseq_order.trans)
  next
    case (Ev_dequeue now)
    obtain r where deq: "tbf_dequeue h ops now sch = (r, sch1)"
      and ds1: "ds1 = (case r of None \<Rightarrow> [] | Some skb \<Rightarrow> [departure_of h now skb (t_q sch1)])"
      using step Ev_dequeue by (auto split: prod.splits)
    have now: "time_ok now" "sint (tbf_t_c (t_q sch)) \<le> sint now"
      using Cons.prems(3,4) Ev_dequeue by auto
    note one = dequeue_run [OF Cons.prems(1,2) now deq] and fifo = dequeue_fifo [OF Cons.prems(2) deq]
    have "sint (tbf_t_c (t_q sch1)) \<le> sint now"
      using one now by (auto split: option.splits)
    with IH [of "sint now"] one fifo Cons.prems(3) Ev_dequeue
    have 2: "tbf_inv h (t_q sch')" "inv (tbf_qdisc (t_q sch'))"
      "bucket_trace (sint (tbf_t_c (t_q sch1))) (sint (tbf_tokens (t_q sch1))) (sint (tbf_ptokens (t_q sch1))) ds2"
      "subseq (map dep_skb ds2 @ skbs (tbf_qdisc (t_q sch'))) (skbs (tbf_qdisc (t_q sch1)) @ offered_by evs)"
      by auto
    then show ?thesis
      using one fifo ds ds1 Ev_dequeue by (auto simp: departure_of_def split: option.splits)
  next
    case (Ev_change env opt)
    obtain err where chg: "tbf_change h ops env opt sch rt = Some (err, sch1, rt1)" and ds1: "ds1 = []"
      using step Ev_change by (auto split: option.splits)
    have env: "change_env_ok skbs inv env" using Cons.prems(3) Ev_change by simp
    note keeps = change_keeps [OF assms(1) env Cons.prems(1,2) chg]
    with IH [of t] Cons.prems Ev_change
    have "subseq (map dep_skb ds2 @ skbs (tbf_qdisc (t_q sch'))) (skbs (tbf_qdisc (t_q sch1)) @ offered_by evs)"
      by simp
    moreover have "subseq \<dots> (skbs (tbf_qdisc (t_q sch)) @ offered_by evs)"
      using keeps by (auto simp: list_emb_append2)
    ultimately show ?thesis
      using keeps IH [of t] Cons.prems Ev_change ds ds1 by (auto elim: subseq_order.trans)
  qed
qed auto

end

end
