(* ===== verification/Tbf_Live.thy ===== *)
theory Tbf_Live
  imports Tbf_Run
begin

text \<open>
  Progress and accounting of the token bucket filter: the watchdog is set to the first instant
  at which the head of the queue may leave, every packet that enqueue admits fits the bucket, and
  the filter's own packet counter agrees with the inner queue. The byte counter agrees with it
  too, except after segmentation.
\<close>

section \<open>Progress\<close>

definition plain_rate :: "psched_ratecfg \<Rightarrow> bool" where
  "plain_rate r \<longleftrightarrow> rc_overhead r = 0 \<and> rc_linklayer r \<noteq> TC_LINKLAYER_ATM"

text \<open>The packet fits both buckets.\<close>

definition fits :: "sched_hdr \<Rightarrow> 'c tbf_sched_data \<Rightarrow> u32 \<Rightarrow> bool" where
  "fits h q len \<longleftrightarrow> l2t_cost h (tbf_rate q) len \<le> sint (tbf_buffer q) \<and>
     (tbf_peak_present q \<longrightarrow>
        l2t_cost h (tbf_peak q) len \<le> sint (tbf_mtu q) \<and> l2t_cost h (tbf_peak q) len \<le> sint (tbf_buffer q))"

definition expiry :: "sched_hdr \<Rightarrow> 'c tbf_sched_data \<Rightarrow> s64 \<Rightarrow> u32 \<Rightarrow> s64" where
  "expiry h q now len = (let (toks, ptoks) = tbf_toks h q now len in now + s64_max_t (- toks) (- ptoks))"

definition toks_nonneg :: "sched_hdr \<Rightarrow> 'c tbf_sched_data \<Rightarrow> s64 \<Rightarrow> u32 \<Rightarrow> bool" where
  "toks_nonneg h q now len \<longleftrightarrow>
     0 \<le> sint (fst (tbf_toks h q now len)) \<and> 0 \<le> sint (snd (tbf_toks h q now len))"

lemma toks_range:
  assumes inv: "tbf_inv h q" and now: "time_ok now" "sint (tbf_t_c q) \<le> sint now"
  shows "- (2 ^ 62) < sint (fst (tbf_toks h q now len))" "sint (fst (tbf_toks h q now len)) < 2 ^ 62"
    and "- (2 ^ 62) < sint (snd (tbf_toks h q now len))" "sint (snd (tbf_toks h q now len)) < 2 ^ 62"
proof -
  have ok: "time_ok (tbf_buffer q)" "time_ok (tbf_mtu q)" "time_ok (tbf_tokens q)" "time_ok (tbf_ptokens q)"
    "l2t_ok h (tbf_rate q)" "tbf_peak_present q \<Longrightarrow> l2t_ok h (tbf_peak q)"
    using inv by (simp_all add: tbf_inv_def)
  note cost = l2t_cost_range [OF ok(5), of len]
  from tbf_toks_rate [OF inv now, of len] cost ok(1,3) now
  show "- (2 ^ 62) < sint (fst (tbf_toks h q now len))" "sint (fst (tbf_toks h q now len)) < 2 ^ 62"
    by (auto simp: bucket_level_def time_ok_def min_def)
  have "- (2 ^ 62) < sint (snd (tbf_toks h q now len)) \<and> sint (snd (tbf_toks h q now len)) < 2 ^ 62"
  proof (cases "tbf_peak_present q")
    case True
    from tbf_toks_peak [OF inv now True, of len] l2t_cost_range [OF ok(6) [OF True], of len] ok(1,2,4) now
    show ?thesis by (auto simp: bucket_level_def time_ok_def min_def)
  qed (simp add: tbf_toks_no_peak)
  then show "- (2 ^ 62) < sint (snd (tbf_toks h q now len))" "sint (snd (tbf_toks h q now len)) < 2 ^ 62"
    by simp_all
qed

lemma sint_expiry:
  assumes inv: "tbf_inv h q" and now: "time_ok now" "sint (tbf_t_c q) \<le> sint now"
  shows "sint (expiry h q now len) =
    sint now + max (- sint (fst (tbf_toks h q now len))) (- sint (snd (tbf_toks h q now len)))"
proof -
  obtain a b where t: "tbf_toks h q now len = (a, b)" by fastforce
  note r = toks_range [OF inv now, of len, unfolded t fst_conv snd_conv]
  have "sint (- a) = - sint a" "sint (- b) = - sint b"
    using r by (simp_all add: sint_neg_s64 in_s64_def)
  with r now(1) show ?thesis
    unfolding expiry_def t Let_def prod.case fst_conv snd_conv
    by (subst sint_add_s64) (auto simp: in_s64_def time_ok_def)
qed

text \<open>The arithmetic of one bucket: after a deficit, the level is enough exactly when it is paid off.\<close>

lemma bucket_deficit:
  fixes depth level cost e e' :: int
  assumes "cost \<le> depth" "e \<le> e'"
    and "lv = bucket_level depth level e - cost" "lv' = bucket_level depth level e' - cost"
  shows "0 \<le> lv' \<longleftrightarrow> 0 \<le> lv \<or> - lv \<le> e' - e"
  using assms by (auto simp: bucket_level_def min_def split: if_splits)

lemma bucket_deficit_capped:
  fixes depth level cost cap e e' :: int
  assumes "cost \<le> depth" "cost \<le> cap" "0 \<le> level" "e \<le> e'"
    and "lv = bucket_level depth level (min e cap) - cost"
    and "lv' = bucket_level depth level (min e' cap) - cost"
  shows "0 \<le> lv' \<longleftrightarrow> 0 \<le> lv \<or> - lv \<le> e' - e"
  using assms by (auto simp: bucket_level_def min_def split: if_splits)

lemma toks_later:
  assumes inv: "tbf_inv h q" and now: "time_ok now" "sint (tbf_t_c q) \<le> sint now"
    and t: "time_ok t" "sint now \<le> sint t" and fits: "fits h q len"
    and throttled: "\<not> toks_nonneg h q now len"
  shows "toks_nonneg h q t len \<longleftrightarrow> sint (expiry h q now len) \<le> sint t"
proof -
  let ?a = "sint (fst (tbf_toks h q now len))" and ?b = "sint (snd (tbf_toks h q now len))"
  have t': "sint (tbf_t_c q) \<le> sint t" using now t by simp
  have "0 \<le> sint (fst (tbf_toks h q t len)) \<longleftrightarrow> 0 \<le> ?a \<or> - ?a \<le> sint t - sint now"
    using bucket_deficit [OF _ _ tbf_toks_rate [OF inv now, of len] tbf_toks_rate [OF inv t(1) t', of len]]
      fits t(2) by (simp add: fits_def)
  moreover have "0 \<le> sint (snd (tbf_toks h q t len)) \<longleftrightarrow> 0 \<le> ?b \<or> - ?b \<le> sint t - sint now"
  proof (cases "tbf_peak_present q")
    case True
    have "0 \<le> sint (tbf_ptokens q)" using inv by (simp add: tbf_inv_def time_ok_def)
    with bucket_deficit_capped [OF _ _ _ _ tbf_toks_peak [OF inv now True, of len]
        tbf_toks_peak [OF inv t(1) t' True, of len]] fits t(2) True
    show ?thesis by (simp add: fits_def)
  qed (simp add: tbf_toks_no_peak)
  ultimately show ?thesis
    using throttled t(2) unfolding toks_nonneg_def sint_expiry [OF inv now] by auto
qed

lemma toks_state:
  "toks_nonneg h (q\<lparr>tbf_qdisc := c, tbf_watchdog := w\<rparr>) now len = toks_nonneg h q now len"
  by (simp add: toks_nonneg_def tbf_toks_def tbf_peak_present_def Let_def)

context inner_qdisc
begin

lemma dequeue_iff:
  assumes "inv (tbf_qdisc (t_q sch))" "skbs (tbf_qdisc (t_q sch)) = skb # rest"
  shows "fst (tbf_dequeue h ops now sch) = (if toks_nonneg h (t_q sch) now (pkt_len skb) then Some skb else None)"
proof -
  obtain a b where t: "tbf_toks h (t_q sch) now (pkt_len skb) = (a, b)" by fastforce
  show ?thesis
    using dequeue_sends [OF assms t] dequeue_throttles [OF assms t] t
    by (cases "0 \<le> sint a \<and> 0 \<le> sint b") (auto simp: toks_nonneg_def)
qed

lemma throttle_until_expiry:
  assumes inv: "tbf_inv h (t_q sch)" and c: "inv (tbf_qdisc (t_q sch))" "skbs (tbf_qdisc (t_q sch)) = skb # rest"
    and now: "time_ok now" "sint (tbf_t_c (t_q sch)) \<le> sint now"
    and fits: "fits h (t_q sch) (pkt_len skb)" and act: "\<not> t_deactivated sch" and wok: "watchdog_ok now (tbf_watchdog (t_q sch))"
    and deq: "tbf_dequeue h ops now sch = (None, sch')"
  shows "\<exists>e. wd_timer (tbf_watchdog (t_q sch')) = Some e \<and> sint now < sint e \<and> watchdog_ok now (tbf_watchdog (t_q sch')) \<and>
    (\<forall>t. time_ok t \<and> sint now \<le> sint t \<longrightarrow>
       fst (qdisc_watchdog_expire t (tbf_watchdog (t_q sch'))) = (sint e \<le> sint t) \<and>
       fst (tbf_dequeue h ops t sch') = (if sint e \<le> sint t then Some skb else None))"
proof -
  obtain a b where t: "tbf_toks h (t_q sch) now (pkt_len skb) = (a, b)" by fastforce
  have thr: "\<not> toks_nonneg h (t_q sch) now (pkt_len skb)"
    using dequeue_iff [OF c, of h now] deq by (auto split: if_splits)
  then have neg: "\<not> (0 \<le> sint a \<and> 0 \<le> sint b)" by (simp add: toks_nonneg_def t)
  from dequeue_throttles [OF c t neg] deq obtain c' w where c': "inv c'" "skbs c' = skb # rest"
    and sch': "t_q sch' = (t_q sch)\<lparr>tbf_qdisc := c', tbf_watchdog := w\<rparr>"
    and w: "w = qdisc_watchdog_schedule_ns False (expiry h (t_q sch) now (pkt_len skb)) (tbf_watchdog (t_q sch))"
    using act by (auto simp: expiry_def t)
  let ?e = "expiry h (t_q sch) now (pkt_len skb)"
  have later: "sint now < sint ?e" using neg by (auto simp: sint_expiry [OF inv now] t)
  have wd: "wd_timer (tbf_watchdog (t_q sch')) = Some ?e" unfolding sch' w using watchdog_armed [OF wok later] by simp
  then have fire: "fst (qdisc_watchdog_expire u (tbf_watchdog (t_q sch'))) = (sint ?e \<le> sint u)" for u
    by (simp add: qdisc_watchdog_expire_def)
  have ok: "watchdog_ok now (tbf_watchdog (t_q sch'))" unfolding sch' w using watchdog_ok_schedule [OF wok] by simp
  have "fst (tbf_dequeue h ops u sch') = (if toks_nonneg h (t_q sch) u (pkt_len skb) then Some skb else None)" for u
    using dequeue_iff [of sch' skb rest h u] c' by (simp add: sch' toks_state)
  then show ?thesis using toks_later [OF inv now _ _ fits thr] wd later ok fire by auto
qed

end

section \<open>Admitted packets fit\<close>

lemma hdr_l2t_plain: "sched_hdr_ok h \<Longrightarrow> plain_rate r \<Longrightarrow> psched_l2t_ns h r len = reciprocal_ns r len"
  unfolding sched_hdr_ok_def plain_rate_def by blast

lemma t2l_fits:
  assumes r: "psched_ratecfg_precompute conf r64 = Some r" "0 < rate_bytes_ps r" "plain_rate r"
    and small: "unat (rate_bytes_ps r) < 2 ^ 32" and t: "unat t < 2 ^ 32"
    and len: "unat len \<le> unat (psched_ns_t2l r t)"
  shows "unat (reciprocal_ns r len) \<le> unat t"
proof -
  have "unat t * unat (rate_bytes_ps r) < 2 ^ 32 * 2 ^ 32"
    using small t by (intro mult_strict_mono) auto
  with r len show ?thesis by (intro l2t_of_t2l_le [OF r(1,2)]) (auto simp: plain_rate_def)
qed

lemma min_u32_max: "unat (min a (0xFFFFFFFF :: u64)) < 2 ^ 32"
  using le_less_trans [OF min_u64_small(2) [of a "0xFFFFFFFF"], of "2 ^ 32"] by simp

lemma min_u64_D:
  "unat l \<le> unat (min a b :: u64) \<Longrightarrow> unat l \<le> unat a"
  "unat l \<le> unat (min a b :: u64) \<Longrightarrow> unat l \<le> unat b"
  using min_u64_small [of a b] by simp_all

lemma min_u32_le: "unat (ucast (min (ucast a) b :: u32) :: u64) \<le> unat (a :: u64)"
proof -
  have "unat (min (ucast a) b :: u32) \<le> unat (ucast a :: u32)"
    by (simp add: min_def word_le_nat_alt)
  also have "\<dots> \<le> unat a" by (simp add: unsigned_ucast_eq take_bit_nat_eq_self_iff take_bit_nat_less_eq_self)
  finally show ?thesis by simp
qed

lemma change_peak_max_size:
  assumes "tbf_change_peak h tb qopt rate max_size mtu = Some (Inr (peak, max_size', mtu'))"
  shows "unat max_size' \<le> unat max_size"
proof -
  have "max_size' = max_size \<or> (\<exists>b. max_size' = min max_size b) \<or>
      (\<exists>b. max_size' = ucast (min (ucast max_size) b :: u32))"
    using assms by (auto simp: tbf_change_peak_def Let_def split: bind_splits if_splits option.splits)
  then show ?thesis using min_u64_small(1) min_u32_le by auto
qed

lemma params_fit_rate:
  assumes h: "sched_hdr_ok h" and chg: "tbf_change_params h env opt rtabs = Some (Inr p, rtabs')"
    and r: "0 < rate_bytes_ps (p_rate p)" "unat (rate_bytes_ps (p_rate p)) < 2 ^ 32" "plain_rate (p_rate p)"
    and len: "unat len \<le> unat (p_max_size p)"
  shows "unat (reciprocal_ns (p_rate p) len) \<le>
           unat (if p_burst_given p then p_buffer p else psched_ticks2ns h (qopt_buffer (p_qopt p)))"
  using chg
proof (rule change_params_SomeD)
  fix tb parms r64 mtu max_size
  assume rate: "psched_ratecfg_precompute (qopt_rate (p_qopt p)) r64 = Some (p_rate p)"
    and burst: "(max_size, p_buffer p) = (case tb TCA_TBF_BURST of
        Some a \<Rightarrow> (ucast (le32 a), psched_l2t_ns h (p_rate p) (le32 a))
      | None \<Rightarrow> let buffer = min (psched_ticks2ns h (qopt_buffer (p_qopt p))) 0xFFFFFFFF
                in (min (psched_ns_t2l (p_rate p) buffer) 0xFFFFFFFF, buffer))"
    and peak: "tbf_change_peak h tb (p_qopt p) (p_rate p) max_size mtu =
       Some (Inr (p_peak p, p_max_size p, p_mtu p))"
    and given: "p_burst_given p = (tb TCA_TBF_BURST \<noteq> None)"
  have "unat (p_max_size p) \<le> unat max_size" by (rule change_peak_max_size [OF peak])
  with len have len': "unat len \<le> unat max_size" by simp
  show ?thesis
  proof (cases "tb TCA_TBF_BURST")
    case None
    let ?b = "min (psched_ticks2ns h (qopt_buffer (p_qopt p))) 0xFFFFFFFF"
    have "unat len \<le> unat (psched_ns_t2l (p_rate p) ?b)"
      using len' burst None by (auto simp: Let_def dest: min_u64_D)
    from t2l_fits [OF rate r(1,3,2) min_u32_max this] show ?thesis
      using None given by (auto dest: min_u64_D)
  next
    case (Some a)
    then have "len \<le> le32 a" using len' burst by (simp add: word_le_nat_alt)
    with Some burst given show ?thesis
      using reciprocal_ns_mono [of len "le32 a" "p_rate p"]
      by (simp add: hdr_l2t_plain [OF h r(3)] word_le_nat_alt)
  qed
qed

lemma params_fit_peak:
  assumes h: "sched_hdr_ok h" and chg: "tbf_change_params h env opt rtabs = Some (Inr p, rtabs')"
    and r: "0 < rate_bytes_ps (p_peak p)" "unat (rate_bytes_ps (p_peak p)) < 2 ^ 32" "plain_rate (p_peak p)"
    and len: "unat len \<le> unat (p_max_size p)"
  shows "unat (reciprocal_ns (p_peak p) len) \<le>
           unat (if p_pburst_given p then p_mtu p else psched_ticks2ns h (qopt_mtu (p_qopt p)))"
  using chg
proof (rule change_params_SomeD)
  fix tb parms r64 mtu max_size
  assume mtu: "mtu = min (psched_ticks2ns h (qopt_mtu (p_qopt p))) 0xFFFFFFFF"
    and peak: "tbf_change_peak h tb (p_qopt p) (p_rate p) max_size mtu =
       Some (Inr (p_peak p, p_max_size p, p_mtu p))"
    and given: "p_pburst_given p = (tb TCA_TBF_PBURST \<noteq> None)"
  have nz: "rs_rate (qopt_peakrate (p_qopt p)) \<noteq> 0"
  proof
    assume "rs_rate (qopt_peakrate (p_qopt p)) = 0"
    with peak have "p_peak p = ratecfg_zero" by (simp add: tbf_change_peak_def)
    with r(1) show False by (simp add: ratecfg_zero_def)
  qed
  then obtain p64 where pre: "psched_ratecfg_precompute (qopt_peakrate (p_qopt p)) p64 = Some (p_peak p)"
    using peak by (auto simp: tbf_change_peak_def Let_def split: bind_splits if_splits option.splits)
  show ?thesis
  proof (cases "tb TCA_TBF_PBURST")
    case None
    have "p_max_size p = min max_size (psched_ns_t2l (p_peak p) mtu)"
      using peak nz None by (auto simp: tbf_change_peak_def Let_def split: bind_splits if_splits)
    then have "unat len \<le> unat (psched_ns_t2l (p_peak p) mtu)"
      using len by (auto dest: min_u64_D)
    moreover have "unat mtu < 2 ^ 32" unfolding mtu by (rule min_u32_max)
    ultimately have "unat (reciprocal_ns (p_peak p) len) \<le> unat mtu"
      using t2l_fits [OF pre r(1,3,2)] by blast
    then show ?thesis
      using None given unfolding mtu by (auto dest: min_u64_D)
  next
    case (Some a)
    have "p_max_size p = ucast (min (ucast max_size) (le32 a :: u32))" "p_mtu p = psched_l2t_ns h (p_peak p) (le32 a)"
      using peak nz Some by (auto simp: tbf_change_peak_def Let_def split: bind_splits if_splits)
    moreover from this have "len \<le> le32 a"
      using len by (simp add: word_le_nat_alt min_def split: if_splits)
    ultimately show ?thesis
      using Some given reciprocal_ns_mono [of len "le32 a" "p_peak p"]
      by (simp add: hdr_l2t_plain [OF h r(3)] word_le_nat_alt)
  qed
qed

lemma l2t_costI:
  assumes "unat (psched_l2t_ns h r len) \<le> unat (b :: s64)" "unat b < 2 ^ 62"
  shows "l2t_cost h r len \<le> sint b"
proof -
  have "uint b < 2 ^ 62" using assms(2) by (metis of_nat_less_numeral_power_cancel_iff uint_nat)
  then have "uint b < 2 ^ 63" by simp
  then have "sint b = int (unat b)" unfolding uint_nat [symmetric] by (rule sint_eq_uint_s64)
  with assms(1) show ?thesis unfolding l2t_cost_def by (metis of_nat_le_iff)
qed

lemma change_params_rates:
  assumes "sched_hdr_ok h" "tbf_change_params h env opt rtabs = Some (Inr p, rtabs')"
    and "0 < rate_bytes_ps (p_rate p)" "0 < rate_bytes_ps (p_peak p)"
  shows "unat (reciprocal_ns (p_peak p) len) \<le> unat (reciprocal_ns (p_rate p) len)"
proof -
  from change_params_ok [OF assms(1,2)] assms(3,4) obtain c1 r1 c2 r2 where
    "psched_ratecfg_precompute c1 r1 = Some (p_rate p)" "psched_ratecfg_precompute c2 r2 = Some (p_peak p)"
    "rate_bytes_ps (p_rate p) < rate_bytes_ps (p_peak p)"
    by (auto simp: params_ok_def)
  with assms(3) show ?thesis by (intro reciprocal_ns_rate_mono) auto
qed

lemma change_params_no_Inl_0:
  assumes "\<And>n pol. nla_parse_nested env n opt pol \<noteq> Inl 0"
  shows "tbf_change_params h env opt rtabs \<noteq> Some (Inl 0, rtabs')"
proof -
  have peak: "tbf_change_peak h tb qopt rate max_size mtu \<noteq> Some (Inl 0)" for tb qopt rate max_size mtu
    by (auto simp: tbf_change_peak_def Let_def split: bind_splits option.splits)
  show ?thesis
    using assms peak
    by (auto simp: tbf_change_params_def Let_def split: sum.splits option.splits prod.splits bind_splits)
qed

lemma change_fits:
  assumes h: "sched_hdr_ok h" and env: "\<forall>c sch. t_q (qdisc_tree_flush_backlog env c sch) = t_q sch"
    and chg: "tbf_change h ops env opt sch rtabs = Some (0, sch', rtabs')"
    and parsed: "tbf_change_params h env opt rtabs \<noteq> Some (Inl 0, rtabs')"
    and r: "0 < rate_bytes_ps (tbf_rate (t_q sch'))" "unat (rate_bytes_ps (tbf_rate (t_q sch'))) < 2 ^ 32"
      "plain_rate (tbf_rate (t_q sch'))"
    and pk: "unat (rate_bytes_ps (tbf_peak (t_q sch'))) < 2 ^ 32" "plain_rate (tbf_peak (t_q sch'))"
    and len: "len \<le> tbf_max_size (t_q sch')"
  shows "fits h (t_q sch') len"
  using chg
proof (cases rule: change_cases)
  case (committed p c ch)
  note fields = commit_fields [OF env, of h p ch "sch\<lparr>t_q := (t_q sch)\<lparr>tbf_qdisc := c\<rparr>\<rparr>"]
  have ok: "params_ok h p" by (rule change_params_ok [OF h committed(1)])
  let ?b = "if p_burst_given p then p_buffer p else psched_ticks2ns h (qopt_buffer (p_qopt p))"
  let ?m = "if p_pburst_given p then p_mtu p else psched_ticks2ns h (qopt_mtu (p_qopt p))"
  have q: "tbf_rate (t_q sch') = p_rate p" "tbf_peak (t_q sch') = p_peak p"
    "tbf_max_size (t_q sch') = ucast (p_max_size p)" "tbf_buffer (t_q sch') = ?b" "tbf_mtu (t_q sch') = ?m"
    by (simp_all add: committed(4) fields)
  have len': "unat len \<le> unat (p_max_size p)"
    using len ok by (simp add: q params_ok_def word_le_nat_alt unat_ucast_less)
  have "unat ?b < 2 ^ 62" "unat ?m < 2 ^ 62"
    using ok hdr_ticks2ns_small [OF h] by (simp_all add: params_ok_def)
  note small = this
  have cost: "unat (psched_l2t_ns h (p_rate p) len) \<le> unat ?b"
    using params_fit_rate [OF h committed(1) r [unfolded q] len']
    unfolding hdr_l2t_plain [OF h r(3) [unfolded q]] .
  have pcost: "unat (psched_l2t_ns h (p_peak p) len) \<le> unat ?m"
    "unat (psched_l2t_ns h (p_peak p) len) \<le> unat ?b" if "tbf_peak_present (t_q sch')"
  proof -
    have p0: "0 < rate_bytes_ps (p_peak p)"
      using that by (simp add: tbf_peak_present_def q word_neq_0_conv)
    show "unat (psched_l2t_ns h (p_peak p) len) \<le> unat ?m"
      using params_fit_peak [OF h committed(1) p0 pk [unfolded q] len']
      unfolding hdr_l2t_plain [OF h pk(2) [unfolded q]] .
    show "unat (psched_l2t_ns h (p_peak p) len) \<le> unat ?b"
      using change_params_rates [OF h committed(1) r(1) [unfolded q] p0, of len] cost
      unfolding hdr_l2t_plain [OF h pk(2) [unfolded q]] hdr_l2t_plain [OF h r(3) [unfolded q]]
      by (rule le_trans)
  qed
  show ?thesis
    unfolding fits_def q using l2t_costI [OF cost small(1)] l2t_costI [OF pcost(1) small(2)]
      l2t_costI [OF pcost(2) small(1)] by blast
qed (use parsed in auto)

section \<open>Accounting\<close>

definition qlen_ok :: "('c \<Rightarrow> sk_buff list) \<Rightarrow> 'c tbf_sch \<Rightarrow> bool" where
  "qlen_ok skbs sch \<longleftrightarrow> q_qlen (t_st sch) = of_nat (length (skbs (tbf_qdisc (t_q sch))))"

definition backlog_ok :: "('c \<Rightarrow> sk_buff list) \<Rightarrow> 'c tbf_sch \<Rightarrow> bool" where
  "backlog_ok skbs sch \<longleftrightarrow> qs_backlog (t_st sch) = sum_list (map pkt_len (skbs (tbf_qdisc (t_q sch))))"

lemma drop_stats:
  assumes "sched_hdr_ok h"
  shows "q_qlen (qdisc_qstats_drop h st) = q_qlen st" "qs_backlog (qdisc_qstats_drop h st) = qs_backlog st"
    "q_qlen (qdisc_qstats_overlimit h st) = q_qlen st" "qs_backlog (qdisc_qstats_overlimit h st) = qs_backlog st"
    "q_qlen (sent_stats h skb st) = q_qlen st - 1" "qs_backlog (sent_stats h skb st) = qs_backlog st - pkt_len skb"
  using assms by (simp_all add: sched_hdr_ok_def stat_helpers_ok_def sent_stats_def)

context inner_qdisc
begin

lemma segment_loop_stats:
  assumes "sched_hdr_ok h" "tbf_segment_loop h ops segs len nb c st tf = (len', nb', c', st', tf')"
  shows "q_qlen st' = q_qlen st \<and> qs_backlog st' = qs_backlog st"
  using assms(2)
  by (induction segs arbitrary: len nb c st tf)
     (auto simp: Let_def drop_stats [OF assms(1)] split: prod.splits if_splits)

lemma enqueue_small:
  assumes h: "sched_hdr_ok h" and inv: "inv (tbf_qdisc (t_q sch))"
    and small: "\<not> tbf_max_size (t_q sch) < pkt_len skb"
    and enq: "tbf_enqueue h g ops skb sch tf = (ret, sch', tf')"
  shows "inv (tbf_qdisc (t_q sch')) \<and>
    (if ret = NET_XMIT_SUCCESS
     then skbs (tbf_qdisc (t_q sch')) = skbs (tbf_qdisc (t_q sch)) @ [skb] \<and>
          q_qlen (t_st sch') = q_qlen (t_st sch) + 1 \<and>
          qs_backlog (t_st sch') = qs_backlog (t_st sch) + pkt_len skb
     else skbs (tbf_qdisc (t_q sch')) = skbs (tbf_qdisc (t_q sch)) \<and>
          q_qlen (t_st sch') = q_qlen (t_st sch) \<and> qs_backlog (t_st sch') = qs_backlog (t_st sch))"
proof -
  obtain r c tf1 where e: "op_enqueue ops skb (tbf_qdisc (t_q sch)) tf = (r, c, tf1)"
    by (metis prod_cases3)
  from enqueue_law [OF inv e] enq small e show ?thesis
    by (auto simp: tbf_enqueue_def Let_def drop_stats [OF h] split: if_splits)
qed

text \<open>What segmentation does: the packet counter follows the inner queue, the byte counter does not.\<close>

lemma enqueue_big:
  assumes h: "sched_hdr_ok h" and inv: "inv (tbf_qdisc (t_q sch))"
    and big: "tbf_max_size (t_q sch) < pkt_len skb"
    and enq: "tbf_enqueue h g ops skb sch tf = (ret, sch', tf')"
  shows "inv (tbf_qdisc (t_q sch')) \<and>
    (\<exists>acc. skbs (tbf_qdisc (t_q sch')) = skbs (tbf_qdisc (t_q sch)) @ acc \<and>
       q_qlen (t_st sch') = q_qlen (t_st sch) + of_nat (length acc) \<and>
       qs_backlog (t_st sch') = qs_backlog (t_st sch) \<and> (ret = NET_XMIT_SUCCESS \<longleftrightarrow> acc \<noteq> []))"
proof (cases "skb_is_gso g skb \<and> skb_gso_validate_mac_len g skb (tbf_max_size (t_q sch))")
  case False
  with enq big inv show ?thesis
    by (intro conjI exI [of _ "[]"]) (auto simp: tbf_enqueue_def Let_def drop_law [OF h])
next
  case True
  with enq big have seg: "tbf_segment h g ops skb sch tf = (ret, sch', tf')"
    by (simp add: tbf_enqueue_def Let_def)
  let ?segs = "skb_gso_segment g skb (netif_skb_features g skb AND NOT (netif_f_gso_mask g))"
  show ?thesis
  proof (cases "?segs = None \<or> ?segs = Some []")
    case True
    with seg inv show ?thesis
      by (intro conjI exI [of _ "[]"]) (auto simp: tbf_segment_def Let_def drop_law [OF h])
  next
    case False
    then obtain segs where segs: "?segs = Some segs" "segs \<noteq> []" by auto
    obtain len nb c st tf1 where
      loop: "tbf_segment_loop h ops segs 0 0 (tbf_qdisc (t_q sch)) (t_st sch) tf = (len, nb, c, st, tf1)"
      by (metis prod_cases5)
    from segment_loop_inv [OF inv loop] obtain acc where acc: "inv c"
      "skbs c = skbs (tbf_qdisc (t_q sch)) @ acc" "length acc = nb" by auto
    with segment_loop_stats [OF h loop] seg segs loop show ?thesis
      by (intro conjI exI [of _ acc]) (auto simp: tbf_segment_def Let_def)
  qed
qed

lemma enqueue_accounting:
  assumes h: "sched_hdr_ok h" and inv: "inv (tbf_qdisc (t_q sch))" and q: "qlen_ok skbs sch"
    and enq: "tbf_enqueue h g ops skb sch tf = (ret, sch', tf')"
  shows "qlen_ok skbs sch'"
    and "\<not> tbf_max_size (t_q sch) < pkt_len skb \<Longrightarrow> backlog_ok skbs sch \<Longrightarrow> backlog_ok skbs sch'"
proof -
  show "qlen_ok skbs sch'"
    using enqueue_big [OF h inv _ enq] enqueue_small [OF h inv _ enq] q
    by (cases "tbf_max_size (t_q sch) < pkt_len skb") (auto simp: qlen_ok_def split: if_splits)
  show "\<not> tbf_max_size (t_q sch) < pkt_len skb \<Longrightarrow> backlog_ok skbs sch \<Longrightarrow> backlog_ok skbs sch'"
    using enqueue_small [OF h inv _ enq] by (auto simp: backlog_ok_def split: if_splits)
qed

lemma dequeue_accounting:
  assumes h: "sched_hdr_ok h" and inv: "inv (tbf_qdisc (t_q sch))"
    and deq: "tbf_dequeue h ops now sch = (r, sch')"
  shows "qlen_ok skbs sch \<Longrightarrow> qlen_ok skbs sch'" and "backlog_ok skbs sch \<Longrightarrow> backlog_ok skbs sch'"
proof -
  have "(qlen_ok skbs sch \<longrightarrow> qlen_ok skbs sch') \<and> (backlog_ok skbs sch \<longrightarrow> backlog_ok skbs sch')"
  proof (cases "skbs (tbf_qdisc (t_q sch))")
    case Nil
    with dequeue_empty_queue [OF inv, of h now] deq show ?thesis
      by (auto simp: qlen_ok_def backlog_ok_def)
  next
    case (Cons skb rest)
    obtain a b where t: "tbf_toks h (t_q sch) now (pkt_len skb) = (a, b)" by fastforce
    show ?thesis
    proof (cases "0 \<le> sint a \<and> 0 \<le> sint b")
      case True
      with dequeue_sends [OF inv Cons t] deq Cons show ?thesis
        by (auto simp: qlen_ok_def backlog_ok_def drop_stats [OF h])
    next
      case False
      with dequeue_throttles [OF inv Cons t] deq Cons show ?thesis
        by (auto simp: qlen_ok_def backlog_ok_def drop_stats [OF h])
    qed
  qed
  then show "qlen_ok skbs sch \<Longrightarrow> qlen_ok skbs sch'" "backlog_ok skbs sch \<Longrightarrow> backlog_ok skbs sch'" by auto
qed

lemma reset_accounting:
  assumes "inv (tbf_qdisc (t_q sch))"
  shows "qlen_ok skbs (tbf_reset ops now sch) \<and> backlog_ok skbs (tbf_reset ops now sch) \<and>
         inv (tbf_qdisc (t_q (tbf_reset ops now sch)))"
  using reset_law [OF assms] by (simp add: qlen_ok_def backlog_ok_def tbf_reset_def Let_def)

end

end
