(* ===== verification/Tbf_Demo.thy ===== *)
theory Tbf_Demo
  imports Tbf_Live
begin

text \<open>
  A concrete token bucket filter of one byte per second with a bucket of 15 bytes over a byte
  FIFO, a reconfiguration request and a short run, on which the properties are applied.
\<close>

section \<open>A concrete filter\<close>

definition demo_rate :: psched_ratecfg where
  "demo_rate = \<lparr>rate_bytes_ps = 1, rc_mult = 4000000000, rc_overhead = 0, rc_linklayer = 1, rc_shift = 2\<rparr>"

definition demo_skb :: "nat \<Rightarrow> sk_buff" where
  "demo_skb n = \<lparr>skb_id = n, skb_len = 10, pkt_len = 10\<rparr>"

definition demo_fifo :: "u32 \<Rightarrow> sk_buff list \<Rightarrow> Qdisc" where
  "demo_fifo lim q = \<lparr>sch_ops = Bfifo_ops, sch_flags = 4, sch_limit = lim, sch_handle = 0, sch_parent = 0,
     sch_q = q, sch_gso_skb = [], sch_st = qdisc_stats_zero\<lparr>q_qlen := of_nat (length q),
       qs_backlog := sum_list (map pkt_len q)\<rparr>\<rparr>"

definition demo_sch :: "u32 \<Rightarrow> s64 \<Rightarrow> sk_buff list \<Rightarrow> Qdisc tbf_sch" where
  "demo_sch lim tokens q = \<lparr>t_handle = 0x10000, t_offloaded = False, t_deactivated = False,
     t_st = qdisc_stats_zero\<lparr>q_qlen := of_nat (length q), qs_backlog := sum_list (map pkt_len q)\<rparr>,
     t_q = \<lparr>tbf_limit = lim, tbf_max_size = 15, tbf_buffer = 15000000000, tbf_mtu = 0, tbf_rate = demo_rate,
            tbf_peak = ratecfg_zero, tbf_tokens = tokens, tbf_ptokens = 0, tbf_t_c = 0,
            tbf_qdisc = demo_fifo lim q, tbf_watchdog = \<lparr>wd_last_expires = 0, wd_timer = None\<rparr>\<rparr>,
     t_ancs = []\<rparr>"

definition demo_gso :: gso_env where
  "demo_gso = \<lparr>netif_skb_features = \<lambda>_. 0, netif_f_gso_mask = 0,
     skb_gso_segment = (\<lambda>skb _. Some [skb\<lparr>skb_len := 10\<rparr>, skb\<lparr>skb_len := 10\<rparr>]),
     skb_is_gso = (\<lambda>_. True), skb_gso_validate_mac_len = (\<lambda>_ _. True)\<rparr>"

text \<open>A request for one byte per second and a burst of 15 bytes, given as attributes.\<close>

definition demo_parms :: tc_tbf_qopt where
  "demo_parms = \<lparr>qopt_rate = ratespec_zero\<lparr>rs_rate := 1, rs_linklayer := 1\<rparr>,
     qopt_peakrate = ratespec_zero, qopt_limit = 9000, qopt_buffer = 1000, qopt_mtu = 0\<rparr>"

definition demo_env :: "Qdisc tbf_change_env" where
  "demo_env = \<lparr>nla_parse_nested = (\<lambda>_ _ _. Inr [TCA_TBF_PARMS \<mapsto> qopt_bytes demo_parms,
                                                   TCA_TBF_BURST \<mapsto> bytes32 15]),
     env_roundup = (\<lambda>n m. (n + m - 1) div m * m), rtab_kmalloc = None, ptab_kmalloc = None,
     is_noop_qdisc = (\<lambda>q. sch_ops q = Noop_ops), nla_kmalloc_ok = True, created_qdisc = None,
     qdisc_tree_flush_backlog = (\<lambda>_ sch. sch)\<rparr>"

lemma demo_l2t: "unat (psched_l2t_ns list_hdr demo_rate len) = 1000000000 * unat len"
  by (simp add: list_hdr_def demo_rate_def unat_reciprocal_ns)

lemma demo_l2t_15: "psched_l2t_ns list_hdr demo_rate 15 = 15000000000"
  by (rule word_unat_eq_iff [THEN iffD2]) (simp only: demo_l2t, simp)

lemma demo_inv:
  assumes "time_ok tokens"
  shows "tbf_inv list_hdr (t_q (demo_sch lim tokens q))"
proof -
  have "1000000000 * unat len < 2 ^ 62" for len :: u32
    using unsigned_less [of len, where ?'a = nat] by simp
  then have "l2t_ok list_hdr demo_rate" by (simp only: l2t_ok_def demo_l2t) blast
  with assms show ?thesis
    by (simp add: demo_sch_def tbf_inv_def time_ok_def tbf_peak_present_def ratecfg_zero_def)
qed

lemma demo_fifo_inv: "fifo_inv (tbf_qdisc (t_q (demo_sch lim tokens q)))"
  by (simp add: demo_sch_def demo_fifo_def fifo_inv_def qlen_backlog_def)

lemma demo_env_ok: "change_env_ok sch_q fifo_inv demo_env"
  by (simp add: change_env_ok_def demo_env_def)

definition demo_evs :: "Qdisc tbf_event list" where
  "demo_evs = [Ev_change demo_env [], Ev_dequeue 1000000000, Ev_enqueue demo_gso (demo_skb 3),
     Ev_dequeue 7000000000, Ev_dequeue 16000000000]"

lemma demo_rate_precomputed: "psched_ratecfg_precompute (qopt_rate demo_parms) 0 = Some demo_rate"
  by code_simp

lemma demo_hdr:
  "psched_ticks2ns list_hdr t = push_bit 6 (ucast t)" "psched_mtu list_hdr = 1514"
  "tcq_f_can_bypass list_hdr = 4"
  by (simp_all add: list_hdr_def)

lemma demo_change_params:
  "tbf_change_params list_hdr demo_env opt rtabs =
     Some (Inr \<lparr>p_qopt = demo_parms, p_rate = demo_rate, p_peak = ratecfg_zero, p_max_size = 15,
       p_buffer = 15000000000, p_mtu = 0, p_burst_given = True, p_pburst_given = False\<rparr>, rtabs)"
  using demo_rate_precomputed
  by (simp add: tbf_change_params_def demo_env_def Let_def tbf_change_peak_def demo_parms_def rtab_probe_def
      qdisc_get_rtab_def qdisc_put_rtab_def ratespec_zero_def demo_l2t_15 demo_hdr)

lemma demo_change:
  "tbf_change list_hdr (fifo_ops list_hdr) demo_env opt (demo_sch lim tokens q) rtabs =
     Some (0, demo_sch 9000 tokens q, rtabs)"
  unfolding tbf_change_def demo_change_params
  by (simp add: tbf_change_child_def demo_env_def demo_sch_def demo_fifo_def fifo_set_limit_def
      fifo_ops_def fifo_init_def demo_hdr tbf_change_commit_def demo_parms_def)

lemma demo_tail_code:
  "map_option (\<lambda>(ds, s). map (\<lambda>d. (dep_time d, dep_rate d = demo_rate, dep_cost d, dep_depth d, dep_level d)) ds)
     (tbf_run list_hdr (fifo_ops list_hdr) (tl demo_evs) (demo_sch 9000 15000000000 [demo_skb 1, demo_skb 2], []))
   = Some [(1000000000, True, 10000000000, 15000000000, 5000000000), (7000000000, True, 10000000000, 15000000000, 1000000000),
           (16000000000, True, 10000000000, 15000000000, 0)]"
  by code_simp

lemma demo_evs_ok: "evs_ok sch_q fifo_inv (sint (tbf_t_c (t_q (demo_sch lim tokens q)))) demo_evs"
  by (simp add: demo_evs_def demo_sch_def demo_env_ok time_ok_def)

lemma demo_run:
  obtains a b c s rt where
    "tbf_run list_hdr (fifo_ops list_hdr) demo_evs (demo_sch 500 15000000000 [demo_skb 1, demo_skb 2], []) = Some ([a, b, c], s, rt)"
    "dep_time a = 1000000000" "dep_time b = 7000000000" "dep_time c = 16000000000"
    "dep_cost a = 10000000000" "dep_cost b = 10000000000"
    "dep_depth a = 15000000000" "dep_rate a = demo_rate" "dep_rate b = demo_rate" "dep_rate c = demo_rate"
  using demo_tail_code by (auto simp: map_eq_Cons_conv demo_evs_def demo_change)

lemma demo_fields:
  "tbf_t_c (t_q (demo_sch lim a q)) = 0" "tbf_tokens (t_q (demo_sch lim a q)) = a" "tbf_ptokens (t_q (demo_sch lim a q)) = 0"
  "sch_q (tbf_qdisc (t_q (demo_sch lim a q))) = q" "tbf_max_size (t_q (demo_sch lim a q)) = 15"
  "\<not> t_deactivated (demo_sch lim a q)"
  by (simp_all add: demo_sch_def demo_fifo_def)

lemma demo_times [simp]: "time_ok 15000000000" "time_ok 5000000000" "time_ok 1000000000"
  by (simp_all add: time_ok_def)

lemmas demo_start =
  list_hdr_ok demo_inv [OF demo_times(1), of 500 "[demo_skb 1, demo_skb 2]"] demo_fifo_inv demo_evs_ok

end
