(* ===== verification/Tbf_Properties.thy ===== *)
theory Tbf_Properties
  imports Tbf_Demo
begin

text \<open>
  The properties of the token bucket filter, over the FIFO inner qdiscs of \<^verbatim>\<open>sch_fifo.c\<close>
  and any header helpers that behave as documented. The witnesses use the filter of \<open>Tbf_Demo\<close>.
\<close>

lemma packet_bytes_bound:
  assumes "sched_hdr_ok h" "psched_ratecfg_precompute conf rate64 = Some r" "0 < rate_bytes_ps r" "plain_rate r"
  shows "int (unat len) * (10 ^ 9 * 2 ^ unat (rc_shift r) - int (unat (rate_bytes_ps r)))
         \<le> 2 ^ unat (rc_shift r) * int (unat (rate_bytes_ps r)) * (l2t_cost h r len + 1)"
proof -
  let ?s = "unat (rc_shift r)" and ?t = "unat (reciprocal_ns r len)" and ?R = "unat (rate_bytes_ps r)"
  have "10 ^ 9 * unat len * 2 ^ ?s < ((?t + 1) * 2 ^ ?s + unat len) * ?R"
    by (rule floored_reciprocal(2) [OF _ precompute_SomeD(2) [OF assms(2,3)] unat_reciprocal_ns])
       (use assms(3) in \<open>simp add: word_less_nat_alt\<close>)
  then have "int (10 ^ 9 * unat len * 2 ^ ?s) \<le> int (((?t + 1) * 2 ^ ?s + unat len) * ?R)"
    by (simp only: of_nat_le_iff)
  moreover have "l2t_cost h r len = int ?t"
    by (simp add: l2t_cost_def hdr_l2t_plain [OF assms(1,4)])
  ultimately show ?thesis by (simp add: algebra_simps)
qed

section \<open>Rate conformance\<close>

text \<open>
  C1. In every run of enqueues, dequeues and reconfigurations, and for every window of consecutive
  departures, the transmission time of the packets in the window is at most the bucket depth when
  it starts plus the length of the window; the same holds for the peak rate. Reconfigurations never
  add credit.
\<close>

theorem tbf_window_conformance:
  assumes "sched_hdr_ok h" "tbf_inv h (t_q sch)" "fifo_inv (tbf_qdisc (t_q sch))"
    and "evs_ok sch_q fifo_inv (sint (tbf_t_c (t_q sch))) evs"
    and "tbf_run h (fifo_ops h) evs (sch, rtabs) = Some (xs @ d # ys @ zs, sch', rtabs')"
  shows "sum_list (map dep_cost (d # ys)) \<le> dep_depth d + (dep_time (last (d # ys)) - dep_time d) \<and>
         sum_list (map dep_pcost (d # ys)) \<le> dep_pdepth d + (dep_time (last (d # ys)) - dep_time d)"
proof -
  from inner_qdisc_change.run_trace [OF fifo_inner_qdisc_change [OF assms(1)] assms(1-4) order_refl assms(5)]
  have "bucket_trace (sint (tbf_t_c (t_q sch))) (sint (tbf_tokens (t_q sch)))
          (sint (tbf_ptokens (t_q sch))) (xs @ d # ys @ zs)" by blast
  from trace_window [OF this] show ?thesis by blast
qed

theorem tbf_window_conformance_witness:
  "\<exists>a b c s rt.
     tbf_run list_hdr (fifo_ops list_hdr) demo_evs (demo_sch 500 15000000000 [demo_skb 1, demo_skb 2], []) = Some ([a, b, c], s, rt) \<and>
     sum_list (map dep_cost [a, b]) = 20000000000 \<and> 20000000000 \<le> dep_depth a + (dep_time b - dep_time a)"
proof (rule demo_run)
  fix a b c s rt
  assume run: "tbf_run list_hdr (fifo_ops list_hdr) demo_evs (demo_sch 500 15000000000 [demo_skb 1, demo_skb 2], []) = Some ([a, b, c], s, rt)"
    and "dep_cost a = 10000000000" "dep_cost b = 10000000000"
  with tbf_window_conformance [OF demo_start, of "[]" "[]" a "[b]" "[c]" s rt] show ?thesis
    by (intro exI [of _ a] exI [of _ b] exI [of _ c] exI [of _ s] exI [of _ rt]) simp
qed

text \<open>
  C2. The filter refines its specification: in every run the invariant of the token state is kept and
  the departures are a trace of the bucket \<open>N(t + d) = min (B, N(t) + d)\<close> of the file's description, in
  which no packet leaves before its cost is covered.
\<close>

theorem tbf_refines_bucket:
  assumes "sched_hdr_ok h" "tbf_inv h (t_q sch)" "fifo_inv (tbf_qdisc (t_q sch))"
    and "evs_ok sch_q fifo_inv (sint (tbf_t_c (t_q sch))) evs"
    and "tbf_run h (fifo_ops h) evs (sch, rtabs) = Some (ds, sch', rtabs')"
  shows "tbf_inv h (t_q sch') \<and> fifo_inv (tbf_qdisc (t_q sch')) \<and>
         bucket_trace (sint (tbf_t_c (t_q sch))) (sint (tbf_tokens (t_q sch))) (sint (tbf_ptokens (t_q sch))) ds"
  using inner_qdisc_change.run_trace [OF fifo_inner_qdisc_change [OF assms(1)] assms(1-4) order_refl assms(5)]
  by blast

theorem tbf_refines_bucket_witness:
  "\<exists>ds s rt. tbf_run list_hdr (fifo_ops list_hdr) demo_evs (demo_sch 500 15000000000 [demo_skb 1, demo_skb 2], []) = Some (ds, s, rt) \<and>
     length ds = 3 \<and> tbf_inv list_hdr (t_q s) \<and> bucket_trace 0 15000000000 0 ds"
proof (rule demo_run)
  fix a b c s rt
  assume run: "tbf_run list_hdr (fifo_ops list_hdr) demo_evs (demo_sch 500 15000000000 [demo_skb 1, demo_skb 2], []) = Some ([a, b, c], s, rt)"
  then show ?thesis
    using tbf_refines_bucket [OF demo_start run]
    by (intro exI [of _ "[a, b, c]"] exI [of _ s] exI [of _ rt]) (simp add: demo_fields del: bucket_trace.simps)
qed

text \<open>
  C11. Packets leave in the order in which they came, none twice and none invented: what left in a run
  followed by what is still queued is a subsequence of the initial queue followed by the packets (or
  their segments) offered to enqueue.
\<close>

theorem tbf_fifo_order:
  assumes "sched_hdr_ok h" "tbf_inv h (t_q sch)" "fifo_inv (tbf_qdisc (t_q sch))"
    and "evs_ok sch_q fifo_inv (sint (tbf_t_c (t_q sch))) evs"
    and "tbf_run h (fifo_ops h) evs (sch, rtabs) = Some (ds, sch', rtabs')"
  shows "subseq (map dep_skb ds @ sch_q (tbf_qdisc (t_q sch')))
                (sch_q (tbf_qdisc (t_q sch)) @ offered_by evs)"
  using inner_qdisc_change.run_trace [OF fifo_inner_qdisc_change [OF assms(1)] assms(1-4) order_refl assms(5)]
  by blast

theorem tbf_fifo_order_witness:
  "\<exists>ds s rt. tbf_run list_hdr (fifo_ops list_hdr) demo_evs (demo_sch 500 15000000000 [demo_skb 1, demo_skb 2], []) = Some (ds, s, rt) \<and>
     length ds = 3 \<and>
     subseq (map dep_skb ds @ sch_q (tbf_qdisc (t_q s))) ([demo_skb 1, demo_skb 2] @ offered_by demo_evs)"
proof (rule demo_run)
  fix a b c s rt
  assume run: "tbf_run list_hdr (fifo_ops list_hdr) demo_evs (demo_sch 500 15000000000 [demo_skb 1, demo_skb 2], []) = Some ([a, b, c], s, rt)"
  then show ?thesis
    using tbf_fifo_order [OF demo_start run]
    by (intro exI [of _ "[a, b, c]"] exI [of _ s] exI [of _ rt]) (simp add: demo_fields del: bucket_trace.simps)
qed

text \<open>
  C10. The bound in bytes: while one plain rate is configured, the bytes of a window of \<open>n\<close> departures
  satisfy \<open>bytes * (10^9 * 2^s - rate) \<le> 2^s * rate * (depth + window + n)\<close>: the configured rate with
  the bucket depth as burst, up to one nanosecond per packet and the rounding of the reciprocal.
\<close>

theorem tbf_window_bytes:
  assumes "sched_hdr_ok h" "tbf_inv h (t_q sch)" "fifo_inv (tbf_qdisc (t_q sch))"
    and "evs_ok sch_q fifo_inv (sint (tbf_t_c (t_q sch))) evs"
    and "tbf_run h (fifo_ops h) evs (sch, rtabs) = Some (xs @ d # ys @ zs, sch', rtabs')"
    and "psched_ratecfg_precompute conf rate64 = Some r" "0 < rate_bytes_ps r" "plain_rate r"
    and "\<forall>e \<in> set (d # ys). dep_rate e = r"
  shows "(\<Sum>e \<leftarrow> d # ys. int (unat (pkt_len (dep_skb e)))) *
           (10 ^ 9 * 2 ^ unat (rc_shift r) - int (unat (rate_bytes_ps r)))
         \<le> 2 ^ unat (rc_shift r) * int (unat (rate_bytes_ps r)) *
           (dep_depth d + (dep_time (last (d # ys)) - dep_time d) + int (length (d # ys)))"
proof -
  let ?s = "2 ^ unat (rc_shift r) :: int" and ?R = "int (unat (rate_bytes_ps r))"
    and ?len = "\<lambda>e. int (unat (pkt_len (dep_skb e)))"
  have tr: "bucket_trace (sint (tbf_t_c (t_q sch))) (sint (tbf_tokens (t_q sch)))
          (sint (tbf_ptokens (t_q sch))) (xs @ d # ys @ zs)"
    using inner_qdisc_change.run_trace [OF fifo_inner_qdisc_change [OF assms(1)] assms(1-4) order_refl assms(5)]
    by blast
  have one: "?len e * (10 ^ 9 * ?s - ?R) \<le> ?s * ?R * (dep_cost e + 1)" if "e \<in> set (d # ys)" for e
    using that assms(9) packet_bytes_bound [OF assms(1,6,7,8), of "pkt_len (dep_skb e)"]
      run_costs [OF assms(5), of e] by auto
  have "(\<Sum>e \<leftarrow> d # ys. ?len e) * (10 ^ 9 * ?s - ?R) = (\<Sum>e \<leftarrow> d # ys. ?len e * (10 ^ 9 * ?s - ?R))"
    by (simp only: sum_list_mult_const)
  also have "\<dots> \<le> (\<Sum>e \<leftarrow> d # ys. ?s * ?R * (dep_cost e + 1))"
    using one by (intro sum_list_mono) blast
  also have "\<dots> = ?s * ?R * (sum_list (map dep_cost (d # ys)) + int (length (d # ys)))"
    by (simp only: sum_list_const_mult sum_list_addf sum_list_triv) simp
  also have "\<dots> \<le> ?s * ?R * (dep_depth d + (dep_time (last (d # ys)) - dep_time d) + int (length (d # ys)))"
    using trace_window(1) [OF tr] by (intro mult_left_mono) auto
  finally show ?thesis .
qed

theorem tbf_window_bytes_witness:
  "\<exists>a b c s rt.
     tbf_run list_hdr (fifo_ops list_hdr) demo_evs (demo_sch 500 15000000000 [demo_skb 1, demo_skb 2], []) = Some ([a, b, c], s, rt) \<and>
     (\<Sum>e \<leftarrow> [a, b, c]. int (unat (pkt_len (dep_skb e)))) * (10 ^ 9 * 2 ^ 2 - 1) \<le> 2 ^ 2 * 1 * (15000000000 + 15000000000 + 3)"
proof (rule demo_run)
  fix a b c s rt
  assume run: "tbf_run list_hdr (fifo_ops list_hdr) demo_evs (demo_sch 500 15000000000 [demo_skb 1, demo_skb 2], []) = Some ([a, b, c], s, rt)"
    and d: "dep_time a = 1000000000" "dep_time c = 16000000000" "dep_depth a = 15000000000"
      "dep_rate a = demo_rate" "dep_rate b = demo_rate" "dep_rate c = demo_rate"
  have r: "rate_bytes_ps demo_rate = 1" "rc_shift demo_rate = 2" "plain_rate demo_rate"
    by (simp_all add: demo_rate_def plain_rate_def)
  have "tbf_run list_hdr (fifo_ops list_hdr) demo_evs (demo_sch 500 15000000000 [demo_skb 1, demo_skb 2], []) = Some ([] @ a # [b, c] @ [], s, rt)"
    using run by simp
  from tbf_window_bytes [OF demo_start this demo_rate_precomputed _ r(3)] d r run show ?thesis
    by (intro exI [of _ a] exI [of _ b] exI [of _ c] exI [of _ s] exI [of _ rt]) simp
qed

section \<open>Progress\<close>

text \<open>
  C3. A throttled filter wakes up exactly when it can send: if a dequeue holds back a packet that
  fits the bucket, the timer of the watchdog is armed for a later instant; before it the timer does not run and every dequeue returns
  nothing, from then on the timer runs and a dequeue returns the packet. Before, the timer is set to the expiry remembered
  last, or that expiry has passed, as is the case unless the watchdog has been cancelled; afterwards it is so again.
\<close>

theorem tbf_throttle_until_expiry:
  assumes "sched_hdr_ok h" "tbf_inv h (t_q sch)" "fifo_inv (tbf_qdisc (t_q sch))"
    and "sch_q (tbf_qdisc (t_q sch)) = skb # rest"
    and "time_ok now" "sint (tbf_t_c (t_q sch)) \<le> sint now"
    and "fits h (t_q sch) (pkt_len skb)" "\<not> t_deactivated sch" "watchdog_ok now (tbf_watchdog (t_q sch))"
    and "tbf_dequeue h (fifo_ops h) now sch = (None, sch')"
  shows "\<exists>e. wd_timer (tbf_watchdog (t_q sch')) = Some e \<and> sint now < sint e \<and> watchdog_ok now (tbf_watchdog (t_q sch')) \<and>
    (\<forall>t. time_ok t \<and> sint now \<le> sint t \<longrightarrow>
       fst (qdisc_watchdog_expire t (tbf_watchdog (t_q sch'))) = (sint e \<le> sint t) \<and>
       fst (tbf_dequeue h (fifo_ops h) t sch') = (if sint e \<le> sint t then Some skb else None))"
  by (rule inner_qdisc.throttle_until_expiry [OF fifo_inner_qdisc [OF assms(1)] assms(2-)])

lemma demo_fits: "fits list_hdr (t_q (demo_sch lim a q)) 10"
  by (simp add: fits_def demo_sch_def l2t_cost_def demo_l2t tbf_peak_present_def ratecfg_zero_def)

lemma demo_throttled:
  obtains s where "tbf_dequeue list_hdr (fifo_ops list_hdr) 1000000000 (demo_sch 500 5000000000 [demo_skb 1]) = (None, s)"
    "wd_timer (tbf_watchdog (t_q s)) = Some 5000000000"
proof -
  have "(case tbf_dequeue list_hdr (fifo_ops list_hdr) 1000000000 (demo_sch 500 5000000000 [demo_skb 1]) of
           (r, s) \<Rightarrow> (r, wd_timer (tbf_watchdog (t_q s)))) = (None, Some 5000000000)"
    by code_simp
  with that show thesis by (auto split: prod.splits)
qed

theorem tbf_throttle_until_expiry_witness:
  "\<exists>s. tbf_dequeue list_hdr (fifo_ops list_hdr) 1000000000 (demo_sch 500 5000000000 [demo_skb 1]) = (None, s) \<and>
     fst (tbf_dequeue list_hdr (fifo_ops list_hdr) 4999999999 s) = None \<and>
     fst (qdisc_watchdog_expire 4999999999 (tbf_watchdog (t_q s))) = False \<and>
     fst (qdisc_watchdog_expire 5000000000 (tbf_watchdog (t_q s))) = True \<and>
     fst (tbf_dequeue list_hdr (fifo_ops list_hdr) 5000000000 s) = Some (demo_skb 1)"
proof (rule demo_throttled)
  fix s
  assume s: "tbf_dequeue list_hdr (fifo_ops list_hdr) 1000000000 (demo_sch 500 5000000000 [demo_skb 1]) = (None, s)"
    "wd_timer (tbf_watchdog (t_q s)) = Some 5000000000"
  have wd: "watchdog_ok 1000000000 (tbf_watchdog (t_q (demo_sch 500 5000000000 [demo_skb 1])))" by (simp add: demo_sch_def watchdog_ok_def)
  have fits: "fits list_hdr (t_q (demo_sch 500 5000000000 [demo_skb 1])) (pkt_len (demo_skb 1))"
    by (simp add: demo_fits demo_skb_def)
  from tbf_throttle_until_expiry [OF list_hdr_ok demo_inv [OF demo_times(2)] demo_fifo_inv demo_fields(4)
      demo_times(3) _ fits demo_fields(6) wd s(1)]
  have all: "time_ok t \<and> 1000000000 \<le> sint t \<Longrightarrow> fst (qdisc_watchdog_expire t (tbf_watchdog (t_q s))) = (5000000000 \<le> sint t) \<and>
      fst (tbf_dequeue list_hdr (fifo_ops list_hdr) t s) = (if 5000000000 \<le> sint t then Some (demo_skb 1) else None)" for t
    using s(2) by (simp add: demo_fields)
  from s(1) all [of 4999999999] all [of 5000000000] show ?thesis by (simp add: time_ok_def)
qed

text \<open>
  C4. Whatever enqueue admits can be sent: after an accepted request with plain 32-bit rates, every
  packet no longer than \<^verbatim>\<open>max_size\<close> costs no more than the bucket holds, at the rate and at the
  peak rate, although \<^verbatim>\<open>max_size\<close> is rounded through two different conversions.
\<close>

theorem tbf_admitted_packets_fit:
  assumes "sched_hdr_ok h" "\<forall>c sch. t_q (qdisc_tree_flush_backlog env c sch) = t_q sch"
    and "\<forall>n a p. nla_parse_nested env n a p \<noteq> Inl 0"
    and "tbf_change h (fifo_ops h) env opt sch rtabs = Some (0, sch', rtabs')"
    and "0 < rate_bytes_ps (tbf_rate (t_q sch'))" "unat (rate_bytes_ps (tbf_rate (t_q sch'))) < 2 ^ 32"
    and "plain_rate (tbf_rate (t_q sch'))"
    and "unat (rate_bytes_ps (tbf_peak (t_q sch'))) < 2 ^ 32" "plain_rate (tbf_peak (t_q sch'))"
    and "len \<le> tbf_max_size (t_q sch')"
  shows "fits h (t_q sch') len"
proof -
  have "tbf_change_params h env opt rtabs \<noteq> Some (Inl 0, rtabs')"
    by (rule change_params_no_Inl_0) (use assms(3) in blast)
  from change_fits [OF assms(1,2,4) this assms(5-10)] show ?thesis .
qed

lemma demo_change_side:
  "\<forall>c sch. t_q (qdisc_tree_flush_backlog demo_env c sch) = t_q sch"
  "\<forall>n a p. nla_parse_nested demo_env n a p \<noteq> Inl 0"
  by (simp_all add: demo_env_def)

theorem tbf_admitted_packets_fit_witness:
  "tbf_change list_hdr (fifo_ops list_hdr) demo_env [] (demo_sch 500 5000000000 []) [] =
     Some (0, demo_sch 9000 5000000000 [], []) \<and> fits list_hdr (t_q (demo_sch 9000 5000000000 [])) 15"
proof
  have q: "tbf_rate (t_q (demo_sch 9000 a q)) = demo_rate" "tbf_peak (t_q (demo_sch 9000 a q)) = ratecfg_zero" for a q
    by (simp_all add: demo_sch_def)
  have "0 < rate_bytes_ps demo_rate" "unat (rate_bytes_ps demo_rate) < 2 ^ 32" "plain_rate demo_rate"
    "unat (rate_bytes_ps ratecfg_zero) < 2 ^ 32" "plain_rate ratecfg_zero"
    by (simp_all add: demo_rate_def ratecfg_zero_def plain_rate_def)
  then show "fits list_hdr (t_q (demo_sch 9000 5000000000 [])) 15"
    using tbf_admitted_packets_fit [OF list_hdr_ok demo_change_side demo_change, of 5000000000 "[]" 15]
    by (simp add: q demo_fields)
qed (rule demo_change)

text \<open>
  A packet that costs more than the bucket holds, as one left over from before the bucket was made
  smaller, never leaves: every dequeue holds it back and leaves the queue as it is, so everything
  behind it waits too.
\<close>

theorem tbf_oversized_head_blocks:
  assumes "sched_hdr_ok h" "tbf_inv h (t_q sch)" "fifo_inv (tbf_qdisc (t_q sch))"
    and "sch_q (tbf_qdisc (t_q sch)) = skb # rest"
    and "sint (tbf_buffer (t_q sch)) < l2t_cost h (tbf_rate (t_q sch)) (pkt_len skb)"
    and "time_ok now" "sint (tbf_t_c (t_q sch)) \<le> sint now"
    and "tbf_dequeue h (fifo_ops h) now sch = (r, sch')"
  shows "r = None \<and> sch_q (tbf_qdisc (t_q sch')) = skb # rest"
proof -
  have "sint (fst (tbf_toks h (t_q sch) now (pkt_len skb))) < 0"
    using tbf_toks_rate [OF assms(2,6,7), of "pkt_len skb"] assms(5) by (simp add: bucket_level_def)
  then have "\<not> toks_nonneg h (t_q sch) now (pkt_len skb)" by (simp add: toks_nonneg_def)
  then have "r = None"
    using inner_qdisc.dequeue_iff [OF fifo_inner_qdisc [OF assms(1)] assms(3,4), of h now] assms(8) by simp
  with inner_qdisc.dequeue_fifo [OF fifo_inner_qdisc [OF assms(1)] assms(3,8)] assms(4)
  show ?thesis by simp
qed

definition big_skb :: sk_buff where
  "big_skb = \<lparr>skb_id = 9, skb_len = 20, pkt_len = 20\<rparr>"

theorem tbf_oversized_head_blocks_witness:
  "\<exists>s. tbf_dequeue list_hdr (fifo_ops list_hdr) 1000000000 (demo_sch 500 15000000000 [big_skb, demo_skb 2]) = (None, s) \<and>
     sch_q (tbf_qdisc (t_q s)) = [big_skb, demo_skb 2]"
proof -
  let ?s = "demo_sch 500 15000000000 [big_skb, demo_skb 2]"
  obtain r s where deq: "tbf_dequeue list_hdr (fifo_ops list_hdr) 1000000000 ?s = (r, s)" by fastforce
  have "sint (tbf_buffer (t_q ?s)) < l2t_cost list_hdr (tbf_rate (t_q ?s)) (pkt_len big_skb)"
    by (simp add: demo_sch_def big_skb_def l2t_cost_def demo_l2t)
  from tbf_oversized_head_blocks [OF list_hdr_ok demo_inv [OF demo_times(1)] demo_fifo_inv demo_fields(4)
      this demo_times(3) _ deq] deq show ?thesis by (simp add: demo_fields)
qed

section \<open>Reconfiguration\<close>

text \<open>
  C12. A reconfiguration keeps the bucket levels, the time of their last update and the invariant,
  whatever its outcome; the queued packets are kept or, when a new inner qdisc is installed, dropped
  as a whole.
\<close>

theorem tbf_change_keeps_levels:
  assumes "sched_hdr_ok h" "change_env_ok sch_q fifo_inv env"
    and "tbf_inv h (t_q sch)" "fifo_inv (tbf_qdisc (t_q sch))"
    and "tbf_change h (fifo_ops h) env opt sch rtabs = Some (err, sch', rtabs')"
  shows "tbf_tokens (t_q sch') = tbf_tokens (t_q sch) \<and> tbf_ptokens (t_q sch') = tbf_ptokens (t_q sch) \<and>
         tbf_t_c (t_q sch') = tbf_t_c (t_q sch) \<and> tbf_inv h (t_q sch') \<and> fifo_inv (tbf_qdisc (t_q sch')) \<and>
         sch_q (tbf_qdisc (t_q sch')) \<in> {sch_q (tbf_qdisc (t_q sch)), []}"
  using inner_qdisc_change.change_keeps [OF fifo_inner_qdisc_change [OF assms(1)] assms] by blast

theorem tbf_change_keeps_levels_witness:
  "tbf_change list_hdr (fifo_ops list_hdr) demo_env [] (demo_sch 500 5000000000 [demo_skb 1]) [] =
     Some (0, demo_sch 9000 5000000000 [demo_skb 1], []) \<and>
   tbf_tokens (t_q (demo_sch 9000 5000000000 [demo_skb 1])) = 5000000000"
  using tbf_change_keeps_levels [OF list_hdr_ok demo_env_ok demo_inv [OF demo_times(2)] demo_fifo_inv demo_change]
  by (simp add: demo_change demo_fields)

subsection \<open>The mainline version\<close>

definition refilled :: "'c tbf_sch \<Rightarrow> 'c tbf_sch" where
  "refilled sch = sch\<lparr>t_q := (t_q sch)\<lparr>tbf_tokens := tbf_buffer (t_q sch), tbf_ptokens := tbf_mtu (t_q sch)\<rparr>\<rparr>"

lemma probe_rate:
  "(if rs_linklayer (qopt_rate qopt) = TC_LINKLAYER_UNAWARE then
      (case qdisc_get_rtab ru k (qopt_rate qopt) d rtabs of (tab, r, rtabs) \<Rightarrow> (qopt\<lparr>qopt_rate := r\<rparr>, qdisc_put_rtab tab rtabs))
    else (qopt, rtabs)) =
   (case rtab_probe ru k (qopt_rate qopt) d rtabs of (r, rtabs) \<Rightarrow> (qopt\<lparr>qopt_rate := r\<rparr>, rtabs))"
  "(if rs_linklayer (qopt_peakrate qopt) = TC_LINKLAYER_UNAWARE then
      (case qdisc_get_rtab ru k (qopt_peakrate qopt) d rtabs of (tab, r, rtabs) \<Rightarrow> (qopt\<lparr>qopt_peakrate := r\<rparr>, qdisc_put_rtab tab rtabs))
    else (qopt, rtabs)) =
   (case rtab_probe ru k (qopt_peakrate qopt) d rtabs of (r, rtabs) \<Rightarrow> (qopt\<lparr>qopt_peakrate := r\<rparr>, rtabs))"
  by (simp_all add: rtab_probe_def Let_def split: prod.splits)

text \<open>The half after the attributes have been read: both choose the same inner qdisc and store the same values.\<close>

definition install :: "sched_hdr \<Rightarrow> 'c Qdisc_ops \<Rightarrow> 'c tbf_change_env \<Rightarrow> tbf_params \<Rightarrow> 'c tbf_sch \<Rightarrow> (int \<times> 'c tbf_sch) option" where
  "install h ops env p sch = do {
     (err, c, child) \<leftarrow> tbf_change_child ops env (tbf_qdisc (t_q sch)) (qopt_limit (p_qopt p));
     let sch = sch\<lparr>t_q := (t_q sch)\<lparr>tbf_qdisc := c\<rparr>\<rparr>;
     Some (if err \<noteq> 0 then (err, sch) else (0, tbf_change_commit h env p child sch)) }"

lemma mainline_commit:
  "(do {
     let q = t_q sch;
     (err, q, child) \<leftarrow>
       (if \<not> is_noop_qdisc env (tbf_qdisc q) then do {
          (err, c) \<leftarrow> fifo_set_limit ops (nla_kmalloc_ok env) (tbf_qdisc q) (qopt_limit qopt);
          Some (err, q\<lparr>tbf_qdisc := c\<rparr>, None) }
        else if 0 < qopt_limit qopt then do {
          r \<leftarrow> fifo_create_dflt ops (nla_kmalloc_ok env) (created_qdisc env) (qopt_limit qopt);
          Some (case r of Inl err \<Rightarrow> (err, q, None) | Inr child \<Rightarrow> (0, q, Some child)) }
        else Some (0, q, None));
     let sch = sch\<lparr>t_q := q\<rparr>;
     if err \<noteq> 0 then Some (err, sch, rtabs)
     else do {
       let sch = (if child \<noteq> None then qdisc_tree_flush_backlog env (tbf_qdisc q) sch else sch);
       let q = (if child \<noteq> None then (t_q sch)\<lparr>tbf_qdisc := the child\<rparr> else t_q sch);
       let q = q\<lparr>tbf_limit := qopt_limit qopt\<rparr>;
       let q = (if pb then q\<lparr>tbf_mtu := mtu\<rparr> else q\<lparr>tbf_mtu := psched_ticks2ns h (qopt_mtu qopt)\<rparr>);
       let q = q\<lparr>tbf_max_size := ucast max_size\<rparr>;
       let q = (if b then q\<lparr>tbf_buffer := buffer\<rparr> else q\<lparr>tbf_buffer := psched_ticks2ns h (qopt_buffer qopt)\<rparr>);
       let q = q\<lparr>tbf_tokens := tbf_buffer q\<rparr>;
       let q = q\<lparr>tbf_ptokens := tbf_mtu q\<rparr>;
       let q = q\<lparr>tbf_rate := rate, tbf_peak := peak\<rparr>;
       Some (0, sch\<lparr>t_q := q\<rparr>, rtabs) } }) =
   map_option (\<lambda>(err, sch). (err, if err = 0 then refilled sch else sch, rtabs))
     (install h ops env \<lparr>p_qopt = qopt, p_rate = rate, p_peak = peak, p_max_size = max_size, p_buffer = buffer, p_mtu = mtu,
        p_burst_given = b, p_pburst_given = pb\<rparr> sch)"
  by (auto simp: install_def tbf_change_child_def tbf_change_commit_def refilled_def Let_def split: bind_splits sum.splits option.splits prod.splits)

lemma ucast_ucast_u32: "ucast (ucast w :: u64) = (w :: u32)"
  by (simp add: word_unat_eq_iff unsigned_ucast_eq take_bit_word_eq_self)

lemma mainline_params:
  assumes "nla_parse_nested env 8 opt tbf_policy = Inr tb" "tb TCA_TBF_PARMS = Some data"
  shows "tbf_change_mainline h ops env opt sch rtabs = do {
     (r, rtabs') \<leftarrow> tbf_change_params h env opt rtabs;
     (case r of
        Inl err \<Rightarrow> Some (err, sch, rtabs')
      | Inr p \<Rightarrow> map_option (\<lambda>(err, sch). (err, if err = 0 then refilled sch else sch, rtabs')) (install h ops env p sch)) }"
proof -
  obtain r rt where 1: "rtab_probe (env_roundup env) (rtab_kmalloc env) (qopt_rate (qopt_of_bytes data)) (tb TCA_TBF_RTAB) rtabs = (r, rt)" by fastforce
  obtain r' rt' where 2: "rtab_probe (env_roundup env) (ptab_kmalloc env) (qopt_peakrate (qopt_of_bytes data)) (tb TCA_TBF_PTAB) rt = (r', rt')" by fastforce
  show ?thesis
    unfolding tbf_change_mainline_def mainline_commit tbf_change_params_def tbf_change_peak_def assms sum.case option.case probe_rate 1 prod.case
    by (cases "tb TCA_TBF_BURST"; cases "tb TCA_TBF_PBURST"; cases "tb TCA_TBF_RATE64"; cases "tb TCA_TBF_PRATE64")
      (simp_all add: 1 2 ucast_ucast_u32 Let_def split: bind_splits)
qed

lemma params_error:
  assumes "nla_parse_nested env 8 opt tbf_policy = Inr tb" "tbf_change_params h env opt rtabs = Some (Inl err, rtabs')"
  shows "err \<noteq> 0"
  using assms by (auto simp: tbf_change_params_def tbf_change_peak_def Let_def split: option.splits bind_splits sum.splits prod.splits if_splits)

text \<open>
  C13. The filter and the mainline version in the same repository agree on every request: same error, same rate tables, same
  configuration, same inner qdisc. They differ in one thing: when a request is accepted, mainline fills both buckets to
  their new depth, this filter leaves them alone. The parser of the kernel reports an error by a number other than zero.
\<close>

theorem tbf_change_mainline_refills:
  assumes "\<forall>err. nla_parse_nested env 8 opt tbf_policy = Inl err \<longrightarrow> err \<noteq> 0"
  shows "tbf_change_mainline h ops env opt sch rtabs =
     map_option (\<lambda>(err, sch', rtabs'). (err, if err = 0 then refilled sch' else sch', rtabs')) (tbf_change h ops env opt sch rtabs)"
proof (cases "nla_parse_nested env 8 opt tbf_policy")
  case (Inl err)
  with assms show ?thesis by (simp add: tbf_change_mainline_def tbf_change_def tbf_change_params_def)
next
  case (Inr tb)
  show ?thesis
  proof (cases "tb TCA_TBF_PARMS")
    case None
    with Inr show ?thesis by (simp add: tbf_change_mainline_def tbf_change_def tbf_change_params_def)
  next
    case (Some data)
    show ?thesis unfolding mainline_params [OF Inr Some] tbf_change_def
      using params_error [OF Inr] by (auto simp: install_def Let_def split: bind_splits sum.splits)
  qed
qed

theorem tbf_change_mainline_refills_witness:
  "map_option (\<lambda>(err, sch, _). (err, tbf_limit (t_q sch), tbf_tokens (t_q sch)))
     (tbf_change_mainline list_hdr (fifo_ops list_hdr) demo_env [] (demo_sch 500 5000000000 [demo_skb 1]) []) = Some (0, 9000, 15000000000) \<and>
   map_option (\<lambda>(err, sch, _). (err, tbf_limit (t_q sch), tbf_tokens (t_q sch)))
     (tbf_change list_hdr (fifo_ops list_hdr) demo_env [] (demo_sch 500 5000000000 [demo_skb 1]) []) = Some (0, 9000, 5000000000)"
proof -
  have "\<forall>err. nla_parse_nested demo_env 8 [] tbf_policy = Inl err \<longrightarrow> err \<noteq> 0" by (simp add: demo_env_def)
  from tbf_change_mainline_refills [OF this, of list_hdr "fifo_ops list_hdr" "demo_sch 500 5000000000 [demo_skb 1]" "[]"] show ?thesis
    unfolding demo_change by (simp add: refilled_def demo_sch_def demo_fifo_def)
qed

text \<open>
  C17. A rejected request has no effect: if the attributes, the rates or the sizes are refused, the
  error is returned, the filter is as before, and the configuration is untouched even when only
  the change of the inner qdisc fails.
\<close>

theorem tbf_change_rejected:
  assumes "sched_hdr_ok h" "fifo_inv (tbf_qdisc (t_q sch))"
    and "tbf_change h (fifo_ops h) env opt sch rtabs = Some (err, sch', rtabs')" "err \<noteq> 0"
  shows "\<exists>c. sch' = sch\<lparr>t_q := (t_q sch)\<lparr>tbf_qdisc := c\<rparr>\<rparr> \<and> sch_q c = sch_q (tbf_qdisc (t_q sch)) \<and>
           (\<forall>e. tbf_change_params h env opt rtabs = Some (Inl e, rtabs') \<longrightarrow> c = tbf_qdisc (t_q sch) \<and> e = err)"
  using assms(3)
proof (cases rule: change_cases)
  case rejected
  then show ?thesis by (intro exI [of _ "tbf_qdisc (t_q sch)"]) simp
next
  case (child p c ch)
  have "sch_q c = sch_q (tbf_qdisc (t_q sch))"
  proof (cases "is_noop_qdisc env (tbf_qdisc (t_q sch))")
    case True
    with child(3) show ?thesis
      by (auto simp: tbf_change_child_def split: bind_splits if_splits sum.splits)
  next
    case False
    with child(3) inner_qdisc_change.set_limit_keeps [OF fifo_inner_qdisc_change [OF assms(1)] assms(2)]
    show ?thesis by (auto simp: tbf_change_child_def split: bind_splits)
  qed
  with child show ?thesis by (intro exI [of _ c]) simp
next
  case committed
  with assms(4) show ?thesis by simp
qed

theorem tbf_change_rejected_witness:
  "\<exists>s. tbf_change list_hdr (fifo_ops list_hdr) (demo_env\<lparr>nla_parse_nested := \<lambda>_ _ _. Inl (-22)\<rparr>) []
          (demo_sch 500 5000000000 [demo_skb 1]) [] = Some (-22, s, []) \<and> sch_q (tbf_qdisc (t_q s)) = [demo_skb 1]"
proof -
  let ?env = "demo_env\<lparr>nla_parse_nested := \<lambda>_ _ _. Inl (-22)\<rparr>" and ?s = "demo_sch 500 5000000000 [demo_skb 1]"
  have chg: "tbf_change list_hdr (fifo_ops list_hdr) ?env [] ?s [] = Some (-22, ?s, [])"
    by (simp add: tbf_change_def tbf_change_params_def)
  have "(-22 :: int) \<noteq> 0" by simp
  from tbf_change_rejected [OF list_hdr_ok demo_fifo_inv chg this]
  have "\<exists>c. ?s = ?s\<lparr>t_q := (t_q ?s)\<lparr>tbf_qdisc := c\<rparr>\<rparr> \<and> sch_q c = sch_q (tbf_qdisc (t_q ?s))" by blast
  with chg show ?thesis unfolding demo_fields by (intro exI [of _ ?s]) (rule conjI, blast, rule demo_fields)
qed

text \<open>
  C16. A reconfiguration leaves the shared list of rate tables as it was: each table it takes to find
  out the link layer is released again, on every path, so no request leaks a table.
\<close>

theorem tbf_change_releases_rtabs:
  assumes "rtab_wf rtabs"
    and "\<forall>a. rtab_kmalloc env = Some a \<or> ptab_kmalloc env = Some a \<longrightarrow> a \<notin> rtab_addr ` set rtabs"
    and "tbf_change h ops env opt sch rtabs = Some (err, sch', rtabs')"
  shows "rtabs' = rtabs"
proof -
  have probe: "snd (rtab_probe ru km r tab rtabs) = rtabs"
    if "\<forall>a. km = Some a \<longrightarrow> a \<notin> rtab_addr ` set rtabs" for ru km r tab
    using put_after_get [OF assms(1) that] by (auto simp: rtab_probe_def split: prod.splits)
  obtain r where par: "tbf_change_params h env opt rtabs = Some (r, rtabs')"
    using assms(3) by (cases rule: change_cases) auto
  show ?thesis
  proof (cases "nla_parse_nested env 8 opt tbf_policy")
    case (Inl e)
    with par show ?thesis by (simp add: tbf_change_params_def)
  next
    case (Inr tb)
    show ?thesis
    proof (cases "tb TCA_TBF_PARMS")
      case None
      with par Inr show ?thesis by (simp add: tbf_change_params_def)
    next
      case (Some parms)
      obtain r1 rt1 where 1: "rtab_probe (env_roundup env) (rtab_kmalloc env)
          (qopt_rate (qopt_of_bytes parms)) (tb TCA_TBF_RTAB) rtabs = (r1, rt1)" by fastforce
      obtain r2 rt2 where 2: "rtab_probe (env_roundup env) (ptab_kmalloc env)
          (qopt_peakrate (qopt_of_bytes parms)) (tb TCA_TBF_PTAB) rt1 = (r2, rt2)" by fastforce
      have "rt1 = rtabs" using probe [of "rtab_kmalloc env"] assms(2) 1 by (metis snd_conv)
      moreover have "rt2 = rt1" using probe [of "ptab_kmalloc env"] assms(2) 2 calculation by (metis snd_conv)
      moreover have "rtabs' = rt2"
        using par Inr Some 1 2 by (auto simp: tbf_change_params_def Let_def split: bind_splits option.splits)
      ultimately show ?thesis by simp
    qed
  qed
qed

theorem tbf_change_releases_rtabs_witness:
  "rtab_wf [\<lparr>rtab_addr = 7, rtab_rate = ratespec_zero, rtab_data = [], rtab_refcnt = 2\<rparr>] \<and>
   tbf_change list_hdr (fifo_ops list_hdr) demo_env [] (demo_sch 500 5000000000 [demo_skb 1])
     [\<lparr>rtab_addr = 7, rtab_rate = ratespec_zero, rtab_data = [], rtab_refcnt = 2\<rparr>] =
   Some (0, demo_sch 9000 5000000000 [demo_skb 1],
     [\<lparr>rtab_addr = 7, rtab_rate = ratespec_zero, rtab_data = [], rtab_refcnt = 2\<rparr>])"
proof -
  let ?rt = "[\<lparr>rtab_addr = 7, rtab_rate = ratespec_zero, rtab_data = [], rtab_refcnt = 2\<rparr>]"
  have wf: "rtab_wf ?rt" by (simp add: rtab_wf_def)
  obtain e s r where chg: "tbf_change list_hdr (fifo_ops list_hdr) demo_env [] (demo_sch 500 5000000000 [demo_skb 1]) ?rt
      = Some (e, s, r)" using demo_change by blast
  have fresh: "\<forall>a. rtab_kmalloc demo_env = Some a \<or> ptab_kmalloc demo_env = Some a \<longrightarrow> a \<notin> rtab_addr ` set ?rt"
    by (simp add: demo_env_def)
  have "r = ?rt" by (rule tbf_change_releases_rtabs [OF wf fresh chg])
  with wf chg show ?thesis by (simp add: demo_change)
qed

section \<open>Accounting\<close>

text \<open>
  C14. The packet counter of the filter equals the number of packets in the inner queue if it did before: every
  enqueue (segmenting ones included), dequeue and reset keeps that. The byte counter equals the bytes
  queued as long as no packet is segmented.
\<close>

theorem tbf_accounting:
  assumes "sched_hdr_ok h" "fifo_inv (tbf_qdisc (t_q sch))" "qlen_ok sch_q sch"
    and "tbf_enqueue h g (fifo_ops h) skb sch tf = (ret, sch1, tf')"
    and "tbf_dequeue h (fifo_ops h) now sch = (r, sch2)"
  shows "qlen_ok sch_q sch1 \<and> qlen_ok sch_q sch2 \<and> qlen_ok sch_q (tbf_reset (fifo_ops h) now sch) \<and>
    (backlog_ok sch_q sch \<longrightarrow>
       (pkt_len skb \<le> tbf_max_size (t_q sch) \<longrightarrow> backlog_ok sch_q sch1) \<and> backlog_ok sch_q sch2 \<and>
       backlog_ok sch_q (tbf_reset (fifo_ops h) now sch))"
  using inner_qdisc.enqueue_accounting [OF fifo_inner_qdisc [OF assms(1)] assms(1,2,3,4)]
    inner_qdisc.dequeue_accounting [OF fifo_inner_qdisc [OF assms(1)] assms(1,2,5)] assms(3)
    inner_qdisc.reset_accounting [OF fifo_inner_qdisc [OF assms(1)] assms(2)]
  by (auto simp: not_less)

lemma demo_counters: "qlen_ok sch_q (demo_sch lim a q)" "backlog_ok sch_q (demo_sch lim a q)"
  by (simp_all add: qlen_ok_def backlog_ok_def demo_sch_def demo_fifo_def)

theorem tbf_accounting_witness:
  "\<exists>ret sch1 tf r sch2.
     tbf_enqueue list_hdr demo_gso (fifo_ops list_hdr) (demo_skb 2) (demo_sch 500 5000000000 [demo_skb 1]) [] = (ret, sch1, tf) \<and>
     tbf_dequeue list_hdr (fifo_ops list_hdr) 9000000000 (demo_sch 500 5000000000 [demo_skb 1]) = (r, sch2) \<and>
     qlen_ok sch_q sch1 \<and> backlog_ok sch_q sch1 \<and> qlen_ok sch_q sch2 \<and> backlog_ok sch_q sch2"
proof -
  let ?s = "demo_sch 500 5000000000 [demo_skb 1]"
  obtain ret sch1 tf where e: "tbf_enqueue list_hdr demo_gso (fifo_ops list_hdr) (demo_skb 2) ?s [] = (ret, sch1, tf)"
    by (metis prod_cases3)
  obtain r sch2 where d: "tbf_dequeue list_hdr (fifo_ops list_hdr) 9000000000 ?s = (r, sch2)" by fastforce
  have "pkt_len (demo_skb 2) \<le> tbf_max_size (t_q ?s)" by (simp add: demo_fields demo_skb_def)
  with tbf_accounting [OF list_hdr_ok demo_fifo_inv demo_counters(1) e d] demo_counters(2) e d
  show ?thesis by blast
qed

text \<open>
  C15. Segmentation loses track of the bytes: when an oversized packet is cut and its segments are
  queued, the filter's byte counter stays where it was, although its queue grew by the segments; the
  dequeues of the segments then subtract their bytes from it.
\<close>

theorem tbf_segment_backlog:
  assumes "sched_hdr_ok h" "fifo_inv (tbf_qdisc (t_q sch))"
    and "qlen_ok sch_q sch" "backlog_ok sch_q sch"
    and "tbf_max_size (t_q sch) < pkt_len skb"
    and "tbf_enqueue h g (fifo_ops h) skb sch tf = (NET_XMIT_SUCCESS, sch', tf')"
  shows "\<exists>segs. segs \<noteq> [] \<and> sch_q (tbf_qdisc (t_q sch')) = sch_q (tbf_qdisc (t_q sch)) @ segs \<and>
           q_qlen (t_st sch') = q_qlen (t_st sch) + of_nat (length segs) \<and>
           qs_backlog (t_st sch') = sum_list (map pkt_len (sch_q (tbf_qdisc (t_q sch)))) \<and>
           (backlog_ok sch_q sch' \<longleftrightarrow> sum_list (map pkt_len segs) = 0)"
  using inner_qdisc.enqueue_big [OF fifo_inner_qdisc [OF assms(1)] assms(1,2,5,6)] assms(4)
  by (auto simp: backlog_ok_def)

theorem tbf_segment_backlog_witness:
  "\<exists>s tf. tbf_enqueue list_hdr demo_gso (fifo_ops list_hdr) big_skb (demo_sch 500 5000000000 []) [] = (NET_XMIT_SUCCESS, s, tf) \<and>
     qs_backlog (t_st s) = 0"
proof -
  let ?s = "demo_sch 500 5000000000 []"
  obtain s tf where e: "tbf_enqueue list_hdr demo_gso (fifo_ops list_hdr) big_skb ?s [] = (NET_XMIT_SUCCESS, s, tf)"
  proof -
    have "fst (tbf_enqueue list_hdr demo_gso (fifo_ops list_hdr) big_skb ?s []) = NET_XMIT_SUCCESS" by code_simp
    with that show thesis by (metis prod.collapse)
  qed
  have "tbf_max_size (t_q ?s) < pkt_len big_skb" by (simp add: demo_fields big_skb_def)
  from tbf_segment_backlog [OF list_hdr_ok demo_fifo_inv demo_counters this e] e show ?thesis
    by (auto simp: demo_fields)
qed

end
