(* ===== verification/Rbtree.thy ===== *)
theory Rbtree
  imports Net_Prelude
begin

text \<open>
  The intrusive red-black tree of \<^verbatim>\<open>reordering_buffer/rbtree.c\<close>, \<^verbatim>\<open>rbtree.h\<close> and
  \<^verbatim>\<open>rbtree_augmented.h\<close>, on an explicit memory: a partial map from addresses to nodes and
  the root pointer. A node packs its parent's address and its colour into one word, as the
  source does. Every access is checked, so \<open>None\<close> is a dereference of NULL or of an
  address that holds no node; loops are partial functions, so it is also a loop that does not
  end. The callbacks of augmented trees are parameters that act on the memory.
\<close>

section \<open>Memory\<close>

type_synonym addr = "64 word"

record rb_node =
  pc :: u64
  rb_right :: addr
  rb_left :: addr

record 'a rb_mem =
  rb_cells :: "addr \<rightharpoonup> rb_node"
  rb_root :: addr
  rb_aug :: 'a

definition rb_load :: "'a rb_mem \<Rightarrow> addr \<Rightarrow> rb_node option" where
  "rb_load m a = (if a = 0 then None else rb_cells m a)"

definition rb_store :: "addr \<Rightarrow> (rb_node \<Rightarrow> rb_node) \<Rightarrow> 'a rb_mem \<Rightarrow> 'a rb_mem option" where
  "rb_store a f m = (case rb_load m a of
     None \<Rightarrow> None | Some n \<Rightarrow> Some (m\<lparr>rb_cells := (rb_cells m)(a \<mapsto> f n)\<rparr>))"

definition pc_of :: "'a rb_mem \<Rightarrow> addr \<Rightarrow> u64 option" where
  "pc_of m a = map_option pc (rb_load m a)"

definition left_of :: "'a rb_mem \<Rightarrow> addr \<Rightarrow> addr option" where
  "left_of m a = map_option rb_left (rb_load m a)"

definition right_of :: "'a rb_mem \<Rightarrow> addr \<Rightarrow> addr option" where
  "right_of m a = map_option rb_right (rb_load m a)"

definition set_pc :: "addr \<Rightarrow> u64 \<Rightarrow> 'a rb_mem \<Rightarrow> 'a rb_mem option" where
  "set_pc a v = rb_store a (pc_update (\<lambda>_. v))"

definition set_left :: "addr \<Rightarrow> addr \<Rightarrow> 'a rb_mem \<Rightarrow> 'a rb_mem option" where
  "set_left a v = rb_store a (rb_left_update (\<lambda>_. v))"

definition set_right :: "addr \<Rightarrow> addr \<Rightarrow> 'a rb_mem \<Rightarrow> 'a rb_mem option" where
  "set_right a v = rb_store a (rb_right_update (\<lambda>_. v))"

section \<open>Colours and parents\<close>

abbreviation (input) RB_RED :: u64 where "RB_RED \<equiv> 0"
abbreviation (input) RB_BLACK :: u64 where "RB_BLACK \<equiv> 1"

definition pc_parent :: "u64 \<Rightarrow> addr" where
  "pc_parent w = w AND NOT 3"

definition pc_black :: "u64 \<Rightarrow> bool" where
  "pc_black w \<longleftrightarrow> w AND 1 \<noteq> 0"

definition rb_parent :: "'a rb_mem \<Rightarrow> addr \<Rightarrow> addr option" where
  "rb_parent m r = map_option pc_parent (pc_of m r)"

definition rb_is_black :: "'a rb_mem \<Rightarrow> addr \<Rightarrow> bool option" where
  "rb_is_black m r = map_option pc_black (pc_of m r)"

definition rb_is_red :: "'a rb_mem \<Rightarrow> addr \<Rightarrow> bool option" where
  "rb_is_red m r = map_option (\<lambda>w. \<not> pc_black w) (pc_of m r)"

definition rb_set_parent :: "addr \<Rightarrow> addr \<Rightarrow> 'a rb_mem \<Rightarrow> 'a rb_mem option" where
  "rb_set_parent rb p m = do { w \<leftarrow> pc_of m rb; set_pc rb ((w AND 1) OR p) m }"

definition rb_set_parent_color :: "addr \<Rightarrow> addr \<Rightarrow> u64 \<Rightarrow> 'a rb_mem \<Rightarrow> 'a rb_mem option" where
  "rb_set_parent_color rb p color = set_pc rb (p OR color)"

definition rb_change_child :: "addr \<Rightarrow> addr \<Rightarrow> addr \<Rightarrow> 'a rb_mem \<Rightarrow> 'a rb_mem option" where
  "rb_change_child old new parent m =
     (if parent \<noteq> 0 then do {
        l \<leftarrow> left_of m parent;
        if l = old then set_left parent new m else set_right parent new m }
      else Some (m\<lparr>rb_root := new\<rparr>))"

definition rb_set_black :: "addr \<Rightarrow> 'a rb_mem \<Rightarrow> 'a rb_mem option" where
  "rb_set_black rb m = do { w \<leftarrow> pc_of m rb; set_pc rb (w OR RB_BLACK) m }"

definition rb_red_parent :: "'a rb_mem \<Rightarrow> addr \<Rightarrow> addr option" where
  "rb_red_parent m red = pc_of m red"

definition rb_rotate_set_parents :: "addr \<Rightarrow> addr \<Rightarrow> u64 \<Rightarrow> 'a rb_mem \<Rightarrow> 'a rb_mem option" where
  "rb_rotate_set_parents old new color m = do {
     parent \<leftarrow> rb_parent m old;
     w \<leftarrow> pc_of m old;
     m \<leftarrow> set_pc new w m;
     m \<leftarrow> rb_set_parent_color old new color m;
     rb_change_child old new parent m }"

text \<open>The guarded tests \<^verbatim>\<open>tmp && rb_is_red(tmp)\<close> and \<^verbatim>\<open>!tmp || rb_is_black(tmp)\<close>, and the guarded store.\<close>

definition non_null_red :: "'a rb_mem \<Rightarrow> addr \<Rightarrow> bool option" where
  "non_null_red m tmp = (if tmp = 0 then Some False else rb_is_red m tmp)"

definition null_or_black :: "'a rb_mem \<Rightarrow> addr \<Rightarrow> bool option" where
  "null_or_black m tmp = (if tmp = 0 then Some True else rb_is_black m tmp)"

definition if_non_null :: "addr \<Rightarrow> (addr \<Rightarrow> 'a rb_mem \<Rightarrow> 'a rb_mem option) \<Rightarrow> 'a rb_mem \<Rightarrow> 'a rb_mem option" where
  "if_non_null tmp f m = (if tmp = 0 then Some m else f tmp m)"

section \<open>Insertion\<close>

definition rb_link_node ::
  "addr \<Rightarrow> addr \<Rightarrow> ('a rb_mem \<Rightarrow> 'a rb_mem option) \<Rightarrow> 'a rb_mem \<Rightarrow> 'a rb_mem option" where
  "rb_link_node node parent store_link m = do {
     m \<leftarrow> set_pc node parent m;
     m \<leftarrow> set_right node 0 m;
     m \<leftarrow> set_left node 0 m;
     store_link m }"

definition rb_link_node_rcu ::
  "addr \<Rightarrow> addr \<Rightarrow> ('a rb_mem \<Rightarrow> 'a rb_mem option) \<Rightarrow> 'a rb_mem \<Rightarrow> 'a rb_mem option" where
  "rb_link_node_rcu node parent store_link m = do {
     m \<leftarrow> set_pc node parent m;
     m \<leftarrow> set_right node 0 m;
     m \<leftarrow> set_left node 0 m;
     store_link m }"

text \<open>Marking a node as not inserted, and the test for the mark.\<close>

definition rb_clear_node :: "addr \<Rightarrow> 'a rb_mem \<Rightarrow> 'a rb_mem option" where
  "rb_clear_node node = set_pc node node"

definition rb_empty_node :: "'a rb_mem \<Rightarrow> addr \<Rightarrow> bool option" where
  "rb_empty_node m node = map_option (\<lambda>w. w = node) (pc_of m node)"

type_synonym 'a rotate_cb = "addr \<Rightarrow> addr \<Rightarrow> 'a rb_mem \<Rightarrow> 'a rb_mem option"

text \<open>Cases 2 and 3, with the parent a left child of the grandparent, and mirrored.\<close>

definition rb_insert_rotate_right ::
  "'a rotate_cb \<Rightarrow> addr \<Rightarrow> addr \<Rightarrow> addr \<Rightarrow> 'a rb_mem \<Rightarrow> 'a rb_mem option" where
  "rb_insert_rotate_right augment_rotate node parent gparent m = do {
     tmp \<leftarrow> right_of m parent;
     (parent, tmp, m) \<leftarrow>
       (if node = tmp then do {
          tmp \<leftarrow> left_of m node;
          m \<leftarrow> set_right parent tmp m;
          m \<leftarrow> set_left node parent m;
          m \<leftarrow> if_non_null tmp (\<lambda>t. rb_set_parent_color t parent RB_BLACK) m;
          m \<leftarrow> rb_set_parent_color parent node RB_RED m;
          m \<leftarrow> augment_rotate parent node m;
          tmp \<leftarrow> right_of m node;
          Some (node, tmp, m) }
        else Some (parent, tmp, m));
     m \<leftarrow> set_left gparent tmp m;
     m \<leftarrow> set_right parent gparent m;
     m \<leftarrow> if_non_null tmp (\<lambda>t. rb_set_parent_color t gparent RB_BLACK) m;
     m \<leftarrow> rb_rotate_set_parents gparent parent RB_RED m;
     augment_rotate gparent parent m }"

definition rb_insert_rotate_left ::
  "'a rotate_cb \<Rightarrow> addr \<Rightarrow> addr \<Rightarrow> addr \<Rightarrow> 'a rb_mem \<Rightarrow> 'a rb_mem option" where
  "rb_insert_rotate_left augment_rotate node parent gparent m = do {
     tmp \<leftarrow> left_of m parent;
     (parent, tmp, m) \<leftarrow>
       (if node = tmp then do {
          tmp \<leftarrow> right_of m node;
          m \<leftarrow> set_left parent tmp m;
          m \<leftarrow> set_right node parent m;
          m \<leftarrow> if_non_null tmp (\<lambda>t. rb_set_parent_color t parent RB_BLACK) m;
          m \<leftarrow> rb_set_parent_color parent node RB_RED m;
          m \<leftarrow> augment_rotate parent node m;
          tmp \<leftarrow> left_of m node;
          Some (node, tmp, m) }
        else Some (parent, tmp, m));
     m \<leftarrow> set_right gparent tmp m;
     m \<leftarrow> set_left parent gparent m;
     m \<leftarrow> if_non_null tmp (\<lambda>t. rb_set_parent_color t gparent RB_BLACK) m;
     m \<leftarrow> rb_rotate_set_parents gparent parent RB_RED m;
     augment_rotate gparent parent m }"

text \<open>Case 1: flip the colours; the result is the new parent to continue with.\<close>

definition rb_insert_flip :: "addr \<Rightarrow> addr \<Rightarrow> addr \<Rightarrow> 'a rb_mem \<Rightarrow> (addr \<times> 'a rb_mem) option" where
  "rb_insert_flip tmp parent gparent m = do {
     m \<leftarrow> rb_set_parent_color tmp gparent RB_BLACK m;
     m \<leftarrow> rb_set_parent_color parent gparent RB_BLACK m;
     p \<leftarrow> rb_parent m gparent;
     m \<leftarrow> rb_set_parent_color gparent p RB_RED m;
     Some (p, m) }"

partial_function (option) rb_insert_loop ::
  "'a rotate_cb \<Rightarrow> addr \<Rightarrow> addr \<Rightarrow> 'a rb_mem \<Rightarrow> 'a rb_mem option" where
  "rb_insert_loop augment_rotate node parent m =
     (if parent = 0 then rb_set_parent_color node 0 RB_BLACK m
      else do {
        black \<leftarrow> rb_is_black m parent;
        if black then Some m
        else do {
          gparent \<leftarrow> rb_red_parent m parent;
          tmp \<leftarrow> right_of m gparent;
          if parent \<noteq> tmp then do {
            red \<leftarrow> non_null_red m tmp;
            if red then do {
              (p, m) \<leftarrow> rb_insert_flip tmp parent gparent m;
              rb_insert_loop augment_rotate gparent p m }
            else rb_insert_rotate_right augment_rotate node parent gparent m }
          else do {
            tmp \<leftarrow> left_of m gparent;
            red \<leftarrow> non_null_red m tmp;
            if red then do {
              (p, m) \<leftarrow> rb_insert_flip tmp parent gparent m;
              rb_insert_loop augment_rotate gparent p m }
            else rb_insert_rotate_left augment_rotate node parent gparent m } } })"

definition rb_insert :: "'a rotate_cb \<Rightarrow> addr \<Rightarrow> 'a rb_mem \<Rightarrow> 'a rb_mem option" where
  "rb_insert augment_rotate node m = do {
     parent \<leftarrow> rb_red_parent m node;
     rb_insert_loop augment_rotate node parent m }"

section \<open>Removal\<close>

text \<open>Rebalancing with the deficient node on the left of its parent: case 1, case 3 and case 4.\<close>

definition rb_erase_sibling_left ::
  "'a rotate_cb \<Rightarrow> addr \<Rightarrow> addr \<Rightarrow> 'a rb_mem \<Rightarrow> (addr \<times> 'a rb_mem) option" where
  "rb_erase_sibling_left augment_rotate parent sibling m = do {
     red \<leftarrow> rb_is_red m sibling;
     if red then do {
       tmp1 \<leftarrow> left_of m sibling;
       m \<leftarrow> set_right parent tmp1 m;
       m \<leftarrow> set_left sibling parent m;
       m \<leftarrow> rb_set_parent_color tmp1 parent RB_BLACK m;
       m \<leftarrow> rb_rotate_set_parents parent sibling RB_RED m;
       m \<leftarrow> augment_rotate parent sibling m;
       Some (tmp1, m) }
     else Some (sibling, m) }"

definition rb_erase_rotate_sibling_left ::
  "'a rotate_cb \<Rightarrow> addr \<Rightarrow> addr \<Rightarrow> addr \<Rightarrow> 'a rb_mem \<Rightarrow> 'a rb_mem option" where
  "rb_erase_rotate_sibling_left augment_rotate parent sibling tmp2 m = do {
     tmp1 \<leftarrow> right_of m tmp2;
     m \<leftarrow> set_left sibling tmp1 m;
     m \<leftarrow> set_right tmp2 sibling m;
     m \<leftarrow> set_right parent tmp2 m;
     m \<leftarrow> if_non_null tmp1 (\<lambda>t. rb_set_parent_color t sibling RB_BLACK) m;
     augment_rotate sibling tmp2 m }"

definition rb_erase_rotate_parent_left ::
  "'a rotate_cb \<Rightarrow> addr \<Rightarrow> addr \<Rightarrow> addr \<Rightarrow> 'a rb_mem \<Rightarrow> 'a rb_mem option" where
  "rb_erase_rotate_parent_left augment_rotate parent sibling tmp1 m = do {
     tmp2 \<leftarrow> left_of m sibling;
     m \<leftarrow> set_right parent tmp2 m;
     m \<leftarrow> set_left sibling parent m;
     m \<leftarrow> rb_set_parent_color tmp1 sibling RB_BLACK m;
     m \<leftarrow> if_non_null tmp2 (\<lambda>t. rb_set_parent t parent) m;
     m \<leftarrow> rb_rotate_set_parents parent sibling RB_BLACK m;
     augment_rotate parent sibling m }"

text \<open>The same with left and right exchanged.\<close>

definition rb_erase_sibling_right ::
  "'a rotate_cb \<Rightarrow> addr \<Rightarrow> addr \<Rightarrow> 'a rb_mem \<Rightarrow> (addr \<times> 'a rb_mem) option" where
  "rb_erase_sibling_right augment_rotate parent sibling m = do {
     red \<leftarrow> rb_is_red m sibling;
     if red then do {
       tmp1 \<leftarrow> right_of m sibling;
       m \<leftarrow> set_left parent tmp1 m;
       m \<leftarrow> set_right sibling parent m;
       m \<leftarrow> rb_set_parent_color tmp1 parent RB_BLACK m;
       m \<leftarrow> rb_rotate_set_parents parent sibling RB_RED m;
       m \<leftarrow> augment_rotate parent sibling m;
       Some (tmp1, m) }
     else Some (sibling, m) }"

definition rb_erase_rotate_sibling_right ::
  "'a rotate_cb \<Rightarrow> addr \<Rightarrow> addr \<Rightarrow> addr \<Rightarrow> 'a rb_mem \<Rightarrow> 'a rb_mem option" where
  "rb_erase_rotate_sibling_right augment_rotate parent sibling tmp2 m = do {
     tmp1 \<leftarrow> left_of m tmp2;
     m \<leftarrow> set_right sibling tmp1 m;
     m \<leftarrow> set_left tmp2 sibling m;
     m \<leftarrow> set_left parent tmp2 m;
     m \<leftarrow> if_non_null tmp1 (\<lambda>t. rb_set_parent_color t sibling RB_BLACK) m;
     augment_rotate sibling tmp2 m }"

definition rb_erase_rotate_parent_right ::
  "'a rotate_cb \<Rightarrow> addr \<Rightarrow> addr \<Rightarrow> addr \<Rightarrow> 'a rb_mem \<Rightarrow> 'a rb_mem option" where
  "rb_erase_rotate_parent_right augment_rotate parent sibling tmp1 m = do {
     tmp2 \<leftarrow> right_of m sibling;
     m \<leftarrow> set_left parent tmp2 m;
     m \<leftarrow> set_right sibling parent m;
     m \<leftarrow> rb_set_parent_color tmp1 sibling RB_BLACK m;
     m \<leftarrow> if_non_null tmp2 (\<lambda>t. rb_set_parent t parent) m;
     m \<leftarrow> rb_rotate_set_parents parent sibling RB_BLACK m;
     augment_rotate parent sibling m }"

text \<open>
  Case 2: make the sibling red. The result says whether the loop goes on: \<open>Some p\<close> is the
  next parent.
\<close>

definition rb_erase_flip :: "addr \<Rightarrow> addr \<Rightarrow> 'a rb_mem \<Rightarrow> (addr option \<times> 'a rb_mem) option" where
  "rb_erase_flip parent sibling m = do {
     m \<leftarrow> rb_set_parent_color sibling parent RB_RED m;
     red \<leftarrow> rb_is_red m parent;
     if red then do { m \<leftarrow> rb_set_black parent m; Some (None, m) }
     else do {
       p \<leftarrow> rb_parent m parent;
       Some (if p \<noteq> 0 then Some p else None, m) } }"

text \<open>Cases 2 to 4 in order, then one iteration: \<open>Some p\<close> in the result continues at the parent \<open>p\<close>, with the old parent as the node.\<close>

definition rb_erase_cases_left :: "'a rotate_cb \<Rightarrow> addr \<Rightarrow> addr \<Rightarrow> 'a rb_mem \<Rightarrow> (addr option \<times> 'a rb_mem) option" where
  "rb_erase_cases_left augment_rotate parent sibling m = do {
     tmp1 \<leftarrow> right_of m sibling;
     black1 \<leftarrow> null_or_black m tmp1;
     if black1 then do {
       tmp2 \<leftarrow> left_of m sibling;
       black2 \<leftarrow> null_or_black m tmp2;
       if black2 then rb_erase_flip parent sibling m
       else do {
         m \<leftarrow> rb_erase_rotate_sibling_left augment_rotate parent sibling tmp2 m;
         m \<leftarrow> rb_erase_rotate_parent_left augment_rotate parent tmp2 sibling m;
         Some (None, m) } }
     else do {
       m \<leftarrow> rb_erase_rotate_parent_left augment_rotate parent sibling tmp1 m;
       Some (None, m) } }"

definition rb_erase_left :: "'a rotate_cb \<Rightarrow> addr \<Rightarrow> addr \<Rightarrow> 'a rb_mem \<Rightarrow> (addr option \<times> 'a rb_mem) option" where
  "rb_erase_left augment_rotate parent sibling m = do {
     (sibling, m) \<leftarrow> rb_erase_sibling_left augment_rotate parent sibling m;
     rb_erase_cases_left augment_rotate parent sibling m }"

definition rb_erase_cases_right :: "'a rotate_cb \<Rightarrow> addr \<Rightarrow> addr \<Rightarrow> 'a rb_mem \<Rightarrow> (addr option \<times> 'a rb_mem) option" where
  "rb_erase_cases_right augment_rotate parent sibling m = do {
     tmp1 \<leftarrow> left_of m sibling;
     black1 \<leftarrow> null_or_black m tmp1;
     if black1 then do {
       tmp2 \<leftarrow> right_of m sibling;
       black2 \<leftarrow> null_or_black m tmp2;
       if black2 then rb_erase_flip parent sibling m
       else do {
         m \<leftarrow> rb_erase_rotate_sibling_right augment_rotate parent sibling tmp2 m;
         m \<leftarrow> rb_erase_rotate_parent_right augment_rotate parent tmp2 sibling m;
         Some (None, m) } }
     else do {
       m \<leftarrow> rb_erase_rotate_parent_right augment_rotate parent sibling tmp1 m;
       Some (None, m) } }"

definition rb_erase_right :: "'a rotate_cb \<Rightarrow> addr \<Rightarrow> addr \<Rightarrow> 'a rb_mem \<Rightarrow> (addr option \<times> 'a rb_mem) option" where
  "rb_erase_right augment_rotate parent sibling m = do {
     (sibling, m) \<leftarrow> rb_erase_sibling_right augment_rotate parent sibling m;
     rb_erase_cases_right augment_rotate parent sibling m }"

partial_function (option) rb_erase_loop ::
  "'a rotate_cb \<Rightarrow> addr \<Rightarrow> addr \<Rightarrow> 'a rb_mem \<Rightarrow> 'a rb_mem option" where
  "rb_erase_loop augment_rotate node parent m = do {
     sibling \<leftarrow> right_of m parent;
     (next, m) \<leftarrow>
       (if node \<noteq> sibling then rb_erase_left augment_rotate parent sibling m
        else do { sibling \<leftarrow> left_of m parent; rb_erase_right augment_rotate parent sibling m });
     (case next of None \<Rightarrow> Some m | Some p \<Rightarrow> rb_erase_loop augment_rotate parent p m) }"

definition rb_erase_color :: "'a rotate_cb \<Rightarrow> addr \<Rightarrow> 'a rb_mem \<Rightarrow> 'a rb_mem option" where
  "rb_erase_color augment_rotate parent m = rb_erase_loop augment_rotate 0 parent m"

record 'a rb_augment_callbacks =
  propagate :: "addr \<Rightarrow> addr \<Rightarrow> 'a rb_mem \<Rightarrow> 'a rb_mem option"
  copy :: "addr \<Rightarrow> addr \<Rightarrow> 'a rb_mem \<Rightarrow> 'a rb_mem option"
  rotate_aug :: "addr \<Rightarrow> addr \<Rightarrow> 'a rb_mem \<Rightarrow> 'a rb_mem option"

text \<open>The search for the successor: the leftmost node below \<open>tmp\<close> and its parent.\<close>

partial_function (option) rb_successor_loop :: "'a rb_mem \<Rightarrow> addr \<Rightarrow> addr \<Rightarrow> (addr \<times> addr) option" where
  "rb_successor_loop m successor tmp = do {
     let parent = successor;
     let successor = tmp;
     tmp \<leftarrow> left_of m tmp;
     if tmp \<noteq> 0 then rb_successor_loop m successor tmp else Some (parent, successor) }"

text \<open>Cases 2 and 3: unlink the successor; the result is the parent of the hole, the successor and its child.\<close>

definition rb_erase_successor ::
  "'a rb_augment_callbacks \<Rightarrow> addr \<Rightarrow> addr \<Rightarrow> 'a rb_mem \<Rightarrow> (addr \<times> addr \<times> addr \<times> 'a rb_mem) option" where
  "rb_erase_successor augment node child m = do {
     tmp \<leftarrow> left_of m child;
     if tmp = 0 then do {
       child2 \<leftarrow> right_of m child;
       m \<leftarrow> copy augment node child m;
       Some (child, child, child2, m) }
     else do {
       (parent, successor) \<leftarrow> rb_successor_loop m child tmp;
       child2 \<leftarrow> right_of m successor;
       m \<leftarrow> set_left parent child2 m;
       m \<leftarrow> set_right successor child m;
       m \<leftarrow> rb_set_parent child successor m;
       m \<leftarrow> copy augment node successor m;
       m \<leftarrow> propagate augment parent successor m;
       Some (parent, successor, child2, m) } }"

text \<open>The result is the node to rebalance at, or NULL.\<close>

definition rb_erase_augmented0 ::
  "'a rb_augment_callbacks \<Rightarrow> addr \<Rightarrow> 'a rb_mem \<Rightarrow> (addr \<times> 'a rb_mem) option" where
  "rb_erase_augmented0 augment node m = do {
     child \<leftarrow> right_of m node;
     tmp \<leftarrow> left_of m node;
     (rebalance, tmp, m) \<leftarrow>
       (if tmp = 0 then do {
          w \<leftarrow> pc_of m node;
          let parent = pc_parent w;
          m \<leftarrow> rb_change_child node child parent m;
          if child \<noteq> 0 then do { m \<leftarrow> set_pc child w m; Some (0, parent, m) }
          else Some (if pc_black w then parent else 0, parent, m) }
        else if child = 0 then do {
          w \<leftarrow> pc_of m node;
          m \<leftarrow> set_pc tmp w m;
          let parent = pc_parent w;
          m \<leftarrow> rb_change_child node tmp parent m;
          Some (0, parent, m) }
        else do {
          (parent, successor, child2, m) \<leftarrow> rb_erase_successor augment node child m;
          tmp \<leftarrow> left_of m node;
          m \<leftarrow> set_left successor tmp m;
          m \<leftarrow> rb_set_parent tmp successor m;
          w \<leftarrow> pc_of m node;
          m \<leftarrow> rb_change_child node successor (pc_parent w) m;
          if child2 \<noteq> 0 then do {
            m \<leftarrow> set_pc successor w m;
            m \<leftarrow> rb_set_parent_color child2 parent RB_BLACK m;
            Some (0, successor, m) }
          else do {
            w2 \<leftarrow> pc_of m successor;
            m \<leftarrow> set_pc successor w m;
            Some (if pc_black w2 then parent else 0, successor, m) } });
     m \<leftarrow> propagate augment tmp 0 m;
     Some (rebalance, m) }"

definition rb_erase_augmented :: "'a rb_augment_callbacks \<Rightarrow> addr \<Rightarrow> 'a rb_mem \<Rightarrow> 'a rb_mem option" where
  "rb_erase_augmented augment node m = do {
     (rebalance, m) \<leftarrow> rb_erase_augmented0 augment node m;
     if rebalance \<noteq> 0 then rb_erase_color (rotate_aug augment) rebalance m else Some m }"

definition dummy_rotate :: "'a rotate_cb" where
  "dummy_rotate old new m = Some m"

definition dummy_callbacks :: "'a rb_augment_callbacks" where
  "dummy_callbacks = \<lparr>propagate = (\<lambda>node stop m. Some m), copy = (\<lambda>old new m. Some m),
                      rotate_aug = dummy_rotate\<rparr>"

definition rb_insert_color :: "addr \<Rightarrow> 'a rb_mem \<Rightarrow> 'a rb_mem option" where
  "rb_insert_color node = rb_insert dummy_rotate node"

definition rb_erase :: "addr \<Rightarrow> 'a rb_mem \<Rightarrow> 'a rb_mem option" where
  "rb_erase node m = do {
     (rebalance, m) \<leftarrow> rb_erase_augmented0 dummy_callbacks node m;
     if rebalance \<noteq> 0 then rb_erase_color dummy_rotate rebalance m else Some m }"

definition rb_insert_augmented0 :: "addr \<Rightarrow> 'a rotate_cb \<Rightarrow> 'a rb_mem \<Rightarrow> 'a rb_mem option" where
  "rb_insert_augmented0 node augment_rotate = rb_insert augment_rotate node"

definition rb_insert_augmented :: "'a rb_augment_callbacks \<Rightarrow> addr \<Rightarrow> 'a rb_mem \<Rightarrow> 'a rb_mem option" where
  "rb_insert_augmented augment node = rb_insert_augmented0 node (rotate_aug augment)"

section \<open>Traversal\<close>

partial_function (option) leftmost :: "'a rb_mem \<Rightarrow> addr \<Rightarrow> addr option" where
  "leftmost m n = do { l \<leftarrow> left_of m n; if l \<noteq> 0 then leftmost m l else Some n }"

partial_function (option) rightmost :: "'a rb_mem \<Rightarrow> addr \<Rightarrow> addr option" where
  "rightmost m n = do { r \<leftarrow> right_of m n; if r \<noteq> 0 then rightmost m r else Some n }"

definition rb_first :: "'a rb_mem \<Rightarrow> addr option" where
  "rb_first m = (let n = rb_root m in if n = 0 then Some 0 else leftmost m n)"

definition rb_last :: "'a rb_mem \<Rightarrow> addr option" where
  "rb_last m = (let n = rb_root m in if n = 0 then Some 0 else rightmost m n)"

partial_function (option) rb_next_up :: "'a rb_mem \<Rightarrow> addr \<Rightarrow> addr option" where
  "rb_next_up m node = do {
     parent \<leftarrow> rb_parent m node;
     if parent = 0 then Some parent
     else do { r \<leftarrow> right_of m parent; if node = r then rb_next_up m parent else Some parent } }"

partial_function (option) rb_prev_up :: "'a rb_mem \<Rightarrow> addr \<Rightarrow> addr option" where
  "rb_prev_up m node = do {
     parent \<leftarrow> rb_parent m node;
     if parent = 0 then Some parent
     else do { l \<leftarrow> left_of m parent; if node = l then rb_prev_up m parent else Some parent } }"

definition rb_next :: "'a rb_mem \<Rightarrow> addr \<Rightarrow> addr option" where
  "rb_next m node = do {
     empty \<leftarrow> rb_empty_node m node;
     if empty then Some 0
     else do {
       r \<leftarrow> right_of m node;
       if r \<noteq> 0 then leftmost m r else rb_next_up m node } }"

definition rb_prev :: "'a rb_mem \<Rightarrow> addr \<Rightarrow> addr option" where
  "rb_prev m node = do {
     empty \<leftarrow> rb_empty_node m node;
     if empty then Some 0
     else do {
       l \<leftarrow> left_of m node;
       if l \<noteq> 0 then rightmost m l else rb_prev_up m node } }"

definition rb_replace_node :: "addr \<Rightarrow> addr \<Rightarrow> 'a rb_mem \<Rightarrow> 'a rb_mem option" where
  "rb_replace_node victim new m = do {
     parent \<leftarrow> rb_parent m victim;
     m \<leftarrow> rb_change_child victim new parent m;
     l \<leftarrow> left_of m victim;
     m \<leftarrow> if_non_null l (\<lambda>t. rb_set_parent t new) m;
     r \<leftarrow> right_of m victim;
     m \<leftarrow> if_non_null r (\<lambda>t. rb_set_parent t new) m;
     n \<leftarrow> rb_load m victim;
     rb_store new (\<lambda>_. n) m }"

partial_function (option) rb_left_deepest_node :: "'a rb_mem \<Rightarrow> addr \<Rightarrow> addr option" where
  "rb_left_deepest_node m node = do {
     l \<leftarrow> left_of m node;
     if l \<noteq> 0 then rb_left_deepest_node m l
     else do {
       r \<leftarrow> right_of m node;
       if r \<noteq> 0 then rb_left_deepest_node m r else Some node } }"

definition rb_next_postorder :: "'a rb_mem \<Rightarrow> addr \<Rightarrow> addr option" where
  "rb_next_postorder m node =
     (if node = 0 then Some 0
      else do {
        parent \<leftarrow> rb_parent m node;
        if parent = 0 then Some 0
        else do {
          l \<leftarrow> left_of m parent;
          r \<leftarrow> right_of m parent;
          if node = l \<and> r \<noteq> 0 then rb_left_deepest_node m r else Some parent } })"

definition rb_first_postorder :: "'a rb_mem \<Rightarrow> addr option" where
  "rb_first_postorder m = (if rb_root m = 0 then Some 0 else rb_left_deepest_node m (rb_root m))"

declare rb_insert_loop.simps [code] rb_erase_loop.simps [code] rb_successor_loop.simps [code]
  leftmost.simps [code] rightmost.simps [code] rb_next_up.simps [code] rb_prev_up.simps [code]
  rb_left_deepest_node.simps [code]

end
