(* ===== verification/Rb_Spec.thy ===== *)
theory Rb_Spec
  imports Rbtree
begin

text \<open>
  The specification of the red-black tree: trees of node addresses and, for a position in a
  tree, its context, a list of frames from the position up to the root. The rebalancing of the
  source becomes two functions on contexts, \<open>ins_fix\<close> and \<open>del_fix\<close>; this theory shows that they
  keep the order of the nodes and restore the red-black properties 2, 4 and 5 of the comment in
  \<^verbatim>\<open>rbtree.c\<close>. The next theory shows that the memory operations implement them.
\<close>

section \<open>Trees and contexts\<close>

datatype rb_color = Red | Black

datatype rbt = Leaf | Node rbt rb_color addr rbt

datatype frame = LeftHole rb_color addr rbt | RightHole rbt rb_color addr

fun inorder :: "rbt \<Rightarrow> addr list" where
  "inorder Leaf = []"
| "inorder (Node l c a r) = inorder l @ a # inorder r"

fun plug :: "frame list \<Rightarrow> rbt \<Rightarrow> rbt" where
  "plug [] t = t"
| "plug (LeftHole c a r # fs) t = plug fs (Node t c a r)"
| "plug (RightHole l c a # fs) t = plug fs (Node l c a t)"

fun lefts :: "frame list \<Rightarrow> addr list" where
  "lefts [] = []"
| "lefts (LeftHole c a r # fs) = lefts fs"
| "lefts (RightHole l c a # fs) = lefts fs @ inorder l @ [a]"

fun rights :: "frame list \<Rightarrow> addr list" where
  "rights [] = []"
| "rights (LeftHole c a r # fs) = a # inorder r @ rights fs"
| "rights (RightHole l c a # fs) = rights fs"

lemma inorder_plug [simp]: "inorder (plug fs t) = lefts fs @ inorder t @ rights fs"
  by (induction fs t rule: plug.induct) simp_all

lemma plug_append: "plug (fs @ gs) t = plug gs (plug fs t)"
  by (induction fs t rule: plug.induct) simp_all

lemma lefts_append [simp]: "lefts (fs @ gs) = lefts gs @ lefts fs"
  by (induction fs rule: lefts.induct) simp_all

lemma rights_append [simp]: "rights (fs @ gs) = rights fs @ rights gs"
  by (induction fs rule: rights.induct) simp_all

fun frame_addr :: "frame \<Rightarrow> addr" where
  "frame_addr (LeftHole c a r) = a"
| "frame_addr (RightHole l c a) = a"

fun frame_color :: "frame \<Rightarrow> rb_color" where
  "frame_color (LeftHole c a r) = c"
| "frame_color (RightHole l c a) = c"

fun parent_of :: "frame list \<Rightarrow> addr" where
  "parent_of [] = 0"
| "parent_of (f # fs) = frame_addr f"

fun root_of :: "rbt \<Rightarrow> addr" where
  "root_of Leaf = 0"
| "root_of (Node l c a r) = a"

fun paint :: "rb_color \<Rightarrow> rbt \<Rightarrow> rbt" where
  "paint c Leaf = Leaf"
| "paint c (Node l c' a r) = Node l c a r"

fun color_of :: "rbt \<Rightarrow> rb_color" where
  "color_of Leaf = Black"
| "color_of (Node l c a r) = c"

lemma inorder_paint [simp]: "inorder (paint c t) = inorder t"
  by (cases t) simp_all

lemma root_paint [simp]: "root_of (paint c t) = root_of t"
  by (cases t) simp_all

lemma paint_same [simp]: "color_of t = c \<Longrightarrow> paint c t = t"
  by (cases t) auto

lemma color_paint_black [simp]: "color_of (paint Black t) = Black"
  by (cases t) simp_all

lemma color_paint: "color_of (paint c t) = (if t = Leaf then Black else c)"
  by (cases t) simp_all

section \<open>The red-black properties\<close>

text \<open>\<open>rb t n\<close>: below a node of \<open>t\<close> no two reds follow each other and every path has \<open>n\<close> black nodes.\<close>

fun rb :: "rbt \<Rightarrow> nat \<Rightarrow> bool" where
  "rb Leaf n \<longleftrightarrow> n = 0"
| "rb (Node l Red a r) n \<longleftrightarrow> rb l n \<and> rb r n \<and> color_of l = Black \<and> color_of r = Black"
| "rb (Node l Black a r) n \<longleftrightarrow> (\<exists>m. n = Suc m \<and> rb l m \<and> rb r m)"

text \<open>The whole tree: a black root besides.\<close>

definition rb_tree :: "rbt \<Rightarrow> bool" where
  "rb_tree t \<longleftrightarrow> color_of t = Black \<and> (\<exists>n. rb t n)"

text \<open>A context whose hole takes a subtree of black height \<open>n\<close>.\<close>

fun rb_ctx :: "frame list \<Rightarrow> nat \<Rightarrow> bool" where
  "rb_ctx [] n \<longleftrightarrow> True"
| "rb_ctx (LeftHole Black a r # fs) n \<longleftrightarrow> rb r n \<and> rb_ctx fs (Suc n)"
| "rb_ctx (RightHole l Black a # fs) n \<longleftrightarrow> rb l n \<and> rb_ctx fs (Suc n)"
| "rb_ctx (LeftHole Red a r # fs) n \<longleftrightarrow> rb r n \<and> color_of r = Black \<and> rb_ctx fs n \<and>
     fs \<noteq> [] \<and> frame_color (hd fs) = Black"
| "rb_ctx (RightHole l Red a # fs) n \<longleftrightarrow> rb l n \<and> color_of l = Black \<and> rb_ctx fs n \<and>
     fs \<noteq> [] \<and> frame_color (hd fs) = Black"

text \<open>The colour a subtree may have in a hole: red only below a black frame.\<close>

definition hole_ok :: "frame list \<Rightarrow> rbt \<Rightarrow> bool" where
  "hole_ok fs t \<longleftrightarrow> color_of t = Black \<or> (fs \<noteq> [] \<and> frame_color (hd fs) = Black)"

lemma rb_tree_plugI:
  "rb_ctx fs n \<Longrightarrow> rb t n \<Longrightarrow> hole_ok fs t \<Longrightarrow> rb_tree (plug fs t)"
proof (induction fs t arbitrary: n rule: plug.induct)
  case (2 c a r fs t)
  then show ?case
    by (cases c) (fastforce simp: hole_ok_def intro!: 2(1))+
next
  case (3 l c a fs t)
  then show ?case
    by (cases c) (fastforce simp: hole_ok_def intro!: 3(1))+
qed (auto simp: rb_tree_def hole_ok_def)

lemma rb_tree_plugD:
  "rb_tree (plug fs t) \<Longrightarrow> \<exists>n. rb_ctx fs n \<and> rb t n \<and> hole_ok fs t"
proof (induction fs t rule: plug.induct)
  case (2 c a r fs t)
  from 2(1) [OF 2(2) [unfolded plug.simps]] obtain n where
    n: "rb_ctx fs n" "rb (Node t c a r) n" "hole_ok fs (Node t c a r)" by blast
  then show ?case by (cases c) (auto simp: hole_ok_def)
next
  case (3 l c a fs t)
  from 3(1) [OF 3(2) [unfolded plug.simps]] obtain n where
    n: "rb_ctx fs n" "rb (Node l c a t) n" "hole_ok fs (Node l c a t)" by blast
  then show ?case by (cases c) (auto simp: hole_ok_def)
qed (auto simp: rb_tree_def hole_ok_def)

lemma rb_ctx_last: "rb_ctx fs n \<Longrightarrow> fs = [] \<or> frame_color (last fs) = Black"
  by (induction fs n rule: rb_ctx.induct) auto

section \<open>Insertion\<close>

text \<open>
  The rotations of the source at a red parent with a black uncle. Where the source paints a
  moved subtree black, so does the specification.
\<close>

text \<open>The parent \<open>p\<close> is the left child of \<open>g\<close>; the new node is its left or its right child.\<close>

definition ins_rot_LL :: "rbt \<Rightarrow> addr \<Rightarrow> rbt \<Rightarrow> rb_color \<Rightarrow> addr \<Rightarrow> rbt \<Rightarrow> rbt" where
  "ins_rot_LL t p r cg g u = Node t cg p (Node (paint Black r) Red g u)"

definition ins_rot_LR :: "rbt \<Rightarrow> addr \<Rightarrow> rbt \<Rightarrow> addr \<Rightarrow> rbt \<Rightarrow> rb_color \<Rightarrow> addr \<Rightarrow> rbt \<Rightarrow> rbt" where
  "ins_rot_LR l p x n y cg g u = Node (Node l Red p (paint Black x)) cg n (Node (paint Black y) Red g u)"

definition ins_rot_RR :: "rbt \<Rightarrow> addr \<Rightarrow> rbt \<Rightarrow> rb_color \<Rightarrow> addr \<Rightarrow> rbt \<Rightarrow> rbt" where
  "ins_rot_RR t p l cg g u = Node (Node u Red g (paint Black l)) cg p t"

definition ins_rot_RL :: "rbt \<Rightarrow> addr \<Rightarrow> rbt \<Rightarrow> addr \<Rightarrow> rbt \<Rightarrow> rb_color \<Rightarrow> addr \<Rightarrow> rbt \<Rightarrow> rbt" where
  "ins_rot_RL r p x n y cg g u = Node (Node u Red g (paint Black x)) cg n (Node (paint Black y) Red p r)"

fun ins_fix :: "frame list \<Rightarrow> rbt \<Rightarrow> rbt" where
  "ins_fix [] t = paint Black t"
| "ins_fix (LeftHole Red p r # LeftHole cg g u # fs) t =
     (if color_of u = Red then ins_fix fs (Node (Node t Black p r) Red g (paint Black u))
      else plug fs (ins_rot_LL t p r cg g u))"
| "ins_fix (RightHole l Red p # LeftHole cg g u # fs) t =
     (if color_of u = Red then ins_fix fs (Node (Node l Black p t) Red g (paint Black u))
      else case t of Leaf \<Rightarrow> Leaf | Node x c n y \<Rightarrow> plug fs (ins_rot_LR l p x n y cg g u))"
| "ins_fix (RightHole l Red p # RightHole u cg g # fs) t =
     (if color_of u = Red then ins_fix fs (Node (paint Black u) Red g (Node l Black p t))
      else plug fs (ins_rot_RR t p l cg g u))"
| "ins_fix (LeftHole Red p r # RightHole u cg g # fs) t =
     (if color_of u = Red then ins_fix fs (Node (paint Black u) Red g (Node t Black p r))
      else case t of Leaf \<Rightarrow> Leaf | Node x c n y \<Rightarrow> plug fs (ins_rot_RL r p x n y cg g u))"
| "ins_fix (LeftHole Black p r # fs) t = plug fs (Node t Black p r)"
| "ins_fix (RightHole l Black p # fs) t = plug fs (Node l Black p t)"
| "ins_fix [LeftHole Red p r] t = Node t Red p r"
| "ins_fix [RightHole l Red p] t = Node l Red p t"

lemmas ins_rots = ins_rot_LL_def ins_rot_LR_def ins_rot_RR_def ins_rot_RL_def

lemma inorder_ins_fix: "t \<noteq> Leaf \<Longrightarrow> inorder (ins_fix fs t) = inorder (plug fs t)"
  by (induction fs t rule: ins_fix.induct) (auto simp: ins_rots split: rbt.splits)

lemma rb_paint_black: "rb t n \<Longrightarrow> color_of t = Red \<Longrightarrow> rb (paint Black t) (Suc n)"
  by (cases t) (auto elim: rb.elims)

lemma rb_paint_black': "rb t n \<Longrightarrow> color_of t \<noteq> Black \<Longrightarrow> rb (paint Black t) (Suc n)"
  using rb_paint_black rb_color.exhaust by blast

lemma ins_fix_rb:
  assumes "rb_ctx fs n" "rb t n" "color_of t = Red"
  shows "rb_tree (ins_fix fs t)"
  using assms
proof (induction fs t arbitrary: n rule: ins_fix.induct)
  case (1 t)
  then show ?case using rb_paint_black [of t n] by (auto simp: rb_tree_def color_paint)
next
  case (2 p r cg g u fs t)
  then have "cg = Black" "rb r n" "color_of r = Black" "rb u n" "rb_ctx fs (Suc n)" by (auto)
  with 2 show ?case
    by (cases "color_of u")
       (auto intro!: 2(1) [of "Suc n"] rb_tree_plugI [of _ "Suc n"] simp: rb_paint_black ins_rots hole_ok_def)
next
  case (3 l p cg g u fs t)
  then have "cg = Black" "rb l n" "color_of l = Black" "rb u n" "rb_ctx fs (Suc n)" by (auto)
  with 3 show ?case
    by (cases "color_of u")
       (auto intro!: 3(1) [of "Suc n"] rb_tree_plugI [of _ "Suc n"] simp: rb_paint_black ins_rots hole_ok_def
         split: rbt.splits)
next
  case (4 l p u cg g fs t)
  then have "cg = Black" "rb l n" "color_of l = Black" "rb u n" "rb_ctx fs (Suc n)" by (auto)
  with 4 show ?case
    by (cases "color_of u")
       (auto intro!: 4(1) [of "Suc n"] rb_tree_plugI [of _ "Suc n"] simp: rb_paint_black ins_rots hole_ok_def)
next
  case (5 p r u cg g fs t)
  then have "cg = Black" "rb r n" "color_of r = Black" "rb u n" "rb_ctx fs (Suc n)" by (auto)
  with 5 show ?case
    by (cases "color_of u")
       (auto intro!: 5(1) [of "Suc n"] rb_tree_plugI [of _ "Suc n"] simp: rb_paint_black ins_rots hole_ok_def
         split: rbt.splits)
next
  case (6 p r fs t)
  then show ?case by (auto intro!: rb_tree_plugI [of _ "Suc n"] simp: hole_ok_def)
next
  case (7 l p fs t)
  then show ?case by (auto intro!: rb_tree_plugI [of _ "Suc n"] simp: hole_ok_def)
qed simp_all

section \<open>Removal\<close>

text \<open>
  Rebalancing: the hole's subtree \<open>t\<close> is one black node short. \<open>p\<close> of colour \<open>c\<close> is the parent,
  \<open>s\<close> the black sibling with children \<open>sl\<close> and \<open>sr\<close>. The result is the tree, or, in case 2 below a
  black parent, the subtree that is now short.
\<close>

fun del_left :: "rb_color \<Rightarrow> addr \<Rightarrow> rbt \<Rightarrow> addr \<Rightarrow> rbt \<Rightarrow> frame list \<Rightarrow> rbt \<Rightarrow> rbt + rbt" where
  "del_left c p sl s sr fs t =
     (if color_of sr = Black then
        (case sl of
           Node x Red n y \<Rightarrow>
             Inl (plug fs (Node (Node t Black p x) c n (Node (paint Black y) Black s sr)))
         | _ \<Rightarrow>
             let t' = Node t Black p (Node sl Red s sr)
             in if c = Red then Inl (plug fs t') else Inr t')
      else Inl (plug fs (Node (Node t Black p sl) c s (paint Black sr))))"

fun del_right :: "rb_color \<Rightarrow> addr \<Rightarrow> rbt \<Rightarrow> addr \<Rightarrow> rbt \<Rightarrow> frame list \<Rightarrow> rbt \<Rightarrow> rbt + rbt" where
  "del_right c p sl s sr fs t =
     (if color_of sl = Black then
        (case sr of
           Node x Red n y \<Rightarrow>
             Inl (plug fs (Node (Node sl Black s (paint Black x)) c n (Node y Black p t)))
         | _ \<Rightarrow>
             let t' = Node (Node sl Red s sr) Black p t
             in if c = Red then Inl (plug fs t') else Inr t')
      else Inl (plug fs (Node (paint Black sl) c s (Node sr Black p t))))"

text \<open>One iteration, case 1 (a red sibling) included. A missing sibling is \<open>None\<close>.\<close>

fun del_step :: "frame \<Rightarrow> frame list \<Rightarrow> rbt \<Rightarrow> (rbt + rbt) option" where
  "del_step (LeftHole c p (Node sl Black s sr)) fs t = Some (del_left c p sl s sr fs t)"
| "del_step (LeftHole c p (Node (Node x d s' y) Red s sr)) fs t =
     Some (del_left Red p x s' y (LeftHole c s sr # fs) t)"
| "del_step (RightHole (Node sl Black s sr) c p) fs t = Some (del_right c p sl s sr fs t)"
| "del_step (RightHole (Node sl Red s (Node x d s' y)) c p) fs t =
     Some (del_right Red p x s' y (RightHole sl c s # fs) t)"
| "del_step f fs t = None"

fun del_fix :: "frame list \<Rightarrow> rbt \<Rightarrow> rbt option" where
  "del_fix [] t = Some t"
| "del_fix (f # fs) t =
     (case del_step f fs t of
        None \<Rightarrow> None
      | Some (Inl t') \<Rightarrow> Some t'
      | Some (Inr t') \<Rightarrow> del_fix fs t')"

lemma inorder_del_left:
  "(case del_left c p sl s sr fs t of Inl t' \<Rightarrow> inorder t' | Inr t' \<Rightarrow> inorder (plug fs t')) =
     inorder (plug fs (Node t c p (Node sl d s sr)))"
  by (auto simp: Let_def split: rbt.splits rb_color.splits)

lemma inorder_del_right:
  "(case del_right c p sl s sr fs t of Inl t' \<Rightarrow> inorder t' | Inr t' \<Rightarrow> inorder (plug fs t')) =
     inorder (plug fs (Node (Node sl d s sr) c p t))"
  by (auto simp: Let_def split: rbt.splits rb_color.splits)

lemma inorder_del_step:
  assumes "del_step f fs t = Some x"
  shows "(case x of Inl t' \<Rightarrow> inorder t' | Inr t' \<Rightarrow> inorder (plug fs t')) = inorder (plug (f # fs) t)"
  using assms
proof (cases "(f, fs, t)" rule: del_step.cases)
  case (1 c p sl s sr fs t)
  with assms inorder_del_left [where c = c and p = p and sl = sl and s = s and sr = sr and fs = fs and t = t] show ?thesis by auto
next
  case (2 c p x d s' y s sr fs t)
  with assms inorder_del_left [where c = Red and p = p and sl = x and s = s' and sr = y and fs = "LeftHole c s sr # fs" and t = t and d = d] show ?thesis
    by (auto split: if_splits rbt.splits rb_color.splits simp: Let_def)
next
  case (3 sl s sr c p fs t)
  with assms inorder_del_right [where c = c and p = p and sl = sl and s = s and sr = sr and fs = fs and t = t] show ?thesis by auto
next
  case (4 sl s x d s' y c p fs t)
  with assms inorder_del_right [where c = Red and p = p and sl = x and s = s' and sr = y and fs = "RightHole sl c s # fs" and t = t and d = d] show ?thesis
    by (auto split: if_splits rbt.splits rb_color.splits simp: Let_def)
qed (use assms in auto)

lemma inorder_del_fix: "del_fix fs t = Some t' \<Longrightarrow> inorder t' = inorder (plug fs t)"
proof (induction fs arbitrary: t)
  case (Cons f fs)
  then obtain x where x: "del_step f fs t = Some x" by (auto split: option.splits)
  with inorder_del_step [OF x] Cons show ?case by (cases x) auto
qed simp

text \<open>Case 2 below a red parent never asks for another round.\<close>

lemma del_left_red: "\<exists>t'. del_left Red p sl s sr fs t = Inl t'"
  by (auto simp: Let_def split: rbt.splits rb_color.splits)

lemma del_right_red: "\<exists>t'. del_right Red p sl s sr fs t = Inl t'"
  by (auto simp: Let_def split: rbt.splits rb_color.splits)

lemma del_left_rb:
  assumes "rb_ctx (LeftHole c p (Node sl Black s sr) # fs) (Suc n)" "rb t n"
  shows "case del_left c p sl s sr fs t of
           Inl t' \<Rightarrow> rb_tree t'
         | Inr t' \<Rightarrow> rb_ctx fs (Suc (Suc n)) \<and> rb t' (Suc n) \<and> color_of t' = Black"
proof (cases c)
  case Black
  then show ?thesis
    using assms
    by (auto simp: Let_def hole_ok_def rb_paint_black' split: rbt.splits rb_color.splits
        intro!: rb_tree_plugI [of _ "Suc (Suc n)"])
next
  case Red
  then show ?thesis
    using assms
    by (auto simp: Let_def hole_ok_def rb_paint_black' split: rbt.splits rb_color.splits
        intro!: rb_tree_plugI [of _ "Suc n"])
qed

lemma del_right_rb:
  assumes "rb_ctx (RightHole (Node sl Black s sr) c p # fs) (Suc n)" "rb t n"
  shows "case del_right c p sl s sr fs t of
           Inl t' \<Rightarrow> rb_tree t'
         | Inr t' \<Rightarrow> rb_ctx fs (Suc (Suc n)) \<and> rb t' (Suc n) \<and> color_of t' = Black"
proof (cases c)
  case Black
  then show ?thesis
    using assms
    by (auto simp: Let_def hole_ok_def rb_paint_black' split: rbt.splits rb_color.splits
        intro!: rb_tree_plugI [of _ "Suc (Suc n)"])
next
  case Red
  then show ?thesis
    using assms
    by (auto simp: Let_def hole_ok_def rb_paint_black' split: rbt.splits rb_color.splits
        intro!: rb_tree_plugI [of _ "Suc n"])
qed

lemma del_step_rb:
  assumes "rb_ctx (f # fs) (Suc n)" "rb t n"
  shows "\<exists>x. del_step f fs t = Some x \<and>
           (case x of Inl t' \<Rightarrow> rb_tree t'
            | Inr t' \<Rightarrow> rb_ctx fs (Suc (Suc n)) \<and> rb t' (Suc n) \<and> color_of t' = Black)"
proof (cases f)
  case (LeftHole c p u)
  with assms(1) obtain sl d s sr where u: "u = Node sl d s sr" "rb u (Suc n)"
    by (cases u; cases c) auto
  show ?thesis
  proof (cases d)
    case Black
    with u LeftHole assms del_left_rb [of c p sl s sr fs n t] show ?thesis by simp
  next
    case Red
    with assms(1) LeftHole u have "c = Black" "rb sr (Suc n)" "rb_ctx fs (Suc (Suc n))"
      by (cases c; auto)+
    moreover from Red u obtain x s' y where sl: "sl = Node x Black s' y" "rb sl (Suc n)"
      by (cases sl) auto
    ultimately have "rb_ctx (LeftHole Red p (Node x Black s' y) # LeftHole c s sr # fs) (Suc n)" by simp
    from del_left_rb [OF this assms(2)] del_left_red [of p x s' y "LeftHole c s sr # fs" t]
    show ?thesis using LeftHole u Red sl by auto
  qed
next
  case (RightHole u c p)
  with assms(1) obtain sl d s sr where u: "u = Node sl d s sr" "rb u (Suc n)"
    by (cases u; cases c) auto
  show ?thesis
  proof (cases d)
    case Black
    with u RightHole assms del_right_rb [of sl s sr c p fs n t] show ?thesis by simp
  next
    case Red
    with assms(1) RightHole u have "c = Black" "rb sl (Suc n)" "rb_ctx fs (Suc (Suc n))"
      by (cases c; auto)+
    moreover from Red u obtain x s' y where sr: "sr = Node x Black s' y" "rb sr (Suc n)"
      by (cases sr) auto
    ultimately have "rb_ctx (RightHole (Node x Black s' y) Red p # RightHole sl c s # fs) (Suc n)" by simp
    from del_right_rb [OF this assms(2)] del_right_red [of p x s' y "RightHole sl c s # fs" t]
    show ?thesis using RightHole u Red sr by auto
  qed
qed

lemma del_fix_rb:
  assumes "rb_ctx fs (Suc n)" "rb t n" "color_of t = Black"
  shows "\<exists>t'. del_fix fs t = Some t' \<and> rb_tree t'"
  using assms
proof (induction fs arbitrary: t n)
  case (Cons f fs)
  from del_step_rb [OF Cons.prems(1,2)] obtain x where x: "del_step f fs t = Some x"
    "case x of Inl t' \<Rightarrow> rb_tree t' | Inr t' \<Rightarrow> rb_ctx fs (Suc (Suc n)) \<and> rb t' (Suc n) \<and> color_of t' = Black"
    by blast
  with Cons.IH show ?case by (cases x) auto
qed (auto simp: rb_tree_def)

text \<open>
  Removal of a node: what takes its place, in which context, and whether that context is one
  black node short afterwards.
\<close>

fun min_path :: "rbt \<Rightarrow> frame list \<times> rb_color \<times> addr \<times> rbt" where
  "min_path Leaf = ([], Black, 0, Leaf)"
| "min_path (Node Leaf c a r) = ([], c, a, r)"
| "min_path (Node l c a r) = (let (fs, x) = min_path l in (fs @ [LeftHole c a r], x))"

fun del_hole :: "frame list \<Rightarrow> rbt \<Rightarrow> rb_color \<Rightarrow> rbt \<Rightarrow> bool \<times> frame list \<times> rbt" where
  "del_hole fs Leaf c r = (r = Leaf \<and> c = Black, fs, paint c r)"
| "del_hole fs l c Leaf = (False, fs, paint c l)"
| "del_hole fs l c r =
     (case min_path r of
        (path, cs, s, x) \<Rightarrow> (x = Leaf \<and> cs = Black, path @ RightHole l c s # fs, paint Black x))"

definition del :: "frame list \<Rightarrow> rbt \<Rightarrow> rb_color \<Rightarrow> rbt \<Rightarrow> rbt option" where
  "del fs l c r = (case del_hole fs l c r of
     (short, gs, t) \<Rightarrow> if short then del_fix gs t else Some (plug gs t))"

lemma min_path_plug:
  "t \<noteq> Leaf \<Longrightarrow> min_path t = (fs, c, a, r) \<Longrightarrow> plug fs (Node Leaf c a r) = t \<and> lefts fs = []"
proof (induction t arbitrary: fs rule: min_path.induct)
  case (3 l' c' a' r' c a r)
  then show ?case by (auto simp: Let_def plug_append split: prod.splits)
qed auto

lemma inorder_del_hole:
  assumes "del_hole fs l c r = (short, gs, t)"
  shows "inorder (plug gs t) = lefts fs @ inorder l @ inorder r @ rights fs"
proof (cases "l = Leaf \<or> r = Leaf")
  case True
  with assms show ?thesis by (cases l; cases r) auto
next
  case False
  obtain path cs s x where m: "min_path r = (path, cs, s, x)" by (metis prod_cases4)
  have "gs = path @ RightHole l c s # fs" "t = paint Black x"
    using assms False m by (cases l; cases r; simp)+
  moreover have "inorder r = lefts path @ inorder (Node Leaf cs s x) @ rights path" "lefts path = []"
    using min_path_plug [OF _ m] False inorder_plug by metis+
  ultimately show ?thesis by simp
qed

lemma rb_one_child:
  assumes "rb (Node Leaf c a r) n"
  shows "r = Leaf \<and> (c = Black \<and> n = 1 \<or> c = Red \<and> n = 0) \<or>
         r \<noteq> Leaf \<and> c = Black \<and> n = 1 \<and> rb (paint Black r) n"
  using assms
proof (cases c)
  case Red
  with assms show ?thesis by (cases r; cases "color_of r") auto
next
  case Black
  with assms have "rb r 0" "n = 1" by auto
  with Black show ?thesis
    by (cases r; cases "color_of r") (auto simp: rb_paint_black)
qed

lemma rb_one_child':
  assumes "rb (Node l c a Leaf) n" "l \<noteq> Leaf"
  shows "c = Black \<and> rb (paint Black l) n"
  using rb_one_child [of c a l n] assms by (cases c) auto

lemma rb_ctx_addr:
  "rb_ctx (path @ RightHole l c a # fs) n \<longleftrightarrow> rb_ctx (path @ RightHole l c s # fs) n"
proof (induction path arbitrary: n)
  case Nil
  show ?case by (cases c) simp_all
next
  case (Cons f path)
  have hd: "frame_color (hd (path @ RightHole l c a # fs)) = frame_color (hd (path @ RightHole l c s # fs))"
    by (cases path) simp_all
  show ?case
  proof (cases f)
    case (LeftHole d b r)
    with Cons hd show ?thesis by (cases d) simp_all
  next
    case (RightHole u d b)
    with Cons hd show ?thesis by (cases d) simp_all
  qed
qed

text \<open>The hole that removal leaves behind satisfies what the rebalancing expects.\<close>

lemma del_hole_rb:
  assumes rb: "rb_tree (plug fs (Node l c a r))" and hole: "del_hole fs l c r = (short, gs, t)"
  shows "if short then \<exists>n. rb_ctx gs (Suc n) \<and> rb t n \<and> color_of t = Black else rb_tree (plug gs t)"
proof -
  from rb_tree_plugD [OF rb] obtain n where n: "rb_ctx fs n" "rb (Node l c a r) n"
    "hole_ok fs (Node l c a r)" by blast
  show ?thesis
  proof (cases "l = Leaf \<or> r = Leaf")
    case True
    then consider "l = Leaf" "r = Leaf" "c = Black" "n = 1" "short" "gs = fs" "t = Leaf"
      | "\<not> short" "gs = fs" "rb t n" "color_of t = Black"
      using hole n(2) rb_one_child [of c a r n] rb_one_child' [of l c a n]
      by (cases l; cases r) auto
    then show ?thesis
      using n(1) rb_tree_plugI [of fs n t] by cases (auto simp: hole_ok_def)
  next
    case False
    obtain path cs s x where m: "min_path r = (path, cs, s, x)" by (metis prod_cases4)
    have gs: "gs = path @ RightHole l c s # fs" "t = paint Black x" "short = (x = Leaf \<and> cs = Black)"
      using hole False m by (cases l; cases r; simp)+
    have "plug (path @ RightHole l c a # fs) (Node Leaf cs s x) = plug fs (Node l c a r)"
      using min_path_plug [OF _ m] False by (simp add: plug_append)
    with rb rb_tree_plugD obtain k where k: "rb_ctx (path @ RightHole l c a # fs) k"
      "rb (Node Leaf cs s x) k" by metis
    then have ctx: "rb_ctx gs k" unfolding gs(1) by (subst rb_ctx_addr [of _ _ _ s _ _ a]) simp
    from rb_one_child [OF k(2)] show ?thesis
      using ctx gs(2,3) rb_tree_plugI [of gs k t] by (auto simp: hole_ok_def)
  qed
qed

theorem del_correct:
  assumes "rb_tree (plug fs (Node l c a r))"
  shows "\<exists>t. del fs l c r = Some t \<and> rb_tree t \<and> inorder t = lefts fs @ inorder l @ inorder r @ rights fs"
proof -
  obtain short gs t where hole: "del_hole fs l c r = (short, gs, t)" by (metis prod_cases3)
  note ord = inorder_del_hole [OF hole] and ok = del_hole_rb [OF assms hole]
  show ?thesis
  proof (cases short)
    case True
    with ok del_fix_rb obtain t' where "del_fix gs t = Some t'" "rb_tree t'" by (metis (full_types))
    with inorder_del_fix [OF this(1)] ord hole True show ?thesis by (simp add: del_def)
  next
    case False
    with ok ord hole show ?thesis by (simp add: del_def)
  qed
qed

end
