(* ===== verification/Rb_Heap.thy ===== *)
theory Rb_Heap
  imports Rb_Spec
begin

text \<open>
  The memory operations of \<open>Rbtree\<close> implement the functions of \<open>Rb_Spec\<close>. \<open>rb_repr m t\<close> says that
  the memory \<open>m\<close> holds the tree \<open>t\<close>, parent pointers and colours included; \<open>rb_at m fs t\<close> says the
  same of a tree split at a position. Each operation is shown to return, to produce the memory
  of the specified tree, and to leave every other address alone.
\<close>

section \<open>Representation\<close>

definition aligned :: "addr \<Rightarrow> bool" where
  "aligned a \<longleftrightarrow> a AND 3 = 0"

fun col_bit :: "rb_color \<Rightarrow> u64" where
  "col_bit Red = 0"
| "col_bit Black = 1"

fun repr :: "(addr \<rightharpoonup> rb_node) \<Rightarrow> addr \<Rightarrow> rbt \<Rightarrow> bool" where
  "repr H p Leaf \<longleftrightarrow> True"
| "repr H p (Node l c a r) \<longleftrightarrow>
     H a = Some \<lparr>pc = p OR col_bit c, rb_right = root_of r, rb_left = root_of l\<rparr> \<and> repr H a l \<and> repr H a r"

fun repr_ctx :: "(addr \<rightharpoonup> rb_node) \<Rightarrow> addr \<Rightarrow> frame list \<Rightarrow> bool" where
  "repr_ctx H q [] \<longleftrightarrow> True"
| "repr_ctx H q (LeftHole c a r # fs) \<longleftrightarrow>
     H a = Some \<lparr>pc = parent_of fs OR col_bit c, rb_right = root_of r, rb_left = q\<rparr> \<and>
     repr H a r \<and> repr_ctx H a fs"
| "repr_ctx H q (RightHole l c a # fs) \<longleftrightarrow>
     H a = Some \<lparr>pc = parent_of fs OR col_bit c, rb_right = q, rb_left = root_of l\<rparr> \<and>
     repr H a l \<and> repr_ctx H a fs"

fun top_of :: "frame list \<Rightarrow> addr \<Rightarrow> addr" where
  "top_of [] q = q"
| "top_of (f # fs) q = top_of fs (frame_addr f)"

definition wf_addrs :: "addr list \<Rightarrow> bool" where
  "wf_addrs xs \<longleftrightarrow> distinct xs \<and> (\<forall>a \<in> set xs. a \<noteq> 0 \<and> aligned a)"

definition rb_repr :: "'a rb_mem \<Rightarrow> rbt \<Rightarrow> bool" where
  "rb_repr m t \<longleftrightarrow> wf_addrs (inorder t) \<and> repr (rb_cells m) 0 t \<and> rb_root m = root_of t"

definition rb_at :: "'a rb_mem \<Rightarrow> frame list \<Rightarrow> rbt \<Rightarrow> bool" where
  "rb_at m fs t \<longleftrightarrow> wf_addrs (lefts fs @ inorder t @ rights fs) \<and> repr_ctx (rb_cells m) (root_of t) fs \<and>
     repr (rb_cells m) (parent_of fs) t \<and> rb_root m = top_of fs (root_of t)"

text \<open>What an operation on a tree with the addresses \<open>A\<close> may touch.\<close>

definition same_outside :: "addr set \<Rightarrow> 'a rb_mem \<Rightarrow> 'a rb_mem \<Rightarrow> bool" where
  "same_outside A m m' \<longleftrightarrow> (\<forall>b. b \<notin> A \<longrightarrow> rb_cells m' b = rb_cells m b) \<and> rb_aug m' = rb_aug m"

lemma same_outside_trans: "same_outside A m m' \<Longrightarrow> same_outside A m' m'' \<Longrightarrow> same_outside A m m''"
  by (simp add: same_outside_def)

lemma rb_repr_plug: "rb_repr m (plug fs t) \<longleftrightarrow> rb_at m fs t"
proof (induction fs t rule: plug.induct)
  case (1 t)
  show ?case by (simp add: rb_repr_def rb_at_def)
next
  case (2 c a r fs t)
  then show ?case by (auto simp: rb_at_def)
next
  case (3 l c a fs t)
  then show ?case by (auto simp: rb_at_def)
qed

section \<open>Packed words\<close>

lemma aligned_0 [simp]: "aligned 0"
  by (simp add: aligned_def)

lemma aligned_mask: "aligned p \<Longrightarrow> p AND NOT 3 = p"
proof -
  assume p: "aligned p"
  have "p = p AND (3 OR NOT 3)" by simp
  also have "\<dots> = (p AND 3) OR (p AND NOT 3)" by (rule bit.conj_disj_distrib)
  finally show ?thesis using p by (simp add: aligned_def)
qed

lemma aligned_and_1: "aligned p \<Longrightarrow> p AND 1 = 0"
proof -
  assume p: "aligned p"
  have "p AND 1 = (p AND 3) AND 1" by (simp add: and.assoc)
  with p show ?thesis by (simp add: aligned_def)
qed

lemma pc_parent_col [simp]: "aligned p \<Longrightarrow> pc_parent (p OR col_bit c) = p"
  by (cases c) (simp_all add: pc_parent_def bit.conj_disj_distrib2 aligned_mask [simplified])

lemma pc_black_col [simp]: "aligned p \<Longrightarrow> pc_black (p OR col_bit c) \<longleftrightarrow> c = Black"
  by (cases c) (simp_all add: pc_black_def bit.conj_disj_distrib2 aligned_and_1)

lemma pc_plain [simp]:
  "aligned p \<Longrightarrow> pc_parent p = p" "aligned p \<Longrightarrow> pc_parent (p OR 1) = p"
  "aligned p \<Longrightarrow> \<not> pc_black p" "aligned p \<Longrightarrow> pc_black (p OR 1)"
  using pc_parent_col [of p Red] pc_parent_col [of p Black] pc_black_col [of p Red] pc_black_col [of p Black]
  by simp_all

lemma pc_keep_color [simp]: "aligned p \<Longrightarrow> (p OR col_bit c) AND 1 OR q = q OR col_bit c"
  by (cases c) (simp_all add: bit.conj_disj_distrib2 aligned_and_1 or.commute)

lemma pc_or_black [simp]: "p OR col_bit c OR 1 = p OR col_bit Black"
  by (cases c) (simp_all add: or.assoc)

lemma col_bits: "p OR 0 = p OR col_bit Red" "p OR 1 = p OR col_bit Black"
  by simp_all

section \<open>Frames of memory\<close>

definition ctx_addrs :: "frame list \<Rightarrow> addr set" where
  "ctx_addrs fs = set (lefts fs) \<union> set (rights fs)"

lemma ctx_addrs_simps [simp]:
  "ctx_addrs [] = {}"
  "ctx_addrs (LeftHole c a r # fs) = insert a (set (inorder r)) \<union> ctx_addrs fs"
  "ctx_addrs (RightHole l c a # fs) = insert a (set (inorder l)) \<union> ctx_addrs fs"
  by (auto simp: ctx_addrs_def)

lemma repr_cong: "(\<And>b. b \<in> set (inorder t) \<Longrightarrow> H' b = H b) \<Longrightarrow> repr H' p t = repr H p t"
  by (induction t arbitrary: p) auto

lemma repr_upd [simp]: "a \<notin> set (inorder t) \<Longrightarrow> repr (H(a := x)) p t = repr H p t"
  by (rule repr_cong) auto

lemma repr_ctx_cong: "(\<And>b. b \<in> ctx_addrs fs \<Longrightarrow> H' b = H b) \<Longrightarrow> repr_ctx H' q fs = repr_ctx H q fs"
proof (induction H q fs rule: repr_ctx.induct)
  case (2 H q c a r fs)
  then show ?case using repr_cong [of r H' H a] by auto
next
  case (3 H q l c a fs)
  then show ?case using repr_cong [of l H' H a] by auto
qed simp

lemma repr_ctx_upd [simp]: "a \<notin> ctx_addrs fs \<Longrightarrow> repr_ctx (H(a := x)) q fs = repr_ctx H q fs"
  by (rule repr_ctx_cong) auto

lemma root_in_inorder: "root_of t \<noteq> 0 \<Longrightarrow> root_of t \<in> set (inorder t)"
  by (cases t) simp_all

lemma parent_in_ctx: "fs \<noteq> [] \<Longrightarrow> parent_of fs \<in> ctx_addrs fs"
  by (cases fs; cases "hd fs") auto

lemma wf_addrs_parts:
  assumes "wf_addrs (lefts fs @ inorder t @ rights fs)"
  shows "distinct (inorder t)" "set (inorder t) \<inter> ctx_addrs fs = {}"
    "\<forall>a \<in> set (inorder t). a \<noteq> 0 \<and> aligned a" "\<forall>a \<in> ctx_addrs fs. a \<noteq> 0 \<and> aligned a"
    "aligned (parent_of fs)" "distinct (lefts fs @ rights fs)"
  using assms parent_in_ctx [of fs]
  by (auto simp: wf_addrs_def ctx_addrs_def) (cases "fs = []"; auto)+

lemma root_0_iff:
  assumes "\<forall>a \<in> set (inorder t). a \<noteq> 0 \<and> aligned a"
  shows "root_of t = 0 \<longleftrightarrow> t = Leaf"
  using assms by (cases t) auto

section \<open>Memory accesses\<close>

lemma rb_access:
  assumes "rb_cells m a = Some n" "a \<noteq> 0"
  shows "rb_load m a = Some n" "pc_of m a = Some (pc n)" "left_of m a = Some (rb_left n)"
    "right_of m a = Some (rb_right n)" "rb_parent m a = Some (pc_parent (pc n))"
    "rb_is_black m a = Some (pc_black (pc n))" "rb_is_red m a = Some (\<not> pc_black (pc n))"
    "rb_red_parent m a = Some (pc n)"
    "rb_store a f m = Some (m\<lparr>rb_cells := (rb_cells m)(a \<mapsto> f n)\<rparr>)"
    "set_pc a w m = Some (m\<lparr>rb_cells := (rb_cells m)(a \<mapsto> n\<lparr>pc := w\<rparr>)\<rparr>)"
    "set_left a q m = Some (m\<lparr>rb_cells := (rb_cells m)(a \<mapsto> n\<lparr>rb_left := q\<rparr>)\<rparr>)"
    "set_right a q m = Some (m\<lparr>rb_cells := (rb_cells m)(a \<mapsto> n\<lparr>rb_right := q\<rparr>)\<rparr>)"
    "rb_set_parent_color a p c m = Some (m\<lparr>rb_cells := (rb_cells m)(a \<mapsto> n\<lparr>pc := p OR c\<rparr>)\<rparr>)"
    "rb_set_parent a p m = Some (m\<lparr>rb_cells := (rb_cells m)(a \<mapsto> n\<lparr>pc := (pc n AND 1) OR p\<rparr>)\<rparr>)"
    "rb_set_black a m = Some (m\<lparr>rb_cells := (rb_cells m)(a \<mapsto> n\<lparr>pc := pc n OR 1\<rparr>)\<rparr>)"
  using assms
  by (simp_all add: rb_load_def pc_of_def left_of_def right_of_def rb_parent_def rb_is_black_def
      rb_is_red_def rb_red_parent_def rb_store_def set_pc_def set_left_def set_right_def
      rb_set_parent_color_def rb_set_parent_def rb_set_black_def)

lemma non_null_red_repr:
  assumes "repr (rb_cells m) p t" "aligned p" "\<forall>a \<in> set (inorder t). a \<noteq> 0 \<and> aligned a"
  shows "non_null_red m (root_of t) = Some (color_of t = Red)"
    and "null_or_black m (root_of t) = Some (color_of t = Black)"
  using assms rb_color.exhaust
  by (cases t; auto simp: non_null_red_def null_or_black_def rb_access)+

lemma change_child_ok:
  assumes "repr_ctx (rb_cells m) old fs" "old \<noteq> 0" "old \<notin> ctx_addrs fs"
    and "\<forall>a \<in> ctx_addrs fs. a \<noteq> 0 \<and> aligned a" "distinct (lefts fs @ rights fs)"
  shows "\<exists>m'. rb_change_child old new (parent_of fs) m = Some m' \<and> repr_ctx (rb_cells m') new fs \<and>
           (\<forall>b. b \<notin> ctx_addrs fs \<longrightarrow> rb_cells m' b = rb_cells m b) \<and>
           rb_root m' = (if fs = [] then new else rb_root m) \<and> rb_aug m' = rb_aug m"
proof (cases fs)
  case Nil
  then show ?thesis by (simp add: rb_change_child_def)
next
  case (Cons f gs)
  show ?thesis
  proof (cases f)
    case (LeftHole c a r)
    with assms Cons show ?thesis
      by (auto simp: rb_change_child_def rb_access ctx_addrs_def)
  next
    case (RightHole l c a)
    moreover from assms Cons RightHole have "root_of l \<noteq> old"
      using root_in_inorder [of l] by auto
    ultimately show ?thesis
      using assms Cons by (auto simp: rb_change_child_def rb_access ctx_addrs_def)
  qed
qed

lemma rotate_set_parents_ok:
  assumes "rb_cells m old = Some n" "rb_cells m new = Some n'" "old \<noteq> 0" "new \<noteq> 0" "old \<noteq> new"
    and "pc n = parent_of fs OR col_bit c" "repr_ctx (rb_cells m) old fs"
    and "old \<notin> ctx_addrs fs" "new \<notin> ctx_addrs fs"
    and wf: "\<forall>a \<in> ctx_addrs fs. a \<noteq> 0 \<and> aligned a" "distinct (lefts fs @ rights fs)"
  shows "\<exists>m'. rb_rotate_set_parents old new color m = Some m' \<and> repr_ctx (rb_cells m') new fs \<and>
           rb_cells m' old = Some (n\<lparr>pc := new OR color\<rparr>) \<and>
           rb_cells m' new = Some (n'\<lparr>pc := parent_of fs OR col_bit c\<rparr>) \<and>
           (\<forall>b. b \<notin> insert old (insert new (ctx_addrs fs)) \<longrightarrow> rb_cells m' b = rb_cells m b) \<and>
           rb_root m' = (if fs = [] then new else rb_root m) \<and> rb_aug m' = rb_aug m"
proof -
  let ?m1 = "m\<lparr>rb_cells := (rb_cells m)(new \<mapsto> n'\<lparr>pc := parent_of fs OR col_bit c\<rparr>, old \<mapsto> n\<lparr>pc := new OR color\<rparr>)\<rparr>"
  have al: "aligned (parent_of fs)"
    using wf(1) parent_in_ctx [of fs] by (cases "fs = []") auto
  have run: "rb_rotate_set_parents old new color m = rb_change_child old new (parent_of fs) ?m1"
    using assms(1-6) al by (simp add: rb_rotate_set_parents_def rb_access)
  have "repr_ctx (rb_cells ?m1) old fs"
    using assms(7-9) by simp
  from change_child_ok [OF this assms(3,8) wf, of new] obtain m' where m':
    "rb_change_child old new (parent_of fs) ?m1 = Some m'" "repr_ctx (rb_cells m') new fs"
    "\<forall>b. b \<notin> ctx_addrs fs \<longrightarrow> rb_cells m' b = rb_cells ?m1 b"
    "rb_root m' = (if fs = [] then new else rb_root ?m1)" "rb_aug m' = rb_aug ?m1" by blast
  with run assms(5,8,9) show ?thesis by (intro exI [of _ m']) simp
qed

end
