(* ===== verification/Rb_Insert.thy ===== *)
theory Rb_Insert
  imports Rb_Heap
begin

text \<open>
  \<^verbatim>\<open>rb_insert_color\<close> implements \<open>ins_fix\<close>: one lemma per case of the loop of
  \<^verbatim>\<open>__rb_insert\<close>, then the loop by induction along the path to the root.
\<close>

lemma rb_at_replace:
  assumes "rb_at m fs t" "inorder T = inorder t" "t \<noteq> Leaf"
    and "repr_ctx (rb_cells m') (root_of T) fs" "repr (rb_cells m') (parent_of fs) T"
    and "rb_root m' = (if fs = [] then root_of T else rb_root m)"
  shows "rb_at m' fs T"
  using assms by (cases fs) (auto simp: rb_at_def)

lemma insert_flip_ok:
  assumes "repr (rb_cells m) g (Node tl' Red ta tr')" "rb_cells m p = Some np" "rb_cells m g = Some ng"
    and "pc ng = gg OR col_bit cg" "aligned gg" "p \<noteq> ta" "p \<noteq> g" "ta \<noteq> g" "p \<noteq> 0" "ta \<noteq> 0" "g \<noteq> 0"
  shows "rb_insert_flip ta p g m = Some (gg, m\<lparr>rb_cells := (rb_cells m)(
           ta \<mapsto> \<lparr>pc = g OR col_bit Black, rb_right = root_of tr', rb_left = root_of tl'\<rparr>,
           p \<mapsto> np\<lparr>pc := g OR col_bit Black\<rparr>, g \<mapsto> ng\<lparr>pc := gg OR col_bit Red\<rparr>)\<rparr>)"
  using assms by (simp add: rb_insert_flip_def rb_access)

abbreviation (input) tree_addrs :: "frame list \<Rightarrow> rbt \<Rightarrow> addr set" where
  "tree_addrs fs t \<equiv> set (inorder (plug fs t))"

lemma insert_flip_left:
  assumes at: "rb_at m (LeftHole cg g (Node ul Red ua ur) # fs) (Node x Red p y)"
  shows "\<exists>m'. rb_insert_flip ua p g m = Some (parent_of fs, m') \<and>
           rb_at m' fs (Node (Node x Black p y) Red g (Node ul Black ua ur)) \<and>
           same_outside (tree_addrs (LeftHole cg g (Node ul Red ua ur) # fs) (Node x Red p y)) m m'"
proof -
  have at': "wf_addrs (lefts fs @ inorder (Node (Node x Red p y) cg g (Node ul Red ua ur)) @ rights fs)"
    using at by (simp add: rb_at_def)
  note wf = wf_addrs_parts [OF at']
  have flip: "rb_insert_flip ua p g m = Some (parent_of fs, m\<lparr>rb_cells := (rb_cells m)(
           ua \<mapsto> \<lparr>pc = g OR col_bit Black, rb_right = root_of ur, rb_left = root_of ul\<rparr>,
           p \<mapsto> \<lparr>pc = g OR col_bit Black, rb_right = root_of y, rb_left = root_of x\<rparr>,
           g \<mapsto> \<lparr>pc = parent_of fs OR col_bit Red, rb_right = ua, rb_left = p\<rparr>)\<rparr>)"
    using at wf by (subst insert_flip_ok [where cg = cg and gg = "parent_of fs"]) (auto simp: rb_at_def)
  show ?thesis
    unfolding flip using at wf by (auto simp: rb_at_def same_outside_def)
qed

lemma insert_flip_right:
  assumes at: "rb_at m (RightHole (Node ul Red ua ur) cg g # fs) (Node x Red p y)"
  shows "\<exists>m'. rb_insert_flip ua p g m = Some (parent_of fs, m') \<and>
           rb_at m' fs (Node (Node ul Black ua ur) Red g (Node x Black p y)) \<and>
           same_outside (tree_addrs (RightHole (Node ul Red ua ur) cg g # fs) (Node x Red p y)) m m'"
proof -
  have at': "wf_addrs (lefts fs @ inorder (Node (Node ul Red ua ur) cg g (Node x Red p y)) @ rights fs)"
    using at by (simp add: rb_at_def)
  note wf = wf_addrs_parts [OF at']
  have flip: "rb_insert_flip ua p g m = Some (parent_of fs, m\<lparr>rb_cells := (rb_cells m)(
           ua \<mapsto> \<lparr>pc = g OR col_bit Black, rb_right = root_of ur, rb_left = root_of ul\<rparr>,
           p \<mapsto> \<lparr>pc = g OR col_bit Black, rb_right = root_of y, rb_left = root_of x\<rparr>,
           g \<mapsto> \<lparr>pc = parent_of fs OR col_bit Red, rb_right = p, rb_left = ua\<rparr>)\<rparr>)"
    using at wf by (subst insert_flip_ok [where cg = cg and gg = "parent_of fs"]) (auto simp: rb_at_def)
  show ?thesis
    unfolding flip using at wf by (auto simp: rb_at_def same_outside_def)
qed

text \<open>Painting a subtree black and giving it a new parent, when it is not empty.\<close>

definition put_black :: "addr \<Rightarrow> rbt \<Rightarrow> (addr \<rightharpoonup> rb_node) \<Rightarrow> (addr \<rightharpoonup> rb_node)" where
  "put_black p t H = (case t of Leaf \<Rightarrow> H
     | Node l c a r \<Rightarrow> H(a \<mapsto> \<lparr>pc = p OR col_bit Black, rb_right = root_of r, rb_left = root_of l\<rparr>))"

lemma if_non_null_black:
  assumes "repr (rb_cells m) q t" "\<forall>a \<in> set (inorder t). a \<noteq> 0 \<and> aligned a"
  shows "if_non_null (root_of t) (\<lambda>t. rb_set_parent_color t p 1) m = Some (m\<lparr>rb_cells := put_black p t (rb_cells m)\<rparr>)"
  using assms by (cases t) (auto simp: if_non_null_def put_black_def rb_access)

lemma put_black_other [simp]: "b \<notin> set (inorder t) \<Longrightarrow> put_black p t H b = H b"
  by (cases t) (auto simp: put_black_def)

lemma put_black_repr:
  assumes "repr H q t" "distinct (inorder t)"
  shows "repr (put_black p t H) p (paint Black t)"
  using assms by (cases t) (auto simp: put_black_def)

lemma root_in_tree: "t \<noteq> Leaf \<Longrightarrow> root_of t \<in> set (inorder t)"
  by (cases t) simp_all

lemma rotate_finish:
  assumes at: "rb_at m fs T0" "root_of T0 = old" "T0 \<noteq> Leaf" and T: "inorder T = inorder T0" "root_of T = new"
    and H: "\<And>b. b \<notin> set (inorder T0) \<Longrightarrow> H b = rb_cells m b"
    and n: "H old = Some n" "pc n = parent_of fs OR col_bit c" "H new = Some n'" "old \<noteq> new"
    and r: "repr (H(new \<mapsto> n'\<lparr>pc := parent_of fs OR col_bit c\<rparr>, old \<mapsto> n\<lparr>pc := new OR color\<rparr>)) (parent_of fs) T"
  shows "\<exists>m'. rb_rotate_set_parents old new color (m\<lparr>rb_cells := H\<rparr>) = Some m' \<and> rb_at m' fs T \<and>
           same_outside (tree_addrs fs T0) m m'"
proof -
  have "wf_addrs (lefts fs @ inorder T0 @ rights fs)" and ctx: "repr_ctx (rb_cells m) old fs"
    using at by (auto simp: rb_at_def)
  note wf = wf_addrs_parts [OF this(1)]
  have "T \<noteq> Leaf" using T(1) at(3) by (cases T0) auto
  then have mem: "old \<in> set (inorder T0)" "new \<in> set (inorder T0)"
    using root_in_tree [OF at(3)] root_in_tree [of T] at(2) T by simp_all
  then have ne: "old \<noteq> 0" "new \<noteq> 0" "old \<notin> ctx_addrs fs" "new \<notin> ctx_addrs fs"
    using wf(2,3) by auto
  have ctxH: "repr_ctx H old fs"
  proof (rule repr_ctx_cong [THEN iffD2, OF _ ctx])
    fix b
    assume "b \<in> ctx_addrs fs"
    with wf(2) show "H b = rb_cells m b" by (intro H) blast
  qed
  let ?m = "m\<lparr>rb_cells := H\<rparr>"
  have pre: "rb_cells ?m old = Some n" "rb_cells ?m new = Some n'" "repr_ctx (rb_cells ?m) old fs"
    using n ctxH by simp_all
  from rotate_set_parents_ok [OF pre(1,2) ne(1,2) n(4) n(2) pre(3) ne(3,4) wf(4,6), of color]
  obtain m' where m': "rb_rotate_set_parents old new color ?m = Some m'"
    "repr_ctx (rb_cells m') new fs" "rb_cells m' old = Some (n\<lparr>pc := new OR color\<rparr>)"
    "rb_cells m' new = Some (n'\<lparr>pc := parent_of fs OR col_bit c\<rparr>)"
    "\<forall>b. b \<notin> insert old (insert new (ctx_addrs fs)) \<longrightarrow> rb_cells m' b = rb_cells ?m b"
    "rb_root m' = (if fs = [] then new else rb_root ?m)" "rb_aug m' = rb_aug ?m" by blast
  have "repr (rb_cells m') (parent_of fs) T"
  proof (rule repr_cong [THEN iffD2, OF _ r])
    fix b
    assume "b \<in> set (inorder T)"
    then have "b \<notin> ctx_addrs fs" using T(1) wf(2) by auto
    with m'(3,4,5) n(4) show "rb_cells m' b = (H(new \<mapsto> n'\<lparr>pc := parent_of fs OR col_bit c\<rparr>, old \<mapsto> n\<lparr>pc := new OR color\<rparr>)) b"
      by simp
  qed
  then have "rb_at m' fs T"
    using m'(2,6) T(2) by (intro rb_at_replace [OF at(1) T(1) at(3)]) simp_all
  moreover have "same_outside (tree_addrs fs T0) m m'"
    unfolding same_outside_def
  proof (intro conjI allI impI)
    fix b
    assume "b \<notin> tree_addrs fs T0"
    then have "b \<notin> insert old (insert new (ctx_addrs fs))" "b \<notin> set (inorder T0)"
      using mem by (auto simp: ctx_addrs_def)
    with m'(5) H [of b] show "rb_cells m' b = rb_cells m b" by simp
  qed (simp add: m'(7))
  ultimately show ?thesis using m'(1) by blast
qed

lemma repr_put_black:
  assumes "set (inorder t) \<inter> set (inorder s) = {}"
  shows "repr (put_black p s H) q t = repr H q t"
  using assms by (intro repr_cong put_black_other) blast

lemma rotate_right_LL:
  assumes at: "rb_at m (LeftHole cg g u # fs) (Node t Red p r)" and n: "node \<noteq> root_of r"
  shows "\<exists>m'. rb_insert_rotate_right dummy_rotate node p g m = Some m' \<and> rb_at m' fs (ins_rot_LL t p r cg g u) \<and>
           same_outside (tree_addrs (LeftHole cg g u # fs) (Node t Red p r)) m m'"
proof -
  let ?T0 = "Node (Node t Red p r) cg g u"
  have at': "rb_at m fs ?T0" using at by (simp add: rb_repr_plug [symmetric])
  then have wf': "wf_addrs (lefts fs @ inorder ?T0 @ rights fs)" by (simp add: rb_at_def)
  note wf = wf_addrs_parts [OF wf']
  have cells: "rb_cells m g = Some \<lparr>pc = parent_of fs OR col_bit cg, rb_right = root_of u, rb_left = p\<rparr>"
    "rb_cells m p = Some \<lparr>pc = g, rb_right = root_of r, rb_left = root_of t\<rparr>"
    "repr (rb_cells m) p t" "repr (rb_cells m) p r" "repr (rb_cells m) g u"
    using at by (simp_all add: rb_at_def)
  have ne: "p \<noteq> 0" "g \<noteq> 0" "p \<noteq> g" "p \<notin> set (inorder t)" "p \<notin> set (inorder r)" "p \<notin> set (inorder u)"
    "g \<notin> set (inorder t)" "g \<notin> set (inorder r)" "g \<notin> set (inorder u)"
    "set (inorder t) \<inter> set (inorder r) = {}" "set (inorder u) \<inter> set (inorder r) = {}"
    "distinct (inorder r)" "\<forall>a \<in> set (inorder r). a \<noteq> 0 \<and> aligned a"
    using wf(1,3) by auto
  let ?g = "\<lparr>pc = parent_of fs OR col_bit cg, rb_right = root_of u, rb_left = root_of r\<rparr>"
  let ?p = "\<lparr>pc = g, rb_right = g, rb_left = root_of t\<rparr>"
  define H where "H = put_black g r ((rb_cells m)(g \<mapsto> ?g, p \<mapsto> ?p))"
  have run: "rb_insert_rotate_right dummy_rotate node p g m = rb_rotate_set_parents g p 0 (m\<lparr>rb_cells := H\<rparr>)"
    using cells ne n by (simp add: rb_insert_rotate_right_def rb_access dummy_rotate_def H_def
        if_non_null_black [where q = p])
  have H: "H g = Some ?g" "H p = Some ?p" "repr H p t" "repr H g u" "repr H g (paint Black r)"
    using cells ne by (simp_all add: H_def repr_put_black put_black_repr [where q = p])
  have "\<exists>m'. rb_rotate_set_parents g p 0 (m\<lparr>rb_cells := H\<rparr>) = Some m' \<and> rb_at m' fs (ins_rot_LL t p r cg g u) \<and>
           same_outside (tree_addrs fs ?T0) m m'"
    by (rule rotate_finish [OF at' _ _ _ _ _ H(1) _ H(2)]) (use H ne in \<open>simp_all add: ins_rots H_def\<close>)
  then show ?thesis unfolding run by simp
qed

lemma rotate_right_LR:
  assumes at: "rb_at m (LeftHole cg g u # fs) (Node l Red p (Node x Red n y))"
  shows "\<exists>m'. rb_insert_rotate_right dummy_rotate n p g m = Some m' \<and> rb_at m' fs (ins_rot_LR l p x n y cg g u) \<and>
           same_outside (tree_addrs (LeftHole cg g u # fs) (Node l Red p (Node x Red n y))) m m'"
proof -
  let ?T0 = "Node (Node l Red p (Node x Red n y)) cg g u"
  have at': "rb_at m fs ?T0" using at by (simp add: rb_repr_plug [symmetric])
  then have wf': "wf_addrs (lefts fs @ inorder ?T0 @ rights fs)" by (simp add: rb_at_def)
  note wf = wf_addrs_parts [OF wf']
  have cells: "rb_cells m g = Some \<lparr>pc = parent_of fs OR col_bit cg, rb_right = root_of u, rb_left = p\<rparr>"
    "rb_cells m p = Some \<lparr>pc = g, rb_right = n, rb_left = root_of l\<rparr>"
    "rb_cells m n = Some \<lparr>pc = p, rb_right = root_of y, rb_left = root_of x\<rparr>"
    "repr (rb_cells m) p l" "repr (rb_cells m) n x" "repr (rb_cells m) n y" "repr (rb_cells m) g u"
    using at by (simp_all add: rb_at_def)
  have ne: "p \<noteq> 0" "g \<noteq> 0" "n \<noteq> 0" "p \<noteq> g" "p \<noteq> n" "g \<noteq> n"
    "p \<notin> set (inorder l)" "p \<notin> set (inorder x)" "p \<notin> set (inorder y)" "p \<notin> set (inorder u)"
    "g \<notin> set (inorder l)" "g \<notin> set (inorder x)" "g \<notin> set (inorder y)" "g \<notin> set (inorder u)"
    "n \<notin> set (inorder l)" "n \<notin> set (inorder x)" "n \<notin> set (inorder y)" "n \<notin> set (inorder u)"
    "set (inorder l) \<inter> set (inorder x) = {}" "set (inorder l) \<inter> set (inorder y) = {}"
    "set (inorder y) \<inter> set (inorder x) = {}" "set (inorder x) \<inter> set (inorder y) = {}"
    "set (inorder u) \<inter> set (inorder x) = {}" "set (inorder u) \<inter> set (inorder y) = {}"
    "distinct (inorder x)" "distinct (inorder y)"
    "\<forall>a \<in> set (inorder x). a \<noteq> 0 \<and> aligned a" "\<forall>a \<in> set (inorder y). a \<noteq> 0 \<and> aligned a"
    using wf(1,3) by auto
  let ?g = "\<lparr>pc = parent_of fs OR col_bit cg, rb_right = root_of u, rb_left = root_of y\<rparr>"
  let ?n = "\<lparr>pc = p, rb_right = g, rb_left = p\<rparr>"
  let ?p = "\<lparr>pc = n, rb_right = root_of x, rb_left = root_of l\<rparr>"
  define H where "H = put_black g y ((put_black p x ((rb_cells m)(p \<mapsto> ?p\<lparr>pc := g\<rparr>, n \<mapsto> ?n\<lparr>rb_right := root_of y\<rparr>)))
      (p \<mapsto> ?p, g \<mapsto> ?g, n \<mapsto> ?n))"
  have run: "rb_insert_rotate_right dummy_rotate n p g m = rb_rotate_set_parents g n 0 (m\<lparr>rb_cells := H\<rparr>)"
    using cells ne by (simp add: rb_insert_rotate_right_def rb_access dummy_rotate_def H_def
        if_non_null_black [where q = n] repr_put_black)
  have H: "H g = Some ?g" "H n = Some ?n" "H p = Some ?p" "repr H p l" "repr H g u"
    "repr H p (paint Black x)" "repr H g (paint Black y)"
    using cells ne by (simp_all add: H_def repr_put_black put_black_repr [where q = n])
  have "\<exists>m'. rb_rotate_set_parents g n 0 (m\<lparr>rb_cells := H\<rparr>) = Some m' \<and> rb_at m' fs (ins_rot_LR l p x n y cg g u) \<and>
           same_outside (tree_addrs fs ?T0) m m'"
    by (rule rotate_finish [OF at' _ _ _ _ _ H(1) _ H(2)]) (use H ne in \<open>simp_all add: ins_rots H_def\<close>)
  then show ?thesis unfolding run by simp
qed

lemma rotate_left_RR:
  assumes at: "rb_at m (RightHole u cg g # fs) (Node r Red p t)" and n: "node \<noteq> root_of r"
  shows "\<exists>m'. rb_insert_rotate_left dummy_rotate node p g m = Some m' \<and> rb_at m' fs (ins_rot_RR t p r cg g u) \<and>
           same_outside (tree_addrs (RightHole u cg g # fs) (Node r Red p t)) m m'"
proof -
  let ?T0 = "Node u cg g (Node r Red p t)"
  have at': "rb_at m fs ?T0" using at by (simp add: rb_repr_plug [symmetric])
  then have wf': "wf_addrs (lefts fs @ inorder ?T0 @ rights fs)" by (simp add: rb_at_def)
  note wf = wf_addrs_parts [OF wf']
  have cells: "rb_cells m g = Some \<lparr>pc = parent_of fs OR col_bit cg, rb_right = p, rb_left = root_of u\<rparr>"
    "rb_cells m p = Some \<lparr>pc = g, rb_right = root_of t, rb_left = root_of r\<rparr>"
    "repr (rb_cells m) p t" "repr (rb_cells m) p r" "repr (rb_cells m) g u"
    using at by (simp_all add: rb_at_def)
  have ne: "p \<noteq> 0" "g \<noteq> 0" "p \<noteq> g" "p \<notin> set (inorder t)" "p \<notin> set (inorder r)" "p \<notin> set (inorder u)"
    "g \<notin> set (inorder t)" "g \<notin> set (inorder r)" "g \<notin> set (inorder u)"
    "set (inorder t) \<inter> set (inorder r) = {}" "set (inorder u) \<inter> set (inorder r) = {}"
    "distinct (inorder r)" "\<forall>a \<in> set (inorder r). a \<noteq> 0 \<and> aligned a"
    using wf(1,3) by auto
  let ?g = "\<lparr>pc = parent_of fs OR col_bit cg, rb_right = root_of r, rb_left = root_of u\<rparr>"
  let ?p = "\<lparr>pc = g, rb_right = root_of t, rb_left = g\<rparr>"
  define H where "H = put_black g r ((rb_cells m)(g \<mapsto> ?g, p \<mapsto> ?p))"
  have run: "rb_insert_rotate_left dummy_rotate node p g m = rb_rotate_set_parents g p 0 (m\<lparr>rb_cells := H\<rparr>)"
    using cells ne n by (simp add: rb_insert_rotate_left_def rb_access dummy_rotate_def H_def
        if_non_null_black [where q = p])
  have H: "H g = Some ?g" "H p = Some ?p" "repr H p t" "repr H g u" "repr H g (paint Black r)"
    using cells ne by (simp_all add: H_def repr_put_black put_black_repr [where q = p])
  have "\<exists>m'. rb_rotate_set_parents g p 0 (m\<lparr>rb_cells := H\<rparr>) = Some m' \<and> rb_at m' fs (ins_rot_RR t p r cg g u) \<and>
           same_outside (tree_addrs fs ?T0) m m'"
    by (rule rotate_finish [OF at' _ _ _ _ _ H(1) _ H(2)]) (use H ne in \<open>simp_all add: ins_rots H_def\<close>)
  then show ?thesis unfolding run by simp
qed

lemma rotate_left_RL:
  assumes at: "rb_at m (RightHole u cg g # fs) (Node (Node x Red n y) Red p l)"
  shows "\<exists>m'. rb_insert_rotate_left dummy_rotate n p g m = Some m' \<and> rb_at m' fs (ins_rot_RL l p x n y cg g u) \<and>
           same_outside (tree_addrs (RightHole u cg g # fs) (Node (Node x Red n y) Red p l)) m m'"
proof -
  let ?T0 = "Node u cg g (Node (Node x Red n y) Red p l)"
  have at': "rb_at m fs ?T0" using at by (simp add: rb_repr_plug [symmetric])
  then have wf': "wf_addrs (lefts fs @ inorder ?T0 @ rights fs)" by (simp add: rb_at_def)
  note wf = wf_addrs_parts [OF wf']
  have cells: "rb_cells m g = Some \<lparr>pc = parent_of fs OR col_bit cg, rb_right = p, rb_left = root_of u\<rparr>"
    "rb_cells m p = Some \<lparr>pc = g, rb_right = root_of l, rb_left = n\<rparr>"
    "rb_cells m n = Some \<lparr>pc = p, rb_right = root_of y, rb_left = root_of x\<rparr>"
    "repr (rb_cells m) p l" "repr (rb_cells m) n x" "repr (rb_cells m) n y" "repr (rb_cells m) g u"
    using at by (simp_all add: rb_at_def)
  have ne: "p \<noteq> 0" "g \<noteq> 0" "n \<noteq> 0" "p \<noteq> g" "p \<noteq> n" "g \<noteq> n"
    "p \<notin> set (inorder l)" "p \<notin> set (inorder x)" "p \<notin> set (inorder y)" "p \<notin> set (inorder u)"
    "g \<notin> set (inorder l)" "g \<notin> set (inorder x)" "g \<notin> set (inorder y)" "g \<notin> set (inorder u)"
    "n \<notin> set (inorder l)" "n \<notin> set (inorder x)" "n \<notin> set (inorder y)" "n \<notin> set (inorder u)"
    "set (inorder l) \<inter> set (inorder x) = {}" "set (inorder l) \<inter> set (inorder y) = {}"
    "set (inorder y) \<inter> set (inorder x) = {}" "set (inorder x) \<inter> set (inorder y) = {}"
    "set (inorder u) \<inter> set (inorder x) = {}" "set (inorder u) \<inter> set (inorder y) = {}"
    "distinct (inorder x)" "distinct (inorder y)"
    "\<forall>a \<in> set (inorder x). a \<noteq> 0 \<and> aligned a" "\<forall>a \<in> set (inorder y). a \<noteq> 0 \<and> aligned a"
    using wf(1,3) by auto
  let ?g = "\<lparr>pc = parent_of fs OR col_bit cg, rb_right = root_of x, rb_left = root_of u\<rparr>"
  let ?n = "\<lparr>pc = p, rb_right = p, rb_left = g\<rparr>"
  let ?p = "\<lparr>pc = n, rb_right = root_of l, rb_left = root_of y\<rparr>"
  define H where "H = put_black g x ((put_black p y ((rb_cells m)(p \<mapsto> ?p\<lparr>pc := g\<rparr>, n \<mapsto> ?n\<lparr>rb_left := root_of x\<rparr>)))
      (p \<mapsto> ?p, g \<mapsto> ?g, n \<mapsto> ?n))"
  have run: "rb_insert_rotate_left dummy_rotate n p g m = rb_rotate_set_parents g n 0 (m\<lparr>rb_cells := H\<rparr>)"
    using cells ne by (simp add: rb_insert_rotate_left_def rb_access dummy_rotate_def H_def
        if_non_null_black [where q = n] repr_put_black)
  have H: "H g = Some ?g" "H n = Some ?n" "H p = Some ?p" "repr H p l" "repr H g u"
    "repr H p (paint Black y)" "repr H g (paint Black x)"
    using cells ne by (simp_all add: H_def repr_put_black put_black_repr [where q = n])
  have "\<exists>m'. rb_rotate_set_parents g n 0 (m\<lparr>rb_cells := H\<rparr>) = Some m' \<and> rb_at m' fs (ins_rot_RL l p x n y cg g u) \<and>
           same_outside (tree_addrs fs ?T0) m m'"
    by (rule rotate_finish [OF at' _ _ _ _ _ H(1) _ H(2)]) (use H ne in \<open>simp_all add: ins_rots H_def\<close>)
  then show ?thesis unfolding run by simp
qed

section \<open>The loop\<close>

text \<open>Entering the loop body below a red parent, on either side of the grandparent.\<close>

lemma insert_enter_left:
  assumes at: "rb_at m (LeftHole cg g u # fs) (Node x Red p y)"
  shows "rb_insert_loop rot node p m =
    (if color_of u = Red then do {
       (q, m) \<leftarrow> rb_insert_flip (root_of u) p g m; rb_insert_loop rot g q m }
     else rb_insert_rotate_right rot node p g m)"
proof -
  have "wf_addrs (lefts fs @ inorder (Node (Node x Red p y) cg g u) @ rights fs)"
    using at by (simp add: rb_at_def)
  note wf = wf_addrs_parts [OF this]
  have cells: "rb_cells m g = Some \<lparr>pc = parent_of fs OR col_bit cg, rb_right = root_of u, rb_left = p\<rparr>"
    "rb_cells m p = Some \<lparr>pc = g OR col_bit Red, rb_right = root_of y, rb_left = root_of x\<rparr>"
    "repr (rb_cells m) g u"
    using at by (simp_all add: rb_at_def)
  have ne: "p \<noteq> 0" "g \<noteq> 0" "aligned g" "p \<noteq> root_of u" "\<forall>a \<in> set (inorder u). a \<noteq> 0 \<and> aligned a"
    using wf(1,3) root_in_inorder [of u] by auto
  have "\<not> pc_black (g OR col_bit Red)" using pc_black_col [OF ne(3), of Red] by blast
  then show ?thesis
    using cells ne non_null_red_repr(1) [OF cells(3) ne(3,5)]
    by (subst rb_insert_loop.simps) (simp add: rb_access)
qed

lemma insert_enter_right:
  assumes at: "rb_at m (RightHole u cg g # fs) (Node x Red p y)"
  shows "rb_insert_loop rot node p m =
    (if color_of u = Red then do {
       (q, m) \<leftarrow> rb_insert_flip (root_of u) p g m; rb_insert_loop rot g q m }
     else rb_insert_rotate_left rot node p g m)"
proof -
  have "wf_addrs (lefts fs @ inorder (Node u cg g (Node x Red p y)) @ rights fs)"
    using at by (simp add: rb_at_def)
  note wf = wf_addrs_parts [OF this]
  have cells: "rb_cells m g = Some \<lparr>pc = parent_of fs OR col_bit cg, rb_right = p, rb_left = root_of u\<rparr>"
    "rb_cells m p = Some \<lparr>pc = g OR col_bit Red, rb_right = root_of y, rb_left = root_of x\<rparr>"
    "repr (rb_cells m) g u"
    using at by (simp_all add: rb_at_def)
  have ne: "p \<noteq> 0" "g \<noteq> 0" "aligned g" "\<forall>a \<in> set (inorder u). a \<noteq> 0 \<and> aligned a"
    using wf(1,3) by auto
  have "\<not> pc_black (g OR col_bit Red)" using pc_black_col [OF ne(3), of Red] by blast
  then show ?thesis
    using cells ne non_null_red_repr(1) [OF cells(3) ne(3,4)]
    by (subst rb_insert_loop.simps) (simp add: rb_access)
qed

lemma insert_black_parent:
  assumes "rb_cells m p = Some n" "p \<noteq> 0" "pc_black (pc n)"
  shows "rb_insert_loop rot node p m = Some m"
  using assms by (subst rb_insert_loop.simps) (simp add: rb_access)

lemma color_Red_cases:
  assumes "color_of u = Red"
  obtains ul ua ur where "u = Node ul Red ua ur"
  using assms by (cases u) auto

definition insert_result :: "frame list \<Rightarrow> rbt \<Rightarrow> 'a rb_mem \<Rightarrow> 'a rb_mem option \<Rightarrow> bool" where
  "insert_result fs t m res \<longleftrightarrow>
     (\<exists>m'. res = Some m' \<and> rb_repr m' (ins_fix fs t) \<and> same_outside (tree_addrs fs t) m m')"

lemma insert_left_step:
  fixes m :: "'a rb_mem"
  assumes at: "rb_at m (LeftHole cg g u # fs) (Node x Red p y)" and u: "color_of u = Red"
    and IH: "\<And>m' :: 'a rb_mem. rb_at m' fs (Node (Node x Black p y) Red g (paint Black u)) \<Longrightarrow>
       insert_result fs (Node (Node x Black p y) Red g (paint Black u)) m' (rb_insert_loop dummy_rotate g (parent_of fs) m')"
  shows "\<exists>m'. rb_insert_loop dummy_rotate node p m = Some m' \<and>
           rb_repr m' (ins_fix fs (Node (Node x Black p y) Red g (paint Black u))) \<and>
           same_outside (tree_addrs (LeftHole cg g u # fs) (Node x Red p y)) m m'"
proof -
  from u obtain ul ua ur where u': "u = Node ul Red ua ur" by (rule color_Red_cases)
  from insert_flip_left [OF at [unfolded u']] obtain m1 where m1:
    "rb_insert_flip ua p g m = Some (parent_of fs, m1)"
    "rb_at m1 fs (Node (Node x Black p y) Red g (Node ul Black ua ur))"
    "same_outside (tree_addrs (LeftHole cg g u # fs) (Node x Red p y)) m m1" unfolding u' by blast
  from IH [of m1] m1(2) obtain m2 where m2: "rb_insert_loop dummy_rotate g (parent_of fs) m1 = Some m2"
    "rb_repr m2 (ins_fix fs (Node (Node x Black p y) Red g (paint Black u)))"
    "same_outside (tree_addrs fs (Node (Node x Black p y) Red g (paint Black u))) m1 m2"
    unfolding insert_result_def u' by auto
  moreover have "tree_addrs fs (Node (Node x Black p y) Red g (paint Black u)) =
      tree_addrs (LeftHole cg g u # fs) (Node x Red p y)" by simp
  ultimately show ?thesis
    using m1 insert_enter_left [OF at, of dummy_rotate node] u u' same_outside_trans [OF m1(3)] by auto
qed

lemma insert_right_step:
  fixes m :: "'a rb_mem"
  assumes at: "rb_at m (RightHole u cg g # fs) (Node x Red p y)" and u: "color_of u = Red"
    and IH: "\<And>m' :: 'a rb_mem. rb_at m' fs (Node (paint Black u) Red g (Node x Black p y)) \<Longrightarrow>
       insert_result fs (Node (paint Black u) Red g (Node x Black p y)) m' (rb_insert_loop dummy_rotate g (parent_of fs) m')"
  shows "\<exists>m'. rb_insert_loop dummy_rotate node p m = Some m' \<and>
           rb_repr m' (ins_fix fs (Node (paint Black u) Red g (Node x Black p y))) \<and>
           same_outside (tree_addrs (RightHole u cg g # fs) (Node x Red p y)) m m'"
proof -
  from u obtain ul ua ur where u': "u = Node ul Red ua ur" by (rule color_Red_cases)
  from insert_flip_right [OF at [unfolded u']] obtain m1 where m1:
    "rb_insert_flip ua p g m = Some (parent_of fs, m1)"
    "rb_at m1 fs (Node (Node ul Black ua ur) Red g (Node x Black p y))"
    "same_outside (tree_addrs (RightHole u cg g # fs) (Node x Red p y)) m m1" unfolding u' by blast
  from IH [of m1] m1(2) obtain m2 where m2: "rb_insert_loop dummy_rotate g (parent_of fs) m1 = Some m2"
    "rb_repr m2 (ins_fix fs (Node (paint Black u) Red g (Node x Black p y)))"
    "same_outside (tree_addrs fs (Node (paint Black u) Red g (Node x Black p y))) m1 m2"
    unfolding insert_result_def u' by auto
  moreover have "tree_addrs fs (Node (paint Black u) Red g (Node x Black p y)) =
      tree_addrs (RightHole u cg g # fs) (Node x Red p y)" by simp
  ultimately show ?thesis
    using m1 insert_enter_right [OF at, of dummy_rotate node] u u' same_outside_trans [OF m1(3)] by auto
qed

lemma roots_differ:
  assumes "wf_addrs xs" "set (inorder t) \<inter> set (inorder r) = {}" "t \<noteq> Leaf" "set (inorder t) \<subseteq> set xs"
  shows "root_of t \<noteq> root_of r"
proof
  assume eq: "root_of t = root_of r"
  have t: "root_of t \<in> set (inorder t)" by (rule root_in_tree [OF assms(3)])
  with assms(1,4) have "root_of r \<noteq> 0" unfolding eq by (auto simp: wf_addrs_def)
  from root_in_inorder [OF this] t eq assms(2) show False by auto
qed

lemma insert_loop_ok:
  assumes "rb_at m fs t" "color_of t = Red" "fs = [] \<or> frame_color (last fs) = Black"
  shows "insert_result fs t m (rb_insert_loop dummy_rotate (root_of t) (parent_of fs) m)"
  using assms
proof (induction fs t arbitrary: m rule: ins_fix.induct)
  case (1 t)
  from \<open>color_of t = Red\<close> obtain x a y where t: "t = Node x Red a y" by (rule color_Red_cases)
  with 1 have "wf_addrs (inorder t)" "repr (rb_cells m) 0 t" "rb_root m = a" by (auto simp: rb_at_def)
  with t show ?case
    by (subst rb_insert_loop.simps)
       (auto simp: insert_result_def rb_access rb_repr_def same_outside_def wf_addrs_def)
next
  case (2 p r cg g u fs t)
  have at: "rb_at m (LeftHole cg g u # fs) (Node t Red p r)"
    using 2(2) by (simp add: rb_repr_plug [symmetric])
  show ?case
  proof (cases "color_of u = Red")
    case True
    from insert_left_step [OF at True] 2(1) [OF True] 2(4) True show ?thesis
      by (auto simp: insert_result_def split: if_splits)
  next
    case False
    have "root_of t \<noteq> root_of r"
      by (rule roots_differ [of "lefts fs @ inorder (Node (Node t Red p r) cg g u) @ rights fs"])
         (use 2(2,3) in \<open>auto simp: rb_at_def wf_addrs_def\<close>)
    from rotate_right_LL [OF at this] insert_enter_left [OF at] False show ?thesis
      by (auto simp: insert_result_def rb_repr_plug)
  qed
next
  case (3 l p cg g u fs t)
  have at: "rb_at m (LeftHole cg g u # fs) (Node l Red p t)"
    using 3(2) by (simp add: rb_repr_plug [symmetric])
  from 3(3) obtain x n y where t: "t = Node x Red n y" by (rule color_Red_cases)
  show ?case
  proof (cases "color_of u = Red")
    case True
    from insert_left_step [OF at True] 3(1) [OF True] 3(4) True show ?thesis
      by (auto simp: insert_result_def split: if_splits)
  next
    case False
    from rotate_right_LR [OF at [unfolded t]] insert_enter_left [OF at] False show ?thesis
      by (auto simp: insert_result_def rb_repr_plug t)
  qed
next
  case (4 l p u cg g fs t)
  have at: "rb_at m (RightHole u cg g # fs) (Node l Red p t)"
    using 4(2) by (simp add: rb_repr_plug [symmetric])
  show ?case
  proof (cases "color_of u = Red")
    case True
    from insert_right_step [OF at True] 4(1) [OF True] 4(4) True show ?thesis
      by (auto simp: insert_result_def split: if_splits)
  next
    case False
    have "root_of t \<noteq> root_of l"
      by (rule roots_differ [of "lefts fs @ inorder (Node u cg g (Node l Red p t)) @ rights fs"])
         (use 4(2,3) in \<open>auto simp: rb_at_def wf_addrs_def\<close>)
    from rotate_left_RR [OF at this] insert_enter_right [OF at] False show ?thesis
      by (auto simp: insert_result_def rb_repr_plug)
  qed
next
  case (5 p r u cg g fs t)
  have at: "rb_at m (RightHole u cg g # fs) (Node t Red p r)"
    using 5(2) by (simp add: rb_repr_plug [symmetric])
  from 5(3) obtain x n y where t: "t = Node x Red n y" by (rule color_Red_cases)
  show ?case
  proof (cases "color_of u = Red")
    case True
    from insert_right_step [OF at True] 5(1) [OF True] 5(4) True show ?thesis
      by (auto simp: insert_result_def split: if_splits)
  next
    case False
    from rotate_left_RL [OF at [unfolded t]] insert_enter_right [OF at] False show ?thesis
      by (auto simp: insert_result_def rb_repr_plug t)
  qed
next
  case (6 p r fs t)
  then have "rb_cells m p = Some \<lparr>pc = parent_of fs OR col_bit Black, rb_right = root_of r, rb_left = root_of t\<rparr>"
    "p \<noteq> 0" "aligned (parent_of fs)"
    using wf_addrs_parts(5) [of fs "Node t Black p r"] by (auto simp: rb_at_def wf_addrs_def)
  then have "rb_insert_loop dummy_rotate (root_of t) p m = Some m"
    using pc_black_col by (intro insert_black_parent) auto
  with 6(1) show ?case by (auto simp: insert_result_def same_outside_def rb_repr_plug [symmetric])
next
  case (7 l p fs t)
  then have "rb_cells m p = Some \<lparr>pc = parent_of fs OR col_bit Black, rb_right = root_of t, rb_left = root_of l\<rparr>"
    "p \<noteq> 0" "aligned (parent_of fs)"
    using wf_addrs_parts(5) [of fs "Node l Black p t"] by (auto simp: rb_at_def wf_addrs_def)
  then have "rb_insert_loop dummy_rotate (root_of t) p m = Some m"
    using pc_black_col by (intro insert_black_parent) auto
  with 7(1) show ?case by (auto simp: insert_result_def same_outside_def rb_repr_plug [symmetric])
qed simp_all

text \<open>
  Inserting a linked red leaf: the tree read back has the same nodes in the same order, is a
  red-black tree again, and nothing else in memory has changed.
\<close>

lemma rb_insert_color_ok:
  assumes at: "rb_at m fs (Node Leaf Red a Leaf)" and rb: "rb_tree (plug fs Leaf)"
  shows "\<exists>m' t'. rb_insert_color a m = Some m' \<and> rb_repr m' t' \<and> rb_tree t' \<and>
           inorder t' = lefts fs @ a # rights fs \<and> same_outside (tree_addrs fs (Node Leaf Red a Leaf)) m m'"
proof -
  from rb_tree_plugD [OF rb] have ctx: "rb_ctx fs 0" by auto
  then have "fs = [] \<or> frame_color (last fs) = Black"
    using rb_ctx_last by blast
  from insert_loop_ok [OF at _ this] obtain m' where m': "rb_insert_loop dummy_rotate a (parent_of fs) m = Some m'"
    "rb_repr m' (ins_fix fs (Node Leaf Red a Leaf))" "same_outside (tree_addrs fs (Node Leaf Red a Leaf)) m m'"
    by (auto simp: insert_result_def)
  have "rb_cells m a = Some \<lparr>pc = parent_of fs, rb_right = 0, rb_left = 0\<rparr>" "a \<noteq> 0"
    using at by (auto simp: rb_at_def wf_addrs_def)
  then have "rb_insert_color a m = Some m'"
    using m'(1) by (simp add: rb_insert_color_def rb_insert_def rb_access)
  moreover have "rb_tree (ins_fix fs (Node Leaf Red a Leaf))"
    by (rule ins_fix_rb [OF ctx]) simp_all
  ultimately show ?thesis
    using m' inorder_ins_fix [of "Node Leaf Red a Leaf" fs] by auto
qed

end
