(* ===== verification/Rb_Erase.thy ===== *)
theory Rb_Erase
  imports Rb_Insert
begin

text \<open>
  \<^verbatim>\<open>rb_erase\<close> implements \<open>del\<close>: the cases of the rebalancing loop \<^verbatim>\<open>____rb_erase_color\<close>, the
  loop, and the unlinking of the node by \<^verbatim>\<open>__rb_erase_augmented\<close>.
\<close>

section \<open>Rebalancing\<close>

lemma set_black_root:
  assumes "repr (rb_cells m) q t" "t \<noteq> Leaf" "\<forall>a \<in> set (inorder t). a \<noteq> 0 \<and> aligned a"
  shows "rb_set_parent_color (root_of t) p 1 m = Some (m\<lparr>rb_cells := put_black p t (rb_cells m)\<rparr>)"
  using assms by (cases t) (auto simp: put_black_def rb_access)

text \<open>Giving a subtree a new parent, when it is not empty, with its colour kept.\<close>

definition put_parent :: "addr \<Rightarrow> rbt \<Rightarrow> (addr \<rightharpoonup> rb_node) \<Rightarrow> (addr \<rightharpoonup> rb_node)" where
  "put_parent p t H = (case t of Leaf \<Rightarrow> H
     | Node l c a r \<Rightarrow> H(a \<mapsto> \<lparr>pc = p OR col_bit c, rb_right = root_of r, rb_left = root_of l\<rparr>))"

lemma if_non_null_parent:
  assumes "repr (rb_cells m) q t" "aligned q" "\<forall>a \<in> set (inorder t). a \<noteq> 0 \<and> aligned a"
  shows "if_non_null (root_of t) (\<lambda>t. rb_set_parent t p) m = Some (m\<lparr>rb_cells := put_parent p t (rb_cells m)\<rparr>)"
  using assms by (cases t) (auto simp: if_non_null_def put_parent_def rb_access)

lemma put_parent_other [simp]: "b \<notin> set (inorder t) \<Longrightarrow> put_parent p t H b = H b"
  by (cases t) (auto simp: put_parent_def)

lemma put_parent_repr:
  assumes "repr H q t" "distinct (inorder t)"
  shows "repr (put_parent p t H) p t"
  using assms by (cases t) (auto simp: put_parent_def)

lemma repr_put_parent:
  assumes "set (inorder t) \<inter> set (inorder s) = {}"
  shows "repr (put_parent p s H) q t = repr H q t"
  using assms by (intro repr_cong put_parent_other) blast

text \<open>Case 1 with the deficient side on the left: the sibling is red.\<close>

lemma erase_sibling_left_red:
  assumes at: "rb_at m fs (Node t c p (Node sl Red s sr))" and sl: "sl \<noteq> Leaf"
  shows "\<exists>m'. rb_erase_sibling_left dummy_rotate p s m = Some (root_of sl, m') \<and>
           rb_at m' fs (Node (Node t Red p (paint Black sl)) c s sr) \<and>
           same_outside (tree_addrs fs (Node t c p (Node sl Red s sr))) m m'"
proof -
  let ?T0 = "(Node t c p (Node sl Red s sr))"
  have wf': "wf_addrs (lefts fs @ inorder ?T0 @ rights fs)" using at by (simp add: rb_at_def)
  note wf = wf_addrs_parts [OF wf']
  have cells: "rb_cells m p = Some \<lparr>pc = parent_of fs OR col_bit c, rb_right = s, rb_left = root_of t\<rparr>"
    "rb_cells m s = Some \<lparr>pc = p, rb_right = root_of sr, rb_left = root_of sl\<rparr>"
    "repr (rb_cells m) p t" "repr (rb_cells m) s sl" "repr (rb_cells m) s sr"
    using at by (simp_all add: rb_at_def)
  have ne: "p \<noteq> 0" "s \<noteq> 0" "p \<noteq> s" "aligned p" "p \<notin> set (inorder t)" "p \<notin> set (inorder sl)" "p \<notin> set (inorder sr)"
    "s \<notin> set (inorder t)" "s \<notin> set (inorder sl)" "s \<notin> set (inorder sr)"
    "set (inorder t) \<inter> set (inorder sl) = {}" "set (inorder sr) \<inter> set (inorder sl) = {}"
    "distinct (inorder sl)" "\<forall>a \<in> set (inorder sl). a \<noteq> 0 \<and> aligned a"
    using wf(1,3) by auto
  let ?p = "\<lparr>pc = parent_of fs OR col_bit c, rb_right = root_of sl, rb_left = root_of t\<rparr>"
  let ?s = "\<lparr>pc = p, rb_right = root_of sr, rb_left = p\<rparr>"
  define H where "H = put_black p sl ((rb_cells m)(p \<mapsto> ?p, s \<mapsto> ?s))"
  have black: "rb_set_parent_color (root_of sl) p 1 (m\<lparr>rb_cells := (rb_cells m)(p \<mapsto> ?p, s \<mapsto> ?s)\<rparr>) =
      Some (m\<lparr>rb_cells := H\<rparr>)"
    using cells ne sl by (simp add: H_def set_black_root [where q = s])
  have run: "rb_erase_sibling_left dummy_rotate p s m =
      map_option (Pair (root_of sl)) (rb_rotate_set_parents p s 0 (m\<lparr>rb_cells := H\<rparr>))"
    using cells ne black by (simp add: rb_erase_sibling_left_def rb_access dummy_rotate_def
        split: bind_splits option.splits)
  have H: "H p = Some ?p" "H s = Some ?s" "repr H p t" "repr H s sr" "repr H p (paint Black sl)"
    using cells ne by (simp_all add: H_def repr_put_black put_black_repr [where q = s])
  have "\<exists>m'. rb_rotate_set_parents p s 0 (m\<lparr>rb_cells := H\<rparr>) = Some m' \<and>
      rb_at m' fs (Node (Node t Red p (paint Black sl)) c s sr) \<and> same_outside (tree_addrs fs ?T0) m m'"
    by (rule rotate_finish [OF at _ _ _ _ _ H(1) _ H(2)]) (use H ne in \<open>simp_all add: H_def\<close>)
  then show ?thesis unfolding run by auto
qed

text \<open>Case 1 with the deficient side on the right: the sibling is red.\<close>

lemma erase_sibling_right_red:
  assumes at: "rb_at m fs (Node (Node sr Red s sl) c p t)" and sl: "sl \<noteq> Leaf"
  shows "\<exists>m'. rb_erase_sibling_right dummy_rotate p s m = Some (root_of sl, m') \<and>
           rb_at m' fs (Node sr c s (Node (paint Black sl) Red p t)) \<and>
           same_outside (tree_addrs fs (Node (Node sr Red s sl) c p t)) m m'"
proof -
  let ?T0 = "(Node (Node sr Red s sl) c p t)"
  have wf': "wf_addrs (lefts fs @ inorder ?T0 @ rights fs)" using at by (simp add: rb_at_def)
  note wf = wf_addrs_parts [OF wf']
  have cells: "rb_cells m p = Some \<lparr>pc = parent_of fs OR col_bit c, rb_right = root_of t, rb_left = s\<rparr>"
    "rb_cells m s = Some \<lparr>pc = p, rb_right = root_of sl, rb_left = root_of sr\<rparr>"
    "repr (rb_cells m) p t" "repr (rb_cells m) s sl" "repr (rb_cells m) s sr"
    using at by (simp_all add: rb_at_def)
  have ne: "p \<noteq> 0" "s \<noteq> 0" "p \<noteq> s" "aligned p" "p \<notin> set (inorder t)" "p \<notin> set (inorder sl)" "p \<notin> set (inorder sr)"
    "s \<notin> set (inorder t)" "s \<notin> set (inorder sl)" "s \<notin> set (inorder sr)"
    "set (inorder t) \<inter> set (inorder sl) = {}" "set (inorder sr) \<inter> set (inorder sl) = {}"
    "distinct (inorder sl)" "\<forall>a \<in> set (inorder sl). a \<noteq> 0 \<and> aligned a"
    using wf(1,3) by auto
  let ?p = "\<lparr>pc = parent_of fs OR col_bit c, rb_right = root_of t, rb_left = root_of sl\<rparr>"
  let ?s = "\<lparr>pc = p, rb_right = p, rb_left = root_of sr\<rparr>"
  define H where "H = put_black p sl ((rb_cells m)(p \<mapsto> ?p, s \<mapsto> ?s))"
  have black: "rb_set_parent_color (root_of sl) p 1 (m\<lparr>rb_cells := (rb_cells m)(p \<mapsto> ?p, s \<mapsto> ?s)\<rparr>) =
      Some (m\<lparr>rb_cells := H\<rparr>)"
    using cells ne sl by (simp add: H_def set_black_root [where q = s])
  have run: "rb_erase_sibling_right dummy_rotate p s m =
      map_option (Pair (root_of sl)) (rb_rotate_set_parents p s 0 (m\<lparr>rb_cells := H\<rparr>))"
    using cells ne black by (simp add: rb_erase_sibling_right_def rb_access dummy_rotate_def
        split: bind_splits option.splits)
  have H: "H p = Some ?p" "H s = Some ?s" "repr H p t" "repr H s sr" "repr H p (paint Black sl)"
    using cells ne by (simp_all add: H_def repr_put_black put_black_repr [where q = s])
  have "\<exists>m'. rb_rotate_set_parents p s 0 (m\<lparr>rb_cells := H\<rparr>) = Some m' \<and>
      rb_at m' fs (Node sr c s (Node (paint Black sl) Red p t)) \<and> same_outside (tree_addrs fs ?T0) m m'"
    by (rule rotate_finish [OF at _ _ _ _ _ H(1) _ H(2)]) (use H ne in \<open>simp_all add: H_def\<close>)
  then show ?thesis unfolding run by auto
qed

text \<open>Case 4 on the left: the outer child of the sibling is red.\<close>

lemma erase_rotate_parent_left_ok:
  assumes at: "rb_at m fs (Node t c p (Node sl d s sr))" and sr: "sr \<noteq> Leaf"
  shows "\<exists>m'. rb_erase_rotate_parent_left dummy_rotate p s (root_of sr) m = Some m' \<and>
           rb_at m' fs (Node (Node t Black p sl) c s (paint Black sr)) \<and>
           same_outside (tree_addrs fs (Node t c p (Node sl d s sr))) m m'"
proof -
  let ?T0 = "(Node t c p (Node sl d s sr))"
  have wf': "wf_addrs (lefts fs @ inorder ?T0 @ rights fs)" using at by (simp add: rb_at_def)
  note wf = wf_addrs_parts [OF wf']
  have cells: "rb_cells m p = Some \<lparr>pc = parent_of fs OR col_bit c, rb_right = s, rb_left = root_of t\<rparr>"
    "rb_cells m s = Some \<lparr>pc = p OR col_bit d, rb_right = root_of sr, rb_left = root_of sl\<rparr>"
    "repr (rb_cells m) p t" "repr (rb_cells m) s sl" "repr (rb_cells m) s sr"
    using at by (simp_all add: rb_at_def)
  have ne: "p \<noteq> 0" "s \<noteq> 0" "p \<noteq> s" "aligned s" "p \<notin> set (inorder t)" "p \<notin> set (inorder sl)" "p \<notin> set (inorder sr)"
    "s \<notin> set (inorder t)" "s \<notin> set (inorder sl)" "s \<notin> set (inorder sr)"
    "set (inorder t) \<inter> set (inorder sl) = {}" "set (inorder t) \<inter> set (inorder sr) = {}"
    "set (inorder sr) \<inter> set (inorder sl) = {}" "set (inorder sl) \<inter> set (inorder sr) = {}"
    "distinct (inorder sl)" "\<forall>a \<in> set (inorder sl). a \<noteq> 0 \<and> aligned a"
    "distinct (inorder sr)" "\<forall>a \<in> set (inorder sr). a \<noteq> 0 \<and> aligned a"
    using wf(1,3) by auto
  let ?p = "\<lparr>pc = parent_of fs OR col_bit c, rb_right = root_of sl, rb_left = root_of t\<rparr>"
  let ?s = "\<lparr>pc = p OR col_bit d, rb_right = root_of sr, rb_left = p\<rparr>"
  let ?H1 = "(rb_cells m)(p \<mapsto> ?p, s \<mapsto> ?s)"
  define H where "H = put_parent p sl (put_black s sr ?H1)"
  have black: "rb_set_parent_color (root_of sr) s 1 (m\<lparr>rb_cells := ?H1\<rparr>) =
      Some (m\<lparr>rb_cells := put_black s sr ?H1\<rparr>)"
    using cells ne sr by (simp add: set_black_root [where q = s])
  have par: "if_non_null (root_of sl) (\<lambda>t. rb_set_parent t p) (m\<lparr>rb_cells := put_black s sr ?H1\<rparr>) =
      Some (m\<lparr>rb_cells := H\<rparr>)"
    using cells ne by (simp add: H_def if_non_null_parent [where q = s] repr_put_black)
  have run: "rb_erase_rotate_parent_left dummy_rotate p s (root_of sr) m = rb_rotate_set_parents p s 1 (m\<lparr>rb_cells := H\<rparr>)"
    using cells ne black par by (simp add: rb_erase_rotate_parent_left_def rb_access dummy_rotate_def)
  have H: "H p = Some ?p" "H s = Some ?s" "repr H p t" "repr H p sl" "repr H s (paint Black sr)"
    using cells ne
    by (simp_all add: H_def repr_put_black repr_put_parent put_black_repr [where q = s] put_parent_repr [where q = s])
  have "\<exists>m'. rb_rotate_set_parents p s 1 (m\<lparr>rb_cells := H\<rparr>) = Some m' \<and>
      rb_at m' fs (Node (Node t Black p sl) c s (paint Black sr)) \<and> same_outside (tree_addrs fs ?T0) m m'"
    by (rule rotate_finish [OF at _ _ _ _ _ H(1) _ H(2)]) (use H ne in \<open>simp_all add: H_def\<close>)
  then show ?thesis unfolding run by auto
qed

text \<open>Case 4 on the right: the outer child of the sibling is red.\<close>

lemma erase_rotate_parent_right_ok:
  assumes at: "rb_at m fs (Node (Node sr d s sl) c p t)" and sr: "sr \<noteq> Leaf"
  shows "\<exists>m'. rb_erase_rotate_parent_right dummy_rotate p s (root_of sr) m = Some m' \<and>
           rb_at m' fs (Node (paint Black sr) c s (Node sl Black p t)) \<and>
           same_outside (tree_addrs fs (Node (Node sr d s sl) c p t)) m m'"
proof -
  let ?T0 = "(Node (Node sr d s sl) c p t)"
  have wf': "wf_addrs (lefts fs @ inorder ?T0 @ rights fs)" using at by (simp add: rb_at_def)
  note wf = wf_addrs_parts [OF wf']
  have cells: "rb_cells m p = Some \<lparr>pc = parent_of fs OR col_bit c, rb_right = root_of t, rb_left = s\<rparr>"
    "rb_cells m s = Some \<lparr>pc = p OR col_bit d, rb_right = root_of sl, rb_left = root_of sr\<rparr>"
    "repr (rb_cells m) p t" "repr (rb_cells m) s sl" "repr (rb_cells m) s sr"
    using at by (simp_all add: rb_at_def)
  have ne: "p \<noteq> 0" "s \<noteq> 0" "p \<noteq> s" "aligned s" "p \<notin> set (inorder t)" "p \<notin> set (inorder sl)" "p \<notin> set (inorder sr)"
    "s \<notin> set (inorder t)" "s \<notin> set (inorder sl)" "s \<notin> set (inorder sr)"
    "set (inorder t) \<inter> set (inorder sl) = {}" "set (inorder t) \<inter> set (inorder sr) = {}"
    "set (inorder sr) \<inter> set (inorder sl) = {}" "set (inorder sl) \<inter> set (inorder sr) = {}"
    "distinct (inorder sl)" "\<forall>a \<in> set (inorder sl). a \<noteq> 0 \<and> aligned a"
    "distinct (inorder sr)" "\<forall>a \<in> set (inorder sr). a \<noteq> 0 \<and> aligned a"
    using wf(1,3) by auto
  let ?p = "\<lparr>pc = parent_of fs OR col_bit c, rb_right = root_of t, rb_left = root_of sl\<rparr>"
  let ?s = "\<lparr>pc = p OR col_bit d, rb_right = p, rb_left = root_of sr\<rparr>"
  let ?H1 = "(rb_cells m)(p \<mapsto> ?p, s \<mapsto> ?s)"
  define H where "H = put_parent p sl (put_black s sr ?H1)"
  have black: "rb_set_parent_color (root_of sr) s 1 (m\<lparr>rb_cells := ?H1\<rparr>) =
      Some (m\<lparr>rb_cells := put_black s sr ?H1\<rparr>)"
    using cells ne sr by (simp add: set_black_root [where q = s])
  have par: "if_non_null (root_of sl) (\<lambda>t. rb_set_parent t p) (m\<lparr>rb_cells := put_black s sr ?H1\<rparr>) =
      Some (m\<lparr>rb_cells := H\<rparr>)"
    using cells ne by (simp add: H_def if_non_null_parent [where q = s] repr_put_black)
  have run: "rb_erase_rotate_parent_right dummy_rotate p s (root_of sr) m = rb_rotate_set_parents p s 1 (m\<lparr>rb_cells := H\<rparr>)"
    using cells ne black par by (simp add: rb_erase_rotate_parent_right_def rb_access dummy_rotate_def)
  have H: "H p = Some ?p" "H s = Some ?s" "repr H p t" "repr H p sl" "repr H s (paint Black sr)"
    using cells ne
    by (simp_all add: H_def repr_put_black repr_put_parent put_black_repr [where q = s] put_parent_repr [where q = s])
  have "\<exists>m'. rb_rotate_set_parents p s 1 (m\<lparr>rb_cells := H\<rparr>) = Some m' \<and>
      rb_at m' fs (Node (paint Black sr) c s (Node sl Black p t)) \<and> same_outside (tree_addrs fs ?T0) m m'"
    by (rule rotate_finish [OF at _ _ _ _ _ H(1) _ H(2)]) (use H ne in \<open>simp_all add: H_def\<close>)
  then show ?thesis unfolding run by auto
qed

text \<open>Cases 3 and 4 on the left: only the inner child of the sibling is red.\<close>

lemma erase_rotate_both_left_ok:
  assumes at: "rb_at m fs (Node t c p (Node (Node x Red n y) d s sr))"
  shows "\<exists>m1 m'. rb_erase_rotate_sibling_left dummy_rotate p s n m = Some m1 \<and>
           rb_erase_rotate_parent_left dummy_rotate p n s m1 = Some m' \<and>
           rb_at m' fs (Node (Node t Black p x) c n (Node (paint Black y) Black s sr)) \<and>
           same_outside (tree_addrs fs (Node t c p (Node (Node x Red n y) d s sr))) m m'"
proof -
  let ?T0 = "(Node t c p (Node (Node x Red n y) d s sr))"
  have wf': "wf_addrs (lefts fs @ inorder ?T0 @ rights fs)" using at by (simp add: rb_at_def)
  note wf = wf_addrs_parts [OF wf']
  have cells: "rb_cells m p = Some \<lparr>pc = parent_of fs OR col_bit c, rb_right = s, rb_left = root_of t\<rparr>"
    "rb_cells m s = Some \<lparr>pc = p OR col_bit d, rb_right = root_of sr, rb_left = n\<rparr>"
    "rb_cells m n = Some \<lparr>pc = s, rb_right = root_of y, rb_left = root_of x\<rparr>"
    "repr (rb_cells m) p t" "repr (rb_cells m) n x" "repr (rb_cells m) n y" "repr (rb_cells m) s sr"
    using at by (simp_all add: rb_at_def)
  have ne: "p \<noteq> 0" "s \<noteq> 0" "n \<noteq> 0" "p \<noteq> s" "p \<noteq> n" "s \<noteq> n" "aligned n" "aligned s"
    "p \<notin> set (inorder t)" "p \<notin> set (inorder x)" "p \<notin> set (inorder y)" "p \<notin> set (inorder sr)"
    "s \<notin> set (inorder t)" "s \<notin> set (inorder x)" "s \<notin> set (inorder y)" "s \<notin> set (inorder sr)"
    "n \<notin> set (inorder t)" "n \<notin> set (inorder x)" "n \<notin> set (inorder y)" "n \<notin> set (inorder sr)"
    "set (inorder t) \<inter> set (inorder x) = {}" "set (inorder t) \<inter> set (inorder y) = {}"
    "set (inorder sr) \<inter> set (inorder x) = {}" "set (inorder sr) \<inter> set (inorder y) = {}"
    "set (inorder x) \<inter> set (inorder y) = {}" "set (inorder y) \<inter> set (inorder x) = {}"
    "distinct (inorder x)" "\<forall>a \<in> set (inorder x). a \<noteq> 0 \<and> aligned a"
    "distinct (inorder y)" "\<forall>a \<in> set (inorder y). a \<noteq> 0 \<and> aligned a"
    using wf(1,3) by auto
  let ?H1 = "put_black s y ((rb_cells m)(s \<mapsto> \<lparr>pc = p OR col_bit d, rb_right = root_of sr, rb_left = root_of y\<rparr>,
      n \<mapsto> \<lparr>pc = s, rb_right = s, rb_left = root_of x\<rparr>, p \<mapsto> \<lparr>pc = parent_of fs OR col_bit c, rb_right = n, rb_left = root_of t\<rparr>))"
  let ?p = "\<lparr>pc = parent_of fs OR col_bit c, rb_right = root_of x, rb_left = root_of t\<rparr>"
  let ?n = "\<lparr>pc = s, rb_right = s, rb_left = p\<rparr>"
  let ?s = "\<lparr>pc = n OR 1, rb_right = root_of sr, rb_left = root_of y\<rparr>"
  let ?H2 = "?H1(p \<mapsto> ?p, n \<mapsto> ?n, s \<mapsto> ?s)"
  define H where "H = put_parent p x ?H2"
  have run1: "rb_erase_rotate_sibling_left dummy_rotate p s n m = Some (m\<lparr>rb_cells := ?H1\<rparr>)"
    using cells ne by (simp add: rb_erase_rotate_sibling_left_def rb_access dummy_rotate_def
        if_non_null_black [where q = n])
  have par: "if_non_null (root_of x) (\<lambda>t. rb_set_parent t p) (m\<lparr>rb_cells := ?H2\<rparr>) = Some (m\<lparr>rb_cells := H\<rparr>)"
    using cells ne by (simp add: H_def if_non_null_parent [where q = n] repr_put_black)
  have run2: "rb_erase_rotate_parent_left dummy_rotate p n s (m\<lparr>rb_cells := ?H1\<rparr>) =
      rb_rotate_set_parents p n 1 (m\<lparr>rb_cells := H\<rparr>)"
    using cells ne par by (simp add: rb_erase_rotate_parent_left_def rb_access dummy_rotate_def)
  have H: "H p = Some ?p" "H n = Some ?n" "H s = Some ?s" "repr H p t" "repr H p x" "repr H s (paint Black y)" "repr H s sr"
    using cells ne
    by (simp_all add: H_def repr_put_black repr_put_parent put_black_repr [where q = n] put_parent_repr [where q = n])
  have "\<exists>m'. rb_rotate_set_parents p n 1 (m\<lparr>rb_cells := H\<rparr>) = Some m' \<and>
      rb_at m' fs (Node (Node t Black p x) c n (Node (paint Black y) Black s sr)) \<and>
      same_outside (tree_addrs fs ?T0) m m'"
    by (rule rotate_finish [OF at _ _ _ _ _ H(1) _ H(2)]) (use H ne in \<open>simp_all add: H_def\<close>)
  then show ?thesis using run1 run2 by metis
qed

text \<open>Cases 3 and 4 on the right: only the inner child of the sibling is red.\<close>

lemma erase_rotate_both_right_ok:
  assumes at: "rb_at m fs (Node (Node sr d s (Node y Red n x)) c p t)"
  shows "\<exists>m1 m'. rb_erase_rotate_sibling_right dummy_rotate p s n m = Some m1 \<and>
           rb_erase_rotate_parent_right dummy_rotate p n s m1 = Some m' \<and>
           rb_at m' fs (Node (Node sr Black s (paint Black y)) c n (Node x Black p t)) \<and>
           same_outside (tree_addrs fs (Node (Node sr d s (Node y Red n x)) c p t)) m m'"
proof -
  let ?T0 = "(Node (Node sr d s (Node y Red n x)) c p t)"
  have wf': "wf_addrs (lefts fs @ inorder ?T0 @ rights fs)" using at by (simp add: rb_at_def)
  note wf = wf_addrs_parts [OF wf']
  have cells: "rb_cells m p = Some \<lparr>pc = parent_of fs OR col_bit c, rb_right = root_of t, rb_left = s\<rparr>"
    "rb_cells m s = Some \<lparr>pc = p OR col_bit d, rb_right = n, rb_left = root_of sr\<rparr>"
    "rb_cells m n = Some \<lparr>pc = s, rb_right = root_of x, rb_left = root_of y\<rparr>"
    "repr (rb_cells m) p t" "repr (rb_cells m) n x" "repr (rb_cells m) n y" "repr (rb_cells m) s sr"
    using at by (simp_all add: rb_at_def)
  have ne: "p \<noteq> 0" "s \<noteq> 0" "n \<noteq> 0" "p \<noteq> s" "p \<noteq> n" "s \<noteq> n" "aligned n" "aligned s"
    "p \<notin> set (inorder t)" "p \<notin> set (inorder x)" "p \<notin> set (inorder y)" "p \<notin> set (inorder sr)"
    "s \<notin> set (inorder t)" "s \<notin> set (inorder x)" "s \<notin> set (inorder y)" "s \<notin> set (inorder sr)"
    "n \<notin> set (inorder t)" "n \<notin> set (inorder x)" "n \<notin> set (inorder y)" "n \<notin> set (inorder sr)"
    "set (inorder t) \<inter> set (inorder x) = {}" "set (inorder t) \<inter> set (inorder y) = {}"
    "set (inorder sr) \<inter> set (inorder x) = {}" "set (inorder sr) \<inter> set (inorder y) = {}"
    "set (inorder x) \<inter> set (inorder y) = {}" "set (inorder y) \<inter> set (inorder x) = {}"
    "distinct (inorder x)" "\<forall>a \<in> set (inorder x). a \<noteq> 0 \<and> aligned a"
    "distinct (inorder y)" "\<forall>a \<in> set (inorder y). a \<noteq> 0 \<and> aligned a"
    using wf(1,3) by auto
  let ?H1 = "put_black s y ((rb_cells m)(s \<mapsto> \<lparr>pc = p OR col_bit d, rb_right = root_of y, rb_left = root_of sr\<rparr>,
      n \<mapsto> \<lparr>pc = s, rb_right = root_of x, rb_left = s\<rparr>, p \<mapsto> \<lparr>pc = parent_of fs OR col_bit c, rb_right = root_of t, rb_left = n\<rparr>))"
  let ?p = "\<lparr>pc = parent_of fs OR col_bit c, rb_right = root_of t, rb_left = root_of x\<rparr>"
  let ?n = "\<lparr>pc = s, rb_right = p, rb_left = s\<rparr>"
  let ?s = "\<lparr>pc = n OR 1, rb_right = root_of y, rb_left = root_of sr\<rparr>"
  let ?H2 = "?H1(p \<mapsto> ?p, n \<mapsto> ?n, s \<mapsto> ?s)"
  define H where "H = put_parent p x ?H2"
  have run1: "rb_erase_rotate_sibling_right dummy_rotate p s n m = Some (m\<lparr>rb_cells := ?H1\<rparr>)"
    using cells ne by (simp add: rb_erase_rotate_sibling_right_def rb_access dummy_rotate_def
        if_non_null_black [where q = n])
  have par: "if_non_null (root_of x) (\<lambda>t. rb_set_parent t p) (m\<lparr>rb_cells := ?H2\<rparr>) = Some (m\<lparr>rb_cells := H\<rparr>)"
    using cells ne by (simp add: H_def if_non_null_parent [where q = n] repr_put_black)
  have run2: "rb_erase_rotate_parent_right dummy_rotate p n s (m\<lparr>rb_cells := ?H1\<rparr>) =
      rb_rotate_set_parents p n 1 (m\<lparr>rb_cells := H\<rparr>)"
    using cells ne par by (simp add: rb_erase_rotate_parent_right_def rb_access dummy_rotate_def)
  have H: "H p = Some ?p" "H n = Some ?n" "H s = Some ?s" "repr H p t" "repr H p x" "repr H s (paint Black y)" "repr H s sr"
    using cells ne
    by (simp_all add: H_def repr_put_black repr_put_parent put_black_repr [where q = n] put_parent_repr [where q = n])
  have "\<exists>m'. rb_rotate_set_parents p n 1 (m\<lparr>rb_cells := H\<rparr>) = Some m' \<and>
      rb_at m' fs (Node (Node sr Black s (paint Black y)) c n (Node x Black p t)) \<and>
      same_outside (tree_addrs fs ?T0) m m'"
    by (rule rotate_finish [OF at _ _ _ _ _ H(1) _ H(2)]) (use H ne in \<open>simp_all add: H_def\<close>)
  then show ?thesis using run1 run2 by metis
qed

text \<open>Case 2 on the left: both children of the sibling are black.\<close>

lemma erase_flip_left_ok:
  assumes at: "rb_at m fs (Node t c p (Node sl d s sr))"
  shows "\<exists>m'. rb_erase_flip p s m = Some (if c = Red \<or> fs = [] then None else Some (parent_of fs), m') \<and>
           rb_at m' fs (Node t Black p (Node sl Red s sr)) \<and>
           same_outside (tree_addrs fs (Node t c p (Node sl d s sr))) m m'"
proof -
  let ?T0 = "(Node t c p (Node sl d s sr))"
  have wf': "wf_addrs (lefts fs @ inorder ?T0 @ rights fs)" using at by (simp add: rb_at_def)
  note wf = wf_addrs_parts [OF wf']
  have cells: "rb_cells m p = Some \<lparr>pc = parent_of fs OR col_bit c, rb_right = s, rb_left = root_of t\<rparr>"
    "rb_cells m s = Some \<lparr>pc = p OR col_bit d, rb_right = root_of sr, rb_left = root_of sl\<rparr>"
    "repr (rb_cells m) p t" "repr (rb_cells m) s sl" "repr (rb_cells m) s sr" "repr_ctx (rb_cells m) p fs"
    "rb_root m = top_of fs p"
    using at by (simp_all add: rb_at_def)
  have ne: "p \<noteq> 0" "s \<noteq> 0" "p \<noteq> s" "p \<notin> set (inorder t)" "p \<notin> set (inorder sl)" "p \<notin> set (inorder sr)"
    "s \<notin> set (inorder t)" "s \<notin> set (inorder sl)" "s \<notin> set (inorder sr)" "p \<notin> ctx_addrs fs" "s \<notin> ctx_addrs fs"
    using wf(1,2,3) by auto
  have par: "parent_of fs = 0 \<longleftrightarrow> fs = []"
    using wf(4) parent_in_ctx [of fs] by (cases "fs = []") auto
  let ?H = "(rb_cells m)(s \<mapsto> \<lparr>pc = p, rb_right = root_of sr, rb_left = root_of sl\<rparr>)"
  show ?thesis
  proof (cases c)
    case Red
    let ?m = "m\<lparr>rb_cells := ?H(p \<mapsto> \<lparr>pc = parent_of fs OR 1, rb_right = s, rb_left = root_of t\<rparr>)\<rparr>"
    have "rb_erase_flip p s m = Some (None, ?m)"
      using cells ne wf(5) Red by (simp add: rb_erase_flip_def rb_access)
    moreover have "rb_at ?m fs (Node t Black p (Node sl Red s sr))"
      using cells ne wf' Red by (simp add: rb_at_def)
    moreover have "same_outside (tree_addrs fs ?T0) m ?m" by (simp add: same_outside_def)
    ultimately show ?thesis using Red by simp
  next
    case Black
    let ?m = "m\<lparr>rb_cells := ?H\<rparr>"
    have "rb_erase_flip p s m = Some (if fs = [] then None else Some (parent_of fs), ?m)"
      using cells ne wf(5) Black par by (simp add: rb_erase_flip_def rb_access)
    moreover have "rb_at ?m fs (Node t Black p (Node sl Red s sr))"
      using cells ne wf' Black by (simp add: rb_at_def)
    moreover have "same_outside (tree_addrs fs ?T0) m ?m" by (simp add: same_outside_def)
    ultimately show ?thesis using Black by simp
  qed
qed

text \<open>Case 2 on the right: both children of the sibling are black.\<close>

lemma erase_flip_right_ok:
  assumes at: "rb_at m fs (Node (Node sr d s sl) c p t)"
  shows "\<exists>m'. rb_erase_flip p s m = Some (if c = Red \<or> fs = [] then None else Some (parent_of fs), m') \<and>
           rb_at m' fs (Node (Node sr Red s sl) Black p t) \<and>
           same_outside (tree_addrs fs (Node (Node sr d s sl) c p t)) m m'"
proof -
  let ?T0 = "(Node (Node sr d s sl) c p t)"
  have wf': "wf_addrs (lefts fs @ inorder ?T0 @ rights fs)" using at by (simp add: rb_at_def)
  note wf = wf_addrs_parts [OF wf']
  have cells: "rb_cells m p = Some \<lparr>pc = parent_of fs OR col_bit c, rb_right = root_of t, rb_left = s\<rparr>"
    "rb_cells m s = Some \<lparr>pc = p OR col_bit d, rb_right = root_of sl, rb_left = root_of sr\<rparr>"
    "repr (rb_cells m) p t" "repr (rb_cells m) s sl" "repr (rb_cells m) s sr" "repr_ctx (rb_cells m) p fs"
    "rb_root m = top_of fs p"
    using at by (simp_all add: rb_at_def)
  have ne: "p \<noteq> 0" "s \<noteq> 0" "p \<noteq> s" "p \<notin> set (inorder t)" "p \<notin> set (inorder sl)" "p \<notin> set (inorder sr)"
    "s \<notin> set (inorder t)" "s \<notin> set (inorder sl)" "s \<notin> set (inorder sr)" "p \<notin> ctx_addrs fs" "s \<notin> ctx_addrs fs"
    using wf(1,2,3) by auto
  have par: "parent_of fs = 0 \<longleftrightarrow> fs = []"
    using wf(4) parent_in_ctx [of fs] by (cases "fs = []") auto
  let ?H = "(rb_cells m)(s \<mapsto> \<lparr>pc = p, rb_right = root_of sl, rb_left = root_of sr\<rparr>)"
  show ?thesis
  proof (cases c)
    case Red
    let ?m = "m\<lparr>rb_cells := ?H(p \<mapsto> \<lparr>pc = parent_of fs OR 1, rb_right = root_of t, rb_left = s\<rparr>)\<rparr>"
    have "rb_erase_flip p s m = Some (None, ?m)"
      using cells ne wf(5) Red by (simp add: rb_erase_flip_def rb_access)
    moreover have "rb_at ?m fs (Node (Node sr Red s sl) Black p t)"
      using cells ne wf' Red by (simp add: rb_at_def)
    moreover have "same_outside (tree_addrs fs ?T0) m ?m" by (simp add: same_outside_def)
    ultimately show ?thesis using Red by simp
  next
    case Black
    let ?m = "m\<lparr>rb_cells := ?H\<rparr>"
    have "rb_erase_flip p s m = Some (if fs = [] then None else Some (parent_of fs), ?m)"
      using cells ne wf(5) Black par by (simp add: rb_erase_flip_def rb_access)
    moreover have "rb_at ?m fs (Node (Node sr Red s sl) Black p t)"
      using cells ne wf' Black by (simp add: rb_at_def)
    moreover have "same_outside (tree_addrs fs ?T0) m ?m" by (simp add: same_outside_def)
    ultimately show ?thesis using Black by simp
  qed
qed

section \<open>The loop of rebalancing\<close>

text \<open>What one iteration leaves behind, for an outcome of the specification.\<close>

definition iteration_result :: "frame list \<Rightarrow> addr \<Rightarrow> rbt + rbt \<Rightarrow> addr option \<Rightarrow> 'a rb_mem \<Rightarrow> bool" where
  "iteration_result fs p x next m' \<longleftrightarrow>
     (case x of
        Inl T \<Rightarrow> next = None \<and> rb_repr m' T
      | Inr T \<Rightarrow> next = (if fs = [] then None else Some (parent_of fs)) \<and> rb_at m' fs T \<and> root_of T = p)"

lemma erase_cases_left_ok:
  assumes at: "rb_at m fs (Node t c p (Node sl d s sr))"
  shows "\<exists>next m'. rb_erase_cases_left dummy_rotate p s m = Some (next, m') \<and>
           same_outside (tree_addrs fs (Node t c p (Node sl d s sr))) m m' \<and>
           iteration_result fs p (del_left c p sl s sr fs t) next m'"
proof -
  let ?T0 = "(Node t c p (Node sl d s sr))"
  have wf': "wf_addrs (lefts fs @ inorder ?T0 @ rights fs)" using at by (simp add: rb_at_def)
  note wf = wf_addrs_parts [OF wf']
  have cells: "rb_cells m s = Some \<lparr>pc = p OR col_bit d, rb_right = root_of sr, rb_left = root_of sl\<rparr>"
    "repr (rb_cells m) s sl" "repr (rb_cells m) s sr"
    using at by (simp_all add: rb_at_def)
  have ne: "s \<noteq> 0" "aligned s" "\<forall>a \<in> set (inorder sl). a \<noteq> 0 \<and> aligned a" "\<forall>a \<in> set (inorder sr). a \<noteq> 0 \<and> aligned a"
    using wf(3) by auto
  note black = non_null_red_repr(2) [OF cells(2) ne(2,3)] non_null_red_repr(2) [OF cells(3) ne(2,4)]
  have run: "rb_erase_cases_left dummy_rotate p s m =
      (if color_of sr = Black then
         (if color_of sl = Black then rb_erase_flip p s m
          else do { m \<leftarrow> rb_erase_rotate_sibling_left dummy_rotate p s (root_of sl) m;
                    m \<leftarrow> rb_erase_rotate_parent_left dummy_rotate p (root_of sl) s m; Some (None, m) })
       else do { m \<leftarrow> rb_erase_rotate_parent_left dummy_rotate p s (root_of sr) m; Some (None, m) })"
    using cells(1) ne(1) black by (simp add: rb_erase_cases_left_def rb_access)
  consider (outer) "color_of sr = Red" | (inner) x n y where "color_of sr = Black" "sl = (Node x Red n y)"
    | (flip) "color_of sr = Black" "color_of sl = Black"
    by (cases "color_of sr"; cases "color_of sl"; cases sl) auto
  then show ?thesis
  proof cases
    case outer
    then have "sr \<noteq> Leaf" by auto
    from erase_rotate_parent_left_ok [OF at this] outer run show ?thesis
      by (auto simp: iteration_result_def rb_repr_plug)
  next
    case inner
    from erase_rotate_both_left_ok [OF at [unfolded inner(2)]] inner run show ?thesis
      by (auto simp: iteration_result_def rb_repr_plug)
  next
    case flip
    from erase_flip_left_ok [OF at] obtain m' where
      m': "rb_erase_flip p s m = Some (if c = Red \<or> fs = [] then None else Some (parent_of fs), m')"
      "rb_at m' fs (Node t Black p (Node sl Red s sr))" "same_outside (tree_addrs fs ?T0) m m'" by blast
    moreover have "del_left c p sl s sr fs t = (if c = Red then Inl (plug fs (Node t Black p (Node sl Red s sr)))
        else Inr (Node t Black p (Node sl Red s sr)))"
      using flip by (cases sl) (auto simp: Let_def split: rb_color.splits rbt.splits)
    ultimately show ?thesis
      using flip run by (cases c) (auto simp: iteration_result_def rb_repr_plug)
  qed
qed

lemma erase_cases_right_ok:
  assumes at: "rb_at m fs (Node (Node sr d s sl) c p t)"
  shows "\<exists>next m'. rb_erase_cases_right dummy_rotate p s m = Some (next, m') \<and>
           same_outside (tree_addrs fs (Node (Node sr d s sl) c p t)) m m' \<and>
           iteration_result fs p (del_right c p sr s sl fs t) next m'"
proof -
  let ?T0 = "(Node (Node sr d s sl) c p t)"
  have wf': "wf_addrs (lefts fs @ inorder ?T0 @ rights fs)" using at by (simp add: rb_at_def)
  note wf = wf_addrs_parts [OF wf']
  have cells: "rb_cells m s = Some \<lparr>pc = p OR col_bit d, rb_right = root_of sl, rb_left = root_of sr\<rparr>"
    "repr (rb_cells m) s sl" "repr (rb_cells m) s sr"
    using at by (simp_all add: rb_at_def)
  have ne: "s \<noteq> 0" "aligned s" "\<forall>a \<in> set (inorder sl). a \<noteq> 0 \<and> aligned a" "\<forall>a \<in> set (inorder sr). a \<noteq> 0 \<and> aligned a"
    using wf(3) by auto
  note black = non_null_red_repr(2) [OF cells(2) ne(2,3)] non_null_red_repr(2) [OF cells(3) ne(2,4)]
  have run: "rb_erase_cases_right dummy_rotate p s m =
      (if color_of sr = Black then
         (if color_of sl = Black then rb_erase_flip p s m
          else do { m \<leftarrow> rb_erase_rotate_sibling_right dummy_rotate p s (root_of sl) m;
                    m \<leftarrow> rb_erase_rotate_parent_right dummy_rotate p (root_of sl) s m; Some (None, m) })
       else do { m \<leftarrow> rb_erase_rotate_parent_right dummy_rotate p s (root_of sr) m; Some (None, m) })"
    using cells(1) ne(1) black by (simp add: rb_erase_cases_right_def rb_access)
  consider (outer) "color_of sr = Red" | (inner) x n y where "color_of sr = Black" "sl = (Node y Red n x)"
    | (flip) "color_of sr = Black" "color_of sl = Black"
    by (cases "color_of sr"; cases "color_of sl"; cases sl) auto
  then show ?thesis
  proof cases
    case outer
    then have "sr \<noteq> Leaf" by auto
    from erase_rotate_parent_right_ok [OF at this] outer run show ?thesis
      by (auto simp: iteration_result_def rb_repr_plug)
  next
    case inner
    from erase_rotate_both_right_ok [OF at [unfolded inner(2)]] inner run show ?thesis
      by (auto simp: iteration_result_def rb_repr_plug)
  next
    case flip
    from erase_flip_right_ok [OF at] obtain m' where
      m': "rb_erase_flip p s m = Some (if c = Red \<or> fs = [] then None else Some (parent_of fs), m')"
      "rb_at m' fs (Node (Node sr Red s sl) Black p t)" "same_outside (tree_addrs fs ?T0) m m'" by blast
    moreover have "del_right c p sr s sl fs t = (if c = Red then Inl (plug fs (Node (Node sr Red s sl) Black p t))
        else Inr (Node (Node sr Red s sl) Black p t))"
      using flip by (cases sl) (auto simp: Let_def split: rb_color.splits rbt.splits)
    ultimately show ?thesis
      using flip run by (cases c) (auto simp: iteration_result_def rb_repr_plug)
  qed
qed

lemma erase_left_ok:
  assumes at: "rb_at m (LeftHole c p u # fs) t" and step: "del_step (LeftHole c p u) fs t = Some x"
  shows "\<exists>next m'. rb_erase_left dummy_rotate p (root_of u) m = Some (next, m') \<and>
           same_outside (tree_addrs (LeftHole c p u # fs) t) m m' \<and> iteration_result fs p x next m'"
proof -
  have at': "rb_at m fs (Node t c p u)" using at by (simp add: rb_repr_plug [symmetric])
  from step obtain sl d s sr where u: "u = (Node sl d s sr)" by (cases u) auto
  have "wf_addrs (lefts fs @ inorder (Node t c p u) @ rights fs)" using at' by (simp add: rb_at_def)
  note wf = wf_addrs_parts [OF this]
  have s: "rb_cells m s = Some \<lparr>pc = p OR col_bit d, rb_right = root_of sr, rb_left = root_of sl\<rparr>" "s \<noteq> 0" "aligned p"
    using at' wf(3) by (auto simp: rb_at_def u)
  show ?thesis
  proof (cases d)
    case Black
    have "rb_erase_sibling_left dummy_rotate p s m = Some (s, m)"
      using s Black by (simp add: rb_erase_sibling_left_def rb_access)
    with erase_cases_left_ok [OF at' [unfolded u]] step u Black show ?thesis
      by (auto simp: rb_erase_left_def)
  next
    case Red
    with step u obtain x' d' s' y where sl: "sl = (Node x' d' s' y)" by (cases sl) auto
    have "sl \<noteq> Leaf" by (simp add: sl)
    from erase_sibling_left_red [OF at' [unfolded u Red] this] u Red sl obtain m1 where
      m1: "rb_erase_sibling_left dummy_rotate p s m = Some (s', m1)"
      "rb_at m1 (LeftHole c s sr # fs) (Node t Red p (Node x' Black s' y))"
      "same_outside (tree_addrs fs (Node t c p u)) m m1"
      by (auto simp: rb_repr_plug [symmetric])
    from erase_cases_left_ok [OF m1(2)] obtain nxt m' where
      m': "rb_erase_cases_left dummy_rotate p s' m1 = Some (nxt, m')"
      "same_outside (tree_addrs (LeftHole c s sr # fs) (Node t Red p (Node x' Black s' y))) m1 m'"
      "iteration_result (LeftHole c s sr # fs) p (del_left Red p x' s' y (LeftHole c s sr # fs) t) nxt m'" by blast
    have x: "x = del_left Red p x' s' y (LeftHole c s sr # fs) t" using step u Red sl by simp
    from del_left_red [of p x' s' y "LeftHole c s sr # fs" t] have "iteration_result fs p x nxt m'"
      using m'(3) unfolding x by (auto simp: iteration_result_def)
    moreover have "tree_addrs (LeftHole c s sr # fs) (Node t Red p (Node x' Black s' y)) = tree_addrs fs (Node t c p u)"
      by (auto simp: u sl)
    ultimately show ?thesis
      using m1(1) m'(1,2) same_outside_trans [OF m1(3)] u by (simp add: rb_erase_left_def)
  qed
qed

lemma erase_right_ok:
  assumes at: "rb_at m (RightHole u c p # fs) t" and step: "del_step (RightHole u c p) fs t = Some x"
  shows "\<exists>next m'. rb_erase_right dummy_rotate p (root_of u) m = Some (next, m') \<and>
           same_outside (tree_addrs (RightHole u c p # fs) t) m m' \<and> iteration_result fs p x next m'"
proof -
  have at': "rb_at m fs (Node u c p t)" using at by (simp add: rb_repr_plug [symmetric])
  from step obtain sl d s sr where u: "u = (Node sr d s sl)" by (cases u) auto
  have "wf_addrs (lefts fs @ inorder (Node u c p t) @ rights fs)" using at' by (simp add: rb_at_def)
  note wf = wf_addrs_parts [OF this]
  have s: "rb_cells m s = Some \<lparr>pc = p OR col_bit d, rb_right = root_of sl, rb_left = root_of sr\<rparr>" "s \<noteq> 0" "aligned p"
    using at' wf(3) by (auto simp: rb_at_def u)
  show ?thesis
  proof (cases d)
    case Black
    have "rb_erase_sibling_right dummy_rotate p s m = Some (s, m)"
      using s Black by (simp add: rb_erase_sibling_right_def rb_access)
    with erase_cases_right_ok [OF at' [unfolded u]] step u Black show ?thesis
      by (auto simp: rb_erase_right_def)
  next
    case Red
    with step u obtain x' d' s' y where sl: "sl = (Node y d' s' x')" by (cases sl) auto
    have "sl \<noteq> Leaf" by (simp add: sl)
    from erase_sibling_right_red [OF at' [unfolded u Red] this] u Red sl obtain m1 where
      m1: "rb_erase_sibling_right dummy_rotate p s m = Some (s', m1)"
      "rb_at m1 (RightHole sr c s # fs) (Node (Node y Black s' x') Red p t)"
      "same_outside (tree_addrs fs (Node u c p t)) m m1"
      by (auto simp: rb_repr_plug [symmetric])
    from erase_cases_right_ok [OF m1(2)] obtain nxt m' where
      m': "rb_erase_cases_right dummy_rotate p s' m1 = Some (nxt, m')"
      "same_outside (tree_addrs (RightHole sr c s # fs) (Node (Node y Black s' x') Red p t)) m1 m'"
      "iteration_result (RightHole sr c s # fs) p (del_right Red p y s' x' (RightHole sr c s # fs) t) nxt m'" by blast
    have x: "x = del_right Red p y s' x' (RightHole sr c s # fs) t" using step u Red sl by simp
    from del_right_red [of p y s' x' "RightHole sr c s # fs" t] have "iteration_result fs p x nxt m'"
      using m'(3) unfolding x by (auto simp: iteration_result_def)
    moreover have "tree_addrs (RightHole sr c s # fs) (Node (Node y Black s' x') Red p t) = tree_addrs fs (Node u c p t)"
      by (auto simp: u sl)
    ultimately show ?thesis
      using m1(1) m'(1,2) same_outside_trans [OF m1(3)] u by (simp add: rb_erase_right_def)
  qed
qed

lemma erase_iteration_ok:
  assumes at: "rb_at m (f # fs) t" and step: "del_step f fs t = Some x"
  shows "\<exists>next m'. same_outside (tree_addrs (f # fs) t) m m' \<and> iteration_result fs (frame_addr f) x next m' \<and>
           rb_erase_loop dummy_rotate (root_of t) (frame_addr f) m =
             (case next of None \<Rightarrow> Some m' | Some q \<Rightarrow> rb_erase_loop dummy_rotate (frame_addr f) q m')"
proof (cases f)
  case (LeftHole c p u)
  have u: "u \<noteq> Leaf" using step LeftHole by auto
  have "root_of u \<noteq> root_of t"
    by (rule roots_differ [of "lefts fs @ inorder (Node t c p u) @ rights fs"])
       (use at LeftHole u in \<open>auto simp: rb_at_def wf_addrs_def\<close>)
  moreover have "rb_cells m p = Some \<lparr>pc = parent_of fs OR col_bit c, rb_right = root_of u, rb_left = root_of t\<rparr>" "p \<noteq> 0"
    using at LeftHole by (auto simp: rb_at_def wf_addrs_def)
  moreover from erase_left_ok [OF at [unfolded LeftHole] step [unfolded LeftHole]] obtain nxt m' where
    "rb_erase_left dummy_rotate p (root_of u) m = Some (nxt, m')"
    "same_outside (tree_addrs (f # fs) t) m m'" "iteration_result fs p x nxt m'" unfolding LeftHole by blast
  ultimately show ?thesis
    using LeftHole by (intro exI [of _ nxt] exI [of _ m']) (subst rb_erase_loop.simps, simp add: rb_access)
next
  case (RightHole u c p)
  have "rb_cells m p = Some \<lparr>pc = parent_of fs OR col_bit c, rb_right = root_of t, rb_left = root_of u\<rparr>" "p \<noteq> 0"
    using at RightHole by (auto simp: rb_at_def wf_addrs_def)
  moreover from erase_right_ok [OF at [unfolded RightHole] step [unfolded RightHole]] obtain nxt m' where
    "rb_erase_right dummy_rotate p (root_of u) m = Some (nxt, m')"
    "same_outside (tree_addrs (f # fs) t) m m'" "iteration_result fs p x nxt m'" unfolding RightHole by blast
  ultimately show ?thesis
    using RightHole by (intro exI [of _ nxt] exI [of _ m']) (subst rb_erase_loop.simps, simp add: rb_access)
qed

lemma del_step_addrs:
  assumes "del_step f fs t = Some (Inr T)"
  shows "tree_addrs fs T = tree_addrs (f # fs) t"
  using inorder_del_step [OF assms] by simp

lemma erase_loop_ok:
  assumes "rb_at m (f # fs) t" "del_fix (f # fs) t = Some T"
  shows "\<exists>m'. rb_erase_loop dummy_rotate (root_of t) (frame_addr f) m = Some m' \<and> rb_repr m' T \<and>
           same_outside (tree_addrs (f # fs) t) m m'"
  using assms
proof (induction fs arbitrary: f t m)
  case Nil
  from Nil(2) obtain x where x: "del_step f [] t = Some x" by (auto split: option.splits)
  from erase_iteration_ok [OF Nil(1) x] Nil(2) x show ?case
    by (cases x) (auto simp: iteration_result_def rb_repr_plug [symmetric])
next
  case (Cons g fs)
  from Cons.prems(2) obtain x where x: "del_step f (g # fs) t = Some x" by (auto split: option.splits)
  from erase_iteration_ok [OF Cons.prems(1) x] obtain nxt m1 where
    m1: "same_outside (tree_addrs (f # g # fs) t) m m1" "iteration_result (g # fs) (frame_addr f) x nxt m1"
    "rb_erase_loop dummy_rotate (root_of t) (frame_addr f) m =
       (case nxt of None \<Rightarrow> Some m1 | Some q \<Rightarrow> rb_erase_loop dummy_rotate (frame_addr f) q m1)" by blast
  show ?case
  proof (cases x)
    case (Inl T')
    with m1 Cons.prems(2) x show ?thesis by (auto simp: iteration_result_def)
  next
    case (Inr T')
    with m1(2) have "rb_at m1 (g # fs) T'" "root_of T' = frame_addr f" "nxt = Some (frame_addr g)"
      by (auto simp: iteration_result_def)
    moreover from Cons.prems(2) x Inr have "del_fix (g # fs) T' = Some T" by simp
    ultimately obtain m' where "rb_erase_loop dummy_rotate (frame_addr f) (frame_addr g) m1 = Some m'"
      "rb_repr m' T" "same_outside (tree_addrs (g # fs) T') m1 m'"
      using Cons.IH [of m1 g T'] by auto
    with m1(1,3) \<open>nxt = Some (frame_addr g)\<close> del_step_addrs [OF x [unfolded Inr]] show ?thesis
      by (auto intro: same_outside_trans)
  qed
qed

end
