(* ===== verification/Rb_Unlink.thy ===== *)
theory Rb_Unlink
  imports Rb_Erase
begin

text \<open>
  The first half of removal, \<^verbatim>\<open>__rb_erase_augmented\<close>: the node is unlinked, its successor takes
  its place when it has two children, and the result says where to rebalance. Together with
  the loop of \<open>Rb_Erase\<close> this gives the correctness of \<^verbatim>\<open>rb_erase\<close>.
\<close>

section \<open>At most one child\<close>

lemma top_of_other: "fs \<noteq> [] \<Longrightarrow> top_of fs q = top_of fs q'"
  by (cases fs) simp_all

lemma wf_addrs_subset:
  assumes "wf_addrs (xs @ ys @ zs)" "distinct ys'" "set ys' \<subseteq> set ys"
  shows "wf_addrs (xs @ ys' @ zs)"
  using assms by (auto simp: wf_addrs_def)

lemma dummy_callbacks_simps [simp]:
  "copy dummy_callbacks old new m = Some m" "propagate dummy_callbacks node stop m = Some m"
  "rotate_aug dummy_callbacks = dummy_rotate"
  by (simp_all add: dummy_callbacks_def)

lemma repr_paint_root:
  assumes "repr H q t" "t \<noteq> Leaf" "distinct (inorder t)" "H (root_of t) = Some n"
  shows "repr (H(root_of t \<mapsto> n\<lparr>pc := p OR col_bit c\<rparr>)) p (paint c t)"
  using assms by (cases t) auto

lemma unlink_no_left:
  assumes at: "rb_at m fs (Node Leaf c a r)"
  shows "\<exists>m'. rb_erase_augmented0 dummy_callbacks a m =
             Some (if r = Leaf \<and> c = Black then parent_of fs else 0, m') \<and>
           rb_at m' fs (paint c r) \<and> same_outside (tree_addrs fs (Node Leaf c a r)) m m'"
proof -
  let ?T0 = "Node Leaf c a r"
  have wf': "wf_addrs (lefts fs @ inorder ?T0 @ rights fs)" using at by (simp add: rb_at_def)
  note wf = wf_addrs_parts [OF wf']
  have cells: "rb_cells m a = Some \<lparr>pc = parent_of fs OR col_bit c, rb_right = root_of r, rb_left = 0\<rparr>"
    "repr (rb_cells m) a r" "repr_ctx (rb_cells m) a fs" "rb_root m = top_of fs a"
    using at by (simp_all add: rb_at_def)
  have ne: "a \<noteq> 0" "a \<notin> ctx_addrs fs" "set (inorder r) \<inter> ctx_addrs fs = {}" "distinct (inorder r)"
    "\<forall>b \<in> set (inorder r). b \<noteq> 0 \<and> aligned b"
    using wf(1-3) by auto
  from change_child_ok [OF cells(3) ne(1,2) wf(4,6), of "root_of r"] obtain m1 where
    m1: "rb_change_child a (root_of r) (parent_of fs) m = Some m1" "repr_ctx (rb_cells m1) (root_of r) fs"
    "\<forall>b. b \<notin> ctx_addrs fs \<longrightarrow> rb_cells m1 b = rb_cells m b"
    "rb_root m1 = (if fs = [] then root_of r else rb_root m)" "rb_aug m1 = rb_aug m" by blast
  have wfr: "wf_addrs (lefts fs @ inorder r @ rights fs)"
    by (rule wf_addrs_subset [OF wf']) (use ne in auto)
  have root: "rb_root m1 = top_of fs (root_of r)"
    using m1(4) cells(4) top_of_other [of fs a "root_of r"] by (cases fs) auto
  have r1: "repr (rb_cells m1) a r"
    using cells(2) ne(3) m1(3) by (subst repr_cong [where H = "rb_cells m"]) auto
  show ?thesis
  proof (cases r)
    case Leaf
    then have "rb_erase_augmented0 dummy_callbacks a m = Some (if c = Black then parent_of fs else 0, m1)"
      using cells ne m1(1) wf(5) by (simp add: rb_erase_augmented0_def rb_access Let_def)
    moreover have "rb_at m1 fs Leaf"
      using m1(2) wfr root Leaf by (simp add: rb_at_def)
    moreover have "same_outside (tree_addrs fs ?T0) m m1"
      using m1(3,5) by (auto simp: same_outside_def ctx_addrs_def)
    ultimately show ?thesis using Leaf by auto
  next
    case (Node rl rc b rr)
    then have b: "b \<noteq> 0" "b \<notin> ctx_addrs fs" using ne(3,5) by auto
    obtain nb where nb: "rb_cells m1 b = Some nb" using r1 Node by auto
    let ?m2 = "m1\<lparr>rb_cells := (rb_cells m1)(b \<mapsto> nb\<lparr>pc := parent_of fs OR col_bit c\<rparr>)\<rparr>"
    have "rb_erase_augmented0 dummy_callbacks a m = Some (0, ?m2)"
      using cells ne m1(1) wf(5) Node b nb by (simp add: rb_erase_augmented0_def rb_access Let_def)
    moreover have "rb_at ?m2 fs (paint c r)"
      using m1(2) wfr root b repr_paint_root [OF r1, of nb "parent_of fs" c] ne(4) Node nb
      by (simp add: rb_at_def)
    moreover have "same_outside (tree_addrs fs ?T0) m ?m2"
      using m1(3,5) Node by (auto simp: same_outside_def ctx_addrs_def)
    ultimately show ?thesis using Node by auto
  qed
qed

lemma unlink_no_right:
  assumes at: "rb_at m fs (Node l c a Leaf)" and l: "l \<noteq> Leaf"
  shows "\<exists>m'. rb_erase_augmented0 dummy_callbacks a m = Some (0, m') \<and>
           rb_at m' fs (paint c l) \<and> same_outside (tree_addrs fs (Node l c a Leaf)) m m'"
proof -
  let ?T0 = "Node l c a Leaf"
  have wf': "wf_addrs (lefts fs @ inorder ?T0 @ rights fs)" using at by (simp add: rb_at_def)
  note wf = wf_addrs_parts [OF wf']
  have cells: "rb_cells m a = Some \<lparr>pc = parent_of fs OR col_bit c, rb_right = 0, rb_left = root_of l\<rparr>"
    "repr (rb_cells m) a l" "repr_ctx (rb_cells m) a fs" "rb_root m = top_of fs a"
    using at by (simp_all add: rb_at_def)
  have ne: "a \<noteq> 0" "a \<notin> ctx_addrs fs" "set (inorder l) \<inter> ctx_addrs fs = {}" "distinct (inorder l)"
    "\<forall>b \<in> set (inorder l). b \<noteq> 0 \<and> aligned b" "a \<notin> set (inorder l)"
    using wf(1-3) by auto
  obtain b where b: "root_of l = b" "b \<noteq> 0" "b \<notin> ctx_addrs fs" "b \<noteq> a" "b \<in> set (inorder l)"
    using root_in_tree [OF l] ne(3,5,6) by auto
  obtain nb where nb: "rb_cells m b = Some nb" using cells(2) b(1) l by (cases l) auto
  let ?m1 = "m\<lparr>rb_cells := (rb_cells m)(b \<mapsto> nb\<lparr>pc := parent_of fs OR col_bit c\<rparr>)\<rparr>"
  have pl: "repr (rb_cells ?m1) (parent_of fs) (paint c l)"
    using repr_paint_root [OF cells(2) l ne(4)] nb b(1) by simp
  have "repr_ctx (rb_cells ?m1) a fs" using cells(3) b(3) by simp
  from change_child_ok [OF this ne(1,2) wf(4,6), of b] obtain m2 where
    m2: "rb_change_child a b (parent_of fs) ?m1 = Some m2" "repr_ctx (rb_cells m2) b fs"
    "\<forall>x. x \<notin> ctx_addrs fs \<longrightarrow> rb_cells m2 x = rb_cells ?m1 x"
    "rb_root m2 = (if fs = [] then b else rb_root ?m1)" "rb_aug m2 = rb_aug ?m1" by blast
  have "rb_erase_augmented0 dummy_callbacks a m = Some (0, m2)"
    using cells ne m2(1) wf(5) b nb by (simp add: rb_erase_augmented0_def rb_access Let_def)
  moreover have "repr (rb_cells m2) (parent_of fs) (paint c l)"
    by (rule repr_cong [THEN iffD2, OF _ pl]) (use ne(3) m2(3) in auto)
  moreover have "wf_addrs (lefts fs @ inorder l @ rights fs)"
    by (rule wf_addrs_subset [OF wf']) (use ne in auto)
  moreover have "rb_root m2 = top_of fs b"
    using m2(4) cells(4) top_of_other [of fs a b] by (cases fs) auto
  moreover have "same_outside (tree_addrs fs ?T0) m m2"
    using m2(3,5) b(5) by (auto simp: same_outside_def ctx_addrs_def)
  ultimately show ?thesis using m2(2) b(1) by (auto simp: rb_at_def)
qed

section \<open>Paths\<close>

text \<open>A context below a given parent: what \<open>repr_ctx\<close> says of the frames of a path, up to its base.\<close>

definition parent_or :: "addr \<Rightarrow> frame list \<Rightarrow> addr" where
  "parent_or d fs = (if fs = [] then d else parent_of fs)"

fun repr_path :: "(addr \<rightharpoonup> rb_node) \<Rightarrow> addr \<Rightarrow> addr \<Rightarrow> frame list \<Rightarrow> bool" where
  "repr_path H q d [] \<longleftrightarrow> True"
| "repr_path H q d (LeftHole c a r # fs) \<longleftrightarrow>
     H a = Some \<lparr>pc = parent_or d fs OR col_bit c, rb_right = root_of r, rb_left = q\<rparr> \<and>
     repr H a r \<and> repr_path H a d fs"
| "repr_path H q d (RightHole l c a # fs) \<longleftrightarrow>
     H a = Some \<lparr>pc = parent_or d fs OR col_bit c, rb_right = q, rb_left = root_of l\<rparr> \<and>
     repr H a l \<and> repr_path H a d fs"

lemma parent_of_append: "parent_of (fs @ gs) = parent_or (parent_of gs) fs"
  by (cases fs) (simp_all add: parent_or_def)

lemma repr_ctx_append:
  "repr_ctx H q (path @ gs) \<longleftrightarrow> repr_path H q (parent_of gs) path \<and> repr_ctx H (top_of path q) gs"
proof (induction path arbitrary: q)
  case (Cons f path)
  then show ?case by (cases f) (auto simp: parent_of_append)
qed simp

lemma top_of_append: "top_of (path @ gs) q = top_of gs (top_of path q)"
  by (induction path arbitrary: q) simp_all

lemma ctx_addrs_append: "ctx_addrs (fs @ gs) = ctx_addrs fs \<union> ctx_addrs gs"
  by (auto simp: ctx_addrs_def)

lemma repr_path_cong:
  "(\<And>b. b \<in> ctx_addrs fs \<Longrightarrow> H' b = H b) \<Longrightarrow> repr_path H' q d fs = repr_path H q d fs"
proof (induction H q d fs rule: repr_path.induct)
  case (2 H q d c a r fs)
  then show ?case using repr_cong [of r H' H a] by auto
next
  case (3 H q d l c a fs)
  then show ?case using repr_cong [of l H' H a] by auto
qed simp

lemma repr_path_upd [simp]: "a \<notin> ctx_addrs fs \<Longrightarrow> repr_path (H(a := x)) q d fs = repr_path H q d fs"
  by (rule repr_path_cong) auto

lemma top_in_ctx: "fs \<noteq> [] \<Longrightarrow> top_of fs q \<in> ctx_addrs fs"
proof (induction fs arbitrary: q)
  case (Cons f fs)
  then show ?case by (cases "fs = []"; cases f) auto
qed simp

text \<open>Changing the pointer at the hole, and the parent at the base.\<close>

lemma path_hole:
  assumes "repr_path H q d (LeftHole c a r # fs)" "distinct (lefts (LeftHole c a r # fs) @ rights (LeftHole c a r # fs))"
    and "H a = Some n"
  shows "repr_path (H(a \<mapsto> n\<lparr>rb_left := q'\<rparr>)) q' d (LeftHole c a r # fs)"
  using assms by (simp add: ctx_addrs_def)

lemma path_top_cell: "repr_path H q d fs \<Longrightarrow> fs \<noteq> [] \<Longrightarrow> \<exists>n. H (top_of fs q) = Some n"
proof (induction fs arbitrary: q)
  case (Cons f fs)
  then show ?case by (cases "fs = []"; cases f) auto
qed simp

lemma path_base:
  assumes "repr_path H q d fs" "fs \<noteq> []" "distinct (lefts fs @ rights fs)" "aligned d"
    and "k = top_of fs q" "H k = Some n" "v = n\<lparr>pc := pc n AND 1 OR d'\<rparr>"
  shows "repr_path (H(k \<mapsto> v)) q d' fs"
  using assms
proof (induction fs arbitrary: q)
  case (Cons f fs)
  show ?case
  proof (cases "fs = []")
    case True
    show ?thesis
    proof (cases f)
      case (LeftHole c a r)
      with Cons.prems True have "k = a" "a \<notin> set (inorder r)" by auto
      with Cons.prems True show ?thesis unfolding LeftHole repr_path.simps by (auto simp: parent_or_def)
    next
      case (RightHole l c a)
      with Cons.prems True have "k = a" "a \<notin> set (inorder l)" by auto
      with Cons.prems True show ?thesis unfolding RightHole repr_path.simps by (auto simp: parent_or_def)
    qed
  next
    case False
    have path: "repr_path H (frame_addr f) d fs" "distinct (lefts fs @ rights fs)" "k = top_of fs (frame_addr f)"
      using Cons.prems by (cases f; auto)+
    have top: "k \<in> ctx_addrs fs" unfolding path(3) by (rule top_in_ctx [OF False])
    have n: "repr_path (H(k \<mapsto> v)) (frame_addr f) d' fs"
      by (rule Cons.IH [OF path(1) False path(2) Cons.prems(4) path(3) Cons.prems(6,7)])
    show ?thesis
    proof (cases f)
      case (LeftHole c a r)
      with Cons.prems(3) top have "k \<noteq> a" "a \<noteq> k" "k \<notin> set (inorder r)"
        by (auto simp: ctx_addrs_def)
      with n Cons.prems(1) False show ?thesis unfolding LeftHole repr_path.simps by (simp add: parent_or_def)
    next
      case (RightHole l c a)
      with Cons.prems(3) top have "k \<noteq> a" "a \<noteq> k" "k \<notin> set (inorder l)"
        by (auto simp: ctx_addrs_def)
      with n Cons.prems(1) False show ?thesis unfolding RightHole repr_path.simps by (simp add: parent_or_def)
    qed
  qed
qed simp

section \<open>The successor\<close>

lemma min_path_shape:
  assumes "min_path (Node l c a r) = (path, cs, s, x)"
  shows "(l = Leaf \<longrightarrow> path = [] \<and> s = a) \<and>
         (l \<noteq> Leaf \<longrightarrow> (\<exists>d p z path'. path = LeftHole d p z # path') \<and> last path = LeftHole c a r)"
  using assms
proof (induction "Node l c a r" arbitrary: l c a r path rule: min_path.induct)
  case (3 ll lc la lr c a r)
  obtain path' where p: "min_path (Node ll lc la lr) = (path', cs, s, x)" "path = path' @ [LeftHole c a r]"
    using 3(2) by (auto simp: Let_def split: prod.splits)
  from 3(1) [OF p(1)] p(2) show ?case by (cases path') auto
qed auto

lemma successor_loop_ok:
  assumes "repr (rb_cells m) q (Node l c a r)" "l \<noteq> Leaf" "\<forall>b \<in> set (inorder (Node l c a r)). b \<noteq> 0 \<and> aligned b"
    and "min_path (Node l c a r) = (path, cs, s, x)"
  shows "rb_successor_loop m a (root_of l) = Some (parent_of path, s)"
  using assms
proof (induction "Node l c a r" arbitrary: q l c a r path rule: min_path.induct)
  case (3 ll lc la lr c a r)
  obtain path' where p: "min_path (Node ll lc la lr) = (path', cs, s, x)" "path = path' @ [LeftHole c a r]"
    using 3(5) by (auto simp: Let_def split: prod.splits)
  have la: "rb_cells m la = Some \<lparr>pc = a OR col_bit lc, rb_right = root_of lr, rb_left = root_of ll\<rparr>" "la \<noteq> 0"
    using 3(2,4) by auto
  show ?case
  proof (cases "ll = Leaf")
    case True
    with p have "path = [LeftHole c a r]" "s = la" by auto
    with la True show ?thesis by (subst rb_successor_loop.simps) (simp add: rb_access)
  next
    case False
    have "root_of ll \<noteq> 0" using False 3(4) root_in_tree [OF False] by auto
    moreover from 3(1) [OF _ False _ p(1)] 3(2,4) have "rb_successor_loop m la (root_of ll) = Some (parent_of path', s)"
      by auto
    moreover from min_path_shape [OF p(1)] False p(2) have "parent_of path = parent_of path'" by (cases path') auto
    ultimately show ?thesis using la by (subst rb_successor_loop.simps) (simp add: rb_access)
  qed
qed auto

lemma repr_plug_path:
  "repr H d (plug path t) \<longleftrightarrow> repr_path H (root_of t) d path \<and> repr H (parent_or d path) t"
proof (induction path t rule: plug.induct)
  case (2 c a r fs t)
  then show ?case by (auto simp: parent_or_def)
next
  case (3 l c a fs t)
  then show ?case by (auto simp: parent_or_def)
qed (simp add: parent_or_def)

lemma root_of_plug: "root_of (plug path t) = top_of path (root_of t)"
  by (induction path t rule: plug.induct) simp_all

lemma inorder_min_path:
  assumes "t \<noteq> Leaf" "min_path t = (path, cs, s, x)"
  shows "inorder t = s # inorder x @ rights path" "lefts path = []"
  using min_path_plug [OF assms] inorder_plug [of path "Node Leaf cs s x"] by auto

text \<open>
  What \<^verbatim>\<open>__rb_erase_augmented\<close> has done once the successor is unlinked: the path down to it hangs below
  the successor, which still carries its own parent and colour.
\<close>

definition successor_out ::
  "addr \<Rightarrow> frame list \<Rightarrow> rb_color \<Rightarrow> addr \<Rightarrow> rbt \<Rightarrow> (addr \<rightharpoonup> rb_node) \<Rightarrow> bool" where
  "successor_out a path cs s x H \<longleftrightarrow>
     H s = Some \<lparr>pc = parent_or a path OR col_bit cs, rb_right = top_of path (root_of x), rb_left = 0\<rparr> \<and>
     repr_path H (root_of x) s path \<and> repr H s x"

lemma successor_near:
  assumes "repr (rb_cells m) a r" "r \<noteq> Leaf" "min_path r = ([], cs, s, x)" "s \<noteq> 0"
  shows "rb_erase_successor dummy_callbacks a (root_of r) m = Some (s, s, root_of x, m)"
    "successor_out a [] cs s x (rb_cells m)"
proof -
  from min_path_plug [OF assms(2,3)] have r: "r = Node Leaf cs s x" by simp
  with assms(1,4) show "rb_erase_successor dummy_callbacks a (root_of r) m = Some (s, s, root_of x, m)"
    by (simp add: rb_erase_successor_def rb_access)
  from r assms(1) show "successor_out a [] cs s x (rb_cells m)"
    by (simp add: successor_out_def parent_or_def)
qed

lemma successor_far:
  assumes rep: "repr (rb_cells m) a r" and path: "min_path r = (path, cs, s, x)" "path \<noteq> []" "r \<noteq> Leaf"
    and wf: "distinct (inorder r)" "\<forall>b \<in> set (inorder r). b \<noteq> 0 \<and> aligned b" "aligned a"
  shows "\<exists>m1. rb_erase_successor dummy_callbacks a (root_of r) m = Some (parent_of path, s, root_of x, m1) \<and>
           successor_out a path cs s x (rb_cells m1) \<and>
           (\<forall>b. b \<notin> set (inorder r) \<longrightarrow> rb_cells m1 b = rb_cells m b) \<and>
           rb_root m1 = rb_root m \<and> rb_aug m1 = rb_aug m"
proof -
  let ?H = "rb_cells m"
  obtain l0 c0 b0 r0 where r: "r = Node l0 c0 b0 r0" using path(3) by (cases r) auto
  have l0: "l0 \<noteq> Leaf" using min_path_shape [OF path(1) [unfolded r]] path(2) by auto
  with min_path_shape [OF path(1) [unfolded r]] obtain d p z path' where
    p: "path = LeftHole d p z # path'" by auto
  note plug = min_path_plug [OF path(3,1)] and ord = inorder_min_path [OF path(3,1)]
  have k: "b0 = top_of path q" for q
    using root_of_plug [of path "Node Leaf cs s x"] plug r top_of_other [OF path(2)] by fastforce
  have dist: "distinct (lefts path @ rights path)" "s \<notin> ctx_addrs path" "s \<noteq> p" "p \<noteq> s"
    "set (inorder x) \<inter> ctx_addrs path = {}" "p \<in> ctx_addrs path" "b0 \<in> ctx_addrs path" "s \<noteq> b0" "s \<notin> set (inorder x)"
    using wf(1) ord p top_in_ctx [OF path(2), of 0] k [of 0] by (auto simp: ctx_addrs_def)
  have "repr_path ?H s a path" "repr ?H (parent_or a path) (Node Leaf cs s x)"
    using rep plug repr_plug_path [of ?H a path "Node Leaf cs s x"] by auto
  note cells = this
  have s: "?H s = Some \<lparr>pc = parent_of path OR col_bit cs, rb_right = root_of x, rb_left = 0\<rparr>" "repr ?H s x" "s \<noteq> 0"
    using cells(2) path(2) wf(2) ord by (auto simp: parent_or_def)
  obtain np where np: "?H p = Some np" "p \<noteq> 0" using cells(1) p wf(2) ord by auto
  let ?H1 = "?H(p \<mapsto> np\<lparr>rb_left := root_of x\<rparr>)"
  let ?H2 = "?H1(s \<mapsto> \<lparr>pc = parent_of path OR col_bit cs, rb_right = b0, rb_left = 0\<rparr>)"
  have "repr_path ?H1 (root_of x) a path"
    unfolding p by (rule path_hole [OF cells(1) [unfolded p] dist(1) [unfolded p] np(1)])
  then have path2: "repr_path ?H2 (root_of x) a path" using dist(2) by simp
  obtain nb where nb: "?H2 b0 = Some nb" "b0 \<noteq> 0"
    using path_top_cell [OF path2 path(2)] k [of "root_of x"] wf(2) r by auto
  let ?H3 = "?H2(b0 \<mapsto> nb\<lparr>pc := pc nb AND 1 OR s\<rparr>)"
  let ?m1 = "m\<lparr>rb_cells := ?H3\<rparr>"
  have path3: "repr_path ?H3 (root_of x) s path"
    by (rule path_base [OF path2 path(2) dist(1) wf(3) k nb(1) refl])
  have cb0: "?H b0 = Some \<lparr>pc = a OR col_bit c0, rb_right = root_of r0, rb_left = root_of l0\<rparr>"
    using rep r by simp
  have loop: "rb_successor_loop m b0 (root_of l0) = Some (p, s)"
    using successor_loop_ok [OF rep [unfolded r] l0 _ path(1) [unfolded r]] wf(2) r p by auto
  have "root_of l0 \<noteq> 0" using root_in_tree [OF l0] wf(2) r by auto
  moreover have "set_right s b0 (m\<lparr>rb_cells := ?H1\<rparr>) = Some (m\<lparr>rb_cells := ?H2\<rparr>)"
    using s dist(4) by (subst rb_access(12)) auto
  moreover have "rb_set_parent b0 s (m\<lparr>rb_cells := ?H2\<rparr>) = Some ?m1"
    using nb by (subst rb_access(14)) auto
  ultimately have "rb_erase_successor dummy_callbacks a (root_of r) m = Some (parent_of path, s, root_of x, ?m1)"
    using cb0 nb(2) loop s np by (simp add: rb_erase_successor_def rb_access r p del: fun_upd_apply)
  moreover have "repr ?H3 s x" using s(2) dist(5,6,7,9) by (subst repr_upd; (subst repr_upd)?; (subst repr_upd)?; auto)
  moreover have "?H3 s = Some \<lparr>pc = parent_or a path OR col_bit cs, rb_right = top_of path (root_of x), rb_left = 0\<rparr>"
    using dist(8) path(2) k [of "root_of x"] by (simp add: parent_or_def)
  moreover have "\<forall>b. b \<notin> set (inorder r) \<longrightarrow> ?H3 b = ?H b"
    using ord dist(6,7) by (auto simp: ctx_addrs_def)
  ultimately show ?thesis using path3 by (intro exI [of _ ?m1]) (simp add: successor_out_def)
qed

lemma successor_ok:
  assumes rep: "repr (rb_cells m) a r" and path: "min_path r = (path, cs, s, x)" "r \<noteq> Leaf"
    and wf: "distinct (inorder r)" "\<forall>b \<in> set (inorder r). b \<noteq> 0 \<and> aligned b" "aligned a"
  shows "\<exists>m1. rb_erase_successor dummy_callbacks a (root_of r) m = Some (parent_or s path, s, root_of x, m1) \<and>
           successor_out a path cs s x (rb_cells m1) \<and>
           (\<forall>b. b \<notin> set (inorder r) \<longrightarrow> rb_cells m1 b = rb_cells m b) \<and>
           rb_root m1 = rb_root m \<and> rb_aug m1 = rb_aug m"
proof (cases "path = []")
  case True
  have "s \<noteq> 0" using wf(2) inorder_min_path(1) [OF path(2,1)] by simp
  from successor_near [OF rep path(2) path(1) [unfolded True] this] True show ?thesis
    by (simp add: parent_or_def)
next
  case False
  from successor_far [OF rep path(1) False path(2) wf] False show ?thesis by (simp add: parent_or_def)
qed

section \<open>Two children\<close>

text \<open>The successor takes the place of the node: its left child, its parent and colour, and the child it leaves behind.\<close>

lemma two_addrs:
  assumes "wf_addrs (lefts fs @ inorder (Node l c a r) @ rights fs)" "r \<noteq> Leaf" "min_path r = (path, cs, s, x)"
  shows "a \<noteq> 0" "aligned a" "a \<notin> set (inorder l)" "a \<notin> set (inorder r)" "a \<notin> ctx_addrs fs"
    "distinct (inorder l)" "distinct (inorder r)" "\<forall>b \<in> set (inorder l @ inorder r). b \<noteq> 0 \<and> aligned b"
    "set (inorder l) \<inter> set (inorder r) = {}" "set (inorder l) \<inter> ctx_addrs fs = {}" "set (inorder r) \<inter> ctx_addrs fs = {}"
    "s \<in> set (inorder r)" "s \<notin> set (inorder x)" "s \<notin> ctx_addrs path"
    "set (inorder x) \<subseteq> set (inorder r)" "ctx_addrs path \<subseteq> set (inorder r)" "distinct (inorder x)" "set (inorder x) \<inter> ctx_addrs path = {}"
    "aligned (parent_or a path)"
  using wf_addrs_parts [OF assms(1)] inorder_min_path [OF assms(2,3)] parent_in_ctx [of path] by (auto simp: ctx_addrs_def parent_or_def)

text \<open>The successor gets the left child of the node.\<close>

lemma two_left:
  assumes at: "rb_at m fs (Node l c a r)" and l: "l \<noteq> Leaf" and r: "r \<noteq> Leaf" and path: "min_path r = (path, cs, s, x)"
  obtains m1 m2 m3 where "rb_erase_successor dummy_callbacks a (root_of r) m = Some (parent_or s path, s, root_of x, m1)"
    "left_of m1 a = Some (root_of l)" "set_left s (root_of l) m1 = Some m2" "rb_set_parent (root_of l) s m2 = Some m3"
    "rb_cells m3 s = Some \<lparr>pc = parent_or a path OR col_bit cs, rb_right = top_of path (root_of x), rb_left = root_of l\<rparr>"
    "repr (rb_cells m3) s x" "repr_path (rb_cells m3) (root_of x) s path" "repr (rb_cells m3) s l"
    "\<forall>b. b \<notin> set (inorder l) \<union> set (inorder r) \<longrightarrow> rb_cells m3 b = rb_cells m b" "rb_root m3 = rb_root m" "rb_aug m3 = rb_aug m"
proof -
  have wf: "wf_addrs (lefts fs @ inorder (Node l c a r) @ rights fs)" using at by (simp add: rb_at_def)
  note ne = two_addrs [OF wf r path]
  have cells: "rb_cells m a = Some \<lparr>pc = parent_of fs OR col_bit c, rb_right = root_of r, rb_left = root_of l\<rparr>"
    "repr (rb_cells m) a l" "repr (rb_cells m) a r" using at by (simp_all add: rb_at_def)
  have "\<forall>b \<in> set (inorder r). b \<noteq> 0 \<and> aligned b" using ne(8) by simp
  from successor_ok [OF cells(3) path r ne(7) this ne(2)] obtain m1 where
    m1: "rb_erase_successor dummy_callbacks a (root_of r) m = Some (parent_or s path, s, root_of x, m1)"
    "successor_out a path cs s x (rb_cells m1)" "\<forall>b. b \<notin> set (inorder r) \<longrightarrow> rb_cells m1 b = rb_cells m b"
    "rb_root m1 = rb_root m" "rb_aug m1 = rb_aug m" by blast
  define ns where "ns = \<lparr>pc = parent_or a path OR col_bit cs, rb_right = top_of path (root_of x), rb_left = root_of l\<rparr>"
  let ?m2 = "m1\<lparr>rb_cells := (rb_cells m1)(s \<mapsto> ns)\<rparr>"
  define H where "H = put_parent s l (rb_cells ?m2)"
  have s: "s \<noteq> 0" "s \<notin> set (inorder l)" "\<forall>b \<in> set (inorder l). b \<noteq> 0 \<and> aligned b" using ne(8,9,12) by auto
  have H: "H s = Some ns" "\<forall>b. b \<notin> insert s (set (inorder l)) \<longrightarrow> H b = rb_cells m1 b" using s by (auto simp: H_def)
  have left: "left_of m1 a = Some (root_of l)" using m1(3) ne(1,4) cells(1) by (simp add: rb_access)
  have set: "set_left s (root_of l) m1 = Some ?m2" using m1(2) s(1) by (subst rb_access(11)) (auto simp: successor_out_def ns_def)
  have l1: "repr (rb_cells ?m2) a l" using cells(2) m1(3) ne(9) s(2) by (subst repr_cong [where H = "rb_cells m"]) auto
  have "root_of l \<noteq> 0" using root_in_tree [OF l] s(3) by auto
  with if_non_null_parent [of ?m2 a l s] l1 ne(2) s(3)
  have sp: "rb_set_parent (root_of l) s ?m2 = Some (m1\<lparr>rb_cells := H\<rparr>)" by (simp add: if_non_null_def H_def)
  have same: "H b = rb_cells m1 b" if "b \<in> set (inorder r)" "b \<noteq> s" for b using that ne(9) H(2) by auto
  have "repr H s x" by (rule repr_cong [THEN iffD2, OF same]) (use ne(13,15) m1(2) in \<open>auto simp: successor_out_def\<close>)
  moreover have "repr_path H (root_of x) s path"
    by (rule repr_path_cong [THEN iffD2, OF same]) (use ne(14,16) m1(2) in \<open>auto simp: successor_out_def\<close>)
  moreover have "repr H s l" unfolding H_def by (rule put_parent_repr [OF l1 ne(6)])
  moreover have "\<forall>b. b \<notin> set (inorder l) \<union> set (inorder r) \<longrightarrow> H b = rb_cells m b" using H(2) m1(3) ne(12) by auto
  ultimately show thesis using H(1) m1(4,5) by (intro that [OF m1(1) left set sp]) (simp_all add: ns_def)
qed

text \<open>Then it takes the place of the node below the parent; what is left to do is its colour and the child.\<close>

lemma two_move:
  assumes at: "rb_at m fs (Node l c a r)" and l: "l \<noteq> Leaf" and r: "r \<noteq> Leaf" and path: "min_path r = (path, cs, s, x)"
  obtains m' where "rb_erase_augmented0 dummy_callbacks a m = (
      if root_of x \<noteq> 0 then do {
        m \<leftarrow> set_pc s (parent_of fs OR col_bit c) m';
        m \<leftarrow> rb_set_parent_color (root_of x) (parent_or s path) RB_BLACK m;
        Some (0, m) }
      else do {
        w2 \<leftarrow> pc_of m' s;
        m \<leftarrow> set_pc s (parent_of fs OR col_bit c) m';
        Some (if pc_black w2 then parent_or s path else 0, m) })"
    "rb_cells m' s = Some \<lparr>pc = parent_or a path OR col_bit cs, rb_right = top_of path (root_of x), rb_left = root_of l\<rparr>"
    "repr (rb_cells m') s x" "repr_path (rb_cells m') (root_of x) s path" "repr (rb_cells m') s l" "repr_ctx (rb_cells m') s fs"
    "rb_root m' = top_of fs s" "same_outside (tree_addrs fs (Node l c a r)) m m'"
proof -
  have wf: "wf_addrs (lefts fs @ inorder (Node l c a r) @ rights fs)" using at by (simp add: rb_at_def)
  note ne = two_addrs [OF wf r path] and par = wf_addrs_parts(4-6) [OF wf]
  from two_left [OF assms] obtain m1 m2 m3 where
    run: "rb_erase_successor dummy_callbacks a (root_of r) m = Some (parent_or s path, s, root_of x, m1)"
      "left_of m1 a = Some (root_of l)" "set_left s (root_of l) m1 = Some m2" "rb_set_parent (root_of l) s m2 = Some m3" and
    m3: "rb_cells m3 s = Some \<lparr>pc = parent_or a path OR col_bit cs, rb_right = top_of path (root_of x), rb_left = root_of l\<rparr>"
      "repr (rb_cells m3) s x" "repr_path (rb_cells m3) (root_of x) s path" "repr (rb_cells m3) s l"
      "\<forall>b. b \<notin> set (inorder l) \<union> set (inorder r) \<longrightarrow> rb_cells m3 b = rb_cells m b" "rb_root m3 = rb_root m" "rb_aug m3 = rb_aug m" .
  have cells: "rb_cells m a = Some \<lparr>pc = parent_of fs OR col_bit c, rb_right = root_of r, rb_left = root_of l\<rparr>"
    "repr_ctx (rb_cells m) a fs" "rb_root m = top_of fs a" using at by (simp_all add: rb_at_def)
  have "repr_ctx (rb_cells m3) a fs"
    by (rule repr_ctx_cong [THEN iffD2, OF _ cells(2)]) (use m3(5) ne(10,11) in auto)
  from change_child_ok [of m3 a fs s] this ne(1,5) par(1,3) obtain m4 where
    m4: "rb_change_child a s (parent_of fs) m3 = Some m4" "repr_ctx (rb_cells m4) s fs"
    "\<forall>b. b \<notin> ctx_addrs fs \<longrightarrow> rb_cells m4 b = rb_cells m3 b" "rb_root m4 = (if fs = [] then s else rb_root m3)"
    "rb_aug m4 = rb_aug m3" by auto
  have pc: "pc_of m3 a = Some (parent_of fs OR col_bit c)" using m3(5) ne(1,3,4) cells(1) by (simp add: rb_access)
  have nz: "root_of r \<noteq> 0" "root_of l \<noteq> 0" using root_in_tree [OF r] root_in_tree [OF l] ne(8) by auto
  have same: "rb_cells m4 b = rb_cells m3 b" if "b \<in> set (inorder l) \<union> set (inorder r)" for b using that m4(3) ne(10,11) by auto
  have "repr (rb_cells m4) s x" by (rule repr_cong [THEN iffD2, OF same m3(2)]) (use ne(15) in auto)
  moreover have "repr_path (rb_cells m4) (root_of x) s path" by (rule repr_path_cong [THEN iffD2, OF same m3(3)]) (use ne(16) in auto)
  moreover have "repr (rb_cells m4) s l" by (rule repr_cong [THEN iffD2, OF same m3(4)]) simp
  moreover have "rb_root m4 = top_of fs s" using m4(4) m3(6) cells(3) top_of_other [of fs a s] by (cases fs) auto
  moreover have "same_outside (tree_addrs fs (Node l c a r)) m m4" using m4(3,5) m3(5,7) by (simp add: same_outside_def ctx_addrs_def)
  ultimately show thesis using m3(1) same ne(12) m4(2)
    by (intro that) (use run cells(1) ne(1) nz m4(1) par(2) pc in \<open>simp_all add: rb_erase_augmented0_def rb_access Let_def\<close>)
qed

lemma unlink_two:
  assumes at: "rb_at m fs (Node l c a r)" and l: "l \<noteq> Leaf" and r: "r \<noteq> Leaf"
    and path: "min_path r = (path, cs, s, x)"
  shows "\<exists>m'. rb_erase_augmented0 dummy_callbacks a m =
             Some (if x = Leaf \<and> cs = Black then parent_or s path else 0, m') \<and>
           rb_at m' (path @ RightHole l c s # fs) (paint Black x) \<and>
           same_outside (tree_addrs fs (Node l c a r)) m m'"
proof -
  have wf: "wf_addrs (lefts fs @ inorder (Node l c a r) @ rights fs)" using at by (simp add: rb_at_def)
  note ne = two_addrs [OF wf r path] and ord = inorder_min_path [OF r path]
  let ?w = "parent_of fs OR col_bit c"
  define ns where "ns = \<lparr>pc = parent_or a path OR col_bit cs, rb_right = top_of path (root_of x), rb_left = root_of l\<rparr>"
  from two_move [OF assms] obtain m4 where run: "rb_erase_augmented0 dummy_callbacks a m = (
      if root_of x \<noteq> 0 then do {
        m \<leftarrow> set_pc s ?w m4;
        m \<leftarrow> rb_set_parent_color (root_of x) (parent_or s path) RB_BLACK m;
        Some (0, m) }
      else do {
        w2 \<leftarrow> pc_of m4 s;
        m \<leftarrow> set_pc s ?w m4;
        Some (if pc_black w2 then parent_or s path else 0, m) })" and
    m4: "rb_cells m4 s = Some ns" "repr (rb_cells m4) s x" "repr_path (rb_cells m4) (root_of x) s path" "repr (rb_cells m4) s l"
      "repr_ctx (rb_cells m4) s fs" "rb_root m4 = top_of fs s" "same_outside (tree_addrs fs (Node l c a r)) m m4" unfolding ns_def .
  have s: "s \<noteq> 0" "s \<notin> set (inorder l)" "s \<notin> ctx_addrs fs" "\<forall>b \<in> set (inorder x). b \<noteq> 0 \<and> aligned b" using ne(8,9,11,12,15) by auto
  define H where "H = put_black (parent_or s path) x ((rb_cells m4)(s \<mapsto> ns\<lparr>pc := ?w\<rparr>))"
  have H: "H s = Some (ns\<lparr>pc := ?w\<rparr>)" "\<And>b. b \<noteq> s \<Longrightarrow> b \<notin> set (inorder x) \<Longrightarrow> H b = rb_cells m4 b" using ne(13) by (auto simp: H_def)
  have run: "rb_erase_augmented0 dummy_callbacks a m = Some (if x = Leaf \<and> cs = Black then parent_or s path else 0, m4\<lparr>rb_cells := H\<rparr>)"
  proof (cases x)
    case Leaf
    with m4(1) s(1) ne(19) show ?thesis by (simp add: run rb_access H_def put_black_def ns_def)
  next
    case (Node xl xc b xr)
    with s(4) ne(13) have "b \<noteq> 0" "b \<noteq> s" by auto
    moreover from m4(2) Node have "rb_cells m4 b = Some \<lparr>pc = s OR col_bit xc, rb_right = root_of xr, rb_left = root_of xl\<rparr>" by simp
    ultimately show ?thesis using Node m4(1) s(1) by (simp add: run rb_access H_def put_black_def)
  qed
  have "repr ((rb_cells m4)(s \<mapsto> ns\<lparr>pc := ?w\<rparr>)) s x" using m4(2) ne(13) by simp
  then have "repr H (parent_or s path) (paint Black x)" unfolding H_def by (rule put_black_repr [OF _ ne(17)])
  moreover have "repr_path H (root_of x) s path" by (rule repr_path_cong [THEN iffD2, OF H(2) m4(3)]) (use ne(14,18) in auto)
  moreover have "repr H s l" by (rule repr_cong [THEN iffD2, OF H(2) m4(4)]) (use s(2) ne(9,15) in auto)
  moreover have "repr_ctx H s fs" by (rule repr_ctx_cong [THEN iffD2, OF H(2) m4(5)]) (use s(3) ne(11,15) in auto)
  moreover have "wf_addrs (lefts fs @ inorder l @ s # inorder x @ rights path @ rights fs)" using wf ord by (auto simp: wf_addrs_def)
  ultimately have "rb_at (m4\<lparr>rb_cells := H\<rparr>) (path @ RightHole l c s # fs) (paint Black x)"
    using H(1) ord(2) m4(6) by (simp add: rb_at_def repr_ctx_append parent_of_append top_of_append ns_def)
  moreover have "H b = rb_cells m4 b" if "b \<notin> tree_addrs fs (Node l c a r)" for b by (rule H(2)) (use that ne(12,15) in auto)
  then have "same_outside (tree_addrs fs (Node l c a r)) m (m4\<lparr>rb_cells := H\<rparr>)" using m4(7) by (simp add: same_outside_def)
  ultimately show ?thesis using run by blast
qed

section \<open>Removal\<close>

lemma unlink_ok:
  assumes at: "rb_at m fs (Node l c a r)" and hole: "del_hole fs l c r = (short, gs, t)"
  shows "\<exists>m'. rb_erase_augmented0 dummy_callbacks a m = Some (if short then parent_of gs else 0, m') \<and>
           rb_at m' gs t \<and> same_outside (tree_addrs fs (Node l c a r)) m m'"
proof -
  consider "l = Leaf" | "l \<noteq> Leaf" "r = Leaf" | "l \<noteq> Leaf" "r \<noteq> Leaf" by blast
  then show ?thesis
  proof cases
    case 1
    with unlink_no_left [of m fs c a r] at hole show ?thesis by (auto split: if_splits)
  next
    case 2
    with hole have "short = False" "gs = fs" "t = paint c l" by (cases l; simp)+
    with unlink_no_right [of m fs l c a] at 2 show ?thesis by auto
  next
    case 3
    obtain path cs s x where path: "min_path r = (path, cs, s, x)" by (metis prod_cases4)
    with hole 3 have "short = (x = Leaf \<and> cs = Black)" "gs = path @ RightHole l c s # fs" "t = paint Black x"
      by (cases l; cases r; simp)+
    then have "(if short then parent_of gs else 0) = (if x = Leaf \<and> cs = Black then parent_or s path else 0)"
      by (simp add: parent_of_append)
    with unlink_two [OF at 3 path] show ?thesis
      unfolding \<open>gs = path @ RightHole l c s # fs\<close> \<open>t = paint Black x\<close> by simp
  qed
qed

lemma del_hole_short: "del_hole fs l c r = (short, gs, t) \<Longrightarrow> short \<Longrightarrow> t = Leaf"
  by (cases l; cases r) (auto split: prod.splits)

lemma same_outside_mono: "same_outside A m m' \<Longrightarrow> A \<subseteq> B \<Longrightarrow> same_outside B m m'"
  by (auto simp: same_outside_def)

lemma rb_erase_ok:
  assumes at: "rb_at m fs (Node l c a r)" and rb: "rb_tree (plug fs (Node l c a r))"
  shows "\<exists>m' t'. rb_erase a m = Some m' \<and> rb_repr m' t' \<and> rb_tree t' \<and>
           inorder t' = lefts fs @ inorder l @ inorder r @ rights fs \<and>
           same_outside (tree_addrs fs (Node l c a r)) m m'"
proof -
  obtain short gs t where hole: "del_hole fs l c r = (short, gs, t)" by (metis prod_cases3)
  from unlink_ok [OF at hole] obtain m1 where
    m1: "rb_erase_augmented0 dummy_callbacks a m = Some (if short then parent_of gs else 0, m1)"
    "rb_at m1 gs t" "same_outside (tree_addrs fs (Node l c a r)) m m1" by blast
  from del_correct [OF rb] obtain t' where
    t': "del fs l c r = Some t'" "rb_tree t'" "inorder t' = lefts fs @ inorder l @ inorder r @ rights fs" by blast
  have sub: "tree_addrs gs t \<subseteq> tree_addrs fs (Node l c a r)"
    using inorder_del_hole [OF hole] by auto
  show ?thesis
  proof (cases "short \<and> gs \<noteq> []")
    case True
    then obtain f gs' where gs: "gs = f # gs'" by (cases gs) auto
    have "del_fix (f # gs') t = Some t'" using t'(1) hole True gs by (simp add: del_def)
    from erase_loop_ok [OF m1(2) [unfolded gs] this] obtain m' where
      m': "rb_erase_loop dummy_rotate 0 (frame_addr f) m1 = Some m'" "rb_repr m' t'"
      "same_outside (tree_addrs gs t) m1 m'" using del_hole_short [OF hole] True gs by auto
    moreover have "frame_addr f \<noteq> 0"
      using wf_addrs_parts(4) [of gs t] parent_in_ctx [of gs] m1(2) gs by (auto simp: rb_at_def)
    ultimately have "rb_erase a m = Some m'"
      using m1(1) True gs by (simp add: rb_erase_def rb_erase_color_def)
    with m' t' same_outside_trans [OF m1(3) same_outside_mono [OF m'(3) sub]] show ?thesis by auto
  next
    case False
    then have "rb_erase a m = Some m1" using m1(1) by (auto simp: rb_erase_def)
    moreover have "t' = plug gs t" using t'(1) hole False by (auto simp: del_def split: if_splits)
    ultimately show ?thesis using m1 t' by (intro exI [of _ m1] exI [of _ t']) (simp add: rb_repr_plug)
  qed
qed

end
