(* ===== verification/Rb_Traverse.thy ===== *)
theory Rb_Traverse
  imports Rb_Unlink
begin

text \<open>
  The traversal functions of \<^verbatim>\<open>rbtree.c\<close> against the node order of the tree: first, last, next and
  previous follow the inorder listing, the postorder functions the postorder listing, and
  \<^verbatim>\<open>rb_replace_node\<close> puts a new node in the place of an old one. NULL marks the end of a listing.
\<close>

section \<open>Positions in a listing\<close>

definition head_or_null :: "addr list \<Rightarrow> addr" where
  "head_or_null xs = (case xs of [] \<Rightarrow> 0 | a # _ \<Rightarrow> a)"

definition last_or_null :: "addr list \<Rightarrow> addr" where
  "last_or_null xs = head_or_null (rev xs)"

lemma head_or_null_simps [simp]:
  "head_or_null [] = 0" "head_or_null (a # xs) = a"
  "xs \<noteq> [] \<Longrightarrow> head_or_null (xs @ ys) = head_or_null xs"
  "last_or_null [] = 0" "last_or_null [a] = a" "last_or_null (xs @ [a]) = a"
  by (auto simp: head_or_null_def last_or_null_def split: list.splits)

lemma last_or_null_append [simp]:
  "ys \<noteq> [] \<Longrightarrow> last_or_null (xs @ ys) = last_or_null ys"
  "last_or_null (xs @ a # ys) = last_or_null (a # ys)"
  by (simp add: last_or_null_def, cases "rev ys", simp_all add: last_or_null_def)

lemma inorder_Nil [simp]: "inorder t = [] \<longleftrightarrow> t = Leaf"
  by (cases t) simp_all

lemma pc_parent_root [simp]: "pc_parent (col_bit c) = 0"
  using pc_parent_col [OF aligned_0, of c] by simp

lemma split_at_node:
  "a \<in> set (inorder t) \<Longrightarrow> \<exists>fs l c r. t = plug fs (Node l c a r)"
proof (induction t)
  case (Node l c b r)
  consider "a = b" | "a \<in> set (inorder l)" | "a \<in> set (inorder r)" using Node.prems by auto
  then show ?case
  proof cases
    case 1
    then have "Node l c b r = plug [] (Node l c a r)" by simp
    then show ?thesis by blast
  next
    case 2
    with Node.IH(1) obtain fs l' c' r' where "l = plug fs (Node l' c' a r')" by blast
    then have "Node l c b r = plug (fs @ [LeftHole c b r]) (Node l' c' a r')" by (simp add: plug_append)
    then show ?thesis by blast
  next
    case 3
    with Node.IH(2) obtain fs l' c' r' where "r = plug fs (Node l' c' a r')" by blast
    then have "Node l c b r = plug (fs @ [RightHole l c b]) (Node l' c' a r')" by (simp add: plug_append)
    then show ?thesis by blast
  qed
qed simp

lemma distinct_split:
  "distinct (xs @ a # ys) \<Longrightarrow> xs @ a # ys = xs' @ a # ys' \<longleftrightarrow> xs = xs' \<and> ys = ys'"
  by (auto simp: append_eq_append_conv2 append_eq_Cons_conv Cons_eq_append_conv)

text \<open>A node of a tree in memory, seen from the tree and from its position.\<close>

lemma node_position:
  assumes "rb_repr m t" "inorder t = xs @ a # ys"
  obtains fs l c r where "t = plug fs (Node l c a r)" "rb_at m fs (Node l c a r)"
    "xs = lefts fs @ inorder l" "ys = inorder r @ rights fs"
proof -
  obtain fs l c r where t: "t = plug fs (Node l c a r)" using split_at_node [of a t] assms(2) by auto
  have "distinct (xs @ a # ys)" using assms by (simp add: rb_repr_def wf_addrs_def)
  moreover have "xs @ a # ys = (lefts fs @ inorder l) @ a # inorder r @ rights fs" using assms(2) t by simp
  ultimately have "xs = lefts fs @ inorder l \<and> ys = inorder r @ rights fs" using distinct_split by metis
  with that t assms(1) show ?thesis by (simp add: rb_repr_plug)
qed

section \<open>In order\<close>

lemma leftmost_ok:
  assumes "repr (rb_cells m) p t" "t \<noteq> Leaf" "\<forall>a \<in> set (inorder t). a \<noteq> 0 \<and> aligned a"
  shows "leftmost m (root_of t) = Some (head_or_null (inorder t))"
  using assms
proof (induction t arbitrary: p)
  case (Node l c a r)
  have "root_of l = 0 \<longleftrightarrow> l = Leaf" using Node.prems(3) by (intro root_0_iff) auto
  with Node show ?case by (subst leftmost.simps) (auto simp: rb_access)
qed simp

lemma rightmost_ok:
  assumes "repr (rb_cells m) p t" "t \<noteq> Leaf" "\<forall>a \<in> set (inorder t). a \<noteq> 0 \<and> aligned a"
  shows "rightmost m (root_of t) = Some (last_or_null (inorder t))"
  using assms
proof (induction t arbitrary: p)
  case (Node l c a r)
  have "root_of r = 0 \<longleftrightarrow> r = Leaf" using Node.prems(3) by (intro root_0_iff) auto
  moreover have "last_or_null (inorder l @ a # inorder r) = (if r = Leaf then a else last_or_null (inorder r))"
    using last_or_null_append(1) [of "inorder r" "inorder l @ [a]"] by (cases r) auto
  ultimately show ?case using Node by (subst rightmost.simps) (auto simp: rb_access)
qed simp

lemma next_up_ok:
  assumes "rb_at m fs t" "t \<noteq> Leaf"
  shows "rb_next_up m (root_of t) = Some (head_or_null (rights fs))"
  using assms
proof (induction fs arbitrary: t)
  case Nil
  then show ?case by (cases t) (auto simp: rb_at_def wf_addrs_def rb_next_up.simps [of m] rb_access)
next
  case (Cons f fs)
  obtain tl tc n tr where t: "t = Node tl tc n tr" using Cons.prems(2) by (cases t) auto
  note wf = wf_addrs_parts [of "f # fs" t]
  show ?case
  proof (cases f)
    case (LeftHole c a r)
    have "root_of t \<noteq> root_of r"
      by (rule roots_differ [of "lefts fs @ inorder (Node t c a r) @ rights fs"])
         (use Cons.prems LeftHole in \<open>auto simp: rb_at_def wf_addrs_def\<close>)
    with Cons.prems LeftHole t show ?thesis
      by (subst rb_next_up.simps) (auto simp: rb_at_def wf_addrs_def rb_access)
  next
    case (RightHole l c a)
    have "rb_at m fs (Node l c a t)" using Cons.prems(1) RightHole by (simp add: rb_repr_plug [symmetric])
    with Cons.IH [of "Node l c a t"] Cons.prems RightHole t show ?thesis
      by (subst rb_next_up.simps) (auto simp: rb_at_def wf_addrs_def rb_access)
  qed
qed

lemma prev_up_ok:
  assumes "rb_at m fs t" "t \<noteq> Leaf"
  shows "rb_prev_up m (root_of t) = Some (last_or_null (lefts fs))"
  using assms
proof (induction fs arbitrary: t)
  case Nil
  then show ?case by (cases t) (auto simp: rb_at_def wf_addrs_def rb_prev_up.simps [of m] rb_access)
next
  case (Cons f fs)
  obtain tl tc n tr where t: "t = Node tl tc n tr" using Cons.prems(2) by (cases t) auto
  show ?case
  proof (cases f)
    case (LeftHole c a r)
    have "rb_at m fs (Node t c a r)" using Cons.prems(1) LeftHole by (simp add: rb_repr_plug [symmetric])
    with Cons.IH [of "Node t c a r"] Cons.prems LeftHole t show ?thesis
      by (subst rb_prev_up.simps) (auto simp: rb_at_def wf_addrs_def rb_access)
  next
    case (RightHole l c a)
    have "root_of t \<noteq> root_of l"
      by (rule roots_differ [of "lefts fs @ inorder (Node l c a t) @ rights fs"])
         (use Cons.prems RightHole in \<open>auto simp: rb_at_def wf_addrs_def\<close>)
    with Cons.prems RightHole t show ?thesis
      by (subst rb_prev_up.simps) (auto simp: rb_at_def wf_addrs_def rb_access)
  qed
qed

text \<open>A node of a tree is never mistaken for a cleared one, whose parent pointer is the node itself.\<close>

lemma not_empty_node:
  assumes "rb_at m fs (Node l c a r)"
  shows "parent_of fs OR col_bit c \<noteq> a"
proof
  assume eq: "parent_of fs OR col_bit c = a"
  have wf: "a \<noteq> 0" "aligned a" "aligned (parent_of fs)" "a \<notin> ctx_addrs fs"
    using wf_addrs_parts [of fs "Node l c a r"] assms by (auto simp: rb_at_def)
  from pc_parent_col [OF wf(3), of c] eq wf(2) have "parent_of fs = a" by simp
  with wf(1,4) parent_in_ctx [of fs] show False by (cases "fs = []") auto
qed

lemma rb_next_ok:
  assumes at: "rb_at m fs (Node l c a r)"
  shows "rb_next m a = Some (head_or_null (inorder r @ rights fs))"
proof -
  have wf: "\<forall>a \<in> set (inorder r). a \<noteq> 0 \<and> aligned a" "a \<noteq> 0"
    using wf_addrs_parts(3) [of fs "Node l c a r"] at by (auto simp: rb_at_def)
  have cell: "rb_cells m a = Some \<lparr>pc = parent_of fs OR col_bit c, rb_right = root_of r, rb_left = root_of l\<rparr>"
    "repr (rb_cells m) a r" using at by (simp_all add: rb_at_def)
  show ?thesis
  proof (cases "r = Leaf")
    case True
    with next_up_ok [OF at] cell wf not_empty_node [OF at] show ?thesis by (simp add: rb_next_def rb_empty_node_def rb_access)
  next
    case False
    with leftmost_ok [OF cell(2) False wf(1)] cell wf(2) not_empty_node [OF at] root_0_iff [OF wf(1)]
    show ?thesis by (simp add: rb_next_def rb_empty_node_def rb_access)
  qed
qed

lemma rb_prev_ok:
  assumes at: "rb_at m fs (Node l c a r)"
  shows "rb_prev m a = Some (last_or_null (lefts fs @ inorder l))"
proof -
  have wf: "\<forall>a \<in> set (inorder l). a \<noteq> 0 \<and> aligned a" "a \<noteq> 0"
    using wf_addrs_parts(3) [of fs "Node l c a r"] at by (auto simp: rb_at_def)
  have cell: "rb_cells m a = Some \<lparr>pc = parent_of fs OR col_bit c, rb_right = root_of r, rb_left = root_of l\<rparr>"
    "repr (rb_cells m) a l" using at by (simp_all add: rb_at_def)
  show ?thesis
  proof (cases "l = Leaf")
    case True
    with prev_up_ok [OF at] cell wf not_empty_node [OF at] show ?thesis by (simp add: rb_prev_def rb_empty_node_def rb_access)
  next
    case False
    with rightmost_ok [OF cell(2) False wf(1)] cell wf(2) not_empty_node [OF at] root_0_iff [OF wf(1)]
    show ?thesis by (simp add: rb_prev_def rb_empty_node_def rb_access)
  qed
qed

lemma rb_repr_parts:
  assumes "rb_repr m t"
  shows "repr (rb_cells m) 0 t" "rb_root m = root_of t" "\<forall>a \<in> set (inorder t). a \<noteq> 0 \<and> aligned a"
    "rb_root m = 0 \<longleftrightarrow> t = Leaf"
  using assms root_0_iff [of t] by (auto simp: rb_repr_def wf_addrs_def)

lemma rb_first_ok: "rb_repr m t \<Longrightarrow> rb_first m = Some (head_or_null (inorder t))"
  using rb_repr_parts [of m t] leftmost_ok [of m 0 t] by (cases "t = Leaf") (auto simp: rb_first_def)

lemma rb_last_ok: "rb_repr m t \<Longrightarrow> rb_last m = Some (last_or_null (inorder t))"
  using rb_repr_parts [of m t] rightmost_ok [of m 0 t] by (cases "t = Leaf") (auto simp: rb_last_def)

section \<open>Postorder\<close>

fun postorder :: "rbt \<Rightarrow> addr list" where
  "postorder Leaf = []"
| "postorder (Node l c a r) = postorder l @ postorder r @ [a]"

text \<open>What follows a subtree in the postorder listing of the whole tree.\<close>

fun post_rest :: "frame list \<Rightarrow> addr list" where
  "post_rest [] = []"
| "post_rest (LeftHole c a r # fs) = postorder r @ a # post_rest fs"
| "post_rest (RightHole l c a # fs) = a # post_rest fs"

lemma set_postorder [simp]: "set (postorder t) = set (inorder t)"
  by (induction t) auto

lemma postorder_Nil [simp]: "postorder t = [] \<longleftrightarrow> t = Leaf"
  by (cases t) auto

fun post_before :: "frame list \<Rightarrow> addr list" where
  "post_before [] = []"
| "post_before (LeftHole c a r # fs) = post_before fs"
| "post_before (RightHole l c a # fs) = post_before fs @ postorder l"

lemma postorder_plug: "postorder (plug fs t) = post_before fs @ postorder t @ post_rest fs"
  by (induction fs t rule: plug.induct) simp_all

lemma left_deepest_ok:
  assumes "repr (rb_cells m) p t" "t \<noteq> Leaf" "\<forall>a \<in> set (inorder t). a \<noteq> 0 \<and> aligned a"
  shows "rb_left_deepest_node m (root_of t) = Some (head_or_null (postorder t))"
  using assms
proof (induction t arbitrary: p)
  case (Node l c a r)
  have "root_of l = 0 \<longleftrightarrow> l = Leaf" "root_of r = 0 \<longleftrightarrow> r = Leaf"
    using Node.prems(3) by (intro root_0_iff; auto)+
  with Node show ?case by (subst rb_left_deepest_node.simps) (auto simp: rb_access)
qed simp

lemma rb_next_postorder_ok:
  assumes at: "rb_at m fs (Node l c a r)"
  shows "rb_next_postorder m a = Some (head_or_null (post_rest fs))"
proof -
  have wf: "a \<noteq> 0" "aligned (parent_of fs)" "\<forall>b \<in> ctx_addrs fs. b \<noteq> 0 \<and> aligned b"
    using wf_addrs_parts [of fs "Node l c a r"] at by (auto simp: rb_at_def)
  have cell: "rb_cells m a = Some \<lparr>pc = parent_of fs OR col_bit c, rb_right = root_of r, rb_left = root_of l\<rparr>"
    "repr_ctx (rb_cells m) a fs" using at by (simp_all add: rb_at_def)
  show ?thesis
  proof (cases fs)
    case Nil
    with cell wf show ?thesis by (simp add: rb_next_postorder_def rb_access)
  next
    case (Cons f gs)
    show ?thesis
    proof (cases f)
      case (LeftHole d p u)
      have "\<forall>a \<in> set (inorder u). a \<noteq> 0 \<and> aligned a" "p \<noteq> 0" using wf(3) Cons LeftHole by auto
      moreover from this have "root_of u = 0 \<longleftrightarrow> u = Leaf" by (intro root_0_iff)
      ultimately show ?thesis using cell wf Cons LeftHole left_deepest_ok [of m p u]
        by (auto simp: rb_next_postorder_def rb_access)
    next
      case (RightHole u d p)
      have "root_of (Node l c a r) \<noteq> root_of u"
        by (rule roots_differ [of "lefts gs @ inorder (Node u d p (Node l c a r)) @ rights gs"])
           (use at Cons RightHole in \<open>auto simp: rb_at_def wf_addrs_def\<close>)
      moreover have "p \<noteq> 0" using wf(3) Cons RightHole by auto
      ultimately show ?thesis using cell wf Cons RightHole
        by (auto simp: rb_next_postorder_def rb_access)
    qed
  qed
qed

lemma rb_first_postorder_ok: "rb_repr m t \<Longrightarrow> rb_first_postorder m = Some (head_or_null (postorder t))"
  using rb_repr_parts [of m t] left_deepest_ok [of m 0 t]
  by (cases "t = Leaf") (auto simp: rb_first_postorder_def)

section \<open>Replacing a node\<close>

lemma rb_replace_node_ok:
  assumes at: "rb_at m fs (Node l c a r)"
    and new: "new \<noteq> 0" "aligned new" "new \<notin> tree_addrs fs (Node l c a r)" "rb_cells m new = Some n0"
  shows "\<exists>m'. rb_replace_node a new m = Some m' \<and> rb_at m' fs (Node l c new r) \<and>
           same_outside (insert new (tree_addrs fs (Node l c a r))) m m'"
proof -
  let ?n = "\<lparr>pc = parent_of fs OR col_bit c, rb_right = root_of r, rb_left = root_of l\<rparr>"
  have wf': "wf_addrs (lefts fs @ inorder (Node l c a r) @ rights fs)" using at by (simp add: rb_at_def)
  note wf = wf_addrs_parts [OF wf']
  have cells: "rb_cells m a = Some ?n" "repr (rb_cells m) a l" "repr (rb_cells m) a r" "repr_ctx (rb_cells m) a fs"
    "rb_root m = top_of fs a"
    using at by (simp_all add: rb_at_def)
  have ne: "a \<noteq> 0" "aligned a" "a \<notin> set (inorder r)" "a \<notin> set (inorder l)" "a \<notin> ctx_addrs fs" "new \<noteq> a"
    "new \<notin> set (inorder r)" "new \<notin> set (inorder l)" "new \<notin> ctx_addrs fs"
    "\<forall>b \<in> set (inorder r). b \<noteq> 0 \<and> aligned b" "\<forall>b \<in> set (inorder l). b \<noteq> 0 \<and> aligned b"
    "distinct (inorder l)" "distinct (inorder r)" "set (inorder l) \<inter> set (inorder r) = {}"
    "set (inorder l) \<inter> ctx_addrs fs = {}" "set (inorder r) \<inter> ctx_addrs fs = {}"
    using wf(1-3) new(3) by (auto simp: ctx_addrs_def)
  from change_child_ok [OF cells(4) ne(1,5) wf(4,6), of new] obtain m1 where
    m1: "rb_change_child a new (parent_of fs) m = Some m1" "repr_ctx (rb_cells m1) new fs"
    "\<forall>b. b \<notin> ctx_addrs fs \<longrightarrow> rb_cells m1 b = rb_cells m b"
    "rb_root m1 = (if fs = [] then new else rb_root m)" "rb_aug m1 = rb_aug m" by blast
  define H2 where "H2 = put_parent new l (rb_cells m1)"
  define H3 where "H3 = put_parent new r H2"
  have l1: "repr (rb_cells m1) a l"
    by (rule repr_cong [THEN iffD2, OF _ cells(2)]) (use m1(3) ne(15) in blast)
  have r2: "repr H2 a r" unfolding H2_def
    by (subst repr_put_parent; (rule repr_cong [THEN iffD2, OF _ cells(3)])?) (use m1(3) ne(14,16) in blast)+
  have sp: "if_non_null (root_of l) (\<lambda>t. rb_set_parent t new) m1 = Some (m1\<lparr>rb_cells := H2\<rparr>)"
    "if_non_null (root_of r) (\<lambda>t. rb_set_parent t new) (m1\<lparr>rb_cells := H2\<rparr>) = Some (m1\<lparr>rb_cells := H3\<rparr>)"
    using if_non_null_parent [OF l1 ne(2,11)] if_non_null_parent [of "m1\<lparr>rb_cells := H2\<rparr>" a r new] r2 ne(2,10)
    by (simp_all add: H2_def H3_def)
  have same: "H3 b = rb_cells m1 b" "H2 b = rb_cells m1 b"
    if "b \<notin> set (inorder l)" "b \<notin> set (inorder r)" for b
    using that by (simp_all add: H2_def H3_def)
  have "rb_replace_node a new m = Some (m1\<lparr>rb_cells := H3(new \<mapsto> ?n)\<rparr>)"
    using cells(1) ne(1,3-9) wf(5) m1(1,3) sp same new by (simp add: rb_replace_node_def rb_access)
  moreover have "rb_at (m1\<lparr>rb_cells := H3(new \<mapsto> ?n)\<rparr>) fs (Node l c new r)"
  proof -
    have "repr H2 new l" unfolding H2_def by (rule put_parent_repr [OF l1 ne(12)])
    moreover have "repr H3 new l = repr H2 new l" unfolding H3_def by (rule repr_put_parent [OF ne(14)])
    moreover have "repr H3 new r" unfolding H3_def by (rule put_parent_repr [OF r2 ne(13)])
    moreover have "repr_ctx H3 new fs"
    proof (rule repr_ctx_cong [THEN iffD2, OF _ m1(2)])
      fix b assume "b \<in> ctx_addrs fs"
      then show "H3 b = rb_cells m1 b" using ne(15,16) by (intro same) auto
    qed
    moreover have "wf_addrs (lefts fs @ inorder (Node l c new r) @ rights fs)"
      using wf' new ne by (auto simp: wf_addrs_def ctx_addrs_def)
    moreover have "rb_root m1 = top_of fs new"
      using m1(4) cells(5) top_of_other [of fs a new] by (cases fs) auto
    ultimately show ?thesis using ne by (simp add: rb_at_def)
  qed
  moreover have "same_outside (insert new (tree_addrs fs (Node l c a r))) m (m1\<lparr>rb_cells := H3(new \<mapsto> ?n)\<rparr>)"
    using same m1(3,5) by (simp add: same_outside_def ctx_addrs_def)
  ultimately show ?thesis by blast
qed

section \<open>Linking a leaf\<close>

text \<open>The cell that the insertion code stores through: the root pointer, or a child pointer of the parent.\<close>

fun link_at :: "frame list \<Rightarrow> addr \<Rightarrow> 'a rb_mem \<Rightarrow> 'a rb_mem option" where
  "link_at [] new m = Some (m\<lparr>rb_root := new\<rparr>)"
| "link_at (LeftHole c a r # fs) new m = set_left a new m"
| "link_at (RightHole l c a # fs) new m = set_right a new m"

lemma link_ok:
  assumes at: "rb_at m fs Leaf" and new: "new \<noteq> 0" "aligned new" "new \<notin> ctx_addrs fs" "rb_cells m new = Some n0"
  shows "\<exists>m'. rb_link_node new (parent_of fs) (link_at fs new) m = Some m' \<and>
           rb_at m' fs (Node Leaf Red new Leaf) \<and> same_outside (insert new (ctx_addrs fs)) m m'"
proof -
  define H where "H = (rb_cells m)(new \<mapsto> \<lparr>pc = parent_of fs, rb_right = 0, rb_left = 0\<rparr>)"
  have run: "rb_link_node new (parent_of fs) (link_at fs new) m = link_at fs new (m\<lparr>rb_cells := H\<rparr>)"
    using new by (cases n0) (simp add: rb_link_node_def rb_access H_def)
  have wf': "wf_addrs (lefts fs @ inorder Leaf @ rights fs)" using at by (simp add: rb_at_def)
  note wf = wf_addrs_parts [OF wf']
  have wfn: "wf_addrs (lefts fs @ inorder (Node Leaf Red new Leaf) @ rights fs)"
    using wf' new by (auto simp: wf_addrs_def ctx_addrs_def)
  have cells: "repr_ctx (rb_cells m) 0 fs" "rb_root m = top_of fs 0" using at by (simp_all add: rb_at_def)
  show ?thesis
  proof (cases fs)
    case Nil
    with run wfn new(4) show ?thesis by (simp add: rb_at_def same_outside_def H_def)
  next
    case (Cons f gs)
    show ?thesis
    proof (cases f)
      case (LeftHole c a r)
      with Cons new(3) wf(4,6) have "a \<noteq> 0" "a \<noteq> new" "a \<notin> set (inorder r)" "a \<notin> ctx_addrs gs" "new \<notin> set (inorder r)" "new \<notin> ctx_addrs gs"
        by (auto simp: ctx_addrs_def)
      with run wfn cells LeftHole Cons new(4) show ?thesis by (simp add: rb_at_def same_outside_def H_def rb_access)
    next
      case (RightHole l c a)
      with Cons new(3) wf(4,6) have "a \<noteq> 0" "a \<noteq> new" "a \<notin> set (inorder l)" "a \<notin> ctx_addrs gs" "new \<notin> set (inorder l)" "new \<notin> ctx_addrs gs"
        by (auto simp: ctx_addrs_def)
      with run wfn cells RightHole Cons new(4) show ?thesis by (simp add: rb_at_def same_outside_def H_def rb_access)
    qed
  qed
qed

end
