(* ===== verification/Rb_Properties.thy ===== *)
theory Rb_Properties
  imports Rb_Traverse
begin

text \<open>
  The properties of the red-black tree library: insertion and removal on memory keep the tree
  a red-black tree with the expected node order, traversal follows that order, and nothing
  outside the tree is written. Each comes with an instance on a small memory.
\<close>

section \<open>A small memory\<close>

definition demo_tree :: rbt where
  "demo_tree = Node (Node Leaf Red 8 Leaf) Black 16 (Node Leaf Red 24 Leaf)"

definition demo_mem :: "unit rb_mem" where
  "demo_mem = \<lparr>rb_cells = [8 \<mapsto> \<lparr>pc = 16, rb_right = 0, rb_left = 0\<rparr>, 16 \<mapsto> \<lparr>pc = 1, rb_right = 24, rb_left = 8\<rparr>,
     24 \<mapsto> \<lparr>pc = 16, rb_right = 0, rb_left = 0\<rparr>, 32 \<mapsto> \<lparr>pc = 32, rb_right = 0, rb_left = 0\<rparr>], rb_root = 16, rb_aug = ()\<rparr>"

lemma demo_repr: "rb_repr demo_mem demo_tree"
  by (simp add: rb_repr_def demo_mem_def demo_tree_def wf_addrs_def aligned_def)

lemma demo_rb: "rb_tree demo_tree"
  by (simp add: demo_tree_def rb_tree_def)

section \<open>Insertion and removal\<close>

text \<open>
  C20. Inserting a node. At any empty position of a red-black tree in memory, linking a fresh node
  with \<^verbatim>\<open>rb_link_node\<close> and calling \<^verbatim>\<open>rb_insert_color\<close> returns; the memory then holds a red-black
  tree whose nodes are the old ones in the old order with the new node at that position, and no other
  memory has changed.
\<close>

theorem rb_insert_correct:
  assumes "rb_repr m (plug fs Leaf)" "rb_tree (plug fs Leaf)"
    and "new \<noteq> 0" "aligned new" "new \<notin> set (inorder (plug fs Leaf))" "rb_cells m new = Some n"
  shows "\<exists>m' t'. Option.bind (rb_link_node new (parent_of fs) (link_at fs new) m) (rb_insert_color new) = Some m' \<and>
           rb_repr m' t' \<and> rb_tree t' \<and> inorder t' = lefts fs @ new # rights fs \<and>
           same_outside (insert new (set (inorder (plug fs Leaf)))) m m'"
proof -
  have "rb_at m fs Leaf" "new \<notin> ctx_addrs fs" using assms(1,5) by (simp_all add: rb_repr_plug ctx_addrs_def)
  from link_ok [OF this(1) assms(3,4) this(2) assms(6)] obtain m1 where
    m1: "rb_link_node new (parent_of fs) (link_at fs new) m = Some m1" "rb_at m1 fs (Node Leaf Red new Leaf)"
    "same_outside (insert new (ctx_addrs fs)) m m1" by blast
  from rb_insert_color_ok [OF m1(2) assms(2)] obtain m' t' where
    m': "rb_insert_color new m1 = Some m'" "rb_repr m' t'" "rb_tree t'" "inorder t' = lefts fs @ new # rights fs"
    "same_outside (tree_addrs fs (Node Leaf Red new Leaf)) m1 m'" by blast
  have "same_outside (insert new (set (inorder (plug fs Leaf)))) m m'"
    by (rule same_outside_trans [OF same_outside_mono [OF m1(3)] same_outside_mono [OF m'(5)]])
       (auto simp: ctx_addrs_def)
  with m1(1) m' show ?thesis by auto
qed

theorem rb_insert_correct_witness:
  "\<exists>m' t'. Option.bind (rb_link_node 32 24 (link_at [RightHole Leaf Red 24, RightHole (Node Leaf Red 8 Leaf) Black 16] 32) demo_mem)
       (rb_insert_color 32) = Some m' \<and> rb_repr m' t' \<and> rb_tree t' \<and> inorder t' = [8, 16, 24, 32]"
proof -
  let ?fs = "[RightHole Leaf Red 24, RightHole (Node Leaf Red 8 Leaf) Black 16]"
  have t: "plug ?fs Leaf = demo_tree" by (simp add: demo_tree_def)
  have "\<exists>n. rb_cells demo_mem 32 = Some n" by (simp add: demo_mem_def)
  then obtain n where n: "rb_cells demo_mem 32 = Some n" by blast
  have "(32::addr) \<noteq> 0" "aligned 32" "32 \<notin> set (inorder (plug ?fs Leaf))" by (simp_all add: aligned_def)
  from rb_insert_correct [OF _ _ this n] t demo_repr demo_rb show ?thesis by auto
qed

text \<open>
  C21. Removing a node. For every node of a red-black tree in memory \<^verbatim>\<open>rb_erase\<close> returns; the memory then
  holds a red-black tree with the remaining nodes in their order, and no memory outside the tree has changed.
\<close>

theorem rb_erase_correct:
  assumes "rb_repr m t" "rb_tree t" "inorder t = xs @ a # ys"
  shows "\<exists>m' t'. rb_erase a m = Some m' \<and> rb_repr m' t' \<and> rb_tree t' \<and> inorder t' = xs @ ys \<and>
           same_outside (set (inorder t)) m m'"
proof -
  from node_position [OF assms(1,3)] obtain fs l c r where
    p: "t = plug fs (Node l c a r)" "rb_at m fs (Node l c a r)" "xs = lefts fs @ inorder l" "ys = inorder r @ rights fs"
    by blast
  from rb_erase_ok [OF p(2) assms(2) [unfolded p(1)]] p(1,3,4) show ?thesis by simp
qed

theorem rb_erase_correct_witness:
  "\<exists>m' t'. rb_erase 16 demo_mem = Some m' \<and> rb_repr m' t' \<and> rb_tree t' \<and> inorder t' = [8, 24]"
  using rb_erase_correct [OF demo_repr demo_rb, of "[8]" 16 "[24]"] by (auto simp: demo_tree_def)

text \<open>
  Inserting a node and removing it again restores the listing: the memory holds a red-black tree with
  exactly the nodes of the start, in the same order.
\<close>

theorem rb_insert_erase_roundtrip:
  assumes "rb_repr m (plug fs Leaf)" "rb_tree (plug fs Leaf)"
    and "new \<noteq> 0" "aligned new" "new \<notin> set (inorder (plug fs Leaf))" "rb_cells m new = Some n"
  shows "\<exists>m' t'. Option.bind (rb_link_node new (parent_of fs) (link_at fs new) m)
             (\<lambda>m. Option.bind (rb_insert_color new m) (rb_erase new)) = Some m' \<and>
           rb_repr m' t' \<and> rb_tree t' \<and> inorder t' = inorder (plug fs Leaf)"
proof -
  have at: "rb_at m fs Leaf" "new \<notin> ctx_addrs fs" using assms(1,5) by (simp_all add: rb_repr_plug ctx_addrs_def)
  from link_ok [OF at(1) assms(3,4) at(2) assms(6)] obtain m1 where
    m1: "rb_link_node new (parent_of fs) (link_at fs new) m = Some m1" "rb_at m1 fs (Node Leaf Red new Leaf)" by blast
  from rb_insert_color_ok [OF m1(2) assms(2)] obtain m2 t2 where
    m2: "rb_insert_color new m1 = Some m2" "rb_repr m2 t2" "rb_tree t2" "inorder t2 = lefts fs @ new # rights fs" by blast
  from node_position [OF m2(2,4)] obtain gs l c r where
    p: "t2 = plug gs (Node l c new r)" "rb_at m2 gs (Node l c new r)" "lefts fs = lefts gs @ inorder l"
    "rights fs = inorder r @ rights gs" by blast
  from rb_erase_ok [OF p(2) m2(3) [unfolded p(1)]] m1(1) m2(1) p(3,4) show ?thesis by auto
qed

theorem rb_insert_erase_roundtrip_witness:
  "\<exists>m' t'. Option.bind (rb_link_node 32 8 (link_at [LeftHole Red 8 Leaf, LeftHole Black 16 (Node Leaf Red 24 Leaf)] 32) demo_mem)
       (\<lambda>m. Option.bind (rb_insert_color 32 m) (rb_erase 32)) = Some m' \<and> rb_repr m' t' \<and> rb_tree t' \<and> inorder t' = [8, 16, 24]"
proof -
  let ?fs = "[LeftHole Red 8 Leaf, LeftHole Black 16 (Node Leaf Red 24 Leaf)]"
  have t: "plug ?fs Leaf = demo_tree" by (simp add: demo_tree_def)
  have "\<exists>n. rb_cells demo_mem 32 = Some n" by (simp add: demo_mem_def)
  then obtain n where n: "rb_cells demo_mem 32 = Some n" by blast
  have "(32::addr) \<noteq> 0" "aligned 32" "32 \<notin> set (inorder (plug ?fs Leaf))" by (simp_all add: aligned_def)
  from rb_insert_erase_roundtrip [OF _ _ this n] t demo_repr demo_rb show ?thesis by auto
qed

section \<open>Traversal\<close>

text \<open>
  The walk over a tree: \<^verbatim>\<open>rb_first\<close> and \<^verbatim>\<open>rb_last\<close> return the ends of the listing, and from every node
  \<^verbatim>\<open>rb_next\<close> and \<^verbatim>\<open>rb_prev\<close> return the neighbours in it, NULL beyond the ends.
\<close>

theorem rb_walk:
  assumes "rb_repr m t" "inorder t = xs @ a # ys"
  shows "rb_first m = Some (head_or_null (inorder t)) \<and> rb_last m = Some (last_or_null (inorder t)) \<and>
         rb_next m a = Some (head_or_null ys) \<and> rb_prev m a = Some (last_or_null xs)"
proof -
  from node_position [OF assms] obtain fs l c r where
    p: "t = plug fs (Node l c a r)" "rb_at m fs (Node l c a r)" "xs = lefts fs @ inorder l" "ys = inorder r @ rights fs"
    by blast
  show ?thesis unfolding p(3,4)
    using rb_first_ok [OF assms(1)] rb_last_ok [OF assms(1)] rb_next_ok [OF p(2)] rb_prev_ok [OF p(2)] by blast
qed

theorem rb_walk_witness:
  "rb_first demo_mem = Some 8 \<and> rb_last demo_mem = Some 24 \<and> rb_next demo_mem 16 = Some 24 \<and> rb_prev demo_mem 16 = Some 8"
  using rb_walk [OF demo_repr, of "[8]" 16 "[24]"] by (simp add: demo_tree_def last_or_null_def)

text \<open>
  The postorder walk visits every node after both its subtrees: \<^verbatim>\<open>rb_first_postorder\<close> starts the postorder
  listing and \<^verbatim>\<open>rb_next_postorder\<close> returns, for a node at any position, the node that follows it there.
\<close>

theorem rb_postorder_walk:
  assumes "rb_repr m (plug fs (Node l c a r))"
  shows "rb_first_postorder m = Some (head_or_null (postorder (plug fs (Node l c a r)))) \<and>
         postorder (plug fs (Node l c a r)) = post_before fs @ postorder l @ postorder r @ a # post_rest fs \<and>
         rb_next_postorder m a = Some (head_or_null (post_rest fs))"
  using rb_first_postorder_ok [OF assms] rb_next_postorder_ok [of m fs l c a r] assms
  by (simp add: rb_repr_plug postorder_plug)

theorem rb_postorder_walk_witness:
  "rb_first_postorder demo_mem = Some 8 \<and> rb_next_postorder demo_mem 8 = Some 24"
  using rb_postorder_walk [of demo_mem "[LeftHole Black 16 (Node Leaf Red 24 Leaf)]" Leaf Red 8 Leaf] demo_repr
  by (simp add: demo_tree_def)

text \<open>
  \<^verbatim>\<open>rb_replace_node\<close> puts a fresh node in the place of a node of the tree: same shape and colours, the
  new node at the position of the old one, and nothing else written than the tree and the new node.
\<close>

theorem rb_replace_node_correct:
  assumes "rb_repr m (plug fs (Node l c a r))" "new \<noteq> 0" "aligned new"
    and "new \<notin> set (inorder (plug fs (Node l c a r)))" "rb_cells m new = Some n"
  shows "\<exists>m'. rb_replace_node a new m = Some m' \<and> rb_repr m' (plug fs (Node l c new r)) \<and>
           same_outside (insert new (set (inorder (plug fs (Node l c a r))))) m m'"
  using rb_replace_node_ok [of m fs l c a r new n] assms by (simp add: rb_repr_plug)

theorem rb_replace_node_correct_witness:
  "\<exists>m'. rb_replace_node 16 32 demo_mem = Some m' \<and>
        rb_repr m' (Node (Node Leaf Red 8 Leaf) Black 32 (Node Leaf Red 24 Leaf))"
proof -
  have "\<exists>n. rb_cells demo_mem 32 = Some n" by (simp add: demo_mem_def)
  then obtain n where n: "rb_cells demo_mem 32 = Some n" by blast
  have "plug [] (Node (Node Leaf Red 8 Leaf) Black 16 (Node Leaf Red 24 Leaf)) = demo_tree"
    "(32::addr) \<noteq> 0" "aligned 32" "32 \<notin> set (inorder demo_tree)"
    by (simp_all add: aligned_def demo_tree_def)
  with rb_replace_node_correct [of demo_mem "[]" "Node Leaf Red 8 Leaf" Black 16 "Node Leaf Red 24 Leaf" 32 n] n demo_repr
  have "\<exists>m'. rb_replace_node 16 32 demo_mem = Some m' \<and>
      rb_repr m' (plug [] (Node (Node Leaf Red 8 Leaf) Black 32 (Node Leaf Red 24 Leaf)))" by metis
  then show ?thesis by (simp only: plug.simps)
qed

end
