(* ===== verification/Seq_Buffer.thy ===== *)
theory Seq_Buffer
  imports Rb_Traverse
begin

text \<open>
  What the packet counters and the resequencing queue of \<^verbatim>\<open>reordering_buffer\<close> share: the serial number
  comparison \<^verbatim>\<open>before\<close> of their headers, and the search for the place of a sequence number in a tree
  of stored packets. The search follows a pointer to the link that is to be replaced, so links are
  values here: the root pointer, or a child pointer of a node.
\<close>

section \<open>Serial numbers\<close>

definition before :: "u32 \<Rightarrow> u32 \<Rightarrow> bool" where
  "before seq1 seq2 \<longleftrightarrow> (seq1 - seq2) <s 0"

definition after :: "u32 \<Rightarrow> u32 \<Rightarrow> bool" where
  "after seq2 seq1 = before seq1 seq2"

text \<open>Sequence numbers that lie within half of the number space from some base.\<close>

definition in_window :: "u32 set \<Rightarrow> bool" where
  "in_window X \<longleftrightarrow> (\<exists>b. \<forall>x \<in> X. unat (x - b) < 2 ^ 31)"

lemma before_unat: "before x y \<longleftrightarrow> 2 ^ 31 \<le> unat (x - y)"
proof -
  have "before x y \<longleftrightarrow> bit (x - y) 31"
    by (simp add: before_def word_sless_alt sint_uint signed_take_bit_negative_iff bit_uint_iff)
  also have "\<dots> \<longleftrightarrow> 2 ^ 31 \<le> unat (x - y)"
    using top_bit_nat [of "unat (x - y)" 31] unsigned_less [of "x - y", where ?'a = nat] by (simp add: bit_unat)
  finally show ?thesis .
qed

lemma before_irrefl [simp]: "\<not> before x x"
  by (simp add: before_unat)

lemma before_window:
  assumes "unat (x - b) < 2 ^ 31" "unat (y - b) < 2 ^ 31"
  shows "before x y \<longleftrightarrow> unat (x - b) < unat (y - b)"
proof -
  have "x - y = (x - b) - (y - b)" by simp
  then have "unat (x - y) = (if unat (y - b) \<le> unat (x - b) then unat (x - b) - unat (y - b)
      else unat (x - b) + 2 ^ 32 - unat (y - b))"
    using unat_sub_if' [of "x - b" "y - b"] by simp
  with assms show ?thesis unfolding before_unat by (simp split: if_splits; linarith)
qed

text \<open>Two numbers neither of which comes before the other are equal: the search never takes a different number for a retransmission.\<close>

lemma before_total: "\<not> before x y \<Longrightarrow> \<not> before y x \<Longrightarrow> x = y"
proof -
  assume a: "\<not> before x y" "\<not> before y x"
  have "y - x = - (x - y)" by simp
  then have "unat (x - y) = 0"
    using a unat_sub_if' [of 0 "x - y"] by (auto simp: before_unat split: if_splits)
  then show "x = y" by (simp add: unat_eq_zero)
qed

lemma in_window_subset: "in_window X \<Longrightarrow> Y \<subseteq> X \<Longrightarrow> in_window Y"
  by (auto simp: in_window_def)

lemma before_trans_window:
  assumes "in_window {x, y, z}" "before x y" "before y z"
  shows "before x z"
proof -
  from assms(1) obtain b where "unat (x - b) < 2 ^ 31" "unat (y - b) < 2 ^ 31" "unat (z - b) < 2 ^ 31"
    by (auto simp: in_window_def)
  with assms(2,3) show ?thesis by (simp add: before_window [of _ b])
qed

lemma before_asym_window: "in_window {x, y} \<Longrightarrow> before x y \<Longrightarrow> \<not> before y x"
  by (auto simp: in_window_def before_window)

section \<open>Links\<close>

datatype rb_link = RootLink | LeftLink addr | RightLink addr

fun link_deref :: "'a rb_mem \<Rightarrow> rb_link \<Rightarrow> addr option" where
  "link_deref m RootLink = Some (rb_root m)"
| "link_deref m (LeftLink p) = left_of m p"
| "link_deref m (RightLink p) = right_of m p"

fun link_store :: "rb_link \<Rightarrow> addr \<Rightarrow> 'a rb_mem \<Rightarrow> 'a rb_mem option" where
  "link_store RootLink a m = Some (m\<lparr>rb_root := a\<rparr>)"
| "link_store (LeftLink p) a m = set_left p a m"
| "link_store (RightLink p) a m = set_right p a m"

text \<open>
  The search loop of \<^verbatim>\<open>insert_or_send_packet\<close>, the keys of the nodes given by a map. The result is a node that holds
  the number already, or the parent and the link for a new node.
\<close>

partial_function (option) find_slot ::
  "(addr \<rightharpoonup> u32) \<Rightarrow> 'a rb_mem \<Rightarrow> u32 \<Rightarrow> rb_link \<Rightarrow> addr \<Rightarrow> (addr + addr \<times> rb_link) option" where
  "find_slot key m seq new_node parent = do {
     p \<leftarrow> link_deref m new_node;
     if p = 0 then Some (Inr (parent, new_node))
     else do {
       k \<leftarrow> key p;
       if before seq k then find_slot key m seq (LeftLink p) p
       else if after seq k then find_slot key m seq (RightLink p) p
       else Some (Inl p) } }"

declare find_slot.simps [code]

fun link_of :: "frame list \<Rightarrow> rb_link" where
  "link_of [] = RootLink"
| "link_of (LeftHole c a r # fs) = LeftLink a"
| "link_of (RightHole l c a # fs) = RightLink a"

lemma link_store_at: "link_store (link_of fs) = link_at fs"
  by (cases fs rule: link_of.cases) (auto simp: fun_eq_iff)

lemma link_deref_at: "rb_at m fs t \<Longrightarrow> link_deref m (link_of fs) = Some (root_of t)"
  by (cases fs rule: link_of.cases) (auto simp: rb_at_def wf_addrs_def rb_access)

text \<open>The search on the tree: the position it ends at.\<close>

fun slot :: "(addr \<rightharpoonup> u32) \<Rightarrow> u32 \<Rightarrow> frame list \<Rightarrow> rbt \<Rightarrow> addr + frame list" where
  "slot key seq fs Leaf = Inr fs"
| "slot key seq fs (Node l c a r) =
     (if before seq (the (key a)) then slot key seq (LeftHole c a r # fs) l
      else if before (the (key a)) seq then slot key seq (RightHole l c a # fs) r
      else Inl a)"

lemma find_slot_ok:
  assumes "rb_at m fs t" "\<forall>a \<in> set (inorder t). key a \<noteq> None"
  shows "find_slot key m seq (link_of fs) (parent_of fs) =
           Some (case slot key seq fs t of Inl a \<Rightarrow> Inl a | Inr gs \<Rightarrow> Inr (parent_of gs, link_of gs))"
  using assms
proof (induction key seq fs t rule: slot.induct)
  case (1 key seq fs)
  then show ?case using link_deref_at [OF 1(1)] by (subst find_slot.simps) simp
next
  case (2 key seq fs l c a r)
  have at: "rb_at m (LeftHole c a r # fs) l" "rb_at m (RightHole l c a # fs) r"
    using 2(3) by (simp_all add: rb_repr_plug [symmetric])
  have "a \<noteq> 0" using 2(3) by (simp add: rb_at_def wf_addrs_def)
  with 2 at link_deref_at [OF 2(3)] show ?case
    by (subst find_slot.simps) (auto simp: after_def)
qed

lemma slot_Inr: "slot key seq fs t = Inr gs \<Longrightarrow> plug gs Leaf = plug fs t"
  by (induction key seq fs t rule: slot.induct) (auto split: if_splits)

lemma slot_Inl:
  assumes "slot key seq fs t = Inl a" "\<forall>a \<in> set (inorder t). key a \<noteq> None"
  shows "a \<in> set (inorder t)" "key a = Some seq"
  using assms
  by (induction key seq fs t rule: slot.induct) (auto split: if_splits dest: before_total)

text \<open>In a window the search splits a sorted listing: what it leaves to the left comes before the number, what it leaves to the right after it.\<close>

abbreviation keys :: "(addr \<rightharpoonup> u32) \<Rightarrow> addr list \<Rightarrow> u32 list" where
  "keys key xs \<equiv> map (the \<circ> key) xs"

lemma slot_split:
  assumes "slot key seq fs t = Inr gs" "sorted_wrt before (keys key (inorder (plug fs t)))"
    and "in_window (insert seq (set (keys key (inorder (plug fs t)))))"
    and "\<forall>k \<in> set (keys key (lefts fs)). before k seq" "\<forall>k \<in> set (keys key (rights fs)). before seq k"
  shows "(\<forall>k \<in> set (keys key (lefts gs)). before k seq) \<and> (\<forall>k \<in> set (keys key (rights gs)). before seq k)"
  using assms
proof (induction key seq fs t rule: slot.induct)
  case (2 key seq fs l c a r)
  let ?k = "the (key a)"
  have win: "in_window {x, y, z}" if "{x, y, z} \<subseteq> insert seq (set (keys key (inorder (plug fs (Node l c a r)))))" for x y z
    by (rule in_window_subset [OF 2(5) that])
  consider "before seq ?k" | "\<not> before seq ?k" "before ?k seq" | "\<not> before seq ?k" "\<not> before ?k seq" by blast
  then show ?case
  proof cases
    case 1
    have "before seq k" if k: "k \<in> set (keys key (inorder r))" for k
    proof -
      have "before ?k k" using 2(4) k by (auto simp: sorted_wrt_append)
      with 1 before_trans_window [OF win, of seq ?k k] k show ?thesis by auto
    qed
    with 1 2(3) 2(4) 2(5) 2(6) 2(7) show ?thesis by (intro 2(1)) auto
  next
    case 2: 2
    have "before k seq" if k: "k \<in> set (keys key (inorder l))" for k
    proof -
      have "before k ?k" using \<open>sorted_wrt before (keys key (inorder (plug fs (Node l c a r))))\<close> k
        by (auto simp: sorted_wrt_append)
      with 2(2) before_trans_window [OF win, of k ?k seq] k show ?thesis by auto
    qed
    with 2 "2.prems" show ?thesis by (intro "2.IH"(2)) auto
  next
    case 3
    with 2(3) show ?thesis by simp
  qed
qed auto

section \<open>Trees with data\<close>

text \<open>
  A tree of structures in memory: the nodes in one map and the rest of the structures in another, which covers every node.
\<close>

definition tree_mem :: "(addr \<rightharpoonup> rb_node) \<Rightarrow> addr \<Rightarrow> unit rb_mem" where
  "tree_mem H root = \<lparr>rb_cells = H, rb_root = root, rb_aug = ()\<rparr>"

lemma tree_mem_simps [simp]: "rb_cells (tree_mem H root) = H" "rb_root (tree_mem H root) = root"
  by (simp_all add: tree_mem_def)

definition tree_ok :: "(addr \<rightharpoonup> rb_node) \<Rightarrow> (addr \<rightharpoonup> 'd) \<Rightarrow> addr \<Rightarrow> rbt \<Rightarrow> bool" where
  "tree_ok H D root t \<longleftrightarrow> rb_repr (tree_mem H root) t \<and> rb_tree t \<and> (\<forall>a \<in> set (inorder t). D a \<noteq> None)"

lemma rb_repr_mem:
  "rb_repr m t \<longleftrightarrow> wf_addrs (inorder t) \<and> repr (rb_cells m) 0 t \<and> rb_root m = root_of t"
  by (simp add: rb_repr_def)

lemma repr_allocated: "repr H p t \<Longrightarrow> a \<in> set (inorder t) \<Longrightarrow> H a \<noteq> None"
  by (induction t arbitrary: p) auto

lemma tree_ok_allocated: "tree_ok H D root t \<Longrightarrow> a \<in> set (inorder t) \<Longrightarrow> H a \<noteq> None"
  using repr_allocated [of H 0 t a] by (auto simp: tree_ok_def rb_repr_mem)

lemma tree_ok_cong:
  assumes "tree_ok H D root t" "\<And>a. a \<in> set (inorder t) \<Longrightarrow> H' a = H a" "\<And>a. a \<in> set (inorder t) \<Longrightarrow> D' a \<noteq> None"
  shows "tree_ok H' D' root t"
  using assms repr_cong [of t H' H 0] by (simp add: tree_ok_def rb_repr_mem)

lemma tree_first: "tree_ok H D root t \<Longrightarrow> rb_first (tree_mem H root) = Some (head_or_null (inorder t))"
  by (simp add: tree_ok_def rb_first_ok)

lemma tree_erase:
  assumes ok: "tree_ok H D root t" and t: "inorder t = xs @ a # ys"
  shows "\<exists>m t'. rb_erase a (tree_mem H root) = Some m \<and>
           tree_ok ((rb_cells m)(a := None)) (D(a := None)) (rb_root m) t' \<and> inorder t' = xs @ ys \<and> a \<notin> set (xs @ ys) \<and>
           (\<forall>b. b \<notin> set (inorder t) \<longrightarrow> rb_cells m b = H b)"
proof -
  from node_position [of "tree_mem H root" t xs a ys] ok t obtain fs l c r where
    p: "t = plug fs (Node l c a r)" "rb_at (tree_mem H root) fs (Node l c a r)" "xs = lefts fs @ inorder l" "ys = inorder r @ rights fs"
    unfolding tree_ok_def by blast
  from rb_erase_ok [OF p(2)] ok p(1) obtain m t' where
    m: "rb_erase a (tree_mem H root) = Some m" "rb_repr m t'" "rb_tree t'" "inorder t' = xs @ ys"
    "same_outside (set (inorder t)) (tree_mem H root) m"
    unfolding tree_ok_def p(3,4) by auto
  have dist: "a \<notin> set (xs @ ys)" using ok t by (auto simp: tree_ok_def rb_repr_mem wf_addrs_def)
  have "tree_ok ((rb_cells m)(a := None)) (D(a := None)) (rb_root m) t'"
    using m(2-4) dist ok t by (auto simp: tree_ok_def rb_repr_mem)
  with m dist show ?thesis by (auto simp: same_outside_def)
qed

lemma tree_slot:
  assumes "tree_ok H D root t" "\<And>a d. D a = Some d \<Longrightarrow> key a \<noteq> None"
  shows "find_slot key (tree_mem H root) seq RootLink 0 =
           Some (case slot key seq [] t of Inl a \<Rightarrow> Inl a | Inr gs \<Rightarrow> Inr (parent_of gs, link_of gs))"
proof -
  have "\<forall>a \<in> set (inorder t). key a \<noteq> None" using assms unfolding tree_ok_def by blast
  with find_slot_ok [of "tree_mem H root" "[]" t key seq] assms(1) show ?thesis
    by (simp add: tree_ok_def rb_repr_plug [symmetric])
qed

text \<open>Insertion at any empty position.\<close>

lemma tree_insert_at:
  assumes ok: "tree_ok H D root t" and t: "plug gs Leaf = t"
    and new: "new \<noteq> 0" "aligned new" "H new = None"
  shows "\<exists>m1 m t'. rb_link_node new (parent_of gs) (link_store (link_of gs) new) (tree_mem (H(new \<mapsto> n)) root) = Some m1 \<and>
           rb_insert_color new m1 = Some m \<and> tree_ok (rb_cells m) (D(new \<mapsto> d)) (rb_root m) t' \<and>
           inorder t = lefts gs @ rights gs \<and> inorder t' = lefts gs @ new # rights gs \<and> new \<notin> set (inorder t) \<and>
           (\<forall>b. b \<notin> insert new (set (inorder t)) \<longrightarrow> rb_cells m b = H b)"
proof -
  have fresh: "new \<notin> set (inorder t)" using tree_ok_allocated [OF ok] new(3) by blast
  let ?m0 = "tree_mem (H(new \<mapsto> n)) root"
  have "tree_ok (H(new \<mapsto> n)) D root t"
    by (rule tree_ok_cong [OF ok]) (use ok fresh in \<open>auto simp: tree_ok_def\<close>)
  then have rep: "rb_repr ?m0 (plug gs Leaf)" "rb_tree (plug gs Leaf)" by (simp_all add: tree_ok_def t)
  have at: "rb_at ?m0 gs Leaf" "new \<notin> ctx_addrs gs"
    using rep(1) fresh t by (auto simp: rb_repr_plug ctx_addrs_def)
  from link_ok [OF at(1) new(1,2) at(2)] obtain m1 where
    m1: "rb_link_node new (parent_of gs) (link_at gs new) ?m0 = Some m1"
    "rb_at m1 gs (Node Leaf Red new Leaf)" "same_outside (insert new (ctx_addrs gs)) ?m0 m1" by auto
  from rb_insert_color_ok [OF m1(2) rep(2)] obtain m t' where
    m: "rb_insert_color new m1 = Some m" "rb_repr m t'" "rb_tree t'" "inorder t' = lefts gs @ new # rights gs"
    "same_outside (tree_addrs gs (Node Leaf Red new Leaf)) m1 m" by blast
  have it: "inorder t = lefts gs @ rights gs" using t [symmetric] by simp
  have "tree_ok (rb_cells m) (D(new \<mapsto> d)) (rb_root m) t'"
    using m(2-4) ok it by (auto simp: tree_ok_def rb_repr_mem)
  moreover have "\<forall>b. b \<notin> insert new (set (inorder t)) \<longrightarrow> rb_cells m b = H b"
    using m1(3) m(5) it by (auto simp: same_outside_def ctx_addrs_def)
  ultimately show ?thesis
    using m1(1) m(1,4) it fresh link_store_at [of gs] by metis
qed

lemma tree_insert:
  assumes ok: "tree_ok H D root t" and slot: "slot key seq [] t = Inr gs"
    and new: "new \<noteq> 0" "aligned new" "H new = None"
  shows "\<exists>m1 m t' x. rb_first (tree_mem (H(new \<mapsto> n)) root) = Some x \<and>
           rb_link_node new (parent_of gs) (link_store (link_of gs) new) (tree_mem (H(new \<mapsto> n)) root) = Some m1 \<and>
           rb_insert_color new m1 = Some m \<and> tree_ok (rb_cells m) (D(new \<mapsto> d)) (rb_root m) t' \<and>
           inorder t = lefts gs @ rights gs \<and> inorder t' = lefts gs @ new # rights gs \<and> new \<notin> set (inorder t) \<and>
           (\<forall>b. b \<notin> insert new (set (inorder t)) \<longrightarrow> rb_cells m b = H b)"
proof -
  have t: "plug gs Leaf = t" using slot_Inr [OF slot] by simp
  have fresh: "new \<notin> set (inorder t)" using tree_ok_allocated [OF ok] new(3) by blast
  have "tree_ok (H(new \<mapsto> n)) D root t"
    by (rule tree_ok_cong [OF ok]) (use ok fresh in \<open>auto simp: tree_ok_def\<close>)
  from tree_first [OF this] tree_insert_at [OF ok t new, of n d] show ?thesis by blast
qed

end
