(* ===== verification/Reorder_Counter.thy ===== *)
theory Reorder_Counter
  imports Seq_Buffer
begin

text \<open>
  The packet counters \<^verbatim>\<open>reorder_counter.c\<close>, \<^verbatim>\<open>tcp_reordercounter.c\<close> and \<^verbatim>\<open>ip_reordercounter.c\<close> of
  \<^verbatim>\<open>reordering_buffer\<close>. A packet is the receive buffer as a list of bytes; the configuration is a table of
  flow buffers, one chain per source port, each with the root of a tree of stored packets. The trees
  of all flows live in one memory: \<open>rc_nodes\<close> holds the tree nodes and \<open>rc_data\<close> the sequence number and size
  of the structure around each node, which starts at the same address. A chain of flow buffers
  is a list in chain order. Allocation is a parameter. \<open>None\<close> is a crash (a NULL or dangling
  pointer, a read beyond the buffer) or a loop that does not end.
\<close>

section \<open>Packets\<close>

definition byte_at :: "u8 list \<Rightarrow> nat \<Rightarrow> u8 option" where
  "byte_at data i = (if i < length data then Some (data ! i) else None)"

text \<open>Network byte order: \<^verbatim>\<open>ntohs\<close> and \<^verbatim>\<open>ntohl\<close> of the field at an offset.\<close>

definition be16 :: "u8 list \<Rightarrow> nat \<Rightarrow> u16 option" where
  "be16 data i = do { a \<leftarrow> byte_at data i; b \<leftarrow> byte_at data (i + 1); Some (push_bit 8 (ucast a) OR ucast b) }"

definition be32 :: "u8 list \<Rightarrow> nat \<Rightarrow> u32 option" where
  "be32 data i = do { a \<leftarrow> be16 data i; b \<leftarrow> be16 data (i + 2); Some (push_bit 16 (ucast a) OR ucast b) }"

text \<open>The fields of the IP and the TCP header that the counters read; the TCP header starts after \<^verbatim>\<open>ihl\<close> words.\<close>

record packet_hdr =
  h_sport :: u16
  h_dport :: u16
  h_psize :: u16
  h_seq :: u32
  h_syn :: bool
  h_ipid :: u16

definition packet_headers :: "u8 list \<Rightarrow> packet_hdr option" where
  "packet_headers data = do {
     b0 \<leftarrow> byte_at data 0;
     let ihl = b0 AND 15;
     let tcp = 4 * unat ihl;
     sport \<leftarrow> be16 data tcp;
     dport \<leftarrow> be16 data (tcp + 2);
     tot_len \<leftarrow> be16 data 2;
     b12 \<leftarrow> byte_at data (tcp + 12);
     let th_off = drop_bit 4 b12;
     seq \<leftarrow> be32 data (tcp + 4);
     flags \<leftarrow> byte_at data (tcp + 13);
     ipid \<leftarrow> be16 data 4;
     Some \<lparr>h_sport = sport, h_dport = dport, h_psize = tot_len - (ucast ihl + ucast th_off) * 4,
           h_seq = seq, h_syn = (flags AND 2 \<noteq> 0), h_ipid = ipid\<rparr> }"

section \<open>Flow buffers\<close>

record rc_flowdata =
  fd_seq :: u32
  fd_seg_size :: u16

record rc_flowbuf =
  fb_sport :: u16
  fb_dport :: u16
  fb_size :: u32
  fb_expected_next :: u32
  fb_root :: addr

record rc_config =
  reorder_count :: u64
  reorder_buf :: "u16 \<Rightarrow> rc_flowbuf list"

record rc_world = rc_config +
  rc_nodes :: "addr \<rightharpoonup> rb_node"
  rc_data :: "addr \<rightharpoonup> rc_flowdata"

text \<open>The allocator: whether a flow buffer can be had, and the address of new packet data in a given memory.\<close>

record rc_env =
  calloc_flowbuf :: bool
  calloc_flowdata :: "(addr \<rightharpoonup> rb_node) \<Rightarrow> addr option"

abbreviation (input) FBUF_SIZ :: u32 where "FBUF_SIZ \<equiv> 1024"

text \<open>The walk along a chain, and the stores through the pointer it returns.\<close>

fun find_flow :: "u16 \<Rightarrow> rc_flowbuf list \<Rightarrow> rc_flowbuf option" where
  "find_flow dport [] = None"
| "find_flow dport (cur # chain) = (if fb_dport cur = dport then Some cur else find_flow dport chain)"

fun update_flow :: "rc_flowbuf \<Rightarrow> rc_flowbuf list \<Rightarrow> rc_flowbuf list" where
  "update_flow fb [] = []"
| "update_flow fb (cur # chain) = (if fb_dport cur = fb_dport fb then fb # chain else cur # update_flow fb chain)"

definition put_flow :: "rc_flowbuf \<Rightarrow> ('a) rc_config_scheme \<Rightarrow> 'a rc_config_scheme" where
  "put_flow fb s = s\<lparr>reorder_buf := (reorder_buf s)(fb_sport fb := update_flow fb (reorder_buf s (fb_sport fb)))\<rparr>"

definition get_flow :: "rc_env \<Rightarrow> u16 \<Rightarrow> u16 \<Rightarrow> u32 \<Rightarrow> 'a rc_config_scheme \<Rightarrow> (rc_flowbuf \<times> 'a rc_config_scheme) option" where
  "get_flow env sport dport expected s =
     (case find_flow dport (reorder_buf s sport) of
        Some fb \<Rightarrow> Some (fb, s)
      | None \<Rightarrow>
          if calloc_flowbuf env then
            let fb = \<lparr>fb_sport = sport, fb_dport = dport, fb_size = 0, fb_expected_next = expected, fb_root = 0\<rparr>
            in Some (fb, s\<lparr>reorder_buf := (reorder_buf s)(sport := reorder_buf s sport @ [fb])\<rparr>)
          else None)"

section \<open>Counting with a resequencing buffer\<close>

definition flow_mem :: "rc_flowbuf \<Rightarrow> rc_world \<Rightarrow> unit rb_mem" where
  "flow_mem fb s = tree_mem (rc_nodes s) (fb_root fb)"

definition send_packet_at :: "rc_flowbuf \<Rightarrow> addr \<Rightarrow> rc_world \<Rightarrow> (rc_flowbuf \<times> rc_world) option" where
  "send_packet_at fb node s = do {
     fdata \<leftarrow> rc_data s node;
     let fb = fb\<lparr>fb_expected_next := fd_seq fdata + ucast (fd_seg_size fdata)\<rparr>;
     m \<leftarrow> rb_erase node (flow_mem fb s);
     let s = s\<lparr>rc_nodes := (rb_cells m)(node := None), rc_data := (rc_data s)(node := None)\<rparr>;
     Some (fb\<lparr>fb_root := rb_root m, fb_size := fb_size fb - 1\<rparr>, s) }"

definition insert_or_send_packet ::
  "rc_env \<Rightarrow> rc_flowbuf \<Rightarrow> u32 \<Rightarrow> u16 \<Rightarrow> rc_world \<Rightarrow> (rc_flowbuf \<times> rc_world) option" where
  "insert_or_send_packet env fb seq seg_size s = do {
     place \<leftarrow> find_slot (\<lambda>a. map_option fd_seq (rc_data s a)) (flow_mem fb s) seq RootLink 0;
     case place of
       Inl cur \<Rightarrow> do {
         d \<leftarrow> rc_data s cur;
         if seg_size < fd_seg_size d then Some (fb, s)
         else Some (fb, s\<lparr>rc_data := (rc_data s)(cur \<mapsto> d\<lparr>fd_seg_size := seg_size\<rparr>)\<rparr>) }
     | Inr (parent, new_node) \<Rightarrow> do {
         let fb = fb\<lparr>fb_size := fb_size fb + 1\<rparr>;
         newdata \<leftarrow> calloc_flowdata env (rc_nodes s);
         let s = s\<lparr>rc_nodes := (rc_nodes s)(newdata \<mapsto> \<lparr>pc = 0, rb_right = 0, rb_left = 0\<rparr>),
                   rc_data := (rc_data s)(newdata \<mapsto> \<lparr>fd_seq = seq, fd_seg_size = seg_size\<rparr>)\<rparr>;
         currfirst \<leftarrow> rb_first (flow_mem fb s);
         m \<leftarrow> rb_link_node newdata parent (link_store new_node newdata) (flow_mem fb s);
         m \<leftarrow> rb_insert_color newdata m;
         Some (fb\<lparr>fb_root := rb_root m\<rparr>, s\<lparr>rc_nodes := rb_cells m, reorder_count := reorder_count s + 1\<rparr>) } }"

text \<open>Release the stored packets that are due.\<close>

partial_function (option) release_due :: "rc_flowbuf \<Rightarrow> rc_world \<Rightarrow> (rc_flowbuf \<times> rc_world) option" where
  "release_due fb s = do {
     node \<leftarrow> rb_first (flow_mem fb s);
     if node = 0 then Some (fb, s)
     else do {
       d \<leftarrow> rc_data s node;
       if before (fd_seq d) (fb_expected_next fb) \<or> fd_seq d = fb_expected_next fb then do {
         (fb, s) \<leftarrow> send_packet_at fb node s;
         release_due fb s }
       else Some (fb, s) } }"

declare release_due.simps [code]

definition rc_handle_packet :: "rc_env \<Rightarrow> u8 list \<Rightarrow> rc_world \<Rightarrow> (int \<times> rc_world) option" where
  "rc_handle_packet env data s = do {
     h \<leftarrow> packet_headers data;
     let seq = h_seq h;
     (fb, s) \<leftarrow> get_flow env (h_sport h) (h_dport h) seq s;
     if before seq (fb_expected_next fb) \<or> seq = fb_expected_next fb then do {
       let fb = fb\<lparr>fb_expected_next := (if h_syn h then seq + 1 else seq + ucast (h_psize h))\<rparr>;
       (fb, s) \<leftarrow> release_due fb s;
       Some (1, put_flow fb s) }
     else if fb_size fb < FBUF_SIZ then do {
       (fb, s) \<leftarrow> insert_or_send_packet env fb seq (h_psize h) s;
       Some (0, put_flow fb s) }
     else do {
       first_node \<leftarrow> rb_first (flow_mem fb s);
       d \<leftarrow> rc_data s first_node;
       if fd_seq d \<le> seq then do {
         (fb, s) \<leftarrow> send_packet_at fb first_node s;
         (fb, s) \<leftarrow> insert_or_send_packet env fb seq (h_psize h) s;
         Some (-1, put_flow fb s) }
       else Some (-1, s) } }"

text \<open>The receive loop of \<^verbatim>\<open>main\<close>: each packet overwrites the start of the one buffer, whose tail keeps what earlier packets left.\<close>

fun receive_loop :: "(u8 list \<Rightarrow> 's \<Rightarrow> (int \<times> 's) option) \<Rightarrow> u8 list \<Rightarrow> u8 list list \<Rightarrow> 's \<Rightarrow> 's option" where
  "receive_loop handle buffer [] s = Some s"
| "receive_loop handle buffer (p # ps) s =
     (if p = [] then Some s
      else do {
        let buffer = p @ drop (length p) buffer;
        (r, s) \<leftarrow> handle buffer s;
        receive_loop handle buffer ps s })"

section \<open>Counting late packets\<close>

text \<open>\<^verbatim>\<open>tcp_reordercounter.c\<close> keeps no packets: it counts those that come before the expected number.\<close>

definition tcp_handle_packet :: "rc_env \<Rightarrow> u8 list \<Rightarrow> rc_config \<Rightarrow> (int \<times> rc_config) option" where
  "tcp_handle_packet env data s = do {
     h \<leftarrow> packet_headers data;
     let seq = h_seq h;
     (fb, s) \<leftarrow> get_flow env (h_sport h) (h_dport h) seq s;
     if before seq (fb_expected_next fb) then Some (1, s\<lparr>reorder_count := reorder_count s + 1\<rparr>)
     else do {
       let fb = fb\<lparr>fb_expected_next := (if h_syn h then seq + 1 else seq + ucast (h_psize h))\<rparr>;
       Some (-1, put_flow fb s) } }"

section \<open>Counting gaps in the IP identification\<close>

definition ip_handle_packet :: "rc_env \<Rightarrow> u8 list \<Rightarrow> rc_config \<Rightarrow> (int \<times> rc_config) option" where
  "ip_handle_packet env data s = do {
     h \<leftarrow> packet_headers data;
     let ipid = (ucast (h_ipid h) :: u32);
     (fb, s) \<leftarrow> get_flow env (h_sport h) (h_dport h) (ipid + 1) s;
     if before ipid (fb_expected_next fb) \<or> ipid = fb_expected_next fb then
       Some (1, put_flow (fb\<lparr>fb_expected_next := fb_expected_next fb + 1\<rparr>) s)
     else do {
       let gap = (ucast (fb_expected_next fb - ipid) :: u16);
       let s = s\<lparr>reorder_count := reorder_count s + scast gap\<rparr>;
       Some (-1, put_flow (fb\<lparr>fb_expected_next := ipid + 1\<rparr>) s) } }"

end
