(* ===== verification/Nfqueue.thy ===== *)
theory Nfqueue
  imports Reorder_Counter
begin

text \<open>
  The resequencing queue \<^verbatim>\<open>nfqueue.c\<close>: packets are held back in one tree per flow and released in order by
  verdicts. The verdicts that are given are recorded in order, each with the queue handle it was given on (0 is NULL).
  The library calls are parameters: the result of \<^verbatim>\<open>nfq_set_verdict\<close>, the time \<^verbatim>\<open>ev_now\<close> of the event
  loop, which does not change during a callback, and the allocator. Times are exact values of an ordered group where the
  source has doubles. A chain of flow buffers is a list in chain order, in which a destination port names a buffer.
\<close>

section \<open>State\<close>

datatype verdict = NF_DROP | NF_ACCEPT

record nfq_flowdata =
  nd_seq :: u32
  nd_packet_id :: u32
  nd_seg_size :: u16

record 't nfq_flowbuf =
  nf_sport :: u16
  nf_dport :: u16
  nf_size :: u32
  nf_expected_next :: u32
  nf_root :: addr
  nf_timeout :: 't
  nf_last_activity :: 't
  nf_timer :: "'t option"

record 't nfq_config =
  nq_fd :: int
  nq_handler :: addr
  nq_queue :: addr
  nq_buf :: "u16 \<Rightarrow> 't nfq_flowbuf list"

record 't nfq_world = "'t nfq_config" +
  nq_nodes :: "addr \<rightharpoonup> rb_node"
  nq_data :: "addr \<rightharpoonup> nfq_flowdata"
  nq_verdicts :: "(addr \<times> u32 \<times> verdict) list"

record 't nfq_env =
  ev_now :: 't
  verdict_ret :: "addr \<Rightarrow> u32 \<Rightarrow> verdict \<Rightarrow> int"
  nfq_calloc_flowbuf :: bool
  nfq_calloc_flowdata :: "(addr \<rightharpoonup> rb_node) \<Rightarrow> addr option"

abbreviation (input) NFQ_FBUF_SIZ :: u32 where "NFQ_FBUF_SIZ \<equiv> 256"

definition nfq_set_verdict ::
  "'t nfq_env \<Rightarrow> addr \<Rightarrow> u32 \<Rightarrow> verdict \<Rightarrow> 't nfq_world \<Rightarrow> int \<times> 't nfq_world" where
  "nfq_set_verdict env queue pid v s =
     (verdict_ret env queue pid v, s\<lparr>nq_verdicts := nq_verdicts s @ [(queue, pid, v)]\<rparr>)"

section \<open>The callback\<close>

text \<open>
  The callback gives its verdict before it looks at the packet and returns: all that follows in the source is unreachable.
  The header argument is the bytes of the packet header, which starts with the identifier in network byte order, and
  \<open>None\<close> when there is no header.
\<close>

definition nfq_cb :: "'t nfq_env \<Rightarrow> addr \<Rightarrow> u8 list option \<Rightarrow> 't nfq_world \<Rightarrow> (int \<times> 't nfq_world) option" where
  "nfq_cb env queue hdr s = do {
     ph \<leftarrow> hdr;
     pid \<leftarrow> be32 ph 0;
     Some (nfq_set_verdict env queue pid NF_ACCEPT s) }"

section \<open>Holding back and releasing\<close>

definition nfq_send_packet_at ::
  "'t nfq_env \<Rightarrow> addr \<Rightarrow> 't nfq_flowbuf \<Rightarrow> addr \<Rightarrow> 't nfq_world \<Rightarrow> (int \<times> 't nfq_flowbuf \<times> 't nfq_world) option" where
  "nfq_send_packet_at env queue fb node s = do {
     fdata \<leftarrow> nq_data s node;
     let (ret, s) = nfq_set_verdict env queue (nd_packet_id fdata) NF_ACCEPT s;
     let e = nd_seq fdata + ucast (nd_seg_size fdata);
     let fb = (if nf_expected_next fb < e then fb\<lparr>nf_expected_next := e\<rparr> else fb);
     m \<leftarrow> rb_erase node (tree_mem (nq_nodes s) (nf_root fb));
     let s = s\<lparr>nq_nodes := (rb_cells m)(node := None), nq_data := (nq_data s)(node := None)\<rparr>;
     Some (ret, fb\<lparr>nf_root := rb_root m, nf_last_activity := ev_now env, nf_size := nf_size fb - 1\<rparr>, s) }"

definition nfq_insert_or_send_packet ::
  "'t nfq_env \<Rightarrow> addr \<Rightarrow> 't nfq_flowbuf \<Rightarrow> u32 \<Rightarrow> u32 \<Rightarrow> u16 \<Rightarrow> 't nfq_world \<Rightarrow> (int \<times> 't nfq_flowbuf \<times> 't nfq_world) option" where
  "nfq_insert_or_send_packet env queue fb seq packet_id seg_size s = do {
     place \<leftarrow> find_slot (\<lambda>a. map_option nd_seq (nq_data s a)) (tree_mem (nq_nodes s) (nf_root fb)) seq RootLink 0;
     case place of
       Inl cur \<Rightarrow> do {
         d \<leftarrow> nq_data s cur;
         let (ret, s) =
           (if seg_size < nd_seg_size d then nfq_set_verdict env queue packet_id NF_DROP s
            else nfq_set_verdict env queue (nd_packet_id d) NF_DROP
                   (s\<lparr>nq_data := (nq_data s)(cur \<mapsto> d\<lparr>nd_packet_id := packet_id, nd_seg_size := seg_size\<rparr>)\<rparr>));
         Some (ret, fb\<lparr>nf_last_activity := ev_now env\<rparr>, s) }
     | Inr (parent, new_node) \<Rightarrow> do {
         let fb = fb\<lparr>nf_size := nf_size fb + 1\<rparr>;
         newdata \<leftarrow> nfq_calloc_flowdata env (nq_nodes s);
         let s = s\<lparr>nq_nodes := (nq_nodes s)(newdata \<mapsto> \<lparr>pc = 0, rb_right = 0, rb_left = 0\<rparr>),
                   nq_data := (nq_data s)(newdata \<mapsto> \<lparr>nd_seq = seq, nd_packet_id = packet_id, nd_seg_size = seg_size\<rparr>)\<rparr>;
         currfirst \<leftarrow> rb_first (tree_mem (nq_nodes s) (nf_root fb));
         m \<leftarrow> rb_link_node newdata parent (link_store new_node newdata) (tree_mem (nq_nodes s) (nf_root fb));
         m \<leftarrow> rb_insert_color newdata m;
         Some (0, fb\<lparr>nf_root := rb_root m, nf_last_activity := ev_now env\<rparr>, s\<lparr>nq_nodes := rb_cells m\<rparr>) } }"

text \<open>Releasing everything; the verdict results are combined bitwise.\<close>

partial_function (option) nfq_release_all ::
  "'t nfq_env \<Rightarrow> addr \<Rightarrow> int \<Rightarrow> 't nfq_flowbuf \<Rightarrow> 't nfq_world \<Rightarrow> (int \<times> 't nfq_flowbuf \<times> 't nfq_world) option" where
  "nfq_release_all env queue ret fb s = do {
     node \<leftarrow> rb_first (tree_mem (nq_nodes s) (nf_root fb));
     if node = 0 then Some (ret, fb, s)
     else do {
       (r, fb, s) \<leftarrow> nfq_send_packet_at env queue fb node s;
       nfq_release_all env queue (ret AND r) fb s } }"

declare nfq_release_all.simps [code]

fun nfq_unlink :: "u16 \<Rightarrow> 't nfq_flowbuf list \<Rightarrow> 't nfq_flowbuf list" where
  "nfq_unlink dport [] = []"
| "nfq_unlink dport (b # chain) = (if nf_dport b = dport then chain else b # nfq_unlink dport chain)"

definition empty_and_destroy_buf ::
  "'t nfq_env \<Rightarrow> addr \<Rightarrow> 't nfq_flowbuf \<Rightarrow> 't nfq_world \<Rightarrow> (int \<times> 't nfq_flowbuf \<times> 't nfq_world) option" where
  "empty_and_destroy_buf env queue fb s = do {
     (ret, fb, s) \<leftarrow> nfq_release_all env queue 1 fb s;
     Some (ret, fb, s\<lparr>nq_buf := (nq_buf s)(nf_sport fb := nfq_unlink (nf_dport fb) (nq_buf s (nf_sport fb)))\<rparr>) }"

fun nfq_update :: "'t nfq_flowbuf \<Rightarrow> 't nfq_flowbuf list \<Rightarrow> 't nfq_flowbuf list" where
  "nfq_update fb [] = []"
| "nfq_update fb (b # chain) = (if nf_dport b = nf_dport fb then fb # chain else b # nfq_update fb chain)"

definition nfq_put :: "'t nfq_flowbuf \<Rightarrow> 't nfq_world \<Rightarrow> 't nfq_world" where
  "nfq_put fb s = s\<lparr>nq_buf := (nq_buf s)(nf_sport fb := nfq_update fb (nq_buf s (nf_sport fb)))\<rparr>"

fun nfq_find :: "u16 \<Rightarrow> 't nfq_flowbuf list \<Rightarrow> 't nfq_flowbuf option" where
  "nfq_find dport [] = None"
| "nfq_find dport (b # chain) = (if nf_dport b = dport then Some b else nfq_find dport chain)"

text \<open>
  The timer of a flow: destroy the buffer when it has been idle for longer than its timeout, else run again when it will
  have been. The queue is that of the global configuration. A destroyed buffer leaves its chain; its memory
  is not freed.
\<close>

definition timer_cb ::
  "('t::linordered_ab_group_add) nfq_env \<Rightarrow> 't nfq_flowbuf \<Rightarrow> 't nfq_world \<Rightarrow> ('t nfq_flowbuf \<times> 't nfq_world) option" where
  "timer_cb env fb s =
     (let delay = nf_last_activity fb - ev_now env + nf_timeout fb
      in if delay < 0 then map_option snd (empty_and_destroy_buf env (nq_queue s) fb s)
         else let fb = fb\<lparr>nf_timer := Some delay\<rparr> in Some (fb, nfq_put fb s))"

section \<open>The unreachable part of the callback\<close>

text \<open>
  What the source has after the second of two early returns. The payload is the copied bytes of the packet; a header field
  beyond them is a crash here. First the flow buffer of a packet is looked up or made, and its timer started at once.
\<close>

definition nfq_lookup ::
  "('t::linordered_ab_group_add) nfq_env \<Rightarrow> u16 \<Rightarrow> u16 \<Rightarrow> u32 \<Rightarrow> 't nfq_world \<Rightarrow> ('t nfq_flowbuf \<times> 't nfq_world) option" where
  "nfq_lookup env sport dport seq s =
     (case nfq_find dport (nq_buf s sport) of
        Some fb \<Rightarrow> Some (fb, s)
      | None \<Rightarrow>
          if nfq_calloc_flowbuf env then do {
            let fb = \<lparr>nf_sport = sport, nf_dport = dport, nf_size = 0, nf_expected_next = seq, nf_root = 0,
                      nf_timeout = 0, nf_last_activity = ev_now env, nf_timer = None\<rparr>;
            let s = s\<lparr>nq_buf := (nq_buf s)(sport := nq_buf s sport @ [fb])\<rparr>;
            timer_cb env fb s }
          else None)"

partial_function (option) nfq_release_due ::
  "'t nfq_env \<Rightarrow> addr \<Rightarrow> 't nfq_flowbuf \<Rightarrow> 't nfq_world \<Rightarrow> ('t nfq_flowbuf \<times> 't nfq_world) option" where
  "nfq_release_due env queue fb s = do {
     node \<leftarrow> rb_first (tree_mem (nq_nodes s) (nf_root fb));
     if node = 0 then Some (fb, s)
     else do {
       d \<leftarrow> nq_data s node;
       if nd_seq d = nf_expected_next fb then do {
         (r, fb, s) \<leftarrow> nfq_send_packet_at env queue fb node s;
         nfq_release_due env queue fb s }
       else Some (fb, s) } }"

declare nfq_release_due.simps [code]

text \<open>What follows the lookup: release, hold back, or make room.\<close>

definition nfq_resequence ::
  "'t nfq_env \<Rightarrow> addr \<Rightarrow> 't nfq_flowbuf \<Rightarrow> packet_hdr \<Rightarrow> u32 \<Rightarrow> 't nfq_world \<Rightarrow> (int \<times> 't nfq_flowbuf \<times> 't nfq_world) option" where
  "nfq_resequence env queue fb h pid s =
     (let seq = h_seq h; psize = h_psize h
      in if before seq (nf_expected_next fb) \<or> seq = nf_expected_next fb then do {
           let s = snd (nfq_set_verdict env queue pid NF_ACCEPT s);
           let fb = (if h_syn h then fb\<lparr>nf_expected_next := seq + 1\<rparr>
                     else if nf_expected_next fb < seq + ucast psize then fb\<lparr>nf_expected_next := seq + ucast psize\<rparr>
                     else fb);
           let fb = fb\<lparr>nf_last_activity := ev_now env\<rparr>;
           (fb, s) \<leftarrow> nfq_release_due env queue fb s;
           Some (1, fb, s) }
         else if nf_size fb < NFQ_FBUF_SIZ then nfq_insert_or_send_packet env queue fb seq pid psize s
         else do {
           first_node \<leftarrow> rb_first (tree_mem (nq_nodes s) (nf_root fb));
           d \<leftarrow> nq_data s first_node;
           if nd_seq d \<le> seq then do {
             (r, fb, s) \<leftarrow> nfq_send_packet_at env queue fb first_node s;
             (r, fb, s) \<leftarrow> nfq_insert_or_send_packet env queue fb seq pid psize s;
             Some (-1, fb, s) }
           else Some (-1, fb\<lparr>nf_last_activity := ev_now env\<rparr>, snd (nfq_set_verdict env queue pid NF_ACCEPT s)) })"

definition nfq_cb_unreachable ::
  "('t::linordered_ab_group_add) nfq_env \<Rightarrow> addr \<Rightarrow> u32 \<Rightarrow> u8 list \<Rightarrow> 't nfq_world \<Rightarrow> (int \<times> 't nfq_world) option" where
  "nfq_cb_unreachable env queue pid payload s = do {
     h \<leftarrow> packet_headers payload;
     (fb, s) \<leftarrow> nfq_lookup env (h_sport h) (h_dport h) (h_seq h) s;
     (ret, fb, s) \<leftarrow> nfq_resequence env queue fb h pid s;
     Some (ret, nfq_put fb s) }"

section \<open>Start\<close>

text \<open>What the library calls of \<^verbatim>\<open>nfq_init\<close> return: handles as addresses, 0 for NULL.\<close>

record nfq_lib =
  lib_open :: addr
  lib_create_queue :: "addr \<Rightarrow> addr"
  lib_set_mode :: int
  lib_set_queue_flags :: int
  lib_set_queue_maxlen :: int
  lib_fd :: int

definition zero_config :: "'t nfq_config" where
  "zero_config = \<lparr>nq_fd = 0, nq_handler = 0, nq_queue = 0, nq_buf = (\<lambda>_. [])\<rparr>"

definition nfq_init :: "nfq_lib \<Rightarrow> int \<times> 't nfq_config" where
  "nfq_init lib =
     (let n = zero_config\<lparr>nq_handler := lib_open lib\<rparr>
      in if nq_handler n = 0 then (-1, n)
         else let n = n\<lparr>nq_queue := lib_create_queue lib (nq_handler n)\<rparr>
         in if nq_queue n = 0 then (-1, n)
         else if lib_set_mode lib < 0 then (lib_set_mode lib, n)
         else if lib_set_queue_flags lib < 0 then (lib_set_queue_flags lib, n)
         else if lib_set_queue_maxlen lib < 0 then (lib_set_queue_maxlen lib, n)
         else let n = n\<lparr>nq_fd := lib_fd lib\<rparr>
         in if nq_fd n < 0 then (-1, n) else (0, n))"

text \<open>
  \<^verbatim>\<open>main\<close> initialises a local configuration, which hides the global one that the callbacks use: the global one stays zero.
  No watcher is started before \<^verbatim>\<open>ev_run\<close>, which returns at once. Each message read from the queue is handed to the
  library, which calls the callback with the queue handle; here a message is the packet header it carries.
  \<open>Inl\<close> is the exit status of a failed start.
\<close>

fun nfq_read_loop :: "'t nfq_env \<Rightarrow> addr \<Rightarrow> u8 list option list \<Rightarrow> 't nfq_world \<Rightarrow> 't nfq_world option" where
  "nfq_read_loop env queue [] s = Some s"
| "nfq_read_loop env queue (hdr # hdrs) s = do {
     (ret, s) \<leftarrow> nfq_cb env queue hdr s;
     nfq_read_loop env queue hdrs s }"

definition nfq_main :: "nfq_lib \<Rightarrow> 't nfq_env \<Rightarrow> u8 list option list \<Rightarrow> (int + 't nfq_world) option" where
  "nfq_main lib env hdrs =
     (let global = nfq_config.extend zero_config (nfq_world.fields Map.empty Map.empty []);
          (ret, n) = nfq_init lib :: int \<times> 't nfq_config
      in if ret < 0 then Some (Inl 1)
         else map_option Inr (nfq_read_loop env (nq_queue n) hdrs global))"

end
