(* ===== verification/Reorder_Correct.thy ===== *)
theory Reorder_Correct
  imports Reorder_Counter
begin

text \<open>
  The operations of \<open>Reorder_Counter\<close> against an abstract flow: the expected number and the stored packets
  in tree order. Every operation returns, keeps the trees red-black, the size fields exact and the flows
  apart from each other; within a window of half the number space the stored packets are
  sorted and the handler does what the list functions \<open>spec_release\<close> and \<open>spec_insert\<close> say.
\<close>

section \<open>Headers\<close>

text \<open>The headers take at most 74 bytes, whatever the length fields say.\<close>

lemma byte_at_Some: "i < length data \<Longrightarrow> byte_at data i = Some (data ! i)"
  by (simp add: byte_at_def)

lemma be_Some:
  "i + 2 \<le> length data \<Longrightarrow> \<exists>v. be16 data i = Some v"
  "i + 4 \<le> length data \<Longrightarrow> \<exists>v. be32 data i = Some v"
  by (simp_all add: be16_def be32_def byte_at_def)

lemma packet_headers_total:
  assumes "80 \<le> length data"
  shows "\<exists>h. packet_headers data = Some h"
proof -
  let ?tcp = "4 * unat (data ! 0 AND 15)"
  have "unat (data ! 0 AND 15) \<le> unat (15 :: u8)" by (rule word_and_le1 [THEN word_le_nat_alt [THEN iffD1]])
  then have tcp: "?tcp \<le> 60" by simp
  from be_Some(1) [of ?tcp data] be_Some(1) [of "?tcp + 2" data] be_Some(2) [of "?tcp + 4" data]
    be_Some(1) [of 2 data] be_Some(1) [of 4 data] tcp assms
  obtain a b c d e where "be16 data ?tcp = Some a" "be16 data (?tcp + 2) = Some b" "be32 data (?tcp + 4) = Some c"
    "be16 data 2 = Some d" "be16 data 4 = Some e" by auto
  moreover have "byte_at data 0 = Some (data ! 0)" "byte_at data (?tcp + 12) = Some (data ! (?tcp + 12))"
    "byte_at data (?tcp + 13) = Some (data ! (?tcp + 13))" using tcp assms by (auto simp: byte_at_def)
  ultimately show ?thesis unfolding packet_headers_def Let_def by simp
qed

section \<open>Flows in memory\<close>

definition flow_ok :: "rc_world \<Rightarrow> rc_flowbuf \<Rightarrow> rbt \<Rightarrow> bool" where
  "flow_ok s fb t \<longleftrightarrow> tree_ok (rc_nodes s) (rc_data s) (fb_root fb) t \<and> unat (fb_size fb) = length (inorder t)"

definition stored :: "rc_world \<Rightarrow> addr list \<Rightarrow> (u32 \<times> u16) list" where
  "stored s xs = map (\<lambda>a. (fd_seq (the (rc_data s a)), fd_seg_size (the (rc_data s a)))) xs"

text \<open>What an operation on one flow leaves alone: every address but its own, and the table.\<close>

definition rc_frame :: "addr set \<Rightarrow> rc_world \<Rightarrow> rc_world \<Rightarrow> bool" where
  "rc_frame A s s' \<longleftrightarrow> (\<forall>b. b \<notin> A \<longrightarrow> rc_nodes s' b = rc_nodes s b \<and> rc_data s' b = rc_data s b) \<and>
     reorder_buf s' = reorder_buf s"

definition same_flow :: "rc_flowbuf \<Rightarrow> rc_flowbuf \<Rightarrow> bool" where
  "same_flow fb fb' \<longleftrightarrow> fb_sport fb' = fb_sport fb \<and> fb_dport fb' = fb_dport fb"

lemma rc_frame_refl [simp]: "rc_frame A s s"
  by (simp add: rc_frame_def)

lemma rc_frame_trans: "rc_frame A s s' \<Longrightarrow> rc_frame B s' s'' \<Longrightarrow> rc_frame (A \<union> B) s s''"
  by (simp add: rc_frame_def)

lemma rc_frame_mono: "rc_frame A s s' \<Longrightarrow> A \<subseteq> B \<Longrightarrow> rc_frame B s s'"
  by (auto simp: rc_frame_def)

lemma same_flow_trans: "same_flow a b \<Longrightarrow> same_flow b c \<Longrightarrow> same_flow a c"
  by (simp add: same_flow_def)

lemma stored_simps [simp]: "stored s [] = []" "stored s (a # xs) = (fd_seq (the (rc_data s a)), fd_seg_size (the (rc_data s a))) # stored s xs"
  "stored s (xs @ ys) = stored s xs @ stored s ys"
  by (simp_all add: stored_def)

lemma stored_cong: "(\<And>a. a \<in> set xs \<Longrightarrow> rc_data s' a = rc_data s a) \<Longrightarrow> stored s' xs = stored s xs"
  by (simp add: stored_def)

lemma flow_mem_simps [simp]:
  "rb_cells (flow_mem fb s) = rc_nodes s" "rb_root (flow_mem fb s) = fb_root fb"
  "flow_mem (fb\<lparr>fb_expected_next := x\<rparr>) s = flow_mem fb s" "flow_mem (fb\<lparr>fb_size := n\<rparr>) s = flow_mem fb s"
  by (simp_all add: flow_mem_def)

lemma flow_ok_expected [simp]: "flow_ok s (fb\<lparr>fb_expected_next := x\<rparr>) t = flow_ok s fb t"
  by (simp add: flow_ok_def)

text \<open>Addresses of a flow are allocated, and a change elsewhere does not affect the flow.\<close>

lemma flow_ok_allocated: "flow_ok s fb t \<Longrightarrow> a \<in> set (inorder t) \<Longrightarrow> rc_nodes s a \<noteq> None"
  unfolding flow_ok_def using tree_ok_allocated by blast

lemma flow_ok_data: "flow_ok s fb t \<Longrightarrow> a \<in> set (inorder t) \<Longrightarrow> rc_data s a \<noteq> None"
  by (simp add: flow_ok_def tree_ok_def)

lemma flow_ok_distinct: "flow_ok s fb t \<Longrightarrow> distinct (inorder t) \<and> 0 \<notin> set (inorder t)"
  by (auto simp: flow_ok_def tree_ok_def rb_repr_mem wf_addrs_def)

lemma flow_first: "flow_ok s fb t \<Longrightarrow> rb_first (flow_mem fb s) = Some (head_or_null (inorder t))"
  unfolding flow_ok_def flow_mem_def using tree_first by blast

lemma flow_ok_frame:
  assumes "flow_ok s fb t" "rc_frame A s s'" "A \<inter> set (inorder t) = {}"
  shows "flow_ok s' fb t"
proof -
  have eq: "rc_nodes s' b = rc_nodes s b" "rc_data s' b = rc_data s b" if "b \<in> set (inorder t)" for b
    using assms(2,3) that by (auto simp: rc_frame_def)
  have "tree_ok (rc_nodes s') (rc_data s') (fb_root fb) t"
    by (rule tree_ok_cong [of "rc_nodes s" "rc_data s"]) (use assms(1) eq in \<open>auto simp: flow_ok_def tree_ok_def\<close>)
  with assms(1) show ?thesis by (simp add: flow_ok_def)
qed

section \<open>Release\<close>

lemma send_packet_ok:
  assumes ok: "flow_ok s fb t" and t: "inorder t = xs @ a # ys"
  shows "\<exists>fb' s' t'. send_packet_at fb a s = Some (fb', s') \<and> flow_ok s' fb' t' \<and> inorder t' = xs @ ys \<and>
           stored s' (xs @ ys) = stored s (xs @ ys) \<and>
           fb_expected_next fb' = fd_seq (the (rc_data s a)) + ucast (fd_seg_size (the (rc_data s a))) \<and>
           same_flow fb fb' \<and> rc_frame (set (inorder t)) s s' \<and> reorder_count s' = reorder_count s"
proof -
  obtain d where d: "rc_data s a = Some d" using flow_ok_data [OF ok, of a] t by auto
  from ok have tok: "tree_ok (rc_nodes s) (rc_data s) (fb_root fb) t" by (simp add: flow_ok_def)
  from tree_erase [OF tok t] obtain m t' where
    m: "rb_erase a (flow_mem fb s) = Some m" "tree_ok ((rb_cells m)(a := None)) ((rc_data s)(a := None)) (rb_root m) t'"
    "inorder t' = xs @ ys" "a \<notin> set (xs @ ys)" "\<forall>b. b \<notin> set (inorder t) \<longrightarrow> rb_cells m b = rc_nodes s b"
    unfolding flow_mem_def by blast
  let ?s' = "s\<lparr>rc_nodes := (rb_cells m)(a := None), rc_data := (rc_data s)(a := None)\<rparr>"
  let ?fb' = "fb\<lparr>fb_expected_next := fd_seq d + ucast (fd_seg_size d), fb_root := rb_root m, fb_size := fb_size fb - 1\<rparr>"
  have run: "send_packet_at fb a s = Some (?fb', ?s')"
    using d m(1) by (simp add: send_packet_at_def Let_def)
  have n: "unat (fb_size fb) = Suc (length (xs @ ys))" using ok t by (simp add: flow_ok_def)
  then have "1 \<le> fb_size fb" by (simp add: word_le_nat_alt)
  with n have "unat (fb_size fb - 1) = length (xs @ ys)" by (simp add: unat_sub)
  then have "flow_ok ?s' ?fb' t'" using m(2,3) by (simp add: flow_ok_def)
  moreover have "rc_frame (set (inorder t)) s ?s'" using m(5) t by (auto simp: rc_frame_def)
  moreover have "stored ?s' (xs @ ys) = stored s (xs @ ys)" by (rule stored_cong) (use m(4) in auto)
  ultimately show ?thesis using run m(3) d
    by (intro exI [of _ ?fb'] exI [of _ ?s'] exI [of _ t']) (simp add: same_flow_def)
qed

fun spec_release :: "u32 \<Rightarrow> (u32 \<times> u16) list \<Rightarrow> u32 \<times> (u32 \<times> u16) list" where
  "spec_release expected [] = (expected, [])"
| "spec_release expected ((k, z) # xs) =
     (if before k expected \<or> k = expected then spec_release (k + ucast z) xs else (expected, (k, z) # xs))"

lemma release_due_ok:
  assumes "flow_ok s fb t"
  shows "\<exists>fb' s' t'. release_due fb s = Some (fb', s') \<and> flow_ok s' fb' t' \<and>
           set (inorder t') \<subseteq> set (inorder t) \<and> length (inorder t') \<le> length (inorder t) \<and>
           (fb_expected_next fb', stored s' (inorder t')) = spec_release (fb_expected_next fb) (stored s (inorder t)) \<and>
           same_flow fb fb' \<and> rc_frame (set (inorder t)) s s' \<and> reorder_count s' = reorder_count s"
  using assms
proof (induction "inorder t" arbitrary: s fb t)
  case Nil
  then have t: "t = Leaf" by (metis inorder_Nil)
  with Nil have "rb_first (flow_mem fb s) = Some 0" using flow_first [OF Nil(2)] by simp
  with Nil t show ?case by (subst release_due.simps) (auto simp: same_flow_def)
next
  case (Cons a ys)
  have it: "inorder t = a # ys" using Cons.hyps(2) by simp
  have first: "rb_first (flow_mem fb s) = Some a"
    using flow_first [OF Cons.prems] it by simp
  have a: "a \<noteq> 0" "a \<in> set (inorder t)"
    using flow_ok_distinct [OF Cons.prems] it by auto
  then obtain d where d: "rc_data s a = Some d" using flow_ok_data [OF Cons.prems, of a] by auto
  show ?case
  proof (cases "before (fd_seq d) (fb_expected_next fb) \<or> fd_seq d = fb_expected_next fb")
    case False
    with first a d Cons.prems it show ?thesis
      by (subst release_due.simps) (auto simp: same_flow_def)
  next
    case True
    from send_packet_ok [OF Cons.prems, of "[]" a ys] it obtain fb1 s1 t1 where
      1: "send_packet_at fb a s = Some (fb1, s1)" "flow_ok s1 fb1 t1" "inorder t1 = ys" "stored s1 ys = stored s ys"
      "fb_expected_next fb1 = fd_seq d + ucast (fd_seg_size d)" "same_flow fb fb1" "rc_frame (set (inorder t)) s s1"
      "reorder_count s1 = reorder_count s" using d by auto
    from Cons.hyps(1) [OF 1(3) [symmetric] 1(2)] obtain fb' s' t' where
      2: "release_due fb1 s1 = Some (fb', s')" "flow_ok s' fb' t'" "set (inorder t') \<subseteq> set ys" "length (inorder t') \<le> length ys"
      "(fb_expected_next fb', stored s' (inorder t')) = spec_release (fb_expected_next fb1) (stored s1 ys)"
      "same_flow fb1 fb'" "rc_frame (set ys) s1 s'" "reorder_count s' = reorder_count s1" unfolding 1(3) by blast
    have "release_due fb s = Some (fb', s')"
      using first a d True 1(1) 2(1) by (subst release_due.simps) auto
    moreover have "rc_frame (set (inorder t)) s s'"
      by (rule rc_frame_mono [OF rc_frame_trans [OF 1(7) 2(7)]]) (use it in auto)
    ultimately show ?thesis
      using 1 2 True d same_flow_trans [OF 1(6) 2(6)] unfolding it by auto
  qed
qed

section \<open>Insertion\<close>

text \<open>The documented promise of the allocator: memory that is not in use, at a non-null aligned address.\<close>

definition calloc_ok :: "rc_env \<Rightarrow> bool" where
  "calloc_ok env \<longleftrightarrow>
     (\<forall>H a. calloc_flowdata env H = Some a \<longrightarrow> a \<noteq> 0 \<and> aligned a \<and> H a = None)"

abbreviation seq_of :: "rc_world \<Rightarrow> addr \<rightharpoonup> u32" where
  "seq_of s \<equiv> (\<lambda>a. map_option fd_seq (rc_data s a))"

lemma flow_slot:
  assumes "flow_ok s fb t"
  shows "find_slot (seq_of s) (flow_mem fb s) seq RootLink 0 =
           Some (case slot (seq_of s) seq [] t of Inl a \<Rightarrow> Inl a | Inr gs \<Rightarrow> Inr (parent_of gs, link_of gs))"
  unfolding flow_mem_def by (rule tree_slot) (use assms in \<open>auto simp: flow_ok_def\<close>)

lemma insert_retransmission:
  assumes ok: "flow_ok s fb t" and slot: "slot (seq_of s) seq [] t = Inl a"
  shows "\<exists>d. rc_data s a = Some d \<and> fd_seq d = seq \<and> a \<in> set (inorder t) \<and>
           insert_or_send_packet env fb seq z s =
             Some (fb, if z < fd_seg_size d then s else s\<lparr>rc_data := (rc_data s)(a \<mapsto> d\<lparr>fd_seg_size := z\<rparr>)\<rparr>)"
proof -
  have "\<forall>a \<in> set (inorder t). seq_of s a \<noteq> None" using flow_ok_data [OF ok] by auto
  from slot_Inl [OF slot this] obtain d where "rc_data s a = Some d" "fd_seq d = seq" "a \<in> set (inorder t)" by auto
  then show ?thesis using flow_slot [OF ok, of seq] slot by (simp add: insert_or_send_packet_def)
qed

lemma insert_new:
  assumes ok: "flow_ok s fb t" and slot: "slot (seq_of s) seq [] t = Inr gs" and env: "calloc_ok env"
    and new: "calloc_flowdata env (rc_nodes s) = Some new" and small: "length (inorder t) < 2 ^ 31"
  shows "\<exists>fb' s' t'. insert_or_send_packet env fb seq z s = Some (fb', s') \<and> flow_ok s' fb' t' \<and>
           inorder t = lefts gs @ rights gs \<and> inorder t' = lefts gs @ new # rights gs \<and>
           stored s' (inorder t') = stored s (lefts gs) @ (seq, z) # stored s (rights gs) \<and>
           same_flow fb fb' \<and> fb_expected_next fb' = fb_expected_next fb \<and>
           rc_frame (insert new (set (inorder t))) s s' \<and> reorder_count s' = reorder_count s + 1"
proof -
  let ?n = "\<lparr>pc = 0, rb_right = 0, rb_left = 0\<rparr>" and ?d = "\<lparr>fd_seq = seq, fd_seg_size = z\<rparr>"
  have fresh: "new \<noteq> 0" "aligned new" "rc_nodes s new = None" using env new by (auto simp: calloc_ok_def)
  from ok have tok: "tree_ok (rc_nodes s) (rc_data s) (fb_root fb) t" by (simp add: flow_ok_def)
  from tree_insert [OF tok slot fresh, of ?n ?d] obtain m1 m t' x where
    m: "rb_first (tree_mem ((rc_nodes s)(new \<mapsto> ?n)) (fb_root fb)) = Some x"
    "rb_link_node new (parent_of gs) (link_store (link_of gs) new) (tree_mem ((rc_nodes s)(new \<mapsto> ?n)) (fb_root fb)) = Some m1"
    "rb_insert_color new m1 = Some m" "tree_ok (rb_cells m) ((rc_data s)(new \<mapsto> ?d)) (rb_root m) t'"
    "inorder t = lefts gs @ rights gs" "inorder t' = lefts gs @ new # rights gs" "new \<notin> set (inorder t)"
    "\<forall>b. b \<notin> insert new (set (inorder t)) \<longrightarrow> rb_cells m b = rc_nodes s b" by blast
  let ?s' = "s\<lparr>rc_nodes := rb_cells m, rc_data := (rc_data s)(new \<mapsto> ?d), reorder_count := reorder_count s + 1\<rparr>"
  let ?fb' = "fb\<lparr>fb_size := fb_size fb + 1, fb_root := rb_root m\<rparr>"
  have run: "insert_or_send_packet env fb seq z s = Some (?fb', ?s')"
    using flow_slot [OF ok, of seq] slot new m(1-3)
    by (simp add: insert_or_send_packet_def Let_def flow_mem_def)
  have "unat (fb_size fb + 1) = Suc (length (inorder t))"
    using ok small by (simp add: flow_ok_def unat_word_ariths)
  then have ok': "flow_ok ?s' ?fb' t'" using m(4-6) by (simp add: flow_ok_def)
  have frame: "rc_frame (insert new (set (inorder t))) s ?s'" using m(8) by (auto simp: rc_frame_def)
  have "stored ?s' (lefts gs) = stored s (lefts gs)" "stored ?s' (rights gs) = stored s (rights gs)"
    by (rule stored_cong, use m(5,7) in auto)+
  then have "stored ?s' (inorder t') = stored s (lefts gs) @ (seq, z) # stored s (rights gs)"
    using m(6) by simp
  with run ok' m(5,6) frame show ?thesis
    by (intro exI [of _ ?fb'] exI [of _ ?s'] exI [of _ t']) (simp add: same_flow_def)
qed

section \<open>Insertion within a window\<close>

fun spec_insert :: "u32 \<Rightarrow> u16 \<Rightarrow> (u32 \<times> u16) list \<Rightarrow> (u32 \<times> u16) list" where
  "spec_insert seq z [] = [(seq, z)]"
| "spec_insert seq z ((k, y) # xs) =
     (if before k seq then (k, y) # spec_insert seq z xs
      else if k = seq then (k, if z < y then y else z) # xs
      else (seq, z) # (k, y) # xs)"

definition in_order :: "(u32 \<times> u16) list \<Rightarrow> bool" where
  "in_order xs \<longleftrightarrow> sorted_wrt before (map fst xs)"

definition window_ok :: "u32 \<Rightarrow> (u32 \<times> u16) list \<Rightarrow> bool" where
  "window_ok seq xs \<longleftrightarrow> in_window (insert seq (fst ` set xs))"

lemma keys_stored:
  "\<forall>a \<in> set xs. rc_data s a \<noteq> None \<Longrightarrow> keys (seq_of s) xs = map fst (stored s xs)"
  by (auto simp: stored_def)

lemma spec_insert_between:
  assumes "\<forall>k \<in> fst ` set xs. before k seq" "\<forall>k \<in> fst ` set ys. before seq k" "window_ok seq (xs @ ys)"
  shows "spec_insert seq z (xs @ ys) = xs @ (seq, z) # ys"
  using assms
proof (induction xs)
  case Nil
  show ?case
  proof (cases ys)
    case (Cons p ys')
    obtain k y where p: "p = (k, y)" by force
    have "before seq k" "in_window {seq, k}"
      using Nil Cons p by (auto simp: window_ok_def elim: in_window_subset)
    with before_asym_window [of seq k] Cons p show ?thesis by auto
  qed simp
next
  case (Cons p xs)
  then have "window_ok seq (xs @ ys)" by (auto simp: window_ok_def elim: in_window_subset)
  with Cons show ?case by (cases p) auto
qed

lemma spec_insert_same:
  assumes "\<forall>k \<in> fst ` set xs. before k seq"
  shows "spec_insert seq z (xs @ (seq, y) # ys) = xs @ (seq, if z < y then y else z) # ys"
  using assms by (induction xs) auto

lemma spec_insert_keys: "fst ` set (spec_insert seq z xs) \<subseteq> insert seq (fst ` set xs)"
  by (induction seq z xs rule: spec_insert.induct) auto

lemma spec_insert_in_order:
  assumes "in_order xs" "window_ok seq xs"
  shows "in_order (spec_insert seq z xs)"
  using assms
proof (induction seq z xs rule: spec_insert.induct)
  case (2 seq z k y xs)
  have w: "window_ok seq xs" "in_order xs" using 2(2,3) by (auto simp: window_ok_def in_order_def elim: in_window_subset)
  consider "before k seq" | "k = seq" | "\<not> before k seq" "k \<noteq> seq" by blast
  then show ?case
  proof cases
    case 1
    have "before k x" if x: "x \<in> fst ` set (spec_insert seq z xs)" for x
    proof -
      have "x = seq \<or> x \<in> fst ` set xs" using subsetD [OF spec_insert_keys x] by simp
      then show ?thesis using 1 2(2) by (auto simp: in_order_def)
    qed
    with 1 2(1) [OF 1 w(2,1)] show ?thesis by (auto simp: in_order_def)
  next
    case 3
    then have b: "before seq k" using before_total by blast
    have "before seq x" if "x \<in> fst ` set xs" for x
    proof -
      have "before k x" "in_window {seq, k, x}"
        using 2(2,3) that by (auto simp: in_order_def window_ok_def elim: in_window_subset)
      with b before_trans_window show ?thesis by blast
    qed
    with 3 b 2(2) show ?thesis by (auto simp: in_order_def)
  qed (use 2(2) in \<open>auto simp: in_order_def\<close>)
qed (simp add: in_order_def)

lemma spec_insert_length:
  assumes "in_order xs" "window_ok seq xs"
  shows "length (spec_insert seq z xs) = length xs + (if seq \<in> fst ` set xs then 0 else 1)"
  using assms
proof (induction seq z xs rule: spec_insert.induct)
  case (2 seq z k y xs)
  have w: "window_ok seq xs" "in_order xs" using 2(2,3) by (auto simp: window_ok_def in_order_def elim: in_window_subset)
  consider "before k seq" | "k = seq" | "\<not> before k seq" "k \<noteq> seq" by blast
  then show ?case
  proof cases
    case 1
    with 2(1) [OF 1 w(2,1)] show ?thesis by auto
  next
    case 3
    then have b: "before seq k" using before_total by blast
    have "seq \<notin> fst ` set xs"
    proof
      assume seq: "seq \<in> fst ` set xs"
      then have "before k seq" using 2(2) by (auto simp: in_order_def)
      with 3(1) show False by blast
    qed
    with 3 show ?thesis by auto
  qed simp
qed simp

text \<open>What the search finds in a sorted listing is the place of \<open>spec_insert\<close>.\<close>

lemma spec_at_retransmission:
  assumes ok: "flow_ok s fb t" and d: "rc_data s a = Some d" "fd_seq d = seq" "a \<in> set (inorder t)"
    and ord: "in_order (stored s (inorder t))"
  shows "stored (if z < fd_seg_size d then s else s\<lparr>rc_data := (rc_data s)(a \<mapsto> d\<lparr>fd_seg_size := z\<rparr>)\<rparr>) (inorder t) =
           spec_insert seq z (stored s (inorder t))"
    (is "stored ?s' _ = _")
proof -
  obtain xs ys where it: "inorder t = xs @ a # ys" using d(3) split_list by metis
  have dist: "a \<notin> set xs" "a \<notin> set ys" using flow_ok_distinct [OF ok] it by auto
  have "\<forall>k \<in> fst ` set (stored s xs). before k seq"
    using ord d(1,2) it by (auto simp: in_order_def sorted_wrt_append)
  then have "spec_insert seq z (stored s (inorder t)) =
      stored s xs @ (seq, if z < fd_seg_size d then fd_seg_size d else z) # stored s ys"
    using d(1,2) it by (simp add: spec_insert_same)
  moreover have "stored ?s' xs = stored s xs" "stored ?s' ys = stored s ys"
    by (rule stored_cong, use dist in auto)+
  ultimately show ?thesis using it d(1,2) by simp
qed

lemma spec_at_slot:
  assumes ok: "flow_ok s fb t" and slot: "slot (seq_of s) seq [] t = Inr gs" and it: "inorder t = lefts gs @ rights gs"
    and ord: "in_order (stored s (inorder t))" and win: "window_ok seq (stored s (inorder t))"
  shows "spec_insert seq z (stored s (inorder t)) = stored s (lefts gs) @ (seq, z) # stored s (rights gs)"
proof -
  have data: "\<forall>a \<in> set (inorder t). rc_data s a \<noteq> None" using flow_ok_data [OF ok] by blast
  have "(\<forall>k \<in> set (keys (seq_of s) (lefts gs)). before k seq) \<and> (\<forall>k \<in> set (keys (seq_of s) (rights gs)). before seq k)"
  proof (rule slot_split [OF slot])
    show "sorted_wrt before (keys (seq_of s) (inorder (plug [] t)))"
      unfolding plug.simps keys_stored [OF data] by (rule ord [unfolded in_order_def])
    show "in_window (insert seq (set (keys (seq_of s) (inorder (plug [] t)))))"
      unfolding plug.simps keys_stored [OF data] set_map by (rule win [unfolded window_ok_def])
  qed simp_all
  moreover have "keys (seq_of s) (lefts gs) = map fst (stored s (lefts gs))" "keys (seq_of s) (rights gs) = map fst (stored s (rights gs))"
    by (rule keys_stored, use data it in auto)+
  ultimately show ?thesis
    using win unfolding it stored_simps(3) by (intro spec_insert_between) auto
qed

lemma insert_ok:
  assumes ok: "flow_ok s fb t" and env: "calloc_ok env"
    and new: "calloc_flowdata env (rc_nodes s) = Some new" and small: "length (inorder t) < 2 ^ 31"
  shows "\<exists>fb' s' t'. insert_or_send_packet env fb seq z s = Some (fb', s') \<and> flow_ok s' fb' t' \<and>
           set (inorder t') \<subseteq> insert new (set (inorder t)) \<and> length (inorder t') \<le> Suc (length (inorder t)) \<and>
           same_flow fb fb' \<and> fb_expected_next fb' = fb_expected_next fb \<and> rc_frame (insert new (set (inorder t))) s s' \<and>
           reorder_count s' = reorder_count s + of_nat (length (inorder t') - length (inorder t)) \<and>
           (in_order (stored s (inorder t)) \<and> window_ok seq (stored s (inorder t)) \<longrightarrow>
              stored s' (inorder t') = spec_insert seq z (stored s (inorder t)))"
proof (cases "slot (seq_of s) seq [] t")
  case (Inl a)
  from insert_retransmission [OF ok Inl, of env z] obtain d where
    d: "rc_data s a = Some d" "fd_seq d = seq" "a \<in> set (inorder t)" "insert_or_send_packet env fb seq z s =
       Some (fb, if z < fd_seg_size d then s else s\<lparr>rc_data := (rc_data s)(a \<mapsto> d\<lparr>fd_seg_size := z\<rparr>)\<rparr>)" by blast
  let ?s' = "if z < fd_seg_size d then s else s\<lparr>rc_data := (rc_data s)(a \<mapsto> d\<lparr>fd_seg_size := z\<rparr>)\<rparr>"
  have "flow_ok ?s' fb t" using ok by (auto simp: flow_ok_def tree_ok_def)
  moreover have "rc_frame (insert new (set (inorder t))) s ?s'" using d(3) by (auto simp: rc_frame_def)
  moreover have "reorder_count ?s' = reorder_count s" by simp
  ultimately show ?thesis using d(4) spec_at_retransmission [OF ok d(1,2,3), of z]
    by (intro exI [of _ fb] exI [of _ ?s'] exI [of _ t]) (auto simp: same_flow_def)
next
  case (Inr gs)
  from insert_new [OF ok Inr env new small, of z] obtain fb' s' t' where
    i: "insert_or_send_packet env fb seq z s = Some (fb', s')" "flow_ok s' fb' t'" "inorder t = lefts gs @ rights gs"
    "inorder t' = lefts gs @ new # rights gs" "stored s' (inorder t') = stored s (lefts gs) @ (seq, z) # stored s (rights gs)"
    "same_flow fb fb'" "fb_expected_next fb' = fb_expected_next fb"
    "rc_frame (insert new (set (inorder t))) s s'" "reorder_count s' = reorder_count s + 1" by blast
  have "set (inorder t') \<subseteq> insert new (set (inorder t))" "length (inorder t') = Suc (length (inorder t))"
    using i(3,4) by auto
  moreover from this have "reorder_count s' = reorder_count s + of_nat (length (inorder t') - length (inorder t))"
    using i(9) by simp
  moreover have "in_order (stored s (inorder t)) \<and> window_ok seq (stored s (inorder t)) \<longrightarrow>
      stored s' (inorder t') = spec_insert seq z (stored s (inorder t))"
    unfolding i(5) using spec_at_slot [OF ok Inr i(3), of z] by metis
  ultimately show ?thesis using i(1,2,6-8) by (metis le_refl)
qed

end
