(* ===== verification/Nfqueue_Correct.thy ===== *)
theory Nfqueue_Correct
  imports Nfqueue Reorder_Correct "HOL-Library.Multiset"
begin

text \<open>
  The operations of \<open>Nfqueue\<close> on one flow against the list of packets it holds back, in tree order. Every operation
  returns, keeps the tree red-black and the size exact, touches no memory outside the tree and a
  fresh node, and gives every packet one verdict or holds it.
\<close>

section \<open>Flows in memory\<close>

definition nfq_ok :: "'t nfq_world \<Rightarrow> 't nfq_flowbuf \<Rightarrow> rbt \<Rightarrow> bool" where
  "nfq_ok s fb t \<longleftrightarrow> tree_ok (nq_nodes s) (nq_data s) (nf_root fb) t \<and> unat (nf_size fb) = length (inorder t)"

definition held :: "'t nfq_world \<Rightarrow> addr list \<Rightarrow> nfq_flowdata list" where
  "held s xs = map (\<lambda>a. the (nq_data s a)) xs"

definition nfq_frame :: "addr set \<Rightarrow> 't nfq_world \<Rightarrow> 't nfq_world \<Rightarrow> bool" where
  "nfq_frame A s s' \<longleftrightarrow> (\<forall>b. b \<notin> A \<longrightarrow> nq_nodes s' b = nq_nodes s b \<and> nq_data s' b = nq_data s b) \<and>
     nq_buf s' = nq_buf s \<and> nq_queue s' = nq_queue s"

definition same_nfq_flow :: "'t nfq_flowbuf \<Rightarrow> 't nfq_flowbuf \<Rightarrow> bool" where
  "same_nfq_flow fb fb' \<longleftrightarrow> nf_sport fb' = nf_sport fb \<and> nf_dport fb' = nf_dport fb \<and> nf_timeout fb' = nf_timeout fb"

abbreviation accept :: "addr \<Rightarrow> nfq_flowdata \<Rightarrow> addr \<times> u32 \<times> verdict" where
  "accept queue d \<equiv> (queue, nd_packet_id d, NF_ACCEPT)"

lemma held_simps [simp]: "held s [] = []" "held s (a # xs) = the (nq_data s a) # held s xs"
  "held s (xs @ ys) = held s xs @ held s ys"
  by (simp_all add: held_def)

lemma length_held [simp]: "length (held s xs) = length xs"
  by (simp add: held_def)

lemma held_cong: "(\<And>a. a \<in> set xs \<Longrightarrow> nq_data s' a = nq_data s a) \<Longrightarrow> held s' xs = held s xs"
  by (simp add: held_def)

lemma nfq_frame_refl [simp]: "nfq_frame A s s"
  by (simp add: nfq_frame_def)

lemma nfq_frame_trans: "nfq_frame A s s' \<Longrightarrow> nfq_frame B s' s'' \<Longrightarrow> nfq_frame (A \<union> B) s s''"
  by (simp add: nfq_frame_def)

lemma nfq_frame_mono: "nfq_frame A s s' \<Longrightarrow> A \<subseteq> B \<Longrightarrow> nfq_frame B s s'"
  by (auto simp: nfq_frame_def)

lemma nfq_frame_verdicts [simp]: "nfq_frame A (s\<lparr>nq_verdicts := v\<rparr>) s' = nfq_frame A s s'"
  by (simp add: nfq_frame_def)

lemma nfq_verdicts_irrelevant [simp]:
  "nfq_ok (s\<lparr>nq_verdicts := v\<rparr>) fb t = nfq_ok s fb t" "held (s\<lparr>nq_verdicts := v\<rparr>) xs = held s xs"
  by (simp_all add: nfq_ok_def held_def)

lemma nfq_ok_fields [simp]:
  "nfq_ok s (fb\<lparr>nf_expected_next := x\<rparr>) t = nfq_ok s fb t" "nfq_ok s (fb\<lparr>nf_last_activity := y\<rparr>) t = nfq_ok s fb t"
  by (simp_all add: nfq_ok_def)

lemma same_nfq_flow_trans: "same_nfq_flow a b \<Longrightarrow> same_nfq_flow b c \<Longrightarrow> same_nfq_flow a c"
  by (simp add: same_nfq_flow_def)

lemma nfq_ok_data: "nfq_ok s fb t \<Longrightarrow> a \<in> set (inorder t) \<Longrightarrow> nq_data s a \<noteq> None"
  by (simp add: nfq_ok_def tree_ok_def)

lemma nfq_ok_distinct: "nfq_ok s fb t \<Longrightarrow> distinct (inorder t) \<and> 0 \<notin> set (inorder t)"
  by (auto simp: nfq_ok_def tree_ok_def rb_repr_mem wf_addrs_def)

lemma nfq_first: "nfq_ok s fb t \<Longrightarrow> rb_first (tree_mem (nq_nodes s) (nf_root fb)) = Some (head_or_null (inorder t))"
  unfolding nfq_ok_def using tree_first by blast

section \<open>Release\<close>

lemma nfq_send_ok:
  assumes ok: "nfq_ok s fb t" and t: "inorder t = xs @ a # ys" and d: "nq_data s a = Some d"
  shows "\<exists>fb' s' t'. nfq_send_packet_at env queue fb a s = Some (verdict_ret env queue (nd_packet_id d) NF_ACCEPT, fb', s') \<and>
           nfq_ok s' fb' t' \<and> inorder t' = xs @ ys \<and> held s' (xs @ ys) = held s (xs @ ys) \<and>
           nq_verdicts s' = nq_verdicts s @ [accept queue d] \<and>
           nf_expected_next fb' = max (nf_expected_next fb) (nd_seq d + ucast (nd_seg_size d)) \<and>
           nf_last_activity fb' = ev_now env \<and> same_nfq_flow fb fb' \<and> nfq_frame (set (inorder t)) s s'"
proof -
  from ok have tok: "tree_ok (nq_nodes s) (nq_data s) (nf_root fb) t" by (simp add: nfq_ok_def)
  from tree_erase [OF tok t] obtain m t' where
    m: "rb_erase a (tree_mem (nq_nodes s) (nf_root fb)) = Some m"
    "tree_ok ((rb_cells m)(a := None)) ((nq_data s)(a := None)) (rb_root m) t'"
    "inorder t' = xs @ ys" "a \<notin> set (xs @ ys)" "\<forall>b. b \<notin> set (inorder t) \<longrightarrow> rb_cells m b = nq_nodes s b" by blast
  let ?s' = "s\<lparr>nq_nodes := (rb_cells m)(a := None), nq_data := (nq_data s)(a := None),
    nq_verdicts := nq_verdicts s @ [accept queue d]\<rparr>"
  let ?fb' = "fb\<lparr>nf_expected_next := max (nf_expected_next fb) (nd_seq d + ucast (nd_seg_size d)), nf_root := rb_root m,
    nf_last_activity := ev_now env, nf_size := nf_size fb - 1\<rparr>"
  have run: "nfq_send_packet_at env queue fb a s = Some (verdict_ret env queue (nd_packet_id d) NF_ACCEPT, ?fb', ?s')"
    using d m(1) by (auto simp: nfq_send_packet_at_def nfq_set_verdict_def Let_def max_def not_less)
  have n: "unat (nf_size fb) = Suc (length (xs @ ys))" using ok t by (simp add: nfq_ok_def)
  then have "1 \<le> nf_size fb" by (simp add: word_le_nat_alt)
  with n have "unat (nf_size fb - 1) = length (xs @ ys)" by (simp add: unat_sub)
  then have "nfq_ok ?s' ?fb' t'" using m(2,3) by (simp add: nfq_ok_def)
  moreover have "nfq_frame (set (inorder t)) s ?s'" using m(5) t by (auto simp: nfq_frame_def)
  moreover have "held ?s' (xs @ ys) = held s (xs @ ys)" by (rule held_cong) (use m(4) in auto)
  ultimately show ?thesis using run m(3)
    by (intro exI [of _ ?fb'] exI [of _ ?s'] exI [of _ t']) (simp add: same_nfq_flow_def)
qed

lemma nfq_head:
  assumes "nfq_ok s fb t" "inorder t = a # ys"
  shows "rb_first (tree_mem (nq_nodes s) (nf_root fb)) = Some a" "a \<noteq> 0" "\<exists>d. nq_data s a = Some d"
  using nfq_first [OF assms(1)] nfq_ok_distinct [OF assms(1)] nfq_ok_data [OF assms(1), of a] assms(2) by auto

lemma nfq_release_all_ok:
  assumes "nfq_ok s fb t"
  shows "\<exists>fb' s'. nfq_release_all env queue ret fb s =
             Some (fold (\<lambda>d r. r AND verdict_ret env queue (nd_packet_id d) NF_ACCEPT) (held s (inorder t)) ret, fb', s') \<and>
           nfq_ok s' fb' Leaf \<and> nq_verdicts s' = nq_verdicts s @ map (accept queue) (held s (inorder t)) \<and>
           same_nfq_flow fb fb' \<and> nfq_frame (set (inorder t)) s s'"
  using assms
proof (induction "inorder t" arbitrary: s fb t ret)
  case Nil
  then have t: "t = Leaf" by (metis inorder_Nil)
  with Nil have "rb_first (tree_mem (nq_nodes s) (nf_root fb)) = Some 0" using nfq_first [OF Nil(2)] by simp
  with Nil t show ?case by (subst nfq_release_all.simps) (auto simp: same_nfq_flow_def)
next
  case (Cons a ys)
  have it: "inorder t = a # ys" using Cons.hyps(2) by simp
  from nfq_head [OF Cons.prems it] obtain d where
    h: "rb_first (tree_mem (nq_nodes s) (nf_root fb)) = Some a" "a \<noteq> 0" "nq_data s a = Some d" by blast
  from nfq_send_ok [OF Cons.prems _ h(3), of "[]" ys env queue] it obtain fb1 s1 t1 where
    1: "nfq_send_packet_at env queue fb a s = Some (verdict_ret env queue (nd_packet_id d) NF_ACCEPT, fb1, s1)"
    "nfq_ok s1 fb1 t1" "inorder t1 = ys" "held s1 ys = held s ys" "nq_verdicts s1 = nq_verdicts s @ [accept queue d]"
    "same_nfq_flow fb fb1" "nfq_frame (set (inorder t)) s s1" by auto
  from Cons.hyps(1) [OF 1(3) [symmetric] 1(2), of "ret AND verdict_ret env queue (nd_packet_id d) NF_ACCEPT"]
  obtain fb' s' where
    2: "nfq_release_all env queue (ret AND verdict_ret env queue (nd_packet_id d) NF_ACCEPT) fb1 s1 =
      Some (fold (\<lambda>d r. r AND verdict_ret env queue (nd_packet_id d) NF_ACCEPT) (held s ys)
              (ret AND verdict_ret env queue (nd_packet_id d) NF_ACCEPT), fb', s')"
    "nfq_ok s' fb' Leaf" "nq_verdicts s' = nq_verdicts s1 @ map (accept queue) (held s ys)"
    "same_nfq_flow fb1 fb'" "nfq_frame (set ys) s1 s'" unfolding 1(3,4) by blast
  have "nfq_frame (set (inorder t)) s s'"
    by (rule nfq_frame_mono [OF nfq_frame_trans [OF 1(7) 2(5)]]) (use it in auto)
  then show ?case
    using h 1(1,5) 2(1-3) same_nfq_flow_trans [OF 1(6) 2(4)] it by (subst nfq_release_all.simps) auto
qed

text \<open>The packets that the loop releases: those that continue exactly at the expected number.\<close>

fun spec_due :: "u32 \<Rightarrow> nfq_flowdata list \<Rightarrow> nfq_flowdata list \<times> u32 \<times> nfq_flowdata list" where
  "spec_due expected [] = ([], expected, [])"
| "spec_due expected (d # ds) =
     (if nd_seq d = expected
      then let (out, e, rest) = spec_due (max expected (nd_seq d + ucast (nd_seg_size d))) ds in (d # out, e, rest)
      else ([], expected, d # ds))"

lemma spec_due_split: "spec_due e ds = (out, e', rest) \<Longrightarrow> ds = out @ rest"
  by (induction e ds arbitrary: out e' rest rule: spec_due.induct) (auto split: if_splits prod.splits)

lemma nfq_release_due_ok:
  assumes "nfq_ok s fb t" "spec_due (nf_expected_next fb) (held s (inorder t)) = (out, e, rest)"
  shows "\<exists>fb' s' t'. nfq_release_due env queue fb s = Some (fb', s') \<and> nfq_ok s' fb' t' \<and> held s' (inorder t') = rest \<and>
           nf_expected_next fb' = e \<and> nq_verdicts s' = nq_verdicts s @ map (accept queue) out \<and>
           same_nfq_flow fb fb' \<and> nfq_frame (set (inorder t)) s s'"
  using assms
proof (induction "inorder t" arbitrary: s fb t out)
  case Nil
  then have t: "t = Leaf" by (metis inorder_Nil)
  with Nil have "rb_first (tree_mem (nq_nodes s) (nf_root fb)) = Some 0" using nfq_first [OF Nil(2)] by simp
  with Nil t show ?case by (subst nfq_release_due.simps) (auto simp: same_nfq_flow_def)
next
  case (Cons a ys)
  have it: "inorder t = a # ys" using Cons.hyps(2) by simp
  from nfq_head [OF Cons.prems(1) it] obtain d where
    h: "rb_first (tree_mem (nq_nodes s) (nf_root fb)) = Some a" "a \<noteq> 0" "nq_data s a = Some d" by blast
  show ?case
  proof (cases "nd_seq d = nf_expected_next fb")
    case False
    with h Cons.prems it show ?thesis by (subst nfq_release_due.simps) (auto simp: same_nfq_flow_def)
  next
    case True
    from nfq_send_ok [OF Cons.prems(1) _ h(3), of "[]" ys env queue] it obtain fb1 s1 t1 where
      1: "nfq_send_packet_at env queue fb a s = Some (verdict_ret env queue (nd_packet_id d) NF_ACCEPT, fb1, s1)"
      "nfq_ok s1 fb1 t1" "inorder t1 = ys" "held s1 ys = held s ys" "nq_verdicts s1 = nq_verdicts s @ [accept queue d]"
      "nf_expected_next fb1 = max (nf_expected_next fb) (nd_seq d + ucast (nd_seg_size d))"
      "same_nfq_flow fb fb1" "nfq_frame (set (inorder t)) s s1" by auto
    obtain out1 where out: "out = d # out1" "spec_due (nf_expected_next fb1) (held s1 (inorder t1)) = (out1, e, rest)"
      using Cons.prems(2) True h(3) it 1(3,4,6) by (auto split: prod.splits)
    from Cons.hyps(1) [OF 1(3) [symmetric] 1(2) out(2)] obtain fb' s' t' where
      2: "nfq_release_due env queue fb1 s1 = Some (fb', s')" "nfq_ok s' fb' t'" "held s' (inorder t') = rest"
      "nf_expected_next fb' = e" "nq_verdicts s' = nq_verdicts s1 @ map (accept queue) out1"
      "same_nfq_flow fb1 fb'" "nfq_frame (set ys) s1 s'" unfolding 1(3) by blast
    have "nfq_release_due env queue fb s = Some (fb', s')"
      using h True 1(1) 2(1) by (subst nfq_release_due.simps) simp
    moreover have "nfq_frame (set (inorder t)) s s'"
      by (rule nfq_frame_mono [OF nfq_frame_trans [OF 1(8) 2(7)]]) (use it in auto)
    ultimately show ?thesis
      using 1(5) 2(2-5) out(1) same_nfq_flow_trans [OF 1(7) 2(6)] by auto
  qed
qed

section \<open>Insertion\<close>

text \<open>The promise of the allocator, as for the counters.\<close>

definition nfq_calloc_ok :: "'t nfq_env \<Rightarrow> bool" where
  "nfq_calloc_ok env \<longleftrightarrow>
     (\<forall>H a. nfq_calloc_flowdata env H = Some a \<longrightarrow> a \<noteq> 0 \<and> aligned a \<and> H a = None)"

abbreviation nseq_of :: "'t nfq_world \<Rightarrow> addr \<rightharpoonup> u32" where
  "nseq_of s \<equiv> (\<lambda>a. map_option nd_seq (nq_data s a))"

lemma nfq_slot:
  assumes "nfq_ok s fb t"
  shows "find_slot (nseq_of s) (tree_mem (nq_nodes s) (nf_root fb)) seq RootLink 0 =
           Some (case slot (nseq_of s) seq [] t of Inl a \<Rightarrow> Inl a | Inr gs \<Rightarrow> Inr (parent_of gs, link_of gs))"
  by (rule tree_slot) (use assms in \<open>auto simp: nfq_ok_def\<close>)

text \<open>Every packet has one verdict or is held; a drop leaves a held packet with the same number.\<close>

definition vid :: "addr \<times> u32 \<times> verdict \<Rightarrow> u32" where
  "vid v = fst (snd v)"

definition conserved :: "u32 list \<Rightarrow> u32 \<Rightarrow> nfq_flowdata list \<Rightarrow> (addr \<times> u32 \<times> verdict) list \<Rightarrow> nfq_flowdata list \<Rightarrow> bool" where
  "conserved new seq before_ds vs after_ds \<longleftrightarrow>
     mset (map vid vs) + mset (map nd_packet_id after_ds) = mset new + mset (map nd_packet_id before_ds) \<and>
     (\<forall>v \<in> set vs. snd (snd v) = NF_DROP \<longrightarrow> (\<exists>d \<in> set after_ds. nd_seq d = seq))"

lemma nfq_insert_again:
  assumes ok: "nfq_ok s fb t" and slot: "slot (nseq_of s) seq [] t = Inl a"
  shows "\<exists>r fb' s' v. nfq_insert_or_send_packet env queue fb seq pid z s = Some (r, fb', s') \<and> nfq_ok s' fb' t \<and>
           nq_verdicts s' = nq_verdicts s @ [v] \<and> conserved [pid] seq (held s (inorder t)) [v] (held s' (inorder t)) \<and>
           same_nfq_flow fb fb' \<and> nfq_frame (set (inorder t)) s s'"
proof -
  have "\<forall>a \<in> set (inorder t). nseq_of s a \<noteq> None" using nfq_ok_data [OF ok] by auto
  from slot_Inl [OF slot this] obtain d where d: "nq_data s a = Some d" "nd_seq d = seq" "a \<in> set (inorder t)" by auto
  obtain xs ys where it: "inorder t = xs @ a # ys" using d(3) split_list by metis
  have dist: "a \<notin> set xs" "a \<notin> set ys" using nfq_ok_distinct [OF ok] it by auto
  let ?fb = "fb\<lparr>nf_last_activity := ev_now env\<rparr>"
  show ?thesis
  proof (cases "z < nd_seg_size d")
    case True
    let ?v = "(queue, pid, NF_DROP)"
    let ?s = "s\<lparr>nq_verdicts := nq_verdicts s @ [?v]\<rparr>"
    have "nfq_insert_or_send_packet env queue fb seq pid z s = Some (verdict_ret env queue pid NF_DROP, ?fb, ?s)"
      using nfq_slot [OF ok, of seq] slot d(1) True by (simp add: nfq_insert_or_send_packet_def nfq_set_verdict_def)
    then show ?thesis using ok d(1,2) it
      by (intro exI [of _ "verdict_ret env queue pid NF_DROP"] exI [of _ ?fb] exI [of _ ?s] exI [of _ ?v])
        (simp add: conserved_def vid_def same_nfq_flow_def nfq_frame_def)
  next
    case False
    let ?v = "(queue, nd_packet_id d, NF_DROP)" and ?d = "d\<lparr>nd_packet_id := pid, nd_seg_size := z\<rparr>"
    let ?s = "s\<lparr>nq_data := (nq_data s)(a \<mapsto> ?d), nq_verdicts := nq_verdicts s @ [?v]\<rparr>"
    let ?r = "verdict_ret env queue (nd_packet_id d) NF_DROP"
    have run: "nfq_insert_or_send_packet env queue fb seq pid z s = Some (?r, ?fb, ?s)"
      using nfq_slot [OF ok, of seq] slot d(1) False by (simp add: nfq_insert_or_send_packet_def nfq_set_verdict_def)
    have "held ?s xs = held s xs" "held ?s ys = held s ys" by (rule held_cong, use dist in auto)+
    then have "conserved [pid] seq (held s (inorder t)) [?v] (held ?s (inorder t))"
      using d(1,2) it by (simp add: conserved_def vid_def)
    moreover have "nfq_ok ?s ?fb t" using ok by (auto simp: nfq_ok_def tree_ok_def)
    moreover have "nfq_frame (set (inorder t)) s ?s" using d(3) by (auto simp: nfq_frame_def)
    ultimately show ?thesis using run
      by (intro exI [of _ ?r] exI [of _ ?fb] exI [of _ ?s] exI [of _ ?v]) (simp add: same_nfq_flow_def)
  qed
qed

lemma nfq_insert_new:
  assumes ok: "nfq_ok s fb t" and slot: "slot (nseq_of s) seq [] t = Inr gs" and env: "nfq_calloc_ok env"
    and new: "nfq_calloc_flowdata env (nq_nodes s) = Some new" and small: "length (inorder t) < 2 ^ 31"
  shows "\<exists>fb' s' t'. nfq_insert_or_send_packet env queue fb seq pid z s = Some (0, fb', s') \<and> nfq_ok s' fb' t' \<and>
           length (inorder t') = Suc (length (inorder t)) \<and> set (inorder t') \<subseteq> insert new (set (inorder t)) \<and>
           nq_verdicts s' = nq_verdicts s \<and> conserved [pid] seq (held s (inorder t)) [] (held s' (inorder t')) \<and>
           same_nfq_flow fb fb' \<and> nfq_frame (insert new (set (inorder t))) s s'"
proof -
  let ?n = "\<lparr>pc = 0, rb_right = 0, rb_left = 0\<rparr>" and ?d = "\<lparr>nd_seq = seq, nd_packet_id = pid, nd_seg_size = z\<rparr>"
  have fresh: "new \<noteq> 0" "aligned new" "nq_nodes s new = None" using env new by (auto simp: nfq_calloc_ok_def)
  from ok have tok: "tree_ok (nq_nodes s) (nq_data s) (nf_root fb) t" by (simp add: nfq_ok_def)
  from tree_insert [OF tok slot fresh, of ?n ?d] obtain m1 m t' x where
    m: "rb_first (tree_mem ((nq_nodes s)(new \<mapsto> ?n)) (nf_root fb)) = Some x"
    "rb_link_node new (parent_of gs) (link_store (link_of gs) new) (tree_mem ((nq_nodes s)(new \<mapsto> ?n)) (nf_root fb)) = Some m1"
    "rb_insert_color new m1 = Some m" "tree_ok (rb_cells m) ((nq_data s)(new \<mapsto> ?d)) (rb_root m) t'"
    "inorder t = lefts gs @ rights gs" "inorder t' = lefts gs @ new # rights gs" "new \<notin> set (inorder t)"
    "\<forall>b. b \<notin> insert new (set (inorder t)) \<longrightarrow> rb_cells m b = nq_nodes s b" by blast
  let ?s' = "s\<lparr>nq_nodes := rb_cells m, nq_data := (nq_data s)(new \<mapsto> ?d)\<rparr>"
  let ?fb' = "fb\<lparr>nf_size := nf_size fb + 1, nf_root := rb_root m, nf_last_activity := ev_now env\<rparr>"
  have run: "nfq_insert_or_send_packet env queue fb seq pid z s = Some (0, ?fb', ?s')"
    using nfq_slot [OF ok, of seq] slot new m(1-3) by (simp add: nfq_insert_or_send_packet_def Let_def)
  have "unat (nf_size fb + 1) = Suc (length (inorder t))"
    using ok small by (simp add: nfq_ok_def unat_word_ariths)
  then have ok': "nfq_ok ?s' ?fb' t'" using m(4-6) by (simp add: nfq_ok_def)
  have frame: "nfq_frame (insert new (set (inorder t))) s ?s'" using m(8) by (auto simp: nfq_frame_def)
  have "held ?s' (lefts gs) = held s (lefts gs)" "held ?s' (rights gs) = held s (rights gs)"
    by (rule held_cong, use m(5,7) in auto)+
  then have "conserved [pid] seq (held s (inorder t)) [] (held ?s' (inorder t'))"
    using m(5,6) by (simp add: conserved_def)
  moreover have "length (inorder t') = Suc (length (inorder t))" "set (inorder t') \<subseteq> insert new (set (inorder t))"
    using m(5,6) by auto
  ultimately show ?thesis using run ok' frame
    by (intro exI [of _ ?fb'] exI [of _ ?s'] exI [of _ t']) (simp add: same_nfq_flow_def)
qed

lemma nfq_insert_ok:
  assumes ok: "nfq_ok s fb t" and env: "nfq_calloc_ok env"
    and new: "nfq_calloc_flowdata env (nq_nodes s) = Some new" and small: "length (inorder t) < 2 ^ 31"
  shows "\<exists>r fb' s' t' vs. nfq_insert_or_send_packet env queue fb seq pid z s = Some (r, fb', s') \<and> nfq_ok s' fb' t' \<and>
           length (inorder t') \<le> Suc (length (inorder t)) \<and>
           nq_verdicts s' = nq_verdicts s @ vs \<and> conserved [pid] seq (held s (inorder t)) vs (held s' (inorder t')) \<and>
           same_nfq_flow fb fb' \<and> nfq_frame (insert new (set (inorder t))) s s'"
proof (cases "slot (nseq_of s) seq [] t")
  case (Inl a)
  from nfq_insert_again [OF ok Inl, of env queue pid z] show ?thesis
    by (meson le_SucI nfq_frame_mono order_refl subset_insertI)
next
  case (Inr gs)
  from nfq_insert_new [OF ok Inr env new small, of queue pid z] show ?thesis
    by (metis append_Nil2 order_refl)
qed

section \<open>The resequencing step\<close>

text \<open>The allocator finds room in every memory in which no more nodes are in use than now.\<close>

definition nfq_memory_left :: "'t nfq_env \<Rightarrow> 't nfq_world \<Rightarrow> bool" where
  "nfq_memory_left env s \<longleftrightarrow> (\<forall>H. dom H \<subseteq> dom (nq_nodes s) \<longrightarrow> nfq_calloc_flowdata env H \<noteq> None)"

lemma nfq_frame_dom:
  assumes "nfq_frame (set (inorder t)) s s'" "nfq_ok s fb t"
  shows "dom (nq_nodes s') \<subseteq> dom (nq_nodes s)"
proof
  fix b assume b: "b \<in> dom (nq_nodes s')"
  show "b \<in> dom (nq_nodes s)"
  proof (cases "b \<in> set (inorder t)")
    case True
    with assms(2) tree_ok_allocated [of "nq_nodes s" "nq_data s" "nf_root fb" t b] show ?thesis by (auto simp: nfq_ok_def)
  next
    case False
    with assms(1) b show ?thesis by (auto simp: nfq_frame_def dom_def)
  qed
qed

lemma conserved_accepts:
  "conserved [] seq (out @ rest) (map (accept queue) out) rest"
  by (auto simp: conserved_def vid_def comp_def)

lemma conserved_trans:
  assumes "conserved new1 seq ds vs ds1" "\<forall>v \<in> set vs. snd (snd v) = NF_ACCEPT" "conserved new2 seq ds1 ws ds2"
  shows "conserved (new1 @ new2) seq ds (vs @ ws) ds2"
proof -
  have "mset (map vid vs) + mset (map vid ws) + mset (map nd_packet_id ds2) =
      mset new2 + (mset (map vid vs) + mset (map nd_packet_id ds1))"
    using assms(3) by (simp add: conserved_def ac_simps)
  with assms show ?thesis by (auto simp: conserved_def ac_simps)
qed

lemma conserved_accept_now: "conserved [pid] seq ds [(queue, pid, NF_ACCEPT)] ds"
  by (simp add: conserved_def vid_def)

text \<open>What a step promises: it returns, keeps the flow well-formed and at most full, and gives every packet one verdict or holds it.\<close>

definition resequenced ::
  "addr set \<Rightarrow> u32 \<Rightarrow> u32 \<Rightarrow> 't nfq_flowbuf \<Rightarrow> 't nfq_world \<Rightarrow> rbt \<Rightarrow> (int \<times> 't nfq_flowbuf \<times> 't nfq_world) option \<Rightarrow> bool" where
  "resequenced A pid seq fb s t res \<longleftrightarrow>
     (\<exists>r fb' s' t' vs. res = Some (r, fb', s') \<and> nfq_ok s' fb' t' \<and> length (inorder t') \<le> 256 \<and>
        nq_verdicts s' = nq_verdicts s @ vs \<and> conserved [pid] seq (held s (inorder t)) vs (held s' (inorder t')) \<and>
        same_nfq_flow fb fb' \<and> nfq_frame A s s')"

lemma resequence_due:
  assumes ok: "nfq_ok s fb t" and full: "length (inorder t) \<le> 256"
    and due: "before (h_seq h) (nf_expected_next fb) \<or> h_seq h = nf_expected_next fb"
  shows "resequenced (set (inorder t)) pid (h_seq h) fb s t (nfq_resequence env queue fb h pid s)"
proof -
  let ?s = "s\<lparr>nq_verdicts := nq_verdicts s @ [(queue, pid, NF_ACCEPT)]\<rparr>"
  let ?fb = "(if h_syn h then fb\<lparr>nf_expected_next := h_seq h + 1\<rparr>
     else if nf_expected_next fb < h_seq h + ucast (h_psize h) then fb\<lparr>nf_expected_next := h_seq h + ucast (h_psize h)\<rparr>
     else fb)\<lparr>nf_last_activity := ev_now env\<rparr>"
  obtain out e rest where due_list: "spec_due (nf_expected_next ?fb) (held ?s (inorder t)) = (out, e, rest)"
    by (metis prod_cases3)
  have "nfq_ok ?s ?fb t" using ok by simp
  from nfq_release_due_ok [OF this due_list, of env queue] obtain fb' s' t' where
    r: "nfq_release_due env queue ?fb ?s = Some (fb', s')" "nfq_ok s' fb' t'" "held s' (inorder t') = rest"
    "nq_verdicts s' = nq_verdicts ?s @ map (accept queue) out" "same_nfq_flow ?fb fb'" "nfq_frame (set (inorder t)) ?s s'"
    by blast
  have split: "held s (inorder t) = out @ rest" using spec_due_split [OF due_list] by simp
  have run: "nfq_resequence env queue fb h pid s = Some (1, fb', s')"
    using due r(1) by (simp add: nfq_resequence_def nfq_set_verdict_def Let_def)
  have "length (inorder t') \<le> length (inorder t)"
    using arg_cong [OF split, of length] arg_cong [OF r(3), of length] by simp
  moreover have "conserved ([pid] @ []) (h_seq h) (held s (inorder t)) ([(queue, pid, NF_ACCEPT)] @ map (accept queue) out) rest"
    by (rule conserved_trans [OF conserved_accept_now]) (simp_all add: split conserved_accepts)
  moreover have "same_nfq_flow fb fb'" using r(5) by (auto simp: same_nfq_flow_def split: if_splits)
  ultimately show ?thesis using run r(2-4,6) full unfolding resequenced_def by force
qed

lemma resequence_full:
  assumes ok: "nfq_ok s fb t" and full: "length (inorder t) = 256" and env: "nfq_calloc_ok env"
    and mem: "nfq_memory_left env s"
    and late: "\<not> (before (h_seq h) (nf_expected_next fb) \<or> h_seq h = nf_expected_next fb)"
  shows "\<exists>A. (\<forall>b \<in> A. b \<in> set (inorder t) \<or> nq_nodes s b = None) \<and>
           resequenced A pid (h_seq h) fb s t (nfq_resequence env queue fb h pid s)"
proof -
  have size: "\<not> nf_size fb < 256" using ok full by (simp add: nfq_ok_def word_less_nat_alt)
  obtain a ys where it: "inorder t = a # ys" using full by (cases "inorder t") auto
  from nfq_head [OF ok it] obtain d where
    f: "rb_first (tree_mem (nq_nodes s) (nf_root fb)) = Some a" "nq_data s a = Some d" by blast
  show ?thesis
  proof (cases "nd_seq d \<le> h_seq h")
    case False
    let ?s = "s\<lparr>nq_verdicts := nq_verdicts s @ [(queue, pid, NF_ACCEPT)]\<rparr>"
    let ?fb = "fb\<lparr>nf_last_activity := ev_now env\<rparr>"
    have "nfq_resequence env queue fb h pid s = Some (-1, ?fb, ?s)"
      using late size f False by (simp add: nfq_resequence_def nfq_set_verdict_def Let_def)
    moreover have "same_nfq_flow fb ?fb" by (simp add: same_nfq_flow_def)
    moreover have "nfq_frame {} s ?s" by (simp add: nfq_frame_def)
    ultimately have "resequenced {} pid (h_seq h) fb s t (nfq_resequence env queue fb h pid s)"
      using ok full conserved_accept_now [of pid "h_seq h" "held s (inorder t)" queue] unfolding resequenced_def
      by (intro exI [of _ "-1"] exI [of _ ?fb] exI [of _ ?s] exI [of _ t] exI [of _ "[(queue, pid, NF_ACCEPT)]"]) simp
    then show ?thesis by (intro exI [of _ "{}"]) simp
  next
    case True
    from nfq_send_ok [OF ok _ f(2), of "[]" ys env queue] it obtain r1 fb1 s1 t1 where
      1: "nfq_send_packet_at env queue fb a s = Some (r1, fb1, s1)" "nfq_ok s1 fb1 t1" "inorder t1 = ys"
      "held s1 ys = held s ys" "nq_verdicts s1 = nq_verdicts s @ [accept queue d]" "same_nfq_flow fb fb1"
      "nfq_frame (set (inorder t)) s s1" by auto
    obtain new where new: "nfq_calloc_flowdata env (nq_nodes s1) = Some new"
      using mem nfq_frame_dom [OF 1(7) ok] unfolding nfq_memory_left_def by blast
    have "length (inorder t1) < 2 ^ 31" using 1(3) it full by simp
    from nfq_insert_ok [OF 1(2) env new this, of queue "h_seq h" pid "h_psize h"] obtain r fb' s' t' vs where
      2: "nfq_insert_or_send_packet env queue fb1 (h_seq h) pid (h_psize h) s1 = Some (r, fb', s')" "nfq_ok s' fb' t'"
      "length (inorder t') \<le> Suc (length ys)" "nq_verdicts s' = nq_verdicts s1 @ vs"
      "conserved [pid] (h_seq h) (held s ys) vs (held s' (inorder t'))" "same_nfq_flow fb1 fb'"
      "nfq_frame (insert new (set ys)) s1 s'" unfolding 1(3,4) by blast
    let ?A = "insert new (set (inorder t))"
    have run: "nfq_resequence env queue fb h pid s = Some (-1, fb', s')"
      using late size f True 1(1) 2(1) by (simp add: nfq_resequence_def Let_def)
    have "conserved [] (h_seq h) ([d] @ held s ys) (map (accept queue) [d]) (held s ys)" by (rule conserved_accepts)
    then have "conserved ([] @ [pid]) (h_seq h) (held s (inorder t)) ([accept queue d] @ vs) (held s' (inorder t'))"
      by (intro conserved_trans [OF _ _ 2(5)]) (use f(2) it in simp_all)
    moreover have "nfq_frame ?A s s'"
      by (rule nfq_frame_mono [OF nfq_frame_trans [OF 1(7) 2(7)]]) (use it in auto)
    ultimately have "resequenced ?A pid (h_seq h) fb s t (nfq_resequence env queue fb h pid s)"
      unfolding resequenced_def using run 2(2,3,4) 1(5) full it same_nfq_flow_trans [OF 1(6) 2(6)]
      by (intro exI [of _ "-1"] exI [of _ fb'] exI [of _ s'] exI [of _ t'] exI [of _ "accept queue d # vs"]) simp
    moreover have "nq_nodes s1 new = None" using env new by (auto simp: nfq_calloc_ok_def)
    then have "new \<in> set (inorder t) \<or> nq_nodes s new = None"
      using 1(7) unfolding nfq_frame_def by metis
    ultimately show ?thesis by (intro exI [of _ ?A]) simp
  qed
qed

lemma resequence_room:
  assumes ok: "nfq_ok s fb t" and room: "length (inorder t) < 256" and env: "nfq_calloc_ok env"
    and mem: "nfq_memory_left env s"
    and late: "\<not> (before (h_seq h) (nf_expected_next fb) \<or> h_seq h = nf_expected_next fb)"
  shows "\<exists>A. (\<forall>b \<in> A. b \<in> set (inorder t) \<or> nq_nodes s b = None) \<and>
           resequenced A pid (h_seq h) fb s t (nfq_resequence env queue fb h pid s)"
proof -
  have size: "nf_size fb < 256" using ok room by (simp add: nfq_ok_def word_less_nat_alt)
  obtain new where new: "nfq_calloc_flowdata env (nq_nodes s) = Some new"
    using mem unfolding nfq_memory_left_def by blast
  have small: "length (inorder t) < 2 ^ 31" using room by simp
  have run: "nfq_resequence env queue fb h pid s = nfq_insert_or_send_packet env queue fb (h_seq h) pid (h_psize h) s"
    using late size by (simp add: nfq_resequence_def Let_def)
  have "resequenced (insert new (set (inorder t))) pid (h_seq h) fb s t (nfq_resequence env queue fb h pid s)"
    unfolding resequenced_def run
    using nfq_insert_ok [OF ok env new small, of queue "h_seq h" pid "h_psize h"] room
    by (meson Suc_leI order_trans)
  moreover have "nq_nodes s new = None" using env new by (auto simp: nfq_calloc_ok_def)
  ultimately show ?thesis by (intro exI [of _ "insert new (set (inorder t))"]) simp
qed

end
