(* ===== verification/Reorder_Flows.thy ===== *)
theory Reorder_Flows
  imports Reorder_Correct
begin

text \<open>
  The table of flows: an invariant that ties every flow buffer to a tree of its own, and the packet handler as
  a whole. \<open>rc_abs\<close> reads the table as a map from pairs of ports to abstract flows.
\<close>

section \<open>The table\<close>

type_synonym flow_id = "u16 \<times> u16"

definition rc_inv :: "(flow_id \<Rightarrow> rbt) \<Rightarrow> rc_world \<Rightarrow> bool" where
  "rc_inv T s \<longleftrightarrow>
     (\<forall>p. distinct (map fb_dport (reorder_buf s p)) \<and>
        (\<forall>fb \<in> set (reorder_buf s p). fb_sport fb = p \<and> flow_ok s fb (T (p, fb_dport fb)) \<and> fb_size fb \<le> FBUF_SIZ)) \<and>
     (\<forall>f g. f \<noteq> g \<longrightarrow> set (inorder (T f)) \<inter> set (inorder (T g)) = {}) \<and>
     (\<forall>p d. find_flow d (reorder_buf s p) = None \<longrightarrow> T (p, d) = Leaf)"

definition rc_abs :: "(flow_id \<Rightarrow> rbt) \<Rightarrow> rc_world \<Rightarrow> (flow_id \<rightharpoonup> u32 \<times> (u32 \<times> u16) list)" where
  "rc_abs T s f = (case find_flow (snd f) (reorder_buf s (fst f)) of
     None \<Rightarrow> None | Some fb \<Rightarrow> Some (fb_expected_next fb, stored s (inorder (T f))))"

lemma find_flow_SomeD: "find_flow d bs = Some fb \<Longrightarrow> fb \<in> set bs \<and> fb_dport fb = d"
  by (induction bs) (auto split: if_splits)

lemma find_flow_None: "find_flow d bs = None \<longleftrightarrow> d \<notin> fb_dport ` set bs"
  by (induction bs) auto

lemma find_flow_append: "find_flow d (bs @ bs') = (case find_flow d bs of None \<Rightarrow> find_flow d bs' | Some fb \<Rightarrow> Some fb)"
  by (induction bs) auto

lemma update_flow_dports [simp]: "map fb_dport (update_flow fb bs) = map fb_dport bs"
  by (induction bs) auto

lemma find_update:
  "find_flow d (update_flow fb bs) =
     (if d = fb_dport fb \<and> find_flow d bs \<noteq> None then Some fb else find_flow d bs)"
  by (induction bs) auto

lemma set_update:
  assumes "distinct (map fb_dport bs)" "x \<in> set (update_flow fb bs)"
  shows "x = fb \<or> x \<in> set bs \<and> fb_dport x \<noteq> fb_dport fb"
  using assms by (induction bs) (auto split: if_splits, metis image_eqI)

lemma rc_inv_disjoint: "rc_inv T s \<Longrightarrow> f \<noteq> g \<Longrightarrow> set (inorder (T f)) \<inter> set (inorder (T g)) = {}"
  unfolding rc_inv_def by blast

lemma rc_invD:
  assumes "rc_inv T s" "find_flow d (reorder_buf s p) = Some fb"
  shows "flow_ok s fb (T (p, d))" "fb_sport fb = p" "fb_dport fb = d" "fb_size fb \<le> FBUF_SIZ"
  using assms find_flow_SomeD [OF assms(2)] by (auto simp: rc_inv_def)

lemma flow_length:
  assumes "flow_ok s fb t" "fb_size fb \<le> FBUF_SIZ"
  shows "length (inorder t) \<le> 1024" "fb_size fb < FBUF_SIZ \<longleftrightarrow> length (inorder t) < 1024"
proof -
  have "unat (fb_size fb) = length (inorder t)" using assms(1) by (simp add: flow_ok_def)
  with assms(2) show "length (inorder t) \<le> 1024" "fb_size fb < FBUF_SIZ \<longleftrightarrow> length (inorder t) < 1024"
    by (simp_all add: word_le_nat_alt word_less_nat_alt)
qed

lemma flow_size_le: "flow_ok s fb t \<Longrightarrow> length (inorder t) \<le> 1024 \<Longrightarrow> fb_size fb \<le> FBUF_SIZ"
  by (simp add: flow_ok_def word_le_nat_alt)

text \<open>Writing back a flow that an operation has changed within its own addresses and fresh ones.\<close>

lemma put_flow_step:
  assumes inv: "rc_inv T s" and find: "find_flow d (reorder_buf s p) = Some fb" and same: "same_flow fb fb'"
    and ok: "flow_ok s' fb' t'" and size: "length (inorder t') \<le> 1024"
    and frame: "rc_frame A s s'" and A: "\<forall>a \<in> A. a \<in> set (inorder (T (p, d))) \<or> rc_nodes s a = None"
    and t': "set (inorder t') \<subseteq> A \<union> set (inorder (T (p, d)))"
  shows "rc_inv (T((p, d) := t')) (put_flow fb' s')"
    "rc_abs (T((p, d) := t')) (put_flow fb' s') = (rc_abs T s)((p, d) \<mapsto> (fb_expected_next fb', stored s' (inorder t')))"
proof -
  note D = rc_invD [OF inv find]
  have ports: "fb_sport fb' = p" "fb_dport fb' = d" using D same by (simp_all add: same_flow_def)
  have buf: "reorder_buf (put_flow fb' s') = (reorder_buf s)(p := update_flow fb' (reorder_buf s p))"
    using frame ports by (simp add: put_flow_def rc_frame_def)
  have mem: "flow_ok (put_flow fb' s') x t = flow_ok s' x t" "stored (put_flow fb' s') xs = stored s' xs" for x t xs
    by (simp_all add: flow_ok_def flow_mem_def stored_def put_flow_def)
  have others: "A \<inter> set (inorder (T f)) = {}" if f: "f \<noteq> (p, d)" for f
  proof -
    have "rc_nodes s a \<noteq> None" if "a \<in> set (inorder (T f))" for a
    proof -
      obtain q e where f: "f = (q, e)" by force
      with that inv obtain fb where "find_flow e (reorder_buf s q) = Some fb"
        unfolding rc_inv_def by (metis inorder_Nil list.set(1) empty_iff option.exhaust)
      from flow_ok_allocated [OF rc_invD(1) [OF inv this]] that f show ?thesis by simp
    qed
    moreover have "set (inorder (T (p, d))) \<inter> set (inorder (T f)) = {}" using rc_inv_disjoint [OF inv f] by blast
    ultimately show ?thesis using A by blast
  qed
  have disj: "set (inorder t') \<inter> set (inorder (T f)) = {}" if f: "f \<noteq> (p, d)" for f
    using t' others [OF f] rc_inv_disjoint [OF inv f] by blast
  have flows: "flow_ok s' x (T (q, fb_dport x))" if "x \<in> set (reorder_buf s q)" "(q, fb_dport x) \<noteq> (p, d)" for q x
    using flow_ok_frame [OF _ frame others [OF that(2)]] inv that(1) by (auto simp: rc_inv_def)
  show "rc_inv (T((p, d) := t')) (put_flow fb' s')"
    unfolding rc_inv_def
  proof (intro conjI allI impI ballI)
    fix q
    show "distinct (map fb_dport (reorder_buf (put_flow fb' s') q))" using inv by (simp add: buf rc_inv_def)
    fix x assume x: "x \<in> set (reorder_buf (put_flow fb' s') q)"
    then have "x = fb' \<and> q = p \<or> x \<in> set (reorder_buf s q) \<and> (q, fb_dport x) \<noteq> (p, d)"
      using set_update [of "reorder_buf s p" x fb'] inv ports by (auto simp: buf rc_inv_def split: if_splits)
    then have "fb_sport x = q \<and> flow_ok s' x ((T((p, d) := t')) (q, fb_dport x)) \<and> fb_size x \<le> FBUF_SIZ"
      using flows [of x q] inv ports ok flow_size_le [OF ok size] by (auto simp: rc_inv_def)
    then show "fb_sport x = q" "flow_ok (put_flow fb' s') x ((T((p, d) := t')) (q, fb_dport x))" "fb_size x \<le> FBUF_SIZ"
      by (simp_all add: mem)
  next
    fix f g :: flow_id assume "f \<noteq> g"
    then show "set (inorder ((T((p, d) := t')) f)) \<inter> set (inorder ((T((p, d) := t')) g)) = {}"
      using disj [of f] disj [of g] rc_inv_disjoint [OF inv, of f g] by auto
  next
    fix q e assume "find_flow e (reorder_buf (put_flow fb' s') q) = None"
    then show "(T((p, d) := t')) (q, e) = Leaf"
      using find inv ports by (auto simp: buf find_update rc_inv_def split: if_splits)
  qed
  have eq: "stored s' (inorder (T f)) = stored s (inorder (T f))" if "f \<noteq> (p, d)" for f
    by (rule stored_cong) (use frame others [OF that] in \<open>auto simp: rc_frame_def\<close>)
  show "rc_abs (T((p, d) := t')) (put_flow fb' s') = (rc_abs T s)((p, d) \<mapsto> (fb_expected_next fb', stored s' (inorder t')))"
  proof
    fix f :: flow_id
    show "rc_abs (T((p, d) := t')) (put_flow fb' s') f =
      ((rc_abs T s)((p, d) \<mapsto> (fb_expected_next fb', stored s' (inorder t')))) f"
      using find ports eq [of f]
      by (cases f) (auto simp: rc_abs_def buf find_update mem split: option.splits)
  qed
qed

lemma get_flow_step:
  assumes inv: "rc_inv T s" and env: "calloc_flowbuf env"
  shows "\<exists>fb s1. get_flow env p d e s = Some (fb, s1) \<and> rc_inv T s1 \<and> find_flow d (reorder_buf s1 p) = Some fb \<and>
           rc_abs T s1 = (rc_abs T s)((p, d) \<mapsto> (case rc_abs T s (p, d) of None \<Rightarrow> (e, []) | Some x \<Rightarrow> x)) \<and>
           rc_nodes s1 = rc_nodes s \<and> reorder_count s1 = reorder_count s"
proof (cases "find_flow d (reorder_buf s p)")
  case (Some fb)
  moreover have "rc_abs T s = (rc_abs T s)((p, d) \<mapsto> (case rc_abs T s (p, d) of None \<Rightarrow> (e, []) | Some x \<Rightarrow> x))"
    using Some by (auto simp: fun_eq_iff rc_abs_def)
  ultimately show ?thesis using inv by (simp add: get_flow_def)
next
  case None
  let ?fb = "\<lparr>fb_sport = p, fb_dport = d, fb_size = 0, fb_expected_next = e, fb_root = 0\<rparr>"
  let ?s1 = "s\<lparr>reorder_buf := (reorder_buf s)(p := reorder_buf s p @ [?fb])\<rparr>"
  have leaf: "T (p, d) = Leaf" using inv None by (simp add: rc_inv_def)
  have mem: "flow_ok ?s1 x t = flow_ok s x t" "stored ?s1 xs = stored s xs" for x t xs
    by (simp_all add: flow_ok_def flow_mem_def stored_def)
  have new: "flow_ok s ?fb Leaf"
    by (simp add: flow_ok_def tree_ok_def rb_repr_mem wf_addrs_def rb_tree_def)
  have "rc_inv T ?s1"
    unfolding rc_inv_def
  proof (intro conjI allI impI ballI)
    fix q
    show "distinct (map fb_dport (reorder_buf ?s1 q))"
      using inv None by (auto simp: rc_inv_def find_flow_None)
    fix x assume "x \<in> set (reorder_buf ?s1 q)"
    then have "fb_sport x = q \<and> flow_ok s x (T (q, fb_dport x)) \<and> fb_size x \<le> FBUF_SIZ"
      using inv new leaf by (auto simp: rc_inv_def split: if_splits)
    then show "fb_sport x = q" "flow_ok ?s1 x (T (q, fb_dport x))" "fb_size x \<le> FBUF_SIZ" by (simp_all add: mem)
  next
    fix f g :: flow_id assume "f \<noteq> g"
    then show "set (inorder (T f)) \<inter> set (inorder (T g)) = {}" by (rule rc_inv_disjoint [OF inv])
  next
    fix q c assume "find_flow c (reorder_buf ?s1 q) = None"
    then show "T (q, c) = Leaf" using inv
      by (auto simp: rc_inv_def find_flow_append split: if_splits option.splits)
  qed
  moreover have "rc_abs T ?s1 = (rc_abs T s)((p, d) \<mapsto> (e, []))"
    using None leaf by (auto simp: fun_eq_iff rc_abs_def find_flow_append mem split: option.splits)
  moreover have "rc_abs T s (p, d) = None" using None by (simp add: rc_abs_def)
  ultimately show ?thesis using None env by (simp add: get_flow_def find_flow_append Let_def)
qed

section \<open>The handler\<close>

text \<open>There is memory for one more packet as long as no more is in use than now.\<close>

definition memory_left :: "rc_env \<Rightarrow> rc_world \<Rightarrow> bool" where
  "memory_left env s \<longleftrightarrow> calloc_flowbuf env \<and> (\<forall>H. dom H \<subseteq> dom (rc_nodes s) \<longrightarrow> calloc_flowdata env H \<noteq> None)"

lemma memory_leftD: "memory_left env s \<Longrightarrow> dom H \<subseteq> dom (rc_nodes s) \<Longrightarrow> \<exists>a. calloc_flowdata env H = Some a"
  unfolding memory_left_def by blast

text \<open>The handler on an abstract flow, \<open>None\<close> being a flow that is not in the table.\<close>

definition spec_handle ::
  "packet_hdr \<Rightarrow> (u32 \<times> (u32 \<times> u16) list) option \<Rightarrow> u32 \<times> (u32 \<times> u16) list" where
  "spec_handle h flow =
     (let (expected, xs) = (case flow of None \<Rightarrow> (h_seq h, []) | Some f \<Rightarrow> f)
      in if before (h_seq h) expected \<or> h_seq h = expected
         then spec_release (if h_syn h then h_seq h + 1 else h_seq h + ucast (h_psize h)) xs
         else if length xs < 1024 then (expected, spec_insert (h_seq h) (h_psize h) xs)
         else if fst (hd xs) \<le> h_seq h
         then (fst (hd xs) + ucast (snd (hd xs)), spec_insert (h_seq h) (h_psize h) (tl xs))
         else (expected, xs))"

text \<open>
  The comments of \<^verbatim>\<open>rc_handle_packet\<close> describe the lowest-first algorithm: a full buffer releases its first packet when its number is less than that of
  the current one, and otherwise releases the current packet. The code compares with \<open>\<le>\<close>, and as unsigned numbers. It deviates
  from the comment when the two comparisons of a full buffer give different answers.
\<close>

definition lowest_first ::
  "packet_hdr \<Rightarrow> (u32 \<times> (u32 \<times> u16) list) option \<Rightarrow> u32 \<times> (u32 \<times> u16) list" where
  "lowest_first h flow =
     (let (expected, xs) = (case flow of None \<Rightarrow> (h_seq h, []) | Some f \<Rightarrow> f)
      in if before (h_seq h) expected \<or> h_seq h = expected
         then spec_release (if h_syn h then h_seq h + 1 else h_seq h + ucast (h_psize h)) xs
         else if length xs < 1024 then (expected, spec_insert (h_seq h) (h_psize h) xs)
         else if before (fst (hd xs)) (h_seq h)
         then (fst (hd xs) + ucast (snd (hd xs)), spec_insert (h_seq h) (h_psize h) (tl xs))
         else (expected, xs))"

definition deviates :: "packet_hdr \<Rightarrow> (u32 \<times> (u32 \<times> u16) list) option \<Rightarrow> bool" where
  "deviates h flow =
     (case flow of
        None \<Rightarrow> False
      | Some (expected, xs) \<Rightarrow> \<not> before (h_seq h) expected \<and> h_seq h \<noteq> expected \<and> 1024 \<le> length xs \<and>
          (fst (hd xs) \<le> h_seq h) \<noteq> before (fst (hd xs)) (h_seq h))"

lemma spec_lowest_first: "\<not> deviates h flow \<Longrightarrow> spec_handle h flow = lowest_first h flow"
  by (auto simp: spec_handle_def lowest_first_def deviates_def Let_def split: option.splits prod.splits)

text \<open>The two cases: the number of the packet is stored already, or the window reaches over the end of the numbers.\<close>

lemma deviates_equal:
  assumes "\<not> before (h_seq h) e" "h_seq h \<noteq> e" "1024 \<le> length xs" "fst (hd xs) = h_seq h"
  shows "deviates h (Some (e, xs))"
  using assms by (simp add: deviates_def before_def)

lemma deviates_wrap:
  assumes "\<not> before (h_seq h) e" "h_seq h \<noteq> e" "1024 \<le> length xs" "before (fst (hd xs)) (h_seq h)" "h_seq h < fst (hd xs)"
  shows "deviates h (Some (e, xs))"
  using assms by (simp add: deviates_def)

text \<open>Whether the packet is stored as a new one.\<close>

definition spec_stores :: "packet_hdr \<Rightarrow> (u32 \<times> (u32 \<times> u16) list) option \<Rightarrow> bool" where
  "spec_stores h flow =
     (let (expected, xs) = (case flow of None \<Rightarrow> (h_seq h, []) | Some f \<Rightarrow> f)
      in \<not> before (h_seq h) expected \<and> h_seq h \<noteq> expected \<and>
         (if length xs < 1024 then h_seq h \<notin> fst ` set xs
          else fst (hd xs) \<le> h_seq h \<and> h_seq h \<notin> fst ` set (tl xs)))"

text \<open>The stored packets of the flow of a header are sorted, and its number is in their window.\<close>

definition flow_in_window :: "packet_hdr \<Rightarrow> (u32 \<times> (u32 \<times> u16) list) option \<Rightarrow> bool" where
  "flow_in_window h flow \<longleftrightarrow>
     (case flow of None \<Rightarrow> True | Some (e, xs) \<Rightarrow> in_order xs \<and> window_ok (h_seq h) xs)"

lemma window_Nil [simp]: "in_order []" "window_ok k []"
  by (auto simp: in_order_def window_ok_def in_window_def intro: exI [of _ k])

lemma length_stored [simp]: "length (stored s xs) = length xs"
  by (simp add: stored_def)

lemma window_tl: "in_order (p # xs) \<Longrightarrow> window_ok k (p # xs) \<Longrightarrow> in_order xs \<and> window_ok k xs"
  by (auto simp: in_order_def window_ok_def elim: in_window_subset)

lemma send_dom:
  assumes "flow_ok s fb t" "rc_frame (set (inorder t)) s s'"
  shows "dom (rc_nodes s') \<subseteq> dom (rc_nodes s)"
proof
  fix b assume "b \<in> dom (rc_nodes s')"
  then show "b \<in> dom (rc_nodes s)"
    using assms(2) flow_ok_allocated [OF assms(1), of b] by (cases "b \<in> set (inorder t)") (auto simp: rc_frame_def)
qed

text \<open>The full buffer: the packet with the lowest number makes room.\<close>

lemma full_step:
  assumes ok: "flow_ok s fb t" and it: "inorder t = a # ys" and small: "length (inorder t) \<le> 1024"
    and env: "calloc_ok env" "memory_left env s"
  shows "\<exists>fb1 s1 fb' s' t' new. send_packet_at fb a s = Some (fb1, s1) \<and>
           insert_or_send_packet env fb1 seq z s1 = Some (fb', s') \<and> flow_ok s' fb' t' \<and> length (inorder t') \<le> 1024 \<and>
           same_flow fb fb' \<and> rc_frame (insert new (set (inorder t))) s s' \<and>
           (new \<in> set (inorder t) \<or> rc_nodes s new = None) \<and> set (inorder t') \<subseteq> insert new (set (inorder t)) \<and>
           fb_expected_next fb' = fd_seq (the (rc_data s a)) + ucast (fd_seg_size (the (rc_data s a))) \<and>
           (reorder_count s' = reorder_count s \<or> reorder_count s' = reorder_count s + 1) \<and>
           (in_order (stored s (inorder t)) \<and> window_ok seq (stored s (inorder t)) \<longrightarrow>
              stored s' (inorder t') = spec_insert seq z (stored s ys) \<and>
              reorder_count s' = reorder_count s + (if seq \<in> fst ` set (stored s ys) then 0 else 1))"
proof -
  from send_packet_ok [OF ok, of "[]" a ys] it obtain fb1 s1 t1 where
    1: "send_packet_at fb a s = Some (fb1, s1)" "flow_ok s1 fb1 t1" "inorder t1 = ys" "stored s1 ys = stored s ys"
    "fb_expected_next fb1 = fd_seq (the (rc_data s a)) + ucast (fd_seg_size (the (rc_data s a)))" "same_flow fb fb1"
    "rc_frame (set (inorder t)) s s1" "reorder_count s1 = reorder_count s" by auto
  obtain new where new: "calloc_flowdata env (rc_nodes s1) = Some new"
    using memory_leftD [OF env(2) send_dom [OF ok 1(7)]] by blast
  then have "rc_nodes s1 new = None" using env(1) by (auto simp: calloc_ok_def)
  then have fresh: "new \<in> set (inorder t) \<or> rc_nodes s new = None" using 1(7) by (auto simp: rc_frame_def)
  from insert_ok [OF 1(2) env(1) new, of seq z] small it 1(3) obtain fb' s' t' where
    2: "insert_or_send_packet env fb1 seq z s1 = Some (fb', s')" "flow_ok s' fb' t'" "set (inorder t') \<subseteq> insert new (set ys)"
    "length (inorder t') \<le> Suc (length ys)" "same_flow fb1 fb'" "fb_expected_next fb' = fb_expected_next fb1"
    "rc_frame (insert new (set ys)) s1 s'" "reorder_count s' = reorder_count s1 + of_nat (length (inorder t') - length ys)"
    "in_order (stored s1 ys) \<and> window_ok seq (stored s1 ys) \<longrightarrow> stored s' (inorder t') = spec_insert seq z (stored s1 ys)"
    by auto
  have frame: "rc_frame (insert new (set (inorder t))) s s'"
    by (rule rc_frame_mono [OF rc_frame_trans [OF 1(7) 2(7)]]) (use it in auto)
  have "length (inorder t') - length ys = 0 \<or> length (inorder t') - length ys = 1" using 2(4) by linarith
  then have cnt: "reorder_count s' = reorder_count s \<or> reorder_count s' = reorder_count s + 1" using 2(8) 1(8) by auto
  have spec: "in_order (stored s (inorder t)) \<and> window_ok seq (stored s (inorder t)) \<longrightarrow>
      stored s' (inorder t') = spec_insert seq z (stored s ys) \<and>
      reorder_count s' = reorder_count s + (if seq \<in> fst ` set (stored s ys) then 0 else 1)"
  proof
    assume "in_order (stored s (inorder t)) \<and> window_ok seq (stored s (inorder t))"
    then have w: "in_order (stored s ys)" "window_ok seq (stored s ys)" using window_tl it by (metis stored_simps(2))+
    then have st: "stored s' (inorder t') = spec_insert seq z (stored s ys)" using 2(9) 1(4) by simp
    then have "length (inorder t') = length ys + (if seq \<in> fst ` set (stored s ys) then 0 else 1)"
      using spec_insert_length [OF w, of z] unfolding st [symmetric] length_stored by simp
    with st 2(8) 1(8) show "stored s' (inorder t') = spec_insert seq z (stored s ys) \<and>
      reorder_count s' = reorder_count s + (if seq \<in> fst ` set (stored s ys) then 0 else 1)" by simp
  qed
  have "length (inorder t') \<le> 1024" "set (inorder t') \<subseteq> insert new (set (inorder t))" using 2(3,4) small it by auto
  with 1 2 frame cnt spec fresh same_flow_trans [OF 1(6) 2(5)] show ?thesis by metis
qed

text \<open>What the handler leaves behind, and the state after the flow of a header has been looked up.\<close>

abbreviation flow_of :: "packet_hdr \<Rightarrow> flow_id" where
  "flow_of h \<equiv> (h_sport h, h_dport h)"

definition handled :: "packet_hdr \<Rightarrow> (flow_id \<Rightarrow> rbt) \<Rightarrow> rc_world \<Rightarrow> (flow_id \<Rightarrow> rbt) \<Rightarrow> rc_world \<Rightarrow> bool" where
  "handled h T s T' s' \<longleftrightarrow> rc_inv T' s' \<and>
     (\<forall>f. f \<noteq> flow_of h \<longrightarrow> rc_abs T' s' f = rc_abs T s f) \<and>
     (reorder_count s' = reorder_count s \<or> reorder_count s' = reorder_count s + 1) \<and>
     (flow_in_window h (rc_abs T s (flow_of h)) \<longrightarrow>
        rc_abs T' s' (flow_of h) = Some (spec_handle h (rc_abs T s (flow_of h))) \<and>
        reorder_count s' = reorder_count s + (if spec_stores h (rc_abs T s (flow_of h)) then 1 else 0))"

definition flow_at :: "packet_hdr \<Rightarrow> (flow_id \<Rightarrow> rbt) \<Rightarrow> rc_world \<Rightarrow> rc_flowbuf \<Rightarrow> rc_world \<Rightarrow> bool" where
  "flow_at h T s fb s1 \<longleftrightarrow> rc_inv T s1 \<and> find_flow (h_dport h) (reorder_buf s1 (h_sport h)) = Some fb \<and>
     rc_abs T s1 = (rc_abs T s)(flow_of h \<mapsto> (fb_expected_next fb, stored s1 (inorder (T (flow_of h))))) \<and>
     (case rc_abs T s (flow_of h) of None \<Rightarrow> (h_seq h, []) | Some x \<Rightarrow> x) =
       (fb_expected_next fb, stored s1 (inorder (T (flow_of h)))) \<and>
     rc_nodes s1 = rc_nodes s \<and> reorder_count s1 = reorder_count s"

lemma lookup_ok:
  assumes "rc_inv T s" "memory_left env s"
  shows "\<exists>fb s1. get_flow env (h_sport h) (h_dport h) (h_seq h) s = Some (fb, s1) \<and> flow_at h T s fb s1"
proof -
  from get_flow_step [OF assms(1), of env "h_sport h" "h_dport h" "h_seq h"] assms(2) obtain fb s1 where
    g: "get_flow env (h_sport h) (h_dport h) (h_seq h) s = Some (fb, s1)" "rc_inv T s1"
    "find_flow (h_dport h) (reorder_buf s1 (h_sport h)) = Some fb"
    "rc_abs T s1 = (rc_abs T s)(flow_of h \<mapsto> (case rc_abs T s (flow_of h) of None \<Rightarrow> (h_seq h, []) | Some x \<Rightarrow> x))"
    "rc_nodes s1 = rc_nodes s" "reorder_count s1 = reorder_count s"
    by (auto simp: memory_left_def)
  moreover have "(case rc_abs T s (flow_of h) of None \<Rightarrow> (h_seq h, []) | Some x \<Rightarrow> x) =
      (fb_expected_next fb, stored s1 (inorder (T (flow_of h))))"
    using fun_cong [OF g(4), of "flow_of h"] g(3) by (simp add: rc_abs_def)
  ultimately show ?thesis by (simp add: flow_at_def)
qed

lemma flow_atD:
  assumes "flow_at h T s fb s1"
  shows "flow_ok s1 fb (T (flow_of h))" "length (inorder (T (flow_of h))) \<le> 1024"
    "fb_size fb < FBUF_SIZ \<longleftrightarrow> length (inorder (T (flow_of h))) < 1024"
    "flow_in_window h (rc_abs T s (flow_of h)) \<Longrightarrow>
       in_order (stored s1 (inorder (T (flow_of h)))) \<and> window_ok (h_seq h) (stored s1 (inorder (T (flow_of h))))"
proof -
  from assms have "rc_inv T s1" "find_flow (h_dport h) (reorder_buf s1 (h_sport h)) = Some fb" by (simp_all add: flow_at_def)
  note D = rc_invD [OF this]
  show "flow_ok s1 fb (T (flow_of h))" "length (inorder (T (flow_of h))) \<le> 1024"
    "fb_size fb < FBUF_SIZ \<longleftrightarrow> length (inorder (T (flow_of h))) < 1024"
    using D(1) flow_length [OF D(1,4)] by auto
  show "in_order (stored s1 (inorder (T (flow_of h)))) \<and> window_ok (h_seq h) (stored s1 (inorder (T (flow_of h))))"
    if "flow_in_window h (rc_abs T s (flow_of h))"
    using that assms by (cases "rc_abs T s (flow_of h)") (auto simp: flow_in_window_def flow_at_def)
qed

lemma handled_put:
  assumes at: "flow_at h T s fb s1" and "same_flow fb fb'" "flow_ok s' fb' t'" "length (inorder t') \<le> 1024" "rc_frame A s1 s'"
    and "\<forall>a \<in> A. a \<in> set (inorder (T (flow_of h))) \<or> rc_nodes s1 a = None"
    and "set (inorder t') \<subseteq> A \<union> set (inorder (T (flow_of h)))"
    and cnt: "reorder_count s' = reorder_count s1 \<or> reorder_count s' = reorder_count s1 + 1"
    and spec: "flow_in_window h (rc_abs T s (flow_of h)) \<Longrightarrow>
      spec_handle h (rc_abs T s (flow_of h)) = (fb_expected_next fb', stored s' (inorder t')) \<and>
      reorder_count s' = reorder_count s1 + (if spec_stores h (rc_abs T s (flow_of h)) then 1 else 0)"
  shows "\<exists>T'. handled h T s T' (put_flow fb' s')"
proof -
  from at have inv: "rc_inv T s1" "find_flow (h_dport h) (reorder_buf s1 (h_sport h)) = Some fb" by (simp_all add: flow_at_def)
  note put = put_flow_step [OF inv assms(2-7)]
  have "handled h T s (T(flow_of h := t')) (put_flow fb' s')"
    using put at cnt spec by (auto simp: handled_def flow_at_def put_flow_def)
  then show ?thesis by blast
qed

lemma handle_due:
  assumes at: "flow_at h T s fb s1" and due: "before (h_seq h) (fb_expected_next fb) \<or> h_seq h = fb_expected_next fb"
  shows "\<exists>fb' s' T'. release_due (fb\<lparr>fb_expected_next := if h_syn h then h_seq h + 1 else h_seq h + ucast (h_psize h)\<rparr>) s1 =
           Some (fb', s') \<and> handled h T s T' (put_flow fb' s')"
proof -
  let ?e = "if h_syn h then h_seq h + 1 else h_seq h + ucast (h_psize h)" and ?t = "T (flow_of h)"
  have "flow_ok s1 (fb\<lparr>fb_expected_next := ?e\<rparr>) ?t" using flow_atD(1) [OF at] by simp
  from release_due_ok [OF this] obtain fb' s' t' where
    r: "release_due (fb\<lparr>fb_expected_next := ?e\<rparr>) s1 = Some (fb', s')" "flow_ok s' fb' t'"
    "set (inorder t') \<subseteq> set (inorder ?t)" "length (inorder t') \<le> length (inorder ?t)"
    "(fb_expected_next fb', stored s' (inorder t')) = spec_release ?e (stored s1 (inorder ?t))"
    "same_flow fb fb'" "rc_frame (set (inorder ?t)) s1 s'" "reorder_count s' = reorder_count s1"
    by (auto simp: same_flow_def)
  have "spec_handle h (rc_abs T s (flow_of h)) = (fb_expected_next fb', stored s' (inorder t')) \<and>
      reorder_count s' = reorder_count s1 + (if spec_stores h (rc_abs T s (flow_of h)) then 1 else 0)"
    using due at r(5,8) by (auto simp: spec_handle_def spec_stores_def flow_at_def)
  from handled_put [OF at r(6,2) _ r(7) _ _ _ this] r(3,4,8) flow_atD(2) [OF at]
  have "\<exists>T'. handled h T s T' (put_flow fb' s')" by auto
  with r(1) show ?thesis by blast
qed

lemma handle_room:
  assumes at: "flow_at h T s fb s1" and late: "\<not> (before (h_seq h) (fb_expected_next fb) \<or> h_seq h = fb_expected_next fb)"
    and room: "fb_size fb < FBUF_SIZ" and env: "calloc_ok env" "memory_left env s"
  shows "\<exists>fb' s' T'. insert_or_send_packet env fb (h_seq h) (h_psize h) s1 = Some (fb', s') \<and> handled h T s T' (put_flow fb' s')"
proof -
  let ?t = "T (flow_of h)" and ?seq = "h_seq h" and ?z = "h_psize h"
  note D = flow_atD [OF at]
  obtain new where new: "calloc_flowdata env (rc_nodes s1) = Some new"
    using memory_leftD [OF env(2), of "rc_nodes s1"] at by (auto simp: flow_at_def)
  then have fresh: "rc_nodes s1 new = None" using env(1) by (auto simp: calloc_ok_def)
  from insert_ok [OF D(1) env(1) new, of ?seq ?z] D(2) obtain fb' s' t' where
    i: "insert_or_send_packet env fb ?seq ?z s1 = Some (fb', s')" "flow_ok s' fb' t'"
    "set (inorder t') \<subseteq> insert new (set (inorder ?t))" "length (inorder t') \<le> Suc (length (inorder ?t))" "same_flow fb fb'"
    "fb_expected_next fb' = fb_expected_next fb" "rc_frame (insert new (set (inorder ?t))) s1 s'"
    "reorder_count s' = reorder_count s1 + of_nat (length (inorder t') - length (inorder ?t))"
    "in_order (stored s1 (inorder ?t)) \<and> window_ok ?seq (stored s1 (inorder ?t)) \<longrightarrow>
       stored s' (inorder t') = spec_insert ?seq ?z (stored s1 (inorder ?t))" by auto
  have spec: "spec_handle h (rc_abs T s (flow_of h)) = (fb_expected_next fb', stored s' (inorder t')) \<and>
      reorder_count s' = reorder_count s1 + (if spec_stores h (rc_abs T s (flow_of h)) then 1 else 0)"
    if w: "flow_in_window h (rc_abs T s (flow_of h))"
  proof -
    have st: "stored s' (inorder t') = spec_insert ?seq ?z (stored s1 (inorder ?t))" using i(9) D(4) [OF w] by blast
    then have "length (inorder t') = length (inorder ?t) + (if ?seq \<in> fst ` set (stored s1 (inorder ?t)) then 0 else 1)"
      using spec_insert_length [of "stored s1 (inorder ?t)" ?seq ?z] D(4) [OF w] unfolding st [symmetric] length_stored by blast
    with st late room at i(6,8) D(3) show ?thesis
      by (simp add: spec_handle_def spec_stores_def flow_at_def length_stored)
  qed
  have "length (inorder t') - length (inorder ?t) = 0 \<or> length (inorder t') - length (inorder ?t) = 1"
    using i(4) by linarith
  then have cnt: "reorder_count s' = reorder_count s1 \<or> reorder_count s' = reorder_count s1 + 1" using i(8) by auto
  from handled_put [OF at i(5,2) _ i(7) _ _ cnt spec] i(3,4) room D(3) fresh
  have "\<exists>T'. handled h T s T' (put_flow fb' s')" by auto
  with i(1) show ?thesis by blast
qed

lemma handle_full:
  assumes at: "flow_at h T s fb s1" and late: "\<not> (before (h_seq h) (fb_expected_next fb) \<or> h_seq h = fb_expected_next fb)"
    and full: "\<not> fb_size fb < FBUF_SIZ" and env: "calloc_ok env" "memory_left env s"
  shows "\<exists>a da. rb_first (flow_mem fb s1) = Some a \<and> rc_data s1 a = Some da \<and>
           (if fd_seq da \<le> h_seq h
            then \<exists>fb1 s2 fb' s' T'. send_packet_at fb a s1 = Some (fb1, s2) \<and>
              insert_or_send_packet env fb1 (h_seq h) (h_psize h) s2 = Some (fb', s') \<and> handled h T s T' (put_flow fb' s')
            else handled h T s T s1)"
proof -
  let ?t = "T (flow_of h)" and ?seq = "h_seq h" and ?z = "h_psize h"
  note D = flow_atD [OF at]
  have n: "length (inorder ?t) = 1024" using full D(2,3) by simp
  then obtain a ys where it: "inorder ?t = a # ys" by (cases "inorder ?t") auto
  have first: "rb_first (flow_mem fb s1) = Some a"
    using flow_first [OF D(1)] it by simp
  obtain da where da: "rc_data s1 a = Some da" using flow_ok_data [OF D(1), of a] it by auto
  show ?thesis
  proof (cases "fd_seq da \<le> ?seq")
    case False
    have "spec_handle h (rc_abs T s (flow_of h)) = (fb_expected_next fb, stored s1 (inorder ?t)) \<and>
        \<not> spec_stores h (rc_abs T s (flow_of h))"
      using late at n it da False by (simp add: spec_handle_def spec_stores_def flow_at_def)
    then have "handled h T s T s1" using at by (simp add: handled_def flow_at_def)
    with first da False show ?thesis by auto
  next
    case True
    have mem: "memory_left env s1" using env(2) at by (simp add: memory_left_def flow_at_def)
    from full_step [OF D(1) it D(2) env(1) mem, of ?seq ?z] obtain fb1 s2 fb' s' t' new where
      i: "send_packet_at fb a s1 = Some (fb1, s2)" "insert_or_send_packet env fb1 ?seq ?z s2 = Some (fb', s')"
      "flow_ok s' fb' t'" "length (inorder t') \<le> 1024" "same_flow fb fb'" "rc_frame (insert new (set (inorder ?t))) s1 s'"
      "new \<in> set (inorder ?t) \<or> rc_nodes s1 new = None" "set (inorder t') \<subseteq> insert new (set (inorder ?t))"
      "fb_expected_next fb' = fd_seq (the (rc_data s1 a)) + ucast (fd_seg_size (the (rc_data s1 a)))"
      "reorder_count s' = reorder_count s1 \<or> reorder_count s' = reorder_count s1 + 1"
      "in_order (stored s1 (inorder ?t)) \<and> window_ok ?seq (stored s1 (inorder ?t)) \<longrightarrow>
         stored s' (inorder t') = spec_insert ?seq ?z (stored s1 ys) \<and>
         reorder_count s' = reorder_count s1 + (if ?seq \<in> fst ` set (stored s1 ys) then 0 else 1)" by blast
    have spec: "spec_handle h (rc_abs T s (flow_of h)) = (fb_expected_next fb', stored s' (inorder t')) \<and>
        reorder_count s' = reorder_count s1 + (if spec_stores h (rc_abs T s (flow_of h)) then 1 else 0)"
      if "flow_in_window h (rc_abs T s (flow_of h))"
      using late at i(9,11) D(4) [OF that] n it da True by (simp add: spec_handle_def spec_stores_def flow_at_def)
    from handled_put [OF at i(5,3,4,6) _ _ i(10) spec] i(7,8)
    have "\<exists>T'. handled h T s T' (put_flow fb' s')" by auto
    with first da True i(1,2) show ?thesis by auto
  qed
qed

lemma handle_ok:
  assumes inv: "rc_inv T s" and h: "packet_headers data = Some h" and env: "calloc_ok env" "memory_left env s"
  shows "\<exists>r s' T'. rc_handle_packet env data s = Some (r, s') \<and> handled h T s T' s'"
proof -
  from lookup_ok [OF inv env(2), of h] obtain fb s1 where
    g: "get_flow env (h_sport h) (h_dport h) (h_seq h) s = Some (fb, s1)" and at: "flow_at h T s fb s1" by blast
  note run = h g rc_handle_packet_def Let_def
  show ?thesis
  proof (cases "before (h_seq h) (fb_expected_next fb) \<or> h_seq h = fb_expected_next fb")
    case True
    from handle_due [OF at True] True show ?thesis by (auto simp: run)
  next
    case late: False
    show ?thesis
    proof (cases "fb_size fb < FBUF_SIZ")
      case True
      from handle_room [OF at late True env] late True show ?thesis by (auto simp: run)
    next
      case False
      from handle_full [OF at late False env] late False show ?thesis by (auto simp: run split: if_splits)
    qed
  qed
qed

lemma handled_abs:
  assumes "handled h T s T' s'" "flow_in_window h (rc_abs T s (flow_of h))"
  shows "rc_abs T' s' = (rc_abs T s)(flow_of h \<mapsto> spec_handle h (rc_abs T s (flow_of h)))"
proof
  fix f
  show "rc_abs T' s' f = ((rc_abs T s)(flow_of h \<mapsto> spec_handle h (rc_abs T s (flow_of h)))) f"
    using assms unfolding handled_def by (cases "f = flow_of h") (simp only: fun_upd_same simp_thms, simp only: fun_upd_other simp_thms)
qed

lemma spec_release_order: "in_order xs \<Longrightarrow> in_order (snd (spec_release e xs))"
  by (induction e xs rule: spec_release.induct) (auto simp: in_order_def)

lemma spec_release_due:
  "spec_release e xs = (e', xs') \<Longrightarrow> xs' = [] \<or> before e' (fst (hd xs'))"
  by (induction e xs rule: spec_release.induct) (auto split: if_splits dest: before_total)

lemma spec_release_drop: "spec_release e xs = (e', xs') \<Longrightarrow> \<exists>n. xs' = drop n xs"
proof (induction e xs rule: spec_release.induct)
  case (2 e x xs)
  then show ?case by (cases x) (auto split: if_splits intro: exI [of _ 0] exI [of _ "Suc _"])
qed auto

lemma spec_handle_order:
  assumes "in_order xs" "window_ok (h_seq h) xs" "spec_handle h (Some (e, xs)) = (e', xs')"
  shows "in_order xs'"
proof -
  have tl: "in_order (tl xs) \<and> window_ok (h_seq h) (tl xs)"
    using assms(1,2) window_tl [of "hd xs" "tl xs" "h_seq h"] by (cases xs) auto
  show ?thesis
    using assms(3) spec_release_order [OF assms(1)] spec_insert_in_order [OF assms(1,2)] spec_insert_in_order [of "tl xs" "h_seq h"] tl assms(1)
    by (auto simp: spec_handle_def split: if_splits) (metis snd_conv)+
qed

lemma spec_handle_due:
  assumes "before (h_seq h) e \<or> h_seq h = e" "spec_handle h (Some (e, xs)) = (e', xs')"
  shows "xs' = [] \<or> before e' (fst (hd xs'))"
  using assms spec_release_due by (simp add: spec_handle_def)

end
