(* ===== verification/Reorder_Properties.thy ===== *)
theory Reorder_Properties
  imports Reorder_Flows
begin

text \<open>
  The properties of the packet counters, with instances on small tables. The last section counts over
  whole runs of the receive loop.
\<close>

section \<open>A small table\<close>

text \<open>A TCP segment from port 1 to port 2 in a minimal IP packet: sequence number 150, 50 bytes, identification 7.\<close>

definition demo_packet :: "u8 list" where
  "demo_packet = [69, 0, 0, 90, 0, 7, 0, 0, 64, 6, 0, 0, 10, 0, 0, 1, 10, 0, 0, 2,
                  0, 1, 0, 2, 0, 0, 0, 150, 0, 0, 0, 0, 80, 16, 0, 0, 0, 0, 0, 0]"

definition demo_header :: packet_hdr where
  "demo_header = \<lparr>h_sport = 1, h_dport = 2, h_psize = 50, h_seq = 150, h_syn = False, h_ipid = 7\<rparr>"

lemma demo_packet_headers: "packet_headers demo_packet = Some demo_header"
  by (simp add: packet_headers_def demo_packet_def demo_header_def byte_at_def be16_def be32_def)

lemma demo_ports: "h_sport demo_header = 1" "h_dport demo_header = 2"
  by (simp_all add: demo_header_def)

definition demo_flow :: "u32 \<Rightarrow> rc_flowbuf" where
  "demo_flow e = \<lparr>fb_sport = 1, fb_dport = 2, fb_size = 1, fb_expected_next = e, fb_root = 16\<rparr>"

definition demo_world :: "u32 \<Rightarrow> rc_world" where
  "demo_world e = \<lparr>reorder_count = 5, reorder_buf = (\<lambda>_. [])(1 := [demo_flow e]),
     rc_nodes = [16 \<mapsto> \<lparr>pc = 1, rb_right = 0, rb_left = 0\<rparr>], rc_data = [16 \<mapsto> \<lparr>fd_seq = 200, fd_seg_size = 50\<rparr>]\<rparr>"

definition demo_trees :: "flow_id \<Rightarrow> rbt" where
  "demo_trees = (\<lambda>_. Leaf)((1, 2) := Node Leaf Black 16 Leaf)"

definition demo_calloc :: rc_env where
  "demo_calloc = \<lparr>calloc_flowbuf = True, calloc_flowdata = (\<lambda>H. if H 24 = None then Some 24 else None)\<rparr>"

lemma demo_calloc_ok: "calloc_ok demo_calloc"
  by (auto simp: calloc_ok_def demo_calloc_def aligned_def)

lemma demo_memory: "memory_left demo_calloc (demo_world e)"
  by (auto simp: memory_left_def demo_calloc_def demo_world_def dom_def)

lemma demo_flow_ok: "flow_ok (demo_world e) (demo_flow e) (Node Leaf Black 16 Leaf)"
  by (simp add: flow_ok_def tree_ok_def rb_repr_def demo_world_def demo_flow_def wf_addrs_def aligned_def rb_tree_def)

lemma demo_table_inv: "rc_inv demo_trees (demo_world e)"
proof -
  have "\<forall>p. reorder_buf (demo_world e) p = (if p = 1 then [demo_flow e] else [])" by (simp add: demo_world_def)
  then show ?thesis using demo_flow_ok [of e]
    by (auto simp: rc_inv_def demo_trees_def demo_flow_def)
qed

lemma demo_abs: "rc_abs demo_trees (demo_world e) (1, 2) = Some (e, [(200, 50)])"
  by (simp add: rc_abs_def demo_world_def demo_trees_def demo_flow_def stored_def)

lemma demo_in_window: "in_window {150, 200}"
  unfolding in_window_def by (intro exI [of _ 150]) simp


section \<open>The counter with a resequencing buffer\<close>

text \<open>
  C23. Whatever the receive buffer holds, \<^verbatim>\<open>rc_handle_packet\<close> returns: no byte beyond the first 80 is read, no pointer is followed into nothing and every loop
  ends. It keeps the table well-formed (every flow a red-black tree of its own, the size fields exact and
  at most \<^verbatim>\<open>FBUF_SIZ\<close>), leaves the other flows alone and raises the counter by at most one.
\<close>

theorem rc_handle_packet_safe:
  assumes "rc_inv T s" "80 \<le> length data" "calloc_ok env" "memory_left env s"
  shows "\<exists>h r s' T'. packet_headers data = Some h \<and> rc_handle_packet env data s = Some (r, s') \<and> rc_inv T' s' \<and>
           (\<forall>f. f \<noteq> (h_sport h, h_dport h) \<longrightarrow> rc_abs T' s' f = rc_abs T s f) \<and>
           (reorder_count s' = reorder_count s \<or> reorder_count s' = reorder_count s + 1)"
proof -
  obtain h where h: "packet_headers data = Some h" using packet_headers_total [OF assms(2)] by blast
  from handle_ok [OF assms(1) h assms(3,4)] obtain r s' T' where
    "rc_handle_packet env data s = Some (r, s')" "handled h T s T' s'" by blast
  with h show ?thesis unfolding handled_def by blast
qed

theorem rc_handle_packet_safe_witness:
  "\<exists>r s' T'. rc_handle_packet demo_calloc (demo_packet @ replicate 40 0) (demo_world 100) = Some (r, s') \<and> rc_inv T' s'"
proof -
  have "80 \<le> length (demo_packet @ replicate 40 0)" by (simp add: demo_packet_def)
  from rc_handle_packet_safe [OF demo_table_inv this demo_calloc_ok demo_memory] show ?thesis by blast
qed



text \<open>
  C25. Storing and releasing keep the order: within a window the stored packets of the flow, which are those in the memory, remain sorted.
  A packet that was due releases stored packets from the front only, and nothing that is due is left at the front: the first
  packet that is still stored comes after the expected number.
\<close>

theorem rc_release_complete:
  assumes "rc_inv T s" "packet_headers data = Some h" "calloc_ok env" "memory_left env s"
    and "rc_abs T s (h_sport h, h_dport h) = Some (e, xs)" "in_order xs" "window_ok (h_seq h) xs"
  shows "\<exists>r s' T' e' xs'. rc_handle_packet env data s = Some (r, s') \<and> rc_inv T' s' \<and>
           rc_abs T' s' (h_sport h, h_dport h) = Some (e', xs') \<and> in_order xs' \<and>
           (before (h_seq h) e \<or> h_seq h = e \<longrightarrow> (\<exists>n. xs' = drop n xs) \<and> (xs' = [] \<or> before e' (fst (hd xs'))))"
proof -
  obtain e' xs' where spec: "spec_handle h (Some (e, xs)) = (e', xs')" by force
  have "flow_in_window h (rc_abs T s (flow_of h))" using assms(5-7) by (simp add: flow_in_window_def)
  note win = this
  from handle_ok [OF assms(1-4)] obtain r s' T' where
    r: "rc_handle_packet env data s = Some (r, s')" "handled h T s T' s'" by blast
  have "rc_abs T' s' (flow_of h) = Some (e', xs')"
    using handled_abs [OF r(2) win] spec assms(5) by simp
  note r(1) this
  moreover have "rc_inv T' s'" using r(2) by (simp add: handled_def)
  moreover have "in_order xs'" using spec_handle_order [OF assms(6,7) spec] .
  moreover have "before (h_seq h) e \<or> h_seq h = e \<longrightarrow> (\<exists>n. xs' = drop n xs) \<and> (xs' = [] \<or> before e' (fst (hd xs')))"
    using spec_handle_due [OF _ spec] spec_release_drop spec by (auto simp: spec_handle_def)
  ultimately show ?thesis by blast
qed

theorem rc_release_complete_witness:
  "\<exists>r s' T' e' xs'. rc_handle_packet demo_calloc demo_packet (demo_world 150) = Some (r, s') \<and> rc_inv T' s' \<and>
     rc_abs T' s' (1, 2) = Some (e', xs') \<and> (xs' = [] \<or> before e' (fst (hd xs')))"
proof -
  have "rc_abs demo_trees (demo_world 150) (h_sport demo_header, h_dport demo_header) = Some (150, [(200, 50)])"
    "in_order [(200, 50)]" "window_ok (h_seq demo_header) [(200, 50)]"
    using demo_abs demo_in_window by (simp_all add: demo_ports in_order_def window_ok_def demo_header_def)
  from rc_release_complete [OF demo_table_inv demo_packet_headers demo_calloc_ok demo_memory this] show ?thesis
    unfolding demo_ports by (simp add: demo_header_def) blast
qed

text \<open>
  An old duplicate turns the expectation back: with nothing stored, a packet that comes before the expected number
  sets it to the end of that packet, even if that is far behind. The next packet of the stream, which carries
  exactly the number that was expected before, is then stored and counted as out of order.
\<close>

theorem rc_old_packet_regresses:
  assumes "rc_inv T s" "packet_headers data = Some h" "calloc_ok env" "memory_left env s"
    and "rc_abs T s (h_sport h, h_dport h) = Some (e, [])" "before (h_seq h) e" "\<not> h_syn h"
    and "h_seq h2 = e" "before (h_seq h + ucast (h_psize h)) e" "in_window {h_seq h + ucast (h_psize h), e}"
  shows "\<exists>r s' T'. rc_handle_packet env data s = Some (r, s') \<and> rc_inv T' s' \<and>
           rc_abs T' s' (h_sport h, h_dport h) = Some (h_seq h + ucast (h_psize h), []) \<and>
           spec_stores h2 (rc_abs T' s' (h_sport h, h_dport h)) \<and> \<not> spec_stores h2 (rc_abs T s (h_sport h, h_dport h))"
proof -
  have win: "flow_in_window h (rc_abs T s (flow_of h))" using assms(5) by (simp add: flow_in_window_def)
  have spec: "spec_handle h (Some (e, [])) = (h_seq h + ucast (h_psize h), [])"
    using assms(6,7) by (simp add: spec_handle_def)
  from handle_ok [OF assms(1-4)] obtain r s' T' where
    r: "rc_handle_packet env data s = Some (r, s')" "handled h T s T' s'" by blast
  have abs: "rc_abs T' s' (flow_of h) = Some (h_seq h + ucast (h_psize h), [])"
    using handled_abs [OF r(2) win] spec assms(5) by simp
  have "\<not> before e (h_seq h + ucast (h_psize h))" using before_asym_window [OF assms(10,9)] .
  moreover have "e \<noteq> h_seq h + ucast (h_psize h)" using assms(9) by auto
  ultimately have "spec_stores h2 (Some (h_seq h + ucast (h_psize h), []))" using assms(8) by (simp add: spec_stores_def)
  moreover have "\<not> spec_stores h2 (Some (e, []))" using assms(8) by (simp add: spec_stores_def)
  moreover have "rc_inv T' s'" using r(2) by (simp add: handled_def)
  ultimately show ?thesis using r(1) abs assms(5) by auto
qed

theorem rc_old_packet_regresses_witness:
  "\<exists>r s' T'. rc_handle_packet demo_calloc demo_packet
       (demo_world 1000\<lparr>reorder_buf := (\<lambda>_. [])(1 := [\<lparr>fb_sport = 1, fb_dport = 2, fb_size = 0, fb_expected_next = 1000, fb_root = 0\<rparr>])\<rparr>) = Some (r, s') \<and>
     rc_abs T' s' (1, 2) = Some (200, [])"
proof -
  let ?fb = "\<lparr>fb_sport = 1, fb_dport = 2, fb_size = 0, fb_expected_next = 1000, fb_root = 0\<rparr>"
  let ?s = "demo_world 1000\<lparr>reorder_buf := (\<lambda>_. [])(1 := [?fb])\<rparr>"
  have ok: "flow_ok ?s ?fb Leaf" by (simp add: flow_ok_def tree_ok_def rb_repr_def wf_addrs_def rb_tree_def)
  have "\<forall>p. reorder_buf ?s p = (if p = 1 then [?fb] else [])" by simp
  with ok have inv: "rc_inv (\<lambda>_. Leaf) ?s" by (auto simp: rc_inv_def)
  have mem: "memory_left demo_calloc ?s" using demo_memory [of 1000] by (simp add: memory_left_def)
  have abs: "rc_abs (\<lambda>_. Leaf) ?s (h_sport demo_header, h_dport demo_header) = Some (1000, [])"
    by (simp add: rc_abs_def demo_ports)
  have "before (h_seq demo_header) 1000" "\<not> h_syn demo_header" "h_seq (demo_header\<lparr>h_seq := 1000\<rparr>) = 1000"
    "before (h_seq demo_header + ucast (h_psize demo_header)) 1000"
    by (simp_all add: demo_header_def before_unat)
  moreover have "in_window {h_seq demo_header + ucast (h_psize demo_header), 1000}"
    unfolding in_window_def by (intro exI [of _ 200]) (simp add: demo_header_def)
  ultimately show ?thesis
    using rc_old_packet_regresses [OF inv demo_packet_headers demo_calloc_ok mem abs, of "demo_header\<lparr>h_seq := 1000\<rparr>"]
    unfolding demo_ports by (auto simp: demo_header_def)
qed

section \<open>The counter of late packets\<close>

text \<open>The expected numbers of the table, and what an ideal counter makes of a sequence of headers.\<close>

definition expected_of :: "rc_config \<Rightarrow> flow_id \<rightharpoonup> u32" where
  "expected_of s f = map_option fb_expected_next (find_flow (snd f) (reorder_buf s (fst f)))"

definition ports_ok :: "rc_config \<Rightarrow> bool" where
  "ports_ok s \<longleftrightarrow> (\<forall>p. \<forall>fb \<in> set (reorder_buf s p). fb_sport fb = p)"

definition end_of :: "packet_hdr \<Rightarrow> u32" where
  "end_of h = (if h_syn h then h_seq h + 1 else h_seq h + ucast (h_psize h))"

fun late_count :: "packet_hdr list \<Rightarrow> (flow_id \<rightharpoonup> u32) \<Rightarrow> nat" where
  "late_count [] E = 0"
| "late_count (h # hs) E =
     (let e = (case E (flow_of h) of None \<Rightarrow> h_seq h | Some e \<Rightarrow> e)
      in if before (h_seq h) e then Suc (late_count hs (E(flow_of h \<mapsto> e)))
         else late_count hs (E(flow_of h \<mapsto> end_of h)))"

text \<open>The contents of the receive buffer when the packets are handled.\<close>

fun buffer_states :: "u8 list \<Rightarrow> u8 list list \<Rightarrow> u8 list list" where
  "buffer_states buffer [] = []"
| "buffer_states buffer (p # ps) = (let b = p @ drop (length p) buffer in b # buffer_states b ps)"

lemma expected_put:
  assumes "find_flow d (reorder_buf s p) = Some fb" "fb_sport fb' = p" "fb_dport fb' = d"
  shows "expected_of (put_flow fb' s) = (expected_of s)((p, d) \<mapsto> fb_expected_next fb')"
  using assms by (auto simp: fun_eq_iff expected_of_def put_flow_def find_update)

lemma ports_put:
  assumes "ports_ok s" shows "ports_ok (put_flow fb s)"
proof -
  have "x \<in> set (update_flow fb bs) \<Longrightarrow> x = fb \<or> x \<in> set bs" for x bs
    by (induction bs) (auto split: if_splits)
  with assms show ?thesis by (auto simp: ports_ok_def put_flow_def split: if_splits)
qed

lemma expected_get:
  assumes "ports_ok s" "calloc_flowbuf env"
  shows "\<exists>fb s1. get_flow env p d e s = Some (fb, s1) \<and> ports_ok s1 \<and> find_flow d (reorder_buf s1 p) = Some fb \<and>
           fb_sport fb = p \<and> fb_dport fb = d \<and> fb_expected_next fb = (case expected_of s (p, d) of None \<Rightarrow> e | Some x \<Rightarrow> x) \<and>
           expected_of s1 = (expected_of s)((p, d) \<mapsto> fb_expected_next fb) \<and> reorder_count s1 = reorder_count s"
proof (cases "find_flow d (reorder_buf s p)")
  case None
  with assms show ?thesis
    by (auto simp: get_flow_def Let_def ports_ok_def expected_of_def find_flow_append fun_eq_iff split: option.splits)
next
  case (Some fb)
  with assms find_flow_SomeD [OF Some] show ?thesis
    by (auto simp: get_flow_def ports_ok_def expected_of_def fun_eq_iff)
qed

lemma tcp_handle_ok:
  assumes "ports_ok s" "calloc_flowbuf env" "packet_headers data = Some h"
  shows "\<exists>r s'. tcp_handle_packet env data s = Some (r, s') \<and> ports_ok s' \<and>
           (let e = (case expected_of s (flow_of h) of None \<Rightarrow> h_seq h | Some e \<Rightarrow> e);
                late = before (h_seq h) e
            in reorder_count s' = reorder_count s + (if late then 1 else 0) \<and>
               expected_of s' = (expected_of s)(flow_of h \<mapsto> if late then e else end_of h))"
proof -
  from expected_get [OF assms(1,2), of "h_sport h" "h_dport h" "h_seq h"] obtain fb s1 where
    g: "get_flow env (h_sport h) (h_dport h) (h_seq h) s = Some (fb, s1)" "ports_ok s1"
    "find_flow (h_dport h) (reorder_buf s1 (h_sport h)) = Some fb" "fb_sport fb = h_sport h" "fb_dport fb = h_dport h"
    "fb_expected_next fb = (case expected_of s (flow_of h) of None \<Rightarrow> h_seq h | Some e \<Rightarrow> e)"
    "expected_of s1 = (expected_of s)(flow_of h \<mapsto> fb_expected_next fb)" "reorder_count s1 = reorder_count s" by blast
  show ?thesis
  proof (cases "before (h_seq h) (fb_expected_next fb)")
    case True
    let ?s' = "s1\<lparr>reorder_count := reorder_count s1 + 1\<rparr>"
    have "tcp_handle_packet env data s = Some (1, ?s')" using True assms(3) g(1) by (simp add: tcp_handle_packet_def Let_def)
    moreover have "ports_ok ?s'" "expected_of ?s' = expected_of s1" using g(2) by (simp_all add: ports_ok_def expected_of_def fun_eq_iff)
    ultimately show ?thesis using True g(6-8) by (auto simp: Let_def)
  next
    case False
    let ?fb = "fb\<lparr>fb_expected_next := end_of h\<rparr>"
    have "tcp_handle_packet env data s = Some (-1, put_flow ?fb s1)"
      using False assms(3) g(1) by (simp add: tcp_handle_packet_def Let_def end_of_def)
    moreover have "expected_of (put_flow ?fb s1) = (expected_of s1)(flow_of h \<mapsto> end_of h)"
      using expected_put [OF g(3), of ?fb] g(4,5) by simp
    moreover have "reorder_count (put_flow ?fb s1) = reorder_count s1" by (simp add: put_flow_def)
    ultimately show ?thesis using False g(2,6-8) ports_put by (auto simp: Let_def)
  qed
qed

text \<open>
  C29. Over any sequence of packets \<^verbatim>\<open>tcp_reordercounter\<close> counts exactly the late ones: the counter grows by the number of
  packets that come before the end of the furthest packet of their flow so far, each flow judged by itself.
\<close>

theorem tcp_counter_exact:
  assumes "ports_ok s" "calloc_flowbuf env" "[] \<notin> set ps" "map packet_headers (buffer_states buffer ps) = map Some hs"
  shows "\<exists>s'. receive_loop (tcp_handle_packet env) buffer ps s = Some s' \<and>
           reorder_count s' = reorder_count s + of_nat (late_count hs (expected_of s))"
  using assms
proof (induction ps arbitrary: buffer s hs)
  case (Cons p ps)
  let ?b = "p @ drop (length p) buffer"
  obtain h hs' where hs: "hs = h # hs'" "packet_headers ?b = Some h" "map packet_headers (buffer_states ?b ps) = map Some hs'"
    using Cons.prems(4) by (auto simp: Let_def)
  from tcp_handle_ok [OF Cons.prems(1,2) hs(2)] obtain r s1 where
    s1: "tcp_handle_packet env ?b s = Some (r, s1)" "ports_ok s1"
    "let e = (case expected_of s (flow_of h) of None \<Rightarrow> h_seq h | Some e \<Rightarrow> e); late = before (h_seq h) e
     in reorder_count s1 = reorder_count s + (if late then 1 else 0) \<and>
        expected_of s1 = (expected_of s)(flow_of h \<mapsto> if late then e else end_of h)" by blast
  from Cons.IH [OF s1(2) Cons.prems(2) _ hs(3)] Cons.prems(3) obtain s' where
    "receive_loop (tcp_handle_packet env) ?b ps s1 = Some s'"
    "reorder_count s' = reorder_count s1 + of_nat (late_count hs' (expected_of s1))" by auto
  with s1 hs(1) Cons.prems(3) show ?case by (auto simp: Let_def)
qed simp

theorem tcp_counter_exact_witness:
  "\<exists>s'. receive_loop (tcp_handle_packet demo_calloc) (replicate 40 0) [demo_packet, demo_packet]
       \<lparr>reorder_count = 0, reorder_buf = (\<lambda>_. [])\<rparr> = Some s' \<and> reorder_count s' = 1"
proof -
  let ?s = "\<lparr>reorder_count = 0, reorder_buf = (\<lambda>_. [])\<rparr> :: rc_config"
  have b: "buffer_states (replicate 40 0) [demo_packet, demo_packet] = [demo_packet, demo_packet]"
    by (simp add: demo_packet_def Let_def)
  have "map packet_headers (buffer_states (replicate 40 0) [demo_packet, demo_packet]) = map Some [demo_header, demo_header]"
    unfolding b by (simp add: demo_packet_headers)
  moreover have "ports_ok ?s" "calloc_flowbuf demo_calloc" "[] \<notin> set [demo_packet, demo_packet]"
    by (simp_all add: ports_ok_def demo_calloc_def demo_packet_def)
  moreover have "late_count [demo_header, demo_header] (expected_of ?s) = 1"
    by (simp add: expected_of_def Let_def end_of_def before_unat demo_header_def)
  ultimately show ?thesis using tcp_counter_exact [of ?s demo_calloc "[demo_packet, demo_packet]" "replicate 40 0" "[demo_header, demo_header]"]
    by auto
qed

section \<open>The counter of IP identifications\<close>

lemma unat_ucast_16_32 [simp]: "unat (ucast (x :: u16) :: u32) = unat x"
  using unsigned_less [of x, where ?'a = nat] by (simp add: unsigned_ucast_eq take_bit_nat_eq_self)

text \<open>The difference of the expected and the seen identification as the source computes it: truncated to 16 bits, then sign-extended.\<close>

lemma s16_gap:
  assumes "unat (x - e :: u32) = g" "g \<le> 32767"
  shows "scast (ucast (e - x) :: u16) = (- of_nat g :: u64)"
proof -
  have wide: "-32768 \<le> i \<Longrightarrow> i < 32768 \<Longrightarrow> scast (ucast (word_of_int i :: u32) :: u16) = (word_of_int i :: u64)" for i
    by transfer (simp add: signed_take_bit_take_bit signed_take_bit_int_eq_self)
  have "x - e = of_nat g" unfolding assms(1) [symmetric] by simp
  then have "e - x = - of_nat g" by (metis minus_diff_eq)
  then have "e - x = word_of_int (- int g)" by simp
  then show ?thesis using wide [of "- int g"] assms(2) by simp
qed

text \<open>
  Once the expected identification of a flow has passed 65535, \<^verbatim>\<open>ip_reordercounter\<close> is stuck: identifications are 16 bits
  wide and the expected one is kept in 32 bits without wrapping, so every later packet of the flow counts as not
  ahead of it. The counter does not change any more, whatever the packets are.
\<close>

theorem ip_counter_stuck:
  assumes "ports_ok s" "packet_headers data = Some h" "calloc_flowbuf env"
    and "expected_of s (h_sport h, h_dport h) = Some e" "65536 \<le> e" "e < 2147483648"
  shows "\<exists>s'. ip_handle_packet env data s = Some (1, s') \<and> reorder_count s' = reorder_count s \<and>
           expected_of s' = (expected_of s)((h_sport h, h_dport h) \<mapsto> e + 1)"
proof -
  let ?id = "ucast (h_ipid h) :: u32"
  from expected_get [OF assms(1,3), of "h_sport h" "h_dport h" "?id + 1"] obtain fb s1 where
    g: "get_flow env (h_sport h) (h_dport h) (?id + 1) s = Some (fb, s1)"
    "find_flow (h_dport h) (reorder_buf s1 (h_sport h)) = Some fb" "fb_sport fb = h_sport h" "fb_dport fb = h_dport h"
    "fb_expected_next fb = e" "expected_of s1 = (expected_of s)(flow_of h \<mapsto> e)" "reorder_count s1 = reorder_count s"
    using assms(4) by auto
  have "unat ?id < 65536" using unsigned_less [of "h_ipid h", where ?'a = nat] by simp
  moreover have "65536 \<le> unat e" "unat e < 2 ^ 31" using assms(5,6) by (simp_all add: word_le_nat_alt word_less_nat_alt)
  ultimately have "before ?id e" using unat_sub_if' [of ?id e] by (simp add: before_unat)
  then have "ip_handle_packet env data s = Some (1, put_flow (fb\<lparr>fb_expected_next := e + 1\<rparr>) s1)"
    using assms(2) g(1,5) by (simp add: ip_handle_packet_def Let_def)
  moreover have "expected_of (put_flow (fb\<lparr>fb_expected_next := e + 1\<rparr>) s1) = (expected_of s)(flow_of h \<mapsto> e + 1)"
    using expected_put [OF g(2), of "fb\<lparr>fb_expected_next := e + 1\<rparr>"] g(3,4,6) by simp
  ultimately show ?thesis using g(7) by (auto simp: put_flow_def)
qed

theorem ip_counter_stuck_witness:
  "\<exists>s'. ip_handle_packet demo_calloc demo_packet
       \<lparr>reorder_count = 9, reorder_buf = (\<lambda>_. [])(1 := [\<lparr>fb_sport = 1, fb_dport = 2, fb_size = 0, fb_expected_next = 65536, fb_root = 0\<rparr>])\<rparr> =
     Some (1, s') \<and> reorder_count s' = 9"
proof -
  let ?s = "\<lparr>reorder_count = 9, reorder_buf = (\<lambda>_. [])(1 := [\<lparr>fb_sport = 1, fb_dport = 2, fb_size = 0, fb_expected_next = 65536, fb_root = 0\<rparr>])\<rparr> :: rc_config"
  have "ports_ok ?s" "calloc_flowbuf demo_calloc" "expected_of ?s (h_sport demo_header, h_dport demo_header) = Some 65536"
    by (auto simp: ports_ok_def demo_calloc_def expected_of_def demo_ports)
  from ip_counter_stuck [OF this(1) demo_packet_headers this(2,3)] show ?thesis by auto
qed

text \<open>
  A gap in the identifications lowers the counter of \<^verbatim>\<open>ip_reordercounter\<close>: when a packet is ahead of the expected one by
  at most 32767, the size of the gap is subtracted from the counter, which is unsigned and may wrap.
\<close>

theorem ip_counter_gap:
  assumes "ports_ok s" "packet_headers data = Some h" "calloc_flowbuf env"
    and "expected_of s (h_sport h, h_dport h) = Some e"
    and "unat e < unat (h_ipid h)" "unat (h_ipid h) - unat e \<le> 32767"
  shows "\<exists>s'. ip_handle_packet env data s = Some (-1, s') \<and>
           reorder_count s' = reorder_count s - of_nat (unat (h_ipid h) - unat e) \<and>
           expected_of s' = (expected_of s)((h_sport h, h_dport h) \<mapsto> ucast (h_ipid h) + 1)"
proof -
  let ?id = "ucast (h_ipid h) :: u32" and ?g = "unat (h_ipid h) - unat e"
  from expected_get [OF assms(1,3), of "h_sport h" "h_dport h" "?id + 1"] obtain fb s1 where
    g: "get_flow env (h_sport h) (h_dport h) (?id + 1) s = Some (fb, s1)"
    "find_flow (h_dport h) (reorder_buf s1 (h_sport h)) = Some fb" "fb_sport fb = h_sport h" "fb_dport fb = h_dport h"
    "fb_expected_next fb = e" "expected_of s1 = (expected_of s)(flow_of h \<mapsto> e)" "reorder_count s1 = reorder_count s"
    using assms(4) by auto
  have diff: "unat (?id - e) = ?g" using assms(5) unat_sub_if' [of ?id e] by simp
  then have "\<not> before ?id e" "?id \<noteq> e" using assms(5,6) by (auto simp: before_unat)
  moreover have "scast (ucast (e - ?id) :: u16) = (- of_nat ?g :: u64)" by (rule s16_gap [OF diff assms(6)])
  ultimately have "ip_handle_packet env data s =
      Some (-1, put_flow (fb\<lparr>fb_expected_next := ?id + 1\<rparr>) (s1\<lparr>reorder_count := reorder_count s1 - of_nat ?g\<rparr>))"
    using assms(2) g(1,5) by (simp add: ip_handle_packet_def Let_def)
  moreover have "expected_of (put_flow (fb\<lparr>fb_expected_next := ?id + 1\<rparr>) (s1\<lparr>reorder_count := c\<rparr>)) = (expected_of s)(flow_of h \<mapsto> ?id + 1)" for c
    using expected_put [of "h_dport h" "s1\<lparr>reorder_count := c\<rparr>" "h_sport h" fb "fb\<lparr>fb_expected_next := ?id + 1\<rparr>"] g(2,3,4,6)
    by (simp add: expected_of_def fun_eq_iff)
  ultimately show ?thesis using g(7) by (auto simp: put_flow_def)
qed

theorem ip_counter_gap_witness:
  "\<exists>s'. ip_handle_packet demo_calloc demo_packet
       \<lparr>reorder_count = 9, reorder_buf = (\<lambda>_. [])(1 := [\<lparr>fb_sport = 1, fb_dport = 2, fb_size = 0, fb_expected_next = 3, fb_root = 0\<rparr>])\<rparr> =
     Some (-1, s') \<and> reorder_count s' = 5"
proof -
  let ?s = "\<lparr>reorder_count = 9, reorder_buf = (\<lambda>_. [])(1 := [\<lparr>fb_sport = 1, fb_dport = 2, fb_size = 0, fb_expected_next = 3, fb_root = 0\<rparr>])\<rparr> :: rc_config"
  have "ports_ok ?s" "calloc_flowbuf demo_calloc" "expected_of ?s (h_sport demo_header, h_dport demo_header) = Some 3"
    by (auto simp: ports_ok_def demo_calloc_def expected_of_def demo_ports)
  from ip_counter_gap [OF this(1) demo_packet_headers this(2,3)] show ?thesis by (auto simp: demo_header_def)
qed

end
