(* ===== verification/Nfqueue_Properties.thy ===== *)
theory Nfqueue_Properties
  imports Nfqueue_Correct Reorder_Properties
begin

text \<open>The properties of the resequencing queue, with instances on a flow that holds one packet.\<close>

section \<open>A small flow\<close>

definition demo_nfq_data :: nfq_flowdata where
  "demo_nfq_data = \<lparr>nd_seq = 200, nd_packet_id = 9, nd_seg_size = 50\<rparr>"

definition demo_nfq_flow :: "u32 \<Rightarrow> int nfq_flowbuf" where
  "demo_nfq_flow e = \<lparr>nf_sport = 1, nf_dport = 2, nf_size = 1, nf_expected_next = e, nf_root = 16,
     nf_timeout = 3, nf_last_activity = 10, nf_timer = None\<rparr>"

definition demo_nfq :: "u32 \<Rightarrow> int nfq_world" where
  "demo_nfq e = \<lparr>nq_fd = 0, nq_handler = 0, nq_queue = 0, nq_buf = (\<lambda>_. [])(1 := [demo_nfq_flow e]),
     nq_nodes = [16 \<mapsto> \<lparr>pc = 1, rb_right = 0, rb_left = 0\<rparr>], nq_data = [16 \<mapsto> demo_nfq_data], nq_verdicts = []\<rparr>"

definition demo_nfq_env :: "int \<Rightarrow> int nfq_env" where
  "demo_nfq_env now = \<lparr>ev_now = now, verdict_ret = (\<lambda>_ _ _. 1), nfq_calloc_flowbuf = True,
     nfq_calloc_flowdata = (\<lambda>H. if H 24 = None then Some 24 else None)\<rparr>"

abbreviation demo_nfq_tree :: rbt where
  "demo_nfq_tree \<equiv> Node Leaf Black 16 Leaf"

lemma demo_nfq_ok: "nfq_ok (demo_nfq e) (demo_nfq_flow e) demo_nfq_tree"
  by (simp add: nfq_ok_def tree_ok_def rb_repr_def demo_nfq_def demo_nfq_flow_def wf_addrs_def aligned_def rb_tree_def)

lemma demo_nfq_held: "held (demo_nfq e) (inorder demo_nfq_tree) = [demo_nfq_data]"
  by (simp add: demo_nfq_def)

lemma demo_nfq_calloc: "nfq_calloc_ok (demo_nfq_env now)"
  by (auto simp: nfq_calloc_ok_def demo_nfq_env_def aligned_def)

lemma demo_nfq_memory: "nfq_memory_left (demo_nfq_env now) (demo_nfq e)"
  by (auto simp: nfq_memory_left_def demo_nfq_env_def demo_nfq_def dom_def)

section \<open>The program as it runs\<close>

lemma nfq_read_loop_ok:
  assumes "\<forall>hdr \<in> set hdrs. 4 \<le> length hdr"
  shows "nfq_read_loop env queue (map Some hdrs) s =
           Some (s\<lparr>nq_verdicts := nq_verdicts s @ map (\<lambda>hdr. (queue, the (be32 hdr 0), NF_ACCEPT)) hdrs\<rparr>)"
  using assms
proof (induction hdrs arbitrary: s)
  case (Cons hdr hdrs)
  obtain pid where "be32 hdr 0 = Some pid" using be_Some(2) [of 0 hdr] Cons.prems by auto
  with Cons show ?case by (simp add: nfq_cb_def nfq_set_verdict_def)
qed simp

text \<open>
  C26. As it runs, \<^verbatim>\<open>nfqueue\<close> reorders nothing: when the start succeeds, every packet is accepted exactly once, on the queue that was
  created, in the order of arrival, and no flow buffer is ever made. The global configuration, whose queue
  \<^verbatim>\<open>timer_cb\<close> would use, keeps a NULL queue.
\<close>

theorem nfq_main_accepts_all:
  assumes "nfq_init lib = (0, n :: 't nfq_config)" "\<forall>hdr \<in> set hdrs. 4 \<le> length hdr"
  shows "\<exists>s :: 't nfq_world. nfq_main lib env (map Some hdrs) = Some (Inr s) \<and>
           nq_verdicts s = map (\<lambda>hdr. (nq_queue n, the (be32 hdr 0), NF_ACCEPT)) hdrs \<and>
           nq_queue n \<noteq> 0 \<and> nq_queue s = 0 \<and> nq_buf s = (\<lambda>_. []) \<and> nq_nodes s = Map.empty"
proof -
  have "nq_queue n \<noteq> 0" using assms(1) by (auto simp: nfq_init_def Let_def split: if_splits)
  moreover have "nfq_main lib env (map Some hdrs) =
      map_option Inr (nfq_read_loop env (nq_queue n) (map Some hdrs) (nfq_config.extend zero_config (nfq_world.fields Map.empty Map.empty [])))"
    using assms(1) by (simp add: nfq_main_def)
  ultimately show ?thesis unfolding nfq_read_loop_ok [OF assms(2)]
    by (simp add: zero_config_def nfq_config.defs nfq_world.defs)
qed

definition demo_nfq_lib :: nfq_lib where
  "demo_nfq_lib = \<lparr>lib_open = 64, lib_create_queue = (\<lambda>_. 128), lib_set_mode = 0, lib_set_queue_flags = 0,
     lib_set_queue_maxlen = 0, lib_fd = 3\<rparr>"

theorem nfq_main_accepts_all_witness:
  "\<exists>s. nfq_main demo_nfq_lib (demo_nfq_env 0) [Some [0, 0, 0, 1], Some [0, 0, 0, 2]] = Some (Inr s) \<and>
     nq_verdicts s = [(128, 1, NF_ACCEPT), (128, 2, NF_ACCEPT)]"
proof -
  have "nfq_init demo_nfq_lib = (0, \<lparr>nq_fd = 3, nq_handler = 64, nq_queue = 128, nq_buf = (\<lambda>_. [])\<rparr> :: int nfq_config)"
    by (simp add: nfq_init_def demo_nfq_lib_def zero_config_def)
  from nfq_main_accepts_all [OF this, of "[[0, 0, 0, 1], [0, 0, 0, 2]]" "demo_nfq_env 0"] show ?thesis
    by (auto simp: be32_def be16_def byte_at_def)
qed

section \<open>Resequencing\<close>

text \<open>
  C24. The resequencing code after the early return of \<^verbatim>\<open>nfq_cb\<close> loses no packet: on a well-formed flow with at most
  \<^verbatim>\<open>FBUF_SIZ\<close> packets it returns and keeps the flow so, every packet (those held and the new one) gets exactly one verdict or
  is held afterwards, and a packet is dropped only if one with the same sequence number is held.
  Memory in use by others is not touched.
\<close>

theorem nfq_resequence_conserves:
  assumes "nfq_ok s fb t" "length (inorder t) \<le> 256" "nfq_calloc_ok env" "nfq_memory_left env s"
  shows "\<exists>A r fb' s' t' vs. nfq_resequence env queue fb h pid s = Some (r, fb', s') \<and>
           nfq_ok s' fb' t' \<and> length (inorder t') \<le> 256 \<and> nq_verdicts s' = nq_verdicts s @ vs \<and>
           mset (map vid vs) + mset (map nd_packet_id (held s' (inorder t'))) =
             {#pid#} + mset (map nd_packet_id (held s (inorder t))) \<and>
           (\<forall>v \<in> set vs. snd (snd v) = NF_DROP \<longrightarrow> (\<exists>d \<in> set (held s' (inorder t')). nd_seq d = h_seq h)) \<and>
           nfq_frame A s s' \<and> (\<forall>b \<in> A. b \<in> set (inorder t) \<or> nq_nodes s b = None)"
proof -
  consider "before (h_seq h) (nf_expected_next fb) \<or> h_seq h = nf_expected_next fb"
    | "\<not> (before (h_seq h) (nf_expected_next fb) \<or> h_seq h = nf_expected_next fb)" "length (inorder t) = 256"
    | "\<not> (before (h_seq h) (nf_expected_next fb) \<or> h_seq h = nf_expected_next fb)" "length (inorder t) < 256"
    using assms(2) by linarith
  then have "\<exists>A. (\<forall>b \<in> A. b \<in> set (inorder t) \<or> nq_nodes s b = None) \<and>
      resequenced A pid (h_seq h) fb s t (nfq_resequence env queue fb h pid s)"
  proof cases
    case 1
    with resequence_due [OF assms(1,2)] show ?thesis by blast
  next
    case 2
    show ?thesis by (rule resequence_full [OF assms(1) 2(2) assms(3,4) 2(1)])
  next
    case 3
    show ?thesis by (rule resequence_room [OF assms(1) 3(2) assms(3,4) 3(1)])
  qed
  then obtain A r fb' s' t' vs where
    a: "\<forall>b \<in> A. b \<in> set (inorder t) \<or> nq_nodes s b = None"
    and r: "nfq_resequence env queue fb h pid s = Some (r, fb', s')" "nfq_ok s' fb' t'" "length (inorder t') \<le> 256"
    "nq_verdicts s' = nq_verdicts s @ vs" "conserved [pid] (h_seq h) (held s (inorder t)) vs (held s' (inorder t'))"
    "nfq_frame A s s'" unfolding resequenced_def by blast
  from r(5) have "mset (map vid vs) + mset (map nd_packet_id (held s' (inorder t'))) =
      {#pid#} + mset (map nd_packet_id (held s (inorder t)))"
    "\<forall>v \<in> set vs. snd (snd v) = NF_DROP \<longrightarrow> (\<exists>d \<in> set (held s' (inorder t')). nd_seq d = h_seq h)"
    by (simp_all add: conserved_def)
  with a r(1-4,6) show ?thesis by blast
qed

theorem nfq_resequence_conserves_witness:
  "\<exists>r fb' s' t' vs. nfq_resequence (demo_nfq_env 12) 128 (demo_nfq_flow 100) demo_header 7 (demo_nfq 100) = Some (r, fb', s') \<and>
     nq_verdicts s' = vs \<and> mset (map vid vs) + mset (map nd_packet_id (held s' (inorder t'))) = {#7, 9#}"
proof -
  have "length (inorder demo_nfq_tree) \<le> 256" by simp
  from nfq_resequence_conserves [OF demo_nfq_ok [of 100] this demo_nfq_calloc [of 12] demo_nfq_memory,
      where queue = 128 and h = demo_header and pid = 7] obtain r fb' s' t' vs where
    r: "nfq_resequence (demo_nfq_env 12) 128 (demo_nfq_flow 100) demo_header 7 (demo_nfq 100) = Some (r, fb', s')"
    "nq_verdicts s' = nq_verdicts (demo_nfq 100) @ vs"
    "mset (map vid vs) + mset (map nd_packet_id (held s' (inorder t'))) =
       {#7#} + mset (map nd_packet_id (held (demo_nfq 100) (inorder demo_nfq_tree)))" by metis
  have "nq_verdicts s' = vs" using r(2) by (simp add: demo_nfq_def)
  moreover have "mset (map vid vs) + mset (map nd_packet_id (held s' (inorder t'))) = {#7, 9#}"
    unfolding r(3) demo_nfq_held by (simp add: demo_nfq_data_def)
  ultimately show ?thesis
    by (intro exI [of _ r] exI [of _ fb'] exI [of _ s'] exI [of _ t'] exI [of _ vs] conjI r(1))
qed

text \<open>
  C28. A packet that is due and does not open a connection is accepted at once, then exactly the held packets that continue at the expected number are, in
  order. In particular a first held packet that lies before the new expected number is not released, and
  nothing behind it.
\<close>

theorem nfq_due_releases:
  assumes "nfq_ok s fb t" "before (h_seq h) (nf_expected_next fb) \<or> h_seq h = nf_expected_next fb"
    and "\<not> h_syn h" "spec_due (max (nf_expected_next fb) (h_seq h + ucast (h_psize h))) (held s (inorder t)) = (out, e, rest)"
  shows "\<exists>fb' s' t'. nfq_resequence env queue fb h pid s = Some (1, fb', s') \<and> nf_expected_next fb' = e \<and>
           nq_verdicts s' = nq_verdicts s @ (queue, pid, NF_ACCEPT) # map (accept queue) out \<and>
           held s' (inorder t') = rest \<and> nfq_ok s' fb' t'"
proof -
  let ?s = "s\<lparr>nq_verdicts := nq_verdicts s @ [(queue, pid, NF_ACCEPT)]\<rparr>"
  let ?e = "max (nf_expected_next fb) (h_seq h + ucast (h_psize h))"
  let ?fb = "fb\<lparr>nf_expected_next := ?e, nf_last_activity := ev_now env\<rparr>"
  have "nfq_ok ?s ?fb t" "spec_due (nf_expected_next ?fb) (held ?s (inorder t)) = (out, e, rest)"
    using assms(1,4) by simp_all
  from nfq_release_due_ok [OF this, of env queue] obtain fb' s' t' where
    r: "nfq_release_due env queue ?fb ?s = Some (fb', s')" "nfq_ok s' fb' t'" "held s' (inorder t') = rest"
    "nf_expected_next fb' = e" "nq_verdicts s' = nq_verdicts ?s @ map (accept queue) out" by blast
  have "(if nf_expected_next fb < h_seq h + ucast (h_psize h) then fb\<lparr>nf_expected_next := h_seq h + ucast (h_psize h)\<rparr>
      else fb)\<lparr>nf_last_activity := ev_now env\<rparr> = ?fb" by (simp add: max_def not_less)
  note run = r(1) [folded this]
  have "nfq_resequence env queue fb h pid s = Some (1, fb', s')"
    using assms(2,3) run by (simp add: nfq_resequence_def nfq_set_verdict_def Let_def del: if_split)
  with r(2-5) show ?thesis by auto
qed

text \<open>The witness: a packet that ends beyond the start of the held one leaves that one held.\<close>

theorem nfq_due_releases_witness:
  "\<exists>fb' s' t'. nfq_resequence (demo_nfq_env 12) 128 (demo_nfq_flow 150) (demo_header\<lparr>h_psize := 60\<rparr>) 7 (demo_nfq 150) =
       Some (1, fb', s') \<and> nf_expected_next fb' = 210 \<and> nq_verdicts s' = [(128, 7, NF_ACCEPT)] \<and>
     held s' (inorder t') = [demo_nfq_data]"
proof -
  let ?h = "demo_header\<lparr>h_psize := 60\<rparr>"
  have "before (h_seq ?h) (nf_expected_next (demo_nfq_flow 150)) \<or> h_seq ?h = nf_expected_next (demo_nfq_flow 150)"
    "\<not> h_syn ?h" by (simp_all add: demo_header_def demo_nfq_flow_def)
  moreover have "spec_due (max (nf_expected_next (demo_nfq_flow 150)) (h_seq ?h + ucast (h_psize ?h)))
      (held (demo_nfq 150) (inorder demo_nfq_tree)) = ([], 210, [demo_nfq_data])"
    unfolding demo_nfq_held by (simp add: demo_header_def demo_nfq_flow_def demo_nfq_data_def)
  ultimately have "\<exists>fb' s' t'. nfq_resequence (demo_nfq_env 12) 128 (demo_nfq_flow 150) ?h 7 (demo_nfq 150) = Some (1, fb', s') \<and>
      nf_expected_next fb' = 210 \<and> nq_verdicts s' = nq_verdicts (demo_nfq 150) @ (128, 7, NF_ACCEPT) # map (accept 128) [] \<and>
      held s' (inorder t') = [demo_nfq_data] \<and> nfq_ok s' fb' t'"
    by (rule nfq_due_releases [OF demo_nfq_ok])
  then show ?thesis by (auto simp: demo_nfq_def)
qed

section \<open>The timer\<close>

text \<open>
  C27. The timer of a flow that has been idle for longer than its timeout accepts all held packets in order, on the queue of the
  global configuration, frees their nodes and takes the flow out of its chain; otherwise it gives no
  verdict and is set to the instant at which the timeout will be over.
\<close>

theorem timer_cb_correct:
  fixes env :: "('t::linordered_ab_group_add) nfq_env"
  assumes "nfq_ok s fb t"
  shows "\<exists>fb' s'. timer_cb env fb s = Some (fb', s') \<and>
           (if nf_last_activity fb + nf_timeout fb < ev_now env
            then nq_verdicts s' = nq_verdicts s @ map (accept (nq_queue s)) (held s (inorder t)) \<and> nfq_ok s' fb' Leaf \<and>
                 nq_buf s' = (nq_buf s)(nf_sport fb := nfq_unlink (nf_dport fb) (nq_buf s (nf_sport fb))) \<and>
                 (\<forall>b. b \<notin> set (inorder t) \<longrightarrow> nq_nodes s' b = nq_nodes s b)
            else nq_verdicts s' = nq_verdicts s \<and>
                 (\<exists>d \<ge> 0. nf_timer fb' = Some d \<and> ev_now env + d = nf_last_activity fb + nf_timeout fb))"
proof -
  let ?d = "nf_last_activity fb - ev_now env + nf_timeout fb"
  have d: "?d < 0 \<longleftrightarrow> nf_last_activity fb + nf_timeout fb < ev_now env" "ev_now env + ?d = nf_last_activity fb + nf_timeout fb"
    by (simp_all add: algebra_simps less_diff_eq diff_less_eq)
  show ?thesis
  proof (cases "?d < 0")
    case True
    from nfq_release_all_ok [OF assms, of env "nq_queue s" 1] obtain r fb' s' where
      r: "nfq_release_all env (nq_queue s) 1 fb s = Some (r, fb', s')" "nfq_ok s' fb' Leaf"
      "nq_verdicts s' = nq_verdicts s @ map (accept (nq_queue s)) (held s (inorder t))" "same_nfq_flow fb fb'"
      "nfq_frame (set (inorder t)) s s'" by blast
    let ?s = "s'\<lparr>nq_buf := (nq_buf s')(nf_sport fb' := nfq_unlink (nf_dport fb') (nq_buf s' (nf_sport fb')))\<rparr>"
    have "timer_cb env fb s = Some (fb', ?s)" using True r(1) by (simp add: timer_cb_def Let_def empty_and_destroy_buf_def)
    moreover have "nfq_ok ?s fb' Leaf" using r(2) by (simp add: nfq_ok_def)
    ultimately show ?thesis using True d(1) r(3-5)
      by (intro exI [of _ fb'] exI [of _ ?s]) (simp add: same_nfq_flow_def nfq_frame_def)
  next
    case False
    let ?fb = "fb\<lparr>nf_timer := Some ?d\<rparr>"
    have "timer_cb env fb s = Some (?fb, nfq_put ?fb s)" using False by (simp add: timer_cb_def Let_def)
    moreover have "\<not> nf_last_activity fb + nf_timeout fb < ev_now env" using False d(1) by blast
    moreover have "nq_verdicts (nfq_put ?fb s) = nq_verdicts s" by (simp add: nfq_put_def)
    moreover have "0 \<le> ?d" "nf_timer ?fb = Some ?d" using False by simp_all
    ultimately show ?thesis using d(2) by auto
  qed
qed

theorem timer_cb_correct_witness:
  "\<exists>fb' s'. timer_cb (demo_nfq_env 14) (demo_nfq_flow 100) (demo_nfq 100) = Some (fb', s') \<and>
     nq_verdicts s' = [(0, 9, NF_ACCEPT)] \<and> nq_buf s' 1 = []"
proof -
  have idle: "nf_last_activity (demo_nfq_flow 100) + nf_timeout (demo_nfq_flow 100) < ev_now (demo_nfq_env 14)"
    by (simp add: demo_nfq_flow_def demo_nfq_env_def)
  have start: "nq_verdicts (demo_nfq 100) = []" "nq_queue (demo_nfq 100) = 0" "nd_packet_id demo_nfq_data = 9"
    "nfq_unlink 2 (nq_buf (demo_nfq 100) 1) = []" "nf_sport (demo_nfq_flow 100) = 1" "nf_dport (demo_nfq_flow 100) = 2"
    by (simp_all add: demo_nfq_def demo_nfq_flow_def demo_nfq_data_def)
  from timer_cb_correct [OF demo_nfq_ok [of 100], of "demo_nfq_env 14"] obtain fb' s' where
    r: "timer_cb (demo_nfq_env 14) (demo_nfq_flow 100) (demo_nfq 100) = Some (fb', s')"
    "nq_verdicts s' = nq_verdicts (demo_nfq 100) @ map (accept (nq_queue (demo_nfq 100))) [demo_nfq_data]"
    "nq_buf s' = (nq_buf (demo_nfq 100))(nf_sport (demo_nfq_flow 100) :=
       nfq_unlink (nf_dport (demo_nfq_flow 100)) (nq_buf (demo_nfq 100) (nf_sport (demo_nfq_flow 100))))"
    unfolding demo_nfq_held if_P [OF idle] by blast
  have "nq_verdicts s' = [(0, 9, NF_ACCEPT)]" "nq_buf s' 1 = []"
    by (simp_all add: r(2,3) start)
  then show ?thesis by (intro exI [of _ fb'] exI [of _ s'] conjI r(1))
qed

end
