(* ===== verification/Netlink.thy ===== *)
theory Netlink
  imports Net_Prelude
begin

text \<open>
  The attribute functions of \<^verbatim>\<open>libnetlink.c\<close>. A request is a fixed block of memory that starts with the
  message header, whose first four bytes are \<^verbatim>\<open>nlmsg_len\<close>; an attribute is at an offset of the block: two bytes
  \<^verbatim>\<open>rta_len\<close>, two bytes \<^verbatim>\<open>rta_type\<close>, then the payload. Pointers are offsets. A read or a write outside
  of the block is \<open>None\<close>. \<open>Netlink_Attrs\<close> relates blocks to lists of attributes.
\<close>

section \<open>Memory\<close>

definition mem_get :: "u8 list \<Rightarrow> nat \<Rightarrow> nat \<Rightarrow> u8 list option" where
  "mem_get mem off n = (if off + n \<le> length mem then Some (take n (drop off mem)) else None)"

definition mem_put :: "nat \<Rightarrow> u8 list \<Rightarrow> u8 list \<Rightarrow> u8 list option" where
  "mem_put off bs mem =
     (if off + length bs \<le> length mem then Some (take off mem @ bs @ drop (off + length bs) mem) else None)"

definition get16 :: "u8 list \<Rightarrow> nat \<Rightarrow> u16 option" where
  "get16 mem off = map_option le16 (mem_get mem off 2)"

definition get32 :: "u8 list \<Rightarrow> nat \<Rightarrow> u32 option" where
  "get32 mem off = map_option le32 (mem_get mem off 4)"

text \<open>\<^verbatim>\<open>RTA_ALIGN\<close> and \<^verbatim>\<open>NLMSG_ALIGN\<close>, which are unsigned 32-bit arithmetic, and the other macros of the attribute layout.\<close>

definition align4 :: "u32 \<Rightarrow> u32" where
  "align4 len = (len + 3) AND NOT 3"

definition rta_length :: "nat \<Rightarrow> u32" where
  "rta_length alen = 4 + of_nat alen"

definition nlmsg_tail :: "u8 list \<Rightarrow> nat option" where
  "nlmsg_tail mem = map_option (\<lambda>n. unat (align4 n)) (get32 mem 0)"

definition rta_tail :: "u8 list \<Rightarrow> nat \<Rightarrow> nat option" where
  "rta_tail mem rta = map_option (\<lambda>l. rta + unat (align4 (ucast l))) (get16 mem rta)"

section \<open>Building\<close>

definition put_rtattr :: "nat \<Rightarrow> u16 \<Rightarrow> u32 \<Rightarrow> u8 list \<Rightarrow> u8 list \<Rightarrow> u8 list option" where
  "put_rtattr rta type len data mem = do {
     mem \<leftarrow> mem_put (rta + 2) (bytes16 type) mem;
     mem \<leftarrow> mem_put rta (bytes16 (ucast len)) mem;
     mem_put (rta + 4) data mem }"

definition addattr_l :: "u32 \<Rightarrow> u16 \<Rightarrow> u8 list \<Rightarrow> u8 list \<Rightarrow> (int \<times> u8 list) option" where
  "addattr_l maxlen type data mem = do {
     nlmsg_len \<leftarrow> get32 mem 0;
     let len = rta_length (length data);
     if maxlen < align4 nlmsg_len + align4 len then Some (-1, mem)
     else do {
       rta \<leftarrow> nlmsg_tail mem;
       mem \<leftarrow> put_rtattr rta type len data mem;
       mem \<leftarrow> mem_put 0 (bytes32 (align4 nlmsg_len + align4 len)) mem;
       Some (0, mem) } }"

definition addattr :: "u32 \<Rightarrow> u16 \<Rightarrow> u8 list \<Rightarrow> (int \<times> u8 list) option" where
  "addattr maxlen type mem = addattr_l maxlen type [] mem"

definition addattr8 :: "u32 \<Rightarrow> u16 \<Rightarrow> u8 \<Rightarrow> u8 list \<Rightarrow> (int \<times> u8 list) option" where
  "addattr8 maxlen type data mem = addattr_l maxlen type [data] mem"

definition addattr16 :: "u32 \<Rightarrow> u16 \<Rightarrow> u16 \<Rightarrow> u8 list \<Rightarrow> (int \<times> u8 list) option" where
  "addattr16 maxlen type data mem = addattr_l maxlen type (bytes16 data) mem"

definition addattr32 :: "u32 \<Rightarrow> u16 \<Rightarrow> u32 \<Rightarrow> u8 list \<Rightarrow> (int \<times> u8 list) option" where
  "addattr32 maxlen type data mem = addattr_l maxlen type (bytes32 data) mem"

definition addattr64 :: "u32 \<Rightarrow> u16 \<Rightarrow> u64 \<Rightarrow> u8 list \<Rightarrow> (int \<times> u8 list) option" where
  "addattr64 maxlen type data mem = addattr_l maxlen type (bytes64 data) mem"

text \<open>A C string without its terminating zero.\<close>

definition addattrstrz :: "u32 \<Rightarrow> u16 \<Rightarrow> u8 list \<Rightarrow> u8 list \<Rightarrow> (int \<times> u8 list) option" where
  "addattrstrz maxlen type str mem = addattr_l maxlen type (str @ [0]) mem"

definition addraw_l :: "u32 \<Rightarrow> u8 list \<Rightarrow> u8 list \<Rightarrow> (int \<times> u8 list) option" where
  "addraw_l maxlen data mem = do {
     nlmsg_len \<leftarrow> get32 mem 0;
     let len = of_nat (length data);
     if maxlen < align4 nlmsg_len + align4 len then Some (-1, mem)
     else do {
       tail \<leftarrow> nlmsg_tail mem;
       mem \<leftarrow> mem_put tail data mem;
       mem \<leftarrow> mem_put (tail + length data) (replicate (unat (align4 len - len)) 0) mem;
       mem \<leftarrow> mem_put 0 (bytes32 (align4 nlmsg_len + align4 len)) mem;
       Some (0, mem) } }"

text \<open>A nest is opened at the tail; closing it stores its length, in 16 bits.\<close>

definition addattr_nest :: "u32 \<Rightarrow> u16 \<Rightarrow> u8 list \<Rightarrow> (nat \<times> u8 list) option" where
  "addattr_nest maxlen type mem = do {
     nest \<leftarrow> nlmsg_tail mem;
     (r, mem) \<leftarrow> addattr_l maxlen type [] mem;
     Some (nest, mem) }"

definition addattr_nest_end :: "nat \<Rightarrow> u8 list \<Rightarrow> (u32 \<times> u8 list) option" where
  "addattr_nest_end nest mem = do {
     tail \<leftarrow> nlmsg_tail mem;
     mem \<leftarrow> mem_put nest (bytes16 (of_int (int tail - int nest))) mem;
     nlmsg_len \<leftarrow> get32 mem 0;
     Some (nlmsg_len, mem) }"

definition addattr_nest_compat :: "u32 \<Rightarrow> u16 \<Rightarrow> u8 list \<Rightarrow> u8 list \<Rightarrow> (nat \<times> u8 list) option" where
  "addattr_nest_compat maxlen type data mem = do {
     start \<leftarrow> nlmsg_tail mem;
     (r, mem) \<leftarrow> addattr_l maxlen type data mem;
     (nest, mem) \<leftarrow> addattr_nest maxlen type mem;
     Some (start, mem) }"

definition addattr_nest_compat_end :: "nat \<Rightarrow> u8 list \<Rightarrow> (u32 \<times> u8 list) option" where
  "addattr_nest_compat_end start mem = do {
     nest \<leftarrow> rta_tail mem start;
     tail \<leftarrow> nlmsg_tail mem;
     mem \<leftarrow> mem_put start (bytes16 (of_int (int tail - int start))) mem;
     addattr_nest_end nest mem }"

text \<open>Attributes within an attribute, whose length is kept up to date.\<close>

definition rta_addattr32 :: "nat \<Rightarrow> u32 \<Rightarrow> u16 \<Rightarrow> u32 \<Rightarrow> u8 list \<Rightarrow> (int \<times> u8 list) option" where
  "rta_addattr32 rta maxlen type data mem = do {
     rta_len \<leftarrow> get16 mem rta;
     let len = rta_length 4;
     if maxlen < align4 (ucast rta_len) + len then Some (-1, mem)
     else do {
       subrta \<leftarrow> rta_tail mem rta;
       mem \<leftarrow> put_rtattr subrta type len (bytes32 data) mem;
       mem \<leftarrow> mem_put rta (bytes16 (ucast (align4 (ucast rta_len) + len))) mem;
       Some (0, mem) } }"

definition rta_addattr_l :: "nat \<Rightarrow> u32 \<Rightarrow> u16 \<Rightarrow> u8 list \<Rightarrow> u8 list \<Rightarrow> (int \<times> u8 list) option" where
  "rta_addattr_l rta maxlen type data mem = do {
     rta_len \<leftarrow> get16 mem rta;
     let len = rta_length (length data);
     if maxlen < align4 (ucast rta_len) + align4 len then Some (-1, mem)
     else do {
       subrta \<leftarrow> rta_tail mem rta;
       mem \<leftarrow> put_rtattr subrta type len data mem;
       mem \<leftarrow> mem_put rta (bytes16 (ucast (align4 (ucast rta_len) + align4 len))) mem;
       Some (0, mem) } }"

definition rta_addattr8 :: "nat \<Rightarrow> u32 \<Rightarrow> u16 \<Rightarrow> u8 \<Rightarrow> u8 list \<Rightarrow> (int \<times> u8 list) option" where
  "rta_addattr8 rta maxlen type data mem = rta_addattr_l rta maxlen type [data] mem"

definition rta_addattr16 :: "nat \<Rightarrow> u32 \<Rightarrow> u16 \<Rightarrow> u16 \<Rightarrow> u8 list \<Rightarrow> (int \<times> u8 list) option" where
  "rta_addattr16 rta maxlen type data mem = rta_addattr_l rta maxlen type (bytes16 data) mem"

definition rta_addattr64 :: "nat \<Rightarrow> u32 \<Rightarrow> u16 \<Rightarrow> u64 \<Rightarrow> u8 list \<Rightarrow> (int \<times> u8 list) option" where
  "rta_addattr64 rta maxlen type data mem = rta_addattr_l rta maxlen type (bytes64 data) mem"

definition rta_nest :: "nat \<Rightarrow> u32 \<Rightarrow> u16 \<Rightarrow> u8 list \<Rightarrow> (nat \<times> u8 list) option" where
  "rta_nest rta maxlen type mem = do {
     nest \<leftarrow> rta_tail mem rta;
     (r, mem) \<leftarrow> rta_addattr_l rta maxlen type [] mem;
     Some (nest, mem) }"

definition rta_nest_end :: "nat \<Rightarrow> nat \<Rightarrow> u8 list \<Rightarrow> (u16 \<times> u8 list) option" where
  "rta_nest_end rta nest mem = do {
     tail \<leftarrow> rta_tail mem rta;
     mem \<leftarrow> mem_put nest (bytes16 (of_int (int tail - int nest))) mem;
     rta_len \<leftarrow> get16 mem rta;
     Some (rta_len, mem) }"

section \<open>Parsing\<close>

text \<open>
  \<^verbatim>\<open>RTA_OK\<close> reads the header only when at least four bytes are left. The remaining length is an \<^verbatim>\<open>int\<close>: an attribute whose padding is
  missing makes it negative, which ends the loop. A remainder is reported together with the length
  field at the position reached.
\<close>

definition rta_ok :: "u8 list \<Rightarrow> nat \<Rightarrow> int \<Rightarrow> bool option" where
  "rta_ok mem rta len =
     (if len < 4 then Some False
      else do { l \<leftarrow> get16 mem rta; Some (4 \<le> l \<and> uint l \<le> len) })"

definition rta_step :: "u8 list \<Rightarrow> nat \<Rightarrow> nat option" where
  "rta_step mem rta = map_option (\<lambda>l. unat (align4 (ucast l))) (get16 mem rta)"

definition report_deficit :: "u8 list \<Rightarrow> nat \<Rightarrow> int \<Rightarrow> unit option" where
  "report_deficit mem rta len = (if len = 0 then Some () else map_option (\<lambda>_. ()) (get16 mem rta))"

type_synonym rtattr_tab = "nat \<Rightarrow> nat option"

lemma align4_push: "align4 x = push_bit 2 (drop_bit 2 (x + 3))"
proof -
  have "(3 :: u32) = mask 2" by (simp add: mask_eq_exp_minus_1)
  then have "align4 x = (x + 3) AND NOT (mask 2)" by (simp add: align4_def)
  also have "\<dots> = push_bit 2 (drop_bit 2 (x + 3))"
    by (rule bit_word_eqI) (auto simp: bit_simps not_less simp flip: add_2_eq_Suc')
  finally show ?thesis .
qed

lemma unat_align4:
  assumes "unat x < 2 ^ 32 - 3"
  shows "unat (align4 x) = 4 * ((unat x + 3) div 4)"
proof -
  have n: "unat (x + 3) = unat x + 3" using assms by (simp add: unat_word_ariths)
  have "unat (align4 x) = take_bit 32 (push_bit 2 (drop_bit 2 (unat (x + 3))))"
    using unsigned_less [of "x + 3", where ?'a = nat]
    by (simp only: align4_push unsigned_push_bit_eq unsigned_drop_bit_eq) (simp add: take_bit_nat_eq_self)
  also have "\<dots> = take_bit 32 (4 * ((unat x + 3) div 4))"
    by (simp add: n push_bit_eq_mult drop_bit_eq_div mult.commute)
  also have "\<dots> = 4 * ((unat x + 3) div 4)"
    by (rule take_bit_nat_eq_self) (use assms in simp)
  finally show ?thesis .
qed

lemma rta_step_ge: "rta_ok mem rta len = Some True \<Longrightarrow> rta_step mem rta = Some n \<Longrightarrow> 4 \<le> n \<and> 4 \<le> len"
proof -
  assume "rta_ok mem rta len = Some True" "rta_step mem rta = Some n"
  then obtain l where l: "get16 mem rta = Some l" "4 \<le> l" "4 \<le> len" "n = unat (align4 (ucast l))"
    by (auto simp: rta_ok_def rta_step_def split: if_splits Option.bind_splits)
  have "unat l < 2 ^ 16" using unsigned_less [of l, where ?'a = nat] by simp
  moreover have "4 \<le> unat l" using l(2) by (simp add: word_le_nat_alt)
  ultimately show ?thesis using l(3,4) unat_align4 [of "ucast l"] by simp
qed

text \<open>The loop of \<^verbatim>\<open>parse_rtattr_flags\<close>: the first attribute of a type wins; the position and the length where it stops are returned.\<close>

function parse_loop :: "nat \<Rightarrow> u16 \<Rightarrow> u8 list \<Rightarrow> rtattr_tab \<Rightarrow> nat \<Rightarrow> int \<Rightarrow> (rtattr_tab \<times> nat \<times> int) option" where
  "parse_loop maxtype flags mem tb rta len =
     (case rta_ok mem rta len of
        None \<Rightarrow> None
      | Some False \<Rightarrow> Some (tb, rta, len)
      | Some True \<Rightarrow>
          (case (get16 mem (rta + 2), rta_step mem rta) of
             (Some t, Some n) \<Rightarrow>
               let type = unat (t AND NOT flags);
                   tb = (if type \<le> maxtype \<and> tb type = None then tb(type \<mapsto> rta) else tb)
               in parse_loop maxtype flags mem tb (rta + n) (len - int n)
           | _ \<Rightarrow> None))"
  by pat_completeness auto
termination
  by (relation "measure (\<lambda>(maxtype, flags, mem, tb, rta, len). nat len)") (auto dest: rta_step_ge [OF _ sym])

definition parse_rtattr_flags :: "nat \<Rightarrow> u16 \<Rightarrow> u8 list \<Rightarrow> nat \<Rightarrow> int \<Rightarrow> (int \<times> rtattr_tab) option" where
  "parse_rtattr_flags maxtype flags mem rta len = do {
     (tb, rta, len) \<leftarrow> parse_loop maxtype flags mem (\<lambda>_. None) rta len;
     _ \<leftarrow> report_deficit mem rta len;
     Some (0, tb) }"

definition parse_rtattr :: "nat \<Rightarrow> u8 list \<Rightarrow> nat \<Rightarrow> int \<Rightarrow> (int \<times> rtattr_tab) option" where
  "parse_rtattr maxtype mem rta len = parse_rtattr_flags maxtype 0 mem rta len"

function parse_rtattr_one :: "u16 \<Rightarrow> u8 list \<Rightarrow> nat \<Rightarrow> int \<Rightarrow> nat option option" where
  "parse_rtattr_one type mem rta len =
     (case rta_ok mem rta len of
        None \<Rightarrow> None
      | Some False \<Rightarrow> map_option (\<lambda>_. None) (report_deficit mem rta len)
      | Some True \<Rightarrow>
          (case (get16 mem (rta + 2), rta_step mem rta) of
             (Some t, Some n) \<Rightarrow>
               if t = type then Some (Some rta)
               else parse_rtattr_one type mem (rta + n) (len - int n)
           | _ \<Rightarrow> None))"
  by pat_completeness auto
termination
  by (relation "measure (\<lambda>(type, mem, rta, len). nat len)") (auto dest: rta_step_ge [OF _ sym])

declare parse_loop.simps [simp del] parse_rtattr_one.simps [simp del]

definition rta_payload :: "u8 list \<Rightarrow> nat \<Rightarrow> int option" where
  "rta_payload mem rta = map_option (\<lambda>l. uint l - 4) (get16 mem rta)"

definition parse_rtattr_nested :: "nat \<Rightarrow> u8 list \<Rightarrow> nat \<Rightarrow> (int \<times> rtattr_tab) option" where
  "parse_rtattr_nested maxtype mem rta = do {
     n \<leftarrow> rta_payload mem rta;
     parse_rtattr maxtype mem (rta + 4) n }"

text \<open>Here the payload length is compared as a 64-bit unsigned number, as \<^verbatim>\<open>RTA_PAYLOAD\<close> has the type of \<^verbatim>\<open>sizeof\<close>. The table is an argument, which the first return leaves as it is.\<close>

definition parse_rtattr_nested_compat :: "rtattr_tab \<Rightarrow> nat \<Rightarrow> u8 list \<Rightarrow> nat \<Rightarrow> u32 \<Rightarrow> (int \<times> rtattr_tab) option" where
  "parse_rtattr_nested_compat tb maxtype mem rta len = do {
     l \<leftarrow> get16 mem rta;
     let payload = (ucast l - 4 :: u64);
     if payload < scast len then Some (-1, tb)
     else if ucast (align4 len) + 4 \<le> payload then parse_rtattr_nested maxtype mem (rta + 4 + unat (align4 len))
     else Some (0, \<lambda>_. None) }"

end
