(* ===== verification/Netlink_Attrs.thy ===== *)
theory Netlink_Attrs
  imports Netlink
begin

text \<open>
  Blocks of memory as lists of attributes: what \<^verbatim>\<open>addattr_l\<close> appends and what \<^verbatim>\<open>parse_rtattr\<close> finds.
\<close>

section \<open>Bytes in a block\<close>

definition bytes_at :: "u8 list \<Rightarrow> nat \<Rightarrow> u8 list \<Rightarrow> bool" where
  "bytes_at mem off bs \<longleftrightarrow> mem_get mem off (length bs) = Some bs"

lemma mem_put_Some:
  assumes "off + length bs \<le> length mem"
  shows "\<exists>mem'. mem_put off bs mem = Some mem'"
  using assms by (simp add: mem_put_def)

lemma length_mem_put: "mem_put off bs mem = Some mem' \<Longrightarrow> length mem' = length mem"
  by (auto simp: mem_put_def split: if_splits)

lemma bytes_at_put: "mem_put off bs mem = Some mem' \<Longrightarrow> bytes_at mem' off bs"
  by (auto simp: mem_put_def bytes_at_def mem_get_def split: if_splits)

lemma bytes_at_nth:
  "bytes_at mem off bs \<longleftrightarrow> off + length bs \<le> length mem \<and> (\<forall>i < length bs. mem ! (off + i) = bs ! i)"
  by (auto simp: bytes_at_def mem_get_def list_eq_iff_nth_eq)

lemma mem_put_nth:
  assumes "mem_put off bs mem = Some mem'" "i < length mem" "i < off \<or> off + length bs \<le> i"
  shows "mem' ! i = mem ! i"
  using assms by (auto simp: mem_put_def nth_append split: if_splits)

lemma bytes_at_other:
  assumes "bytes_at mem o1 b1" "mem_put off bs mem = Some mem'" "o1 + length b1 \<le> off \<or> off + length bs \<le> o1"
  shows "bytes_at mem' o1 b1"
proof -
  have "mem' ! (o1 + i) = mem ! (o1 + i)" if "i < length b1" for i
    by (rule mem_put_nth [OF assms(2)]) (use that assms(1,3) in \<open>auto simp: bytes_at_nth\<close>)
  then show ?thesis using assms(1) length_mem_put [OF assms(2)] by (simp add: bytes_at_nth)
qed

lemma bytes_at_append: "bytes_at mem off (xs @ ys) \<longleftrightarrow> bytes_at mem off xs \<and> bytes_at mem (off + length xs) ys"
proof -
  have "(\<forall>i < length xs + length ys. mem ! (off + i) = (xs @ ys) ! i) \<longleftrightarrow>
      (\<forall>i < length xs. mem ! (off + i) = xs ! i) \<and> (\<forall>i < length ys. mem ! (off + length xs + i) = ys ! i)" (is "?L \<longleftrightarrow> ?R")
  proof
    assume L: ?L
    show ?R
    proof (intro conjI allI impI)
      fix i assume "i < length ys"
      with L [rule_format, of "length xs + i"] show "mem ! (off + length xs + i) = ys ! i" by (simp add: add.assoc)
    next
      fix i assume "i < length xs"
      with L [rule_format, of i] show "mem ! (off + i) = xs ! i" by (simp add: nth_append)
    qed
  next
    assume R: ?R
    show ?L
    proof (intro allI impI)
      fix i assume i: "i < length xs + length ys"
      show "mem ! (off + i) = (xs @ ys) ! i"
      proof (cases "i < length xs")
        case False
        then have "i - length xs < length ys" using i by linarith
        with R have "mem ! (off + length xs + (i - length xs)) = ys ! (i - length xs)" by blast
        moreover have "off + length xs + (i - length xs) = off + i" using False by simp
        ultimately show ?thesis using False by (simp add: nth_append)
      qed (use R in \<open>simp add: nth_append\<close>)
    qed
  qed
  then show ?thesis by (auto simp: bytes_at_nth)
qed

lemma get_bytes:
  "bytes_at mem off (bytes16 x) \<Longrightarrow> get16 mem off = Some x"
  "bytes_at mem off (bytes32 y) \<Longrightarrow> get32 mem off = Some y"
  by (simp_all add: bytes_at_def get16_def get32_def)

section \<open>Lists of attributes\<close>

definition pad4 :: "nat \<Rightarrow> nat" where
  "pad4 n = 4 * ((n + 3) div 4)"

lemma pad4_simps [simp]: "n \<le> pad4 n" "pad4 n < n + 4" "4 dvd pad4 n" "4 dvd n \<Longrightarrow> pad4 n = n"
  unfolding pad4_def by (presburger | simp)+

lemma unat_align4_pad: "unat x < 2 ^ 32 - 3 \<Longrightarrow> unat (align4 x) = pad4 (unat x)"
  by (simp add: unat_align4 pad4_def)

definition attr_bytes :: "u16 \<Rightarrow> u8 list \<Rightarrow> u8 list" where
  "attr_bytes t d = bytes16 (of_nat (4 + length d)) @ bytes16 t @ d"

lemma length_attr_bytes [simp]: "length (attr_bytes t d) = 4 + length d"
  by (simp add: attr_bytes_def)

abbreviation attr_space :: "u8 list \<Rightarrow> nat" where
  "attr_space d \<equiv> pad4 (4 + length d)"

fun attrs_at :: "u8 list \<Rightarrow> nat \<Rightarrow> (u16 \<times> u8 list) list \<Rightarrow> nat \<Rightarrow> bool" where
  "attrs_at mem off [] e \<longleftrightarrow> e = off"
| "attrs_at mem off ((t, d) # ats) e \<longleftrightarrow>
     length d < 65532 \<and> bytes_at mem off (attr_bytes t d) \<and> attrs_at mem (off + attr_space d) ats e"

lemma attrs_at_le: "attrs_at mem off ats e \<Longrightarrow> off \<le> e"
  by (induction mem off ats e rule: attrs_at.induct) auto

lemma attrs_at_append: "attrs_at mem off (xs @ ys) e \<longleftrightarrow> (\<exists>m. attrs_at mem off xs m \<and> attrs_at mem m ys e)"
  by (induction mem off xs e rule: attrs_at.induct) auto

lemma attrs_at_end_unique: "attrs_at mem off ats e \<Longrightarrow> attrs_at mem off ats e' \<Longrightarrow> e' = e"
  by (induction mem off ats e rule: attrs_at.induct) auto

lemma attrs_at_other:
  assumes "attrs_at mem off ats e" "mem_put p bs mem = Some mem'" "p + length bs \<le> off \<or> e \<le> p"
  shows "attrs_at mem' off ats e"
  using assms
proof (induction mem off ats e rule: attrs_at.induct)
  case (2 mem off t d ats e)
  have le: "off + attr_space d \<le> e" using 2(2) attrs_at_le by auto
  have "4 + length d \<le> attr_space d" by simp
  with le 2(4) have "off + length (attr_bytes t d) \<le> p \<or> p + length bs \<le> off"
    unfolding length_attr_bytes by linarith
  then have "bytes_at mem' off (attr_bytes t d)" by (intro bytes_at_other [OF _ 2(3)]) (use 2(2) in auto)
  moreover have "attrs_at mem' (off + attr_space d) ats e" using 2 by auto
  ultimately show ?case using 2(2) by simp
qed simp

section \<open>Appending\<close>

lemma ucast_nat: "ucast (of_nat n :: u32) = (of_nat n :: u16)"
  by (simp add: unsigned_of_nat word_of_nat_eq_iff)

lemma unat_of_nat_len: "n < 2 ^ LENGTH('a) \<Longrightarrow> unat (of_nat n :: 'a::len word) = n"
  by (simp add: unat_of_nat take_bit_nat_eq_self)

lemma put_rtattr_ok:
  assumes "rta + 4 + length d \<le> length mem" "length d < 65532"
  shows "\<exists>mem'. put_rtattr rta t (rta_length (length d)) d mem = Some mem' \<and> length mem' = length mem \<and>
           bytes_at mem' rta (attr_bytes t d) \<and>
           (\<forall>o1 b1. bytes_at mem o1 b1 \<and> o1 + length b1 \<le> rta \<longrightarrow> bytes_at mem' o1 b1) \<and>
           (\<forall>off ats e. attrs_at mem off ats e \<and> e \<le> rta \<longrightarrow> attrs_at mem' off ats e)"
proof -
  let ?l = "bytes16 (of_nat (4 + length d))"
  have "rta_length (length d) = of_nat (4 + length d)" by (simp add: rta_length_def)
  then have len: "ucast (rta_length (length d)) = (of_nat (4 + length d) :: u16)" by (simp only: ucast_nat)
  obtain m1 where 1: "mem_put (rta + 2) (bytes16 t) mem = Some m1" using assms(1) mem_put_Some [of "rta + 2" "bytes16 t" mem] by auto
  note l1 = length_mem_put [OF 1]
  obtain m2 where 2: "mem_put rta ?l m1 = Some m2" using assms(1) l1 mem_put_Some [of rta ?l m1] by auto
  note l2 = length_mem_put [OF 2]
  obtain m3 where 3: "mem_put (rta + 4) d m2 = Some m3" using assms(1) l1 l2 mem_put_Some [of "rta + 4" d m2] by auto
  note l3 = length_mem_put [OF 3]
  have run: "put_rtattr rta t (rta_length (length d)) d mem = Some m3"
    unfolding put_rtattr_def len 1 2 3 bind.bind_lunit by (rule refl)
  have "bytes_at m3 (rta + 2) (bytes16 t)"
    by (rule bytes_at_other [OF bytes_at_other [OF bytes_at_put [OF 1] 2] 3]) simp_all
  moreover have "bytes_at m3 rta ?l" by (rule bytes_at_other [OF bytes_at_put [OF 2] 3]) simp
  moreover have "bytes_at m3 (rta + 4) d" by (rule bytes_at_put [OF 3])
  ultimately have at: "bytes_at m3 rta (attr_bytes t d)"
    unfolding attr_bytes_def bytes_at_append length_bytes by (simp add: add.assoc del: add_2_eq_Suc')
  have "bytes_at m3 o1 b1" if "bytes_at mem o1 b1" "o1 + length b1 \<le> rta" for o1 b1
    by (rule bytes_at_other [OF bytes_at_other [OF bytes_at_other [OF that(1) 1] 2] 3]) (use that(2) in auto)
  moreover have "attrs_at m3 off ats e" if "attrs_at mem off ats e" "e \<le> rta" for off ats e
    by (rule attrs_at_other [OF attrs_at_other [OF attrs_at_other [OF that(1) 1] 2] 3]) (use that(2) in auto)
  ultimately show ?thesis using run at l1 l2 l3 by auto
qed

text \<open>A message: its length field, aligned, and the attributes from some offset on.\<close>

definition message :: "u8 list \<Rightarrow> nat \<Rightarrow> (u16 \<times> u8 list) list \<Rightarrow> nat \<Rightarrow> bool" where
  "message mem off ats n \<longleftrightarrow> bytes_at mem 0 (bytes32 (of_nat n)) \<and> 4 dvd n \<and> n \<le> length mem \<and> length mem < 2 ^ 31 \<and>
     4 \<le> off \<and> attrs_at mem off ats n"

lemma message_len:
  assumes "message mem off ats n"
  shows "get32 mem 0 = Some (of_nat n)" "unat (of_nat n :: u32) = n" "nlmsg_tail mem = Some n"
    "unat (align4 (of_nat n)) = n"
proof -
  show get: "get32 mem 0 = Some (of_nat n)" using assms get_bytes by (auto simp: message_def)
  have small: "n < 2 ^ 31" using assms by (simp add: message_def)
  show n: "unat (of_nat n :: u32) = n" by (rule unat_of_nat_len) (use small in simp)
  have al: "unat (align4 (of_nat n)) = n"
    using unat_align4_pad [of "of_nat n"] n small assms by (simp add: message_def)
  then show "unat (align4 (of_nat n)) = n" .
  show "nlmsg_tail mem = Some n" by (simp add: nlmsg_tail_def get al)
qed

lemma addattr_fits:
  assumes "message mem off ats n" "length d < 65532"
  shows "unat (align4 (of_nat n) + align4 (rta_length (length d)) :: u32) = n + attr_space d"
proof -
  have r: "unat (rta_length (length d)) = 4 + length d"
    using assms(2) by (simp add: rta_length_def unat_word_ariths unat_of_nat take_bit_nat_eq_self)
  have a: "unat (align4 (rta_length (length d))) = attr_space d"
    using unat_align4_pad [of "rta_length (length d)"] r assms(2) by simp
  have "attr_space d < 4 + length d + 4" by (rule pad4_simps(2))
  then show ?thesis
    using a message_len(4) [OF assms(1)] assms by (simp add: unat_word_ariths message_def)
qed

lemma addattr_l_ok:
  assumes msg: "message mem off ats n" and d: "length d < 65532"
    and fit: "n + attr_space d \<le> unat maxlen" "n + attr_space d \<le> length mem"
  shows "\<exists>mem'. addattr_l maxlen t d mem = Some (0, mem') \<and> length mem' = length mem \<and>
           message mem' off (ats @ [(t, d)]) (n + attr_space d) \<and>
           (\<forall>o1 b1. bytes_at mem o1 b1 \<and> 4 \<le> o1 \<and> o1 + length b1 \<le> n \<longrightarrow> bytes_at mem' o1 b1) \<and>
           (\<forall>o1 as1 e. attrs_at mem o1 as1 e \<and> 4 \<le> o1 \<and> e \<le> n \<longrightarrow> attrs_at mem' o1 as1 e) \<and> bytes_at mem' n (attr_bytes t d)"
proof -
  let ?new = "align4 (of_nat n) + align4 (rta_length (length d)) :: u32"
  note len = addattr_fits [OF msg d]
  have n4: "4 \<le> n" using msg attrs_at_le [of mem off ats n] by (simp add: message_def)
  have room: "n + 4 + length d \<le> length mem" using fit(2) pad4_simps(1) [of "4 + length d"] by linarith
  from put_rtattr_ok [OF room d, of t] obtain m1 where
    1: "put_rtattr n t (rta_length (length d)) d mem = Some m1" "length m1 = length mem" "bytes_at m1 n (attr_bytes t d)"
    "\<And>o1 b1. bytes_at mem o1 b1 \<Longrightarrow> o1 + length b1 \<le> n \<Longrightarrow> bytes_at m1 o1 b1"
    "\<And>o1 as1 e. attrs_at mem o1 as1 e \<Longrightarrow> e \<le> n \<Longrightarrow> attrs_at m1 o1 as1 e" by blast
  obtain m2 where 2: "mem_put 0 (bytes32 ?new) m1 = Some m2"
    using mem_put_Some [of 0 "bytes32 ?new" m1] 1(2) room by auto
  note l2 = length_mem_put [OF 2]
  have run: "addattr_l maxlen t d mem = Some (0, m2)"
    using message_len [OF msg] 1(1) 2 len fit(1) by (simp add: addattr_l_def Let_def word_less_nat_alt)
  have new: "?new = of_nat (n + attr_space d)" unfolding len [symmetric] by simp
  have at: "attrs_at m2 off ats n"
    by (rule attrs_at_other [OF 1(5) 2]) (use msg in \<open>auto simp: message_def\<close>)
  have b: "bytes_at m2 n (attr_bytes t d)" by (rule bytes_at_other [OF 1(3) 2]) (use n4 in simp)
  have "attrs_at m2 off (ats @ [(t, d)]) (n + attr_space d)" using at b d by (auto simp: attrs_at_append)
  moreover have "4 dvd n + attr_space d" using msg by (simp add: message_def)
  ultimately have "message m2 off (ats @ [(t, d)]) (n + attr_space d)"
    using bytes_at_put [OF 2] new fit(2) msg 1(2) l2 by (simp add: message_def)
  moreover have "bytes_at m2 o1 b1" if "bytes_at mem o1 b1" "4 \<le> o1" "o1 + length b1 \<le> n" for o1 b1
    by (rule bytes_at_other [OF 1(4) 2]) (use that in auto)
  moreover have "attrs_at m2 o1 as1 e" if "attrs_at mem o1 as1 e" "4 \<le> o1" "e \<le> n" for o1 as1 e
    by (rule attrs_at_other [OF 1(5) 2]) (use that in auto)
  ultimately show ?thesis using run b 1(2) l2 by auto
qed

text \<open>An attribute that does not fit is refused and the block left as it is.\<close>

lemma addattr_l_full:
  assumes "message mem off ats n" "length d < 65532" "unat maxlen < n + attr_space d"
  shows "addattr_l maxlen t d mem = Some (-1, mem)"
  using message_len [OF assms(1)] addattr_fits [OF assms(1,2)] assms(3)
  by (simp add: addattr_l_def Let_def word_less_nat_alt)

section \<open>Parsing\<close>

fun first_of :: "nat \<Rightarrow> rtattr_tab \<Rightarrow> nat \<Rightarrow> (u16 \<times> u8 list) list \<Rightarrow> rtattr_tab" where
  "first_of maxtype tb off [] = tb"
| "first_of maxtype tb off ((t, d) # ats) =
     first_of maxtype (if unat t \<le> maxtype \<and> tb (unat t) = None then tb(unat t \<mapsto> off) else tb) (off + attr_space d) ats"

lemma attr_header:
  assumes "bytes_at mem off (attr_bytes t d)" "length d < 65532"
  shows "get16 mem off = Some (of_nat (4 + length d))" "unat (of_nat (4 + length d) :: u16) = 4 + length d"
    "get16 mem (off + 2) = Some t" "rta_step mem off = Some (attr_space d)" "mem_get mem (off + 4) (length d) = Some d"
proof -
  have b: "bytes_at mem off (bytes16 (of_nat (4 + length d)))" "bytes_at mem (off + 2) (bytes16 t)" "bytes_at mem (off + 4) d"
    using assms(1) unfolding attr_bytes_def bytes_at_append length_bytes
    by (simp_all add: add.assoc del: add_2_eq_Suc')
  show g: "get16 mem off = Some (of_nat (4 + length d))" by (rule get_bytes(1) [OF b(1)])
  show "get16 mem (off + 2) = Some t" by (rule get_bytes(1) [OF b(2)])
  show u: "unat (of_nat (4 + length d) :: u16) = 4 + length d" by (rule unat_of_nat_len) (use assms(2) in simp)
  have "unat (ucast (of_nat (4 + length d) :: u16) :: u32) = 4 + length d" using u by simp
  then have "unat (align4 (ucast (of_nat (4 + length d) :: u16))) = attr_space d"
    using unat_align4_pad [of "ucast (of_nat (4 + length d) :: u16)"] assms(2) by simp
  then show "rta_step mem off = Some (attr_space d)" unfolding rta_step_def g by simp
  show "mem_get mem (off + 4) (length d) = Some d" using b(3) by (simp add: bytes_at_def)
qed

lemma parse_loop_ok:
  assumes "attrs_at mem off ats e"
  shows "parse_loop maxtype 0 mem tb off (int e - int off) = Some (first_of maxtype tb off ats, e, 0)"
  using assms
proof (induction ats arbitrary: off tb)
  case Nil
  then show ?case by (subst parse_loop.simps) (simp add: rta_ok_def)
next
  case (Cons a ats)
  obtain t d where a: "a = (t, d)" by force
  with Cons.prems have p: "length d < 65532" "bytes_at mem off (attr_bytes t d)" "attrs_at mem (off + attr_space d) ats e"
    by auto
  note h = attr_header [OF p(2,1)]
  have le: "off + attr_space d \<le> e" by (rule attrs_at_le [OF p(3)])
  have sp: "4 + length d \<le> attr_space d" by simp
  obtain l :: u16 where l: "get16 mem off = Some l" "unat l = 4 + length d" using h(1,2) by blast
  have "uint l = int (4 + length d)" unfolding l(2) [symmetric] by simp
  moreover have "4 \<le> l" unfolding word_le_nat_alt l(2) by simp
  moreover have "int (4 + length d) \<le> int e - int off" using le sp by linarith
  ultimately have "rta_ok mem off (int e - int off) = Some True" unfolding rta_ok_def l(1) by simp
  then show ?case
    using h(3,4) Cons.IH [OF p(3)] a by (subst parse_loop.simps) (simp add: Let_def diff_diff_eq)
qed

definition attr_payload :: "u8 list \<Rightarrow> nat \<Rightarrow> u8 list option" where
  "attr_payload mem rta = do { l \<leftarrow> get16 mem rta; mem_get mem (rta + 4) (unat l - 4) }"

lemma attr_payload_ok:
  "bytes_at mem off (attr_bytes t d) \<Longrightarrow> length d < 65532 \<Longrightarrow> attr_payload mem off = Some d"
  using attr_header(1,2,5) by (simp add: attr_payload_def)

lemma first_of_Some: "tb (unat t) = Some x \<Longrightarrow> first_of maxtype tb off ats (unat t) = Some x"
proof (induction maxtype tb off ats rule: first_of.induct)
  case (2 maxtype tb off t1 d ats)
  let ?tb = "if unat t1 \<le> maxtype \<and> tb (unat t1) = None then tb(unat t1 \<mapsto> off) else tb"
  have "?tb (unat t) = Some x" using 2(2) by (auto simp del: unat_eq_0)
  from 2(1) [OF this] show ?case by simp
qed simp

lemma first_of_ok:
  assumes "attrs_at mem off ats e" "unat t \<le> maxtype" "tb (unat t) = None"
  shows "case map_of ats t of
           None \<Rightarrow> first_of maxtype tb off ats (unat t) = None
         | Some d \<Rightarrow> \<exists>rta. first_of maxtype tb off ats (unat t) = Some rta \<and> attr_payload mem rta = Some d"
  using assms
proof (induction ats arbitrary: off tb)
  case (Cons a ats)
  obtain t1 d1 where a: "a = (t1, d1)" by force
  show ?case
  proof (cases "t1 = t")
    case True
    from Cons.prems(1) a have "attr_payload mem off = Some d1" by (intro attr_payload_ok [of _ _ t1]) simp_all
    with True Cons.prems a show ?thesis by (simp add: first_of_Some)
  next
    case False
    then have "unat t \<noteq> unat t1" by (simp add: unsigned_word_eqI word_unat_eq_iff)
    let ?tb = "if unat t1 \<le> maxtype \<and> tb (unat t1) = None then tb(unat t1 \<mapsto> off) else tb"
    have tb: "?tb (unat t) = None" using Cons.prems(3) \<open>unat t \<noteq> unat t1\<close> by simp
    have "attrs_at mem (off + attr_space d1) ats e" using Cons.prems(1) a by simp
    from Cons.IH [where tb = ?tb, OF this Cons.prems(2) tb] show ?thesis unfolding a map_of.simps first_of.simps using False by simp
  qed
qed simp

text \<open>What a parse promises: the payload of the first attribute of each type, and nothing for the others.\<close>

definition finds :: "nat \<Rightarrow> u8 list \<Rightarrow> rtattr_tab \<Rightarrow> (u16 \<times> u8 list) list \<Rightarrow> bool" where
  "finds maxtype mem tb ats \<longleftrightarrow>
     (\<forall>t. unat t \<le> maxtype \<longrightarrow>
        (case map_of ats t of None \<Rightarrow> tb (unat t) = None | Some d \<Rightarrow> \<exists>rta. tb (unat t) = Some rta \<and> attr_payload mem rta = Some d))"

lemma parse_rtattr_ok:
  assumes "attrs_at mem off ats e"
  shows "\<exists>tb. parse_rtattr maxtype mem off (int e - int off) = Some (0, tb) \<and> finds maxtype mem tb ats"
proof -
  let ?tb = "first_of maxtype (\<lambda>_. None) off ats"
  have "parse_rtattr maxtype mem off (int e - int off) = Some (0, ?tb)"
    using parse_loop_ok [OF assms] by (simp add: parse_rtattr_def parse_rtattr_flags_def report_deficit_def)
  moreover have "finds maxtype mem ?tb ats" unfolding finds_def
    by (intro allI impI first_of_ok [where tb = "\<lambda>_. None", OF assms] refl)
  ultimately show ?thesis by blast
qed

end
