(* ===== verification/Rtnl.thy ===== *)
theory Rtnl
  imports Netlink
begin

text \<open>
  Talking to the kernel: \<^verbatim>\<open>rtnl_talk\<close> and \<^verbatim>\<open>rtnl_dump_filter\<close> of \<^verbatim>\<open>libnetlink.c\<close>, without the optional extended error
  reports. The socket is a list of events, what the calls of \<^verbatim>\<open>recvmsg\<close> find one after the other: a datagram
  with the port it comes from, whether the address has the right length and whether it was cut
  off, or a failure with its error number. When no event is left the call blocks. The receive buffer is
  larger than the datagram; a read beyond the datagram is undefined here. The file of a handle, if it has one, is the list of the bytes written to it.
\<close>

datatype event = Datagram "u8 list" u32 bool bool | Failure int

datatype 'a outcome = Returns 'a | Exits int | Blocks | Undefined

record rtnl_handle =
  rh_pid :: u32
  rh_seq :: u32
  rh_dump :: u32
  rh_dump_fp :: "u8 list option"
  rh_inbox :: "event list"
  rh_sent :: "u8 list list"

section \<open>Receiving\<close>

text \<open>\<^verbatim>\<open>__rtnl_recvmsg\<close>: a peek leaves the datagram in the socket.\<close>

type_synonym received = "int \<times> (u8 list \<times> u32 \<times> bool \<times> bool) option \<times> event list"

fun recv_once :: "bool \<Rightarrow> event list \<Rightarrow> received outcome" where
  "recv_once peek [] = Blocks"
| "recv_once peek (Failure e # es) =
     (if e = 4 \<or> e = 11 then recv_once peek es else Returns (- e, None, es))"
| "recv_once peek (Datagram d pid addr_ok trunc # es) =
     (let rest = (if peek then Datagram d pid addr_ok trunc # es else es)
      in if d = [] then Returns (- 61, None, rest)
         else Returns (int (length d), Some (d, pid, addr_ok, trunc), rest))"

definition rtnl_recvmsg :: "bool \<Rightarrow> event list \<Rightarrow> received outcome" where
  "rtnl_recvmsg malloc inbox =
     (case recv_once True inbox of
        Returns (len, d, es) \<Rightarrow>
          if len < 0 then Returns (len, None, es)
          else if \<not> malloc then Returns (- 12, None, es)
          else recv_once False es
      | r \<Rightarrow> r)"

section \<open>Headers\<close>

definition hdr_len :: "u8 list \<Rightarrow> nat \<Rightarrow> u32 option" where "hdr_len buf h = get32 buf h"
definition hdr_type :: "u8 list \<Rightarrow> nat \<Rightarrow> u16 option" where "hdr_type buf h = get16 buf (h + 4)"
definition hdr_flags :: "u8 list \<Rightarrow> nat \<Rightarrow> u16 option" where "hdr_flags buf h = get16 buf (h + 6)"
definition hdr_seq :: "u8 list \<Rightarrow> nat \<Rightarrow> u32 option" where "hdr_seq buf h = get32 buf (h + 8)"
definition hdr_pid :: "u8 list \<Rightarrow> nat \<Rightarrow> u32 option" where "hdr_pid buf h = get32 buf (h + 12)"

abbreviation (input) NLMSG_ERROR :: u16 where "NLMSG_ERROR \<equiv> 2"
abbreviation (input) NLMSG_DONE :: u16 where "NLMSG_DONE \<equiv> 3"

lemma sint_small_u32:
  assumes "unat (w :: u32) < 2 ^ 31"
  shows "sint w = int (unat w)"
proof -
  have u: "uint w = int (unat w)" by simp
  have "- (2 ^ 31) \<le> int (unat w)" by (rule order_trans [of _ 0]) simp_all
  moreover have "int (unat w) < 2 ^ 31" using assms by (metis of_nat_less_iff of_nat_numeral of_nat_power)
  ultimately have "signed_take_bit 31 (int (unat w)) = int (unat w)" by (intro signed_take_bit_int_eq_self)
  then show ?thesis unfolding sint_uint u by (simp only: len_bit0 len_num1) simp
qed

lemma sint_nonneg_u32:
  assumes "0 \<le> sint (w :: u32)"
  shows "sint w = int (unat w)" "unat w < 2 ^ 31"
proof -
  have "\<not> bit w 31" using assms by (simp add: sint_uint signed_take_bit_nonnegative_iff bit_uint_iff)
  then have "\<not> bit (unat w) 31" by (simp add: bit_unat)
  then show n: "unat w < 2 ^ 31"
    using top_bit_nat [of "unat w" 31] unsigned_less [of w, where ?'a = nat] by simp
  show "sint w = int (unat w)" by (rule sint_small_u32 [OF n])
qed

lemma align4_pos:
  assumes "0 \<le> sint (len - 16 :: u32)"
  shows "0 < unat (align4 len)"
proof -
  let ?d = "len - 16"
  have d: "unat ?d < 2 ^ 31" by (rule sint_nonneg_u32 [OF assms])
  have len: "len = ?d + 16" by simp
  have u: "unat len = unat ?d + 16" by (subst len) (use d in \<open>simp only: unat_word_ariths, simp\<close>)
  have "unat (align4 len) = 4 * ((unat len + 3) div 4)" using d u by (intro unat_align4) simp
  then show ?thesis unfolding u by simp
qed

lemma hdr_len_bound: "hdr_len buf h = Some n \<Longrightarrow> h + 4 \<le> length buf"
  by (simp add: hdr_len_def get32_def mem_get_def split: if_splits)

lemma scan_advances:
  assumes "Some n = hdr_len buf h" "0 \<le> sint (n - 16)"
  shows "length buf - (h + unat (align4 n)) < length buf - h"
  using align4_pos [OF assms(2)] hdr_len_bound [OF assms(1) [symmetric]] by linarith

section \<open>Talking\<close>

text \<open>The scan of one datagram for the acknowledgement: the value to return, or the length left when the scan ends.\<close>

datatype scan = Answer int | Error_code int | Left int

text \<open>
  A negative remaining length is not less than the size of a header, as the comparison is unsigned; it comes from a
  message whose padding is missing, or from one whose length field is a negative number so small that subtracting the header size wraps around.
\<close>

function talk_scan ::
  "u32 \<Rightarrow> u32 \<Rightarrow> u32 \<Rightarrow> nat \<Rightarrow> bool \<Rightarrow> bool \<Rightarrow> u8 list \<Rightarrow> nat \<Rightarrow> int \<Rightarrow> scan outcome" where
  "talk_scan local_pid sender seq iovlen answer trunc buf h status =
     (if 0 \<le> status \<and> status < 16 then Returns (Left status)
      else case (hdr_len buf h, hdr_type buf h, hdr_seq buf h, hdr_pid buf h) of
        (Some nlmsg_len, Some ty, Some sq, Some pid) \<Rightarrow>
          let len = sint nlmsg_len; l = sint (nlmsg_len - 16); n = unat (align4 nlmsg_len)
          in if l < 0 \<or> status < len then
               if trunc then Returns (Answer (-1)) else Exits 1
             else if sender \<noteq> 0 \<or> pid \<noteq> local_pid \<or> seq < sq \<or> (ucast sq :: u64) < ucast seq - of_nat iovlen then
               talk_scan local_pid sender seq iovlen answer trunc buf (h + n) (status - int n)
             else if ty = NLMSG_ERROR then
               if l < 20 then Returns (Answer (-1))
               else case get32 buf (h + 16) of
                      None \<Rightarrow> Undefined
                    | Some err \<Rightarrow> Returns (Error_code (sint err))
             else if answer then Returns (Answer 0)
             else talk_scan local_pid sender seq iovlen answer trunc buf (h + n) (status - int n)
      | _ \<Rightarrow> Undefined)"
  by pat_completeness auto
termination
  by (relation "measure (\<lambda>(local_pid, sender, seq, iovlen, answer, trunc, buf, h, status). length buf - h)")
    (auto dest: scan_advances)

declare talk_scan.simps [simp del]

lemma recv_once_shorter: "recv_once peek inbox = Returns (len, d, es) \<Longrightarrow> length es \<le> length inbox"
  by (induction peek inbox rule: recv_once.induct) (auto simp: Let_def split: if_splits)

lemma recv_once_consumes: "recv_once False inbox = Returns (len, d, es) \<Longrightarrow> length es < length inbox"
  by (induction False inbox rule: recv_once.induct) (auto simp: Let_def split: if_splits)

lemma rtnl_recvmsg_consumes:
  assumes "rtnl_recvmsg malloc inbox = Returns (len, Some d, es)"
  shows "length es < length inbox"
  using assms recv_once_shorter recv_once_consumes
  by (fastforce simp: rtnl_recvmsg_def split: outcome.splits if_splits prod.splits dest: recv_once_shorter recv_once_consumes)

text \<open>The receive loop of \<^verbatim>\<open>__rtnl_talk_iov\<close>; \<open>i\<close> counts the datagrams. The result is the value returned and the events left.\<close>

function talk_loop :: "bool \<Rightarrow> u32 \<Rightarrow> u32 \<Rightarrow> nat \<Rightarrow> bool \<Rightarrow> nat \<Rightarrow> event list \<Rightarrow> (int \<times> event list) outcome" where
  "talk_loop malloc local_pid seq iovlen answer i inbox =
     (case rtnl_recvmsg malloc inbox of
        Blocks \<Rightarrow> Blocks | Exits c \<Rightarrow> Exits c | Undefined \<Rightarrow> Undefined
      | Returns (status, None, es) \<Rightarrow> Returns (status, es)
      | Returns (status, Some (buf, sender, addr_ok, trunc), es) \<Rightarrow>
          if \<not> addr_ok then Exits 1
          else case talk_scan local_pid sender seq iovlen answer trunc buf 0 status of
                 Blocks \<Rightarrow> Blocks | Exits c \<Rightarrow> Exits c | Undefined \<Rightarrow> Undefined
               | Returns (Answer r) \<Rightarrow> Returns (r, es)
               | Returns (Error_code e) \<Rightarrow>
                   if Suc i < iovlen then talk_loop malloc local_pid seq iovlen answer (Suc i) es
                   else Returns (if e \<noteq> 0 then - int (Suc i) else 0, es)
               | Returns (Left st) \<Rightarrow>
                   if trunc then talk_loop malloc local_pid seq iovlen answer (Suc i) es
                   else if st \<noteq> 0 then Exits 1
                   else talk_loop malloc local_pid seq iovlen answer (Suc i) es)"
  by pat_completeness auto
termination
  by (relation "measure (\<lambda>(malloc, local_pid, seq, iovlen, answer, i, inbox). length inbox)")
    (auto dest: rtnl_recvmsg_consumes)

declare talk_loop.simps [simp del]

text \<open>The messages get consecutive numbers and, when no answer is wanted, ask for an acknowledgement.\<close>

fun number_iov :: "bool \<Rightarrow> u32 \<Rightarrow> u8 list list \<Rightarrow> (u32 \<times> u8 list list) option" where
  "number_iov answer seq [] = Some (seq, [])"
| "number_iov answer seq (m # ms) = do {
     m \<leftarrow> mem_put 8 (bytes32 (seq + 1)) m;
     flags \<leftarrow> hdr_flags m 0;
     m \<leftarrow> (if answer then Some m else mem_put 6 (bytes16 (flags OR 4)) m);
     (seq, ms) \<leftarrow> number_iov answer (seq + 1) ms;
     Some (seq, m # ms) }"

text \<open>
  The arguments are the result of \<^verbatim>\<open>sendmsg\<close> and whether the buffers can be had. What is sent of a message is as long as its length field says. The
  result is the value returned, the handle and the messages as they were changed.
\<close>

definition sent_bytes :: "u8 list \<Rightarrow> u8 list" where
  "sent_bytes m = take (case get32 m 0 of None \<Rightarrow> 0 | Some n \<Rightarrow> unat n) m"

definition rtnl_talk_iov ::
  "int \<Rightarrow> bool \<Rightarrow> bool \<Rightarrow> u8 list list \<Rightarrow> rtnl_handle \<Rightarrow> (int \<times> rtnl_handle \<times> u8 list list) outcome" where
  "rtnl_talk_iov sendmsg malloc answer iov rth =
     (case number_iov answer (rh_seq rth) iov of
        None \<Rightarrow> Undefined
      | Some (s1, iov) \<Rightarrow>
          let seq = (if iov = [] then 0 else s1);
              rth = rth\<lparr>rh_seq := s1\<rparr>
          in if sendmsg < 0 then Returns (-1, rth, iov)
             else let rth = rth\<lparr>rh_sent := rh_sent rth @ [concat (map sent_bytes iov)]\<rparr>
             in case talk_loop malloc (rh_pid rth) seq (length iov) answer 0 (rh_inbox rth) of
                  Blocks \<Rightarrow> Blocks | Exits c \<Rightarrow> Exits c | Undefined \<Rightarrow> Undefined
                | Returns (r, es) \<Rightarrow> Returns (r, rth\<lparr>rh_inbox := es\<rparr>, iov))"

definition rtnl_talk :: "int \<Rightarrow> bool \<Rightarrow> bool \<Rightarrow> u8 list \<Rightarrow> rtnl_handle \<Rightarrow> (int \<times> rtnl_handle \<times> u8 list) outcome" where
  "rtnl_talk sendmsg malloc answer n rth =
     (case rtnl_talk_iov sendmsg malloc answer [n] rth of
        Blocks \<Rightarrow> Blocks | Exits c \<Rightarrow> Exits c | Undefined \<Rightarrow> Undefined
      | Returns (r, rth, iov) \<Rightarrow> Returns (r, rth, hd iov))"

section \<open>Dumps\<close>

text \<open>The code at the end of a dump; an error number is passed on, some of them as \<open>-1\<close>.\<close>

definition rtnl_dump_done :: "u8 list \<Rightarrow> nat \<Rightarrow> int outcome" where
  "rtnl_dump_done buf h =
     (case hdr_len buf h of
        None \<Rightarrow> Undefined
      | Some nlmsg_len \<Rightarrow>
          if nlmsg_len < 20 then Returns (-1)
          else case get32 buf (h + 16) of
                 None \<Rightarrow> Undefined
               | Some w \<Rightarrow>
                   let len = sint w
                   in if len < 0 then Returns (if len = -2 \<or> len = -95 then -1 else len) else Returns 0)"

text \<open>\<^verbatim>\<open>NLMSG_OK\<close>, the remaining length being an \<^verbatim>\<open>int\<close>.\<close>

definition nlmsg_ok :: "u8 list \<Rightarrow> nat \<Rightarrow> int \<Rightarrow> u32 option option" where
  "nlmsg_ok buf h msglen =
     (if msglen < 16 \<or> 2 ^ 31 \<le> msglen then Some None
      else case hdr_len buf h of
             None \<Rightarrow> None
           | Some n \<Rightarrow> Some (if 16 \<le> n \<and> int (unat n) \<le> msglen then Some n else None))"

lemma nlmsg_ok_pos:
  assumes "nlmsg_ok buf h msglen = Some (Some n)"
  shows "0 < msglen \<and> 0 < uint (align4 n)"
proof -
  have n: "16 \<le> msglen" "msglen < 2 ^ 31" "16 \<le> n" "int (unat n) \<le> msglen"
    using assms by (auto simp: nlmsg_ok_def split: if_splits option.splits)
  have "int (unat n) < int (2 ^ 31)" using n(2,4) by (simp add: order.strict_trans1)
  then have "unat n < 2 ^ 31" by (simp only: of_nat_less_iff)
  then have a: "unat (align4 n) = 4 * ((unat n + 3) div 4)" by (intro unat_align4) simp
  have "16 \<le> unat n" using n(3) by (simp add: word_le_nat_alt)
  then have "0 < 4 * ((unat n + 3) div 4)" by (simp add: div_greater_zero_iff)
  then have "0 < int (unat (align4 n))" unfolding a by linarith
  then have "0 < uint (align4 n)" by simp
  moreover have "0 < msglen" using n(1) by linarith
  ultimately show ?thesis by blast
qed

text \<open>
  One filter over one datagram. The filter gets the message; the flags it clears are cleared in the buffer. What is kept: the
  buffer, the state of the filter and whether the dump was interrupted.
\<close>

datatype dump_result = Dump_return int | Dump_found | Dump_left int

record 's dump_state =
  ds_buf :: "u8 list"
  ds_state :: 's
  ds_intr :: bool

type_synonym 's filter = "u8 list \<Rightarrow> 's \<Rightarrow> int \<times> 's"

function dump_scan :: "rtnl_handle \<Rightarrow> u32 \<Rightarrow> 's filter \<Rightarrow> u16 \<Rightarrow> 's dump_state \<Rightarrow> nat \<Rightarrow> int \<Rightarrow> (dump_result \<times> 's dump_state) outcome" where
  "dump_scan rth sender filt nc_flags ds h msglen =
     (case nlmsg_ok (ds_buf ds) h msglen of
        None \<Rightarrow> Undefined
      | Some None \<Rightarrow> Returns (Dump_left msglen, ds)
      | Some (Some n) \<Rightarrow>
          (case (hdr_flags (ds_buf ds) h, hdr_type (ds_buf ds) h, hdr_seq (ds_buf ds) h, hdr_pid (ds_buf ds) h) of
             (Some fl, Some ty, Some sq, Some pid) \<Rightarrow>
               (case mem_put (h + 6) (bytes16 (fl AND NOT nc_flags)) (ds_buf ds) of
                  None \<Rightarrow> Undefined
                | Some buf \<Rightarrow>
                    let ds = ds\<lparr>ds_buf := buf\<rparr>; k = unat (align4 n)
                    in if sender \<noteq> 0 \<or> pid \<noteq> rh_pid rth \<or> sq \<noteq> rh_dump rth then
                         dump_scan rth sender filt nc_flags ds (h + k) (msglen - int k)
                       else
                         let ds = (if (fl AND NOT nc_flags) AND 16 \<noteq> 0 then ds\<lparr>ds_intr := True\<rparr> else ds)
                         in if ty = NLMSG_DONE then
                              (case rtnl_dump_done buf h of
                                 Returns e \<Rightarrow> Returns (if e < 0 then Dump_return (-1) else Dump_found, ds)
                               | Exits c \<Rightarrow> Exits c | Blocks \<Rightarrow> Blocks | Undefined \<Rightarrow> Undefined)
                            else if ty = NLMSG_ERROR then Returns (Dump_return (-1), ds)
                            else if rh_dump_fp rth \<noteq> None then dump_scan rth sender filt nc_flags ds (h + k) (msglen - int k)
                            else
                              let (err, st) = filt (take (unat n) (drop h buf)) (ds_state ds); ds = ds\<lparr>ds_state := st\<rparr>
                              in if err < 0 then Returns (Dump_return err, ds)
                                 else dump_scan rth sender filt nc_flags ds (h + k) (msglen - int k))
           | _ \<Rightarrow> Undefined))"
  by pat_completeness auto
termination
  by (relation "measure (\<lambda>(rth, sender, filt, nc_flags, ds, h, msglen). nat msglen)")
    (auto dest!: nlmsg_ok_pos)

declare dump_scan.simps [simp del]

text \<open>The filters one after the other, each from the start of the datagram; the length left is that of the last.\<close>

fun dump_filters ::
  "rtnl_handle \<Rightarrow> u32 \<Rightarrow> int \<Rightarrow> ('s filter \<times> u16) list \<Rightarrow> bool \<Rightarrow> int \<Rightarrow> 's dump_state \<Rightarrow> ((int + bool \<times> int) \<times> 's dump_state) outcome" where
  "dump_filters rth sender status [] found left ds = Returns (Inr (found, left), ds)"
| "dump_filters rth sender status ((filt, nc_flags) # as) found left ds =
     (case dump_scan rth sender filt nc_flags ds 0 status of
        Returns (Dump_return r, ds) \<Rightarrow> Returns (Inl r, ds)
      | Returns (Dump_found, ds) \<Rightarrow> dump_filters rth sender status as True status ds
      | Returns (Dump_left l, ds) \<Rightarrow> dump_filters rth sender status as found l ds
      | Exits c \<Rightarrow> Exits c | Blocks \<Rightarrow> Blocks | Undefined \<Rightarrow> Undefined)"

text \<open>
  A handle with a file writes every datagram to it, up to the padded length: \<open>junk\<close> is what the buffer holds behind the datagram.
\<close>

definition dump_write :: "u8 list \<Rightarrow> u8 list \<Rightarrow> u8 list option \<Rightarrow> u8 list option" where
  "dump_write junk buf fp = map_option (\<lambda>f. f @ take (unat (align4 (of_nat (length buf)))) (buf @ junk)) fp"

function dump_loop ::
  "bool \<Rightarrow> u8 list \<Rightarrow> rtnl_handle \<Rightarrow> ('s filter \<times> u16) list \<Rightarrow> 's \<Rightarrow> bool \<Rightarrow> event list \<Rightarrow> u8 list option \<Rightarrow>
   (int \<times> 's \<times> event list \<times> u8 list option) outcome" where
  "dump_loop malloc junk rth filters st intr inbox fp =
     (case rtnl_recvmsg malloc inbox of
        Blocks \<Rightarrow> Blocks | Exits c \<Rightarrow> Exits c | Undefined \<Rightarrow> Undefined
      | Returns (status, None, es) \<Rightarrow> Returns (status, st, es, fp)
      | Returns (status, Some (buf, sender, addr_ok, trunc), es) \<Rightarrow>
          let fp = dump_write junk buf fp
          in (case dump_filters rth sender status filters False 0 \<lparr>ds_buf = buf, ds_state = st, ds_intr = intr\<rparr> of
             Blocks \<Rightarrow> Blocks | Exits c \<Rightarrow> Exits c | Undefined \<Rightarrow> Undefined
           | Returns (Inl r, ds) \<Rightarrow> Returns (r, ds_state ds, es, fp)
           | Returns (Inr (found, left), ds) \<Rightarrow>
               if found then Returns (0, ds_state ds, es, fp)
               else if trunc then dump_loop malloc junk rth filters (ds_state ds) (ds_intr ds) es fp
               else if left \<noteq> 0 then Exits 1
               else dump_loop malloc junk rth filters (ds_state ds) (ds_intr ds) es fp))"
  by pat_completeness auto
termination
  by (relation "measure (\<lambda>(malloc, junk, rth, filters, st, intr, inbox, fp). length inbox)")
    (auto dest: rtnl_recvmsg_consumes)

declare dump_loop.simps [simp del]

definition rtnl_dump_filter_l ::
  "bool \<Rightarrow> u8 list \<Rightarrow> ('s filter \<times> u16) list \<Rightarrow> 's \<Rightarrow> rtnl_handle \<Rightarrow> (int \<times> 's \<times> rtnl_handle) outcome" where
  "rtnl_dump_filter_l malloc junk filters st rth =
     (case dump_loop malloc junk rth filters st False (rh_inbox rth) (rh_dump_fp rth) of
        Blocks \<Rightarrow> Blocks | Exits c \<Rightarrow> Exits c | Undefined \<Rightarrow> Undefined
      | Returns (r, st, es, fp) \<Rightarrow> Returns (r, st, rth\<lparr>rh_inbox := es, rh_dump_fp := fp\<rparr>))"

definition rtnl_dump_filter_nc ::
  "bool \<Rightarrow> u8 list \<Rightarrow> 's filter \<Rightarrow> u16 \<Rightarrow> 's \<Rightarrow> rtnl_handle \<Rightarrow> (int \<times> 's \<times> rtnl_handle) outcome" where
  "rtnl_dump_filter_nc malloc junk filt nc_flags st rth = rtnl_dump_filter_l malloc junk [(filt, nc_flags)] st rth"

end
