(* ===== verification/Rtnl_Batches.thy ===== *)
theory Rtnl_Batches
  imports Netlink_Attrs Rtnl
begin

text \<open>
  What comes out of a netlink socket, as the properties of the receiving code speak of it: a datagram is a batch of messages, of any length, each
  followed by its padding; calls may be interrupted in between.
\<close>

section \<open>A message\<close>

text \<open>A message without its padding: length, type, flags, number, port, and the rest.\<close>

definition nl_message :: "u16 \<Rightarrow> u16 \<Rightarrow> u32 \<Rightarrow> u32 \<Rightarrow> u8 list \<Rightarrow> u8 list" where
  "nl_message ty fl sq pid payload =
     bytes32 (of_nat (16 + length payload)) @ bytes16 ty @ bytes16 fl @ bytes32 sq @ bytes32 pid @ payload"

lemma nl_message_fields:
  "hdr_len (nl_message ty fl sq pid payload) 0 = Some (of_nat (16 + length payload))"
  "hdr_type (nl_message ty fl sq pid payload) 0 = Some ty" "hdr_flags (nl_message ty fl sq pid payload) 0 = Some fl"
  "hdr_seq (nl_message ty fl sq pid payload) 0 = Some sq" "hdr_pid (nl_message ty fl sq pid payload) 0 = Some pid"
  "length (nl_message ty fl sq pid payload) = 16 + length payload"
  by (simp_all add: nl_message_def hdr_len_def hdr_type_def hdr_flags_def hdr_seq_def hdr_pid_def get16_def get32_def mem_get_def numeral_eq_Suc)

lemma nl_message_len:
  assumes "length payload < 2 ^ 30"
  shows "unat (of_nat (16 + length payload) :: u32) = 16 + length payload"
    "sint (of_nat (16 + length payload) :: u32) = int (16 + length payload)"
    "unat (align4 (of_nat (16 + length payload))) = pad4 (16 + length payload)"
    "sint (of_nat (16 + length payload) - 16 :: u32) = int (length payload)"
proof -
  have d: "of_nat (16 + length payload) - 16 = (of_nat (length payload) :: u32)" by simp
  have v: "unat (of_nat (length payload) :: u32) = length payload" by (rule unat_of_nat_len) (use assms in simp)
  have "sint (of_nat (length payload) :: u32) = int (unat (of_nat (length payload) :: u32))"
    by (rule sint_small_u32) (unfold v, use assms in simp)
  then show "sint (of_nat (16 + length payload) - 16 :: u32) = int (length payload)" unfolding d v .
  show u: "unat (of_nat (16 + length payload) :: u32) = 16 + length payload" by (rule unat_of_nat_len) (use assms in simp)
  have "sint (of_nat (16 + length payload) :: u32) = int (unat (of_nat (16 + length payload) :: u32))"
    by (rule sint_small_u32) (unfold u, use assms in simp)
  then show "sint (of_nat (16 + length payload) :: u32) = int (16 + length payload)" unfolding u .
  have "unat (of_nat (16 + length payload) :: u32) < 2 ^ 32 - 3" unfolding u using assms by simp
  from unat_align4_pad [OF this] show "unat (align4 (of_nat (16 + length payload))) = pad4 (16 + length payload)" unfolding u .
qed

lemma nl_message_payload32:
  "get32 (nl_message ty fl sq pid (bytes32 x @ rest)) 16 = Some x"
  by (simp add: nl_message_def get32_def mem_get_def numeral_eq_Suc)

lemma nlmsg_ok_message:
  assumes "length payload < 2 ^ 30"
  shows "nlmsg_ok (nl_message ty fl sq pid payload) 0 (int (16 + length payload)) = Some (Some (of_nat (16 + length payload)))"
proof -
  note u = nl_message_len(1) [OF assms]
  have "(16 :: u32) \<le> of_nat (16 + length payload)" unfolding word_le_nat_alt u by simp
  moreover have "\<not> (int (16 + length payload) < 16 \<or> 2 ^ 31 \<le> int (16 + length payload))" using assms by simp
  ultimately show ?thesis unfolding nlmsg_ok_def nl_message_fields(1) option.case u by simp
qed

section \<open>Batches\<close>

text \<open>A message with the bytes that pad it to a multiple of four, whatever they are.\<close>

record nl_msg =
  m_type :: u16
  m_flags :: u16
  m_seq :: u32
  m_pid :: u32
  m_payload :: "u8 list"
  m_pad :: "u8 list"

definition msg_bytes :: "nl_msg \<Rightarrow> u8 list" where
  "msg_bytes m = nl_message (m_type m) (m_flags m) (m_seq m) (m_pid m) (m_payload m)"

definition padded :: "nl_msg \<Rightarrow> u8 list" where
  "padded m = msg_bytes m @ m_pad m"

definition batch :: "nl_msg list \<Rightarrow> u8 list" where
  "batch ms = concat (map padded ms)"

definition msg_ok :: "nl_msg \<Rightarrow> bool" where
  "msg_ok m \<longleftrightarrow> length (m_payload m) < 2 ^ 30 \<and> length (padded m) = pad4 (length (msg_bytes m))"

lemma batch_simps [simp]: "batch [] = []" "batch (m # ms) = padded m @ batch ms" "batch (ms @ ms') = batch ms @ batch ms'"
  by (simp_all add: batch_def)

lemma length_msg_bytes [simp]: "length (msg_bytes m) = 16 + length (m_payload m)"
  by (simp add: msg_bytes_def nl_message_fields)

lemma length_padded: "16 + length (m_payload m) \<le> length (padded m)"
  by (simp add: padded_def)

lemma batch_aligned: "\<forall>m \<in> set ms. msg_ok m \<Longrightarrow> 4 dvd length (batch ms)"
  by (induction ms) (auto simp: msg_ok_def)

lemma padded_nonempty [simp]: "padded m \<noteq> []"
  using length_padded [of m] by auto

lemma batch_empty: "batch ms = [] \<longleftrightarrow> ms = []"
  by (cases ms) auto

text \<open>The header of a message that stands anywhere in a datagram.\<close>

lemma mem_get_at: "mem_get (pre @ x) (length pre + k) n = mem_get x k n"
  by (simp add: mem_get_def)

lemma mem_get_front: "k + n \<le> length x \<Longrightarrow> mem_get (x @ post) k n = mem_get x k n"
  by (simp add: mem_get_def)

lemma get_at:
  assumes "k + 4 \<le> length x"
  shows "get32 (pre @ x @ post) (length pre + k) = get32 x k" "get16 (pre @ x @ post) (length pre + k) = get16 x k"
  using assms by (simp_all add: get32_def get16_def mem_get_at mem_get_front)

lemma header_at:
  "hdr_len (pre @ padded m @ post) (length pre) = Some (of_nat (16 + length (m_payload m)))"
  "hdr_type (pre @ padded m @ post) (length pre) = Some (m_type m)"
  "hdr_flags (pre @ padded m @ post) (length pre) = Some (m_flags m)"
  "hdr_seq (pre @ padded m @ post) (length pre) = Some (m_seq m)"
  "hdr_pid (pre @ padded m @ post) (length pre) = Some (m_pid m)"
  using nl_message_fields [of "m_type m" "m_flags m" "m_seq m" "m_pid m" "m_payload m", folded msg_bytes_def]
    get_at [of 0 "msg_bytes m" pre "m_pad m @ post"] get_at [of 4 "msg_bytes m" pre "m_pad m @ post"] get_at [of 6 "msg_bytes m" pre "m_pad m @ post"]
    get_at [of 8 "msg_bytes m" pre "m_pad m @ post"] get_at [of 12 "msg_bytes m" pre "m_pad m @ post"]
  by (simp_all add: hdr_len_def hdr_type_def hdr_flags_def hdr_seq_def hdr_pid_def padded_def)

lemma payload32_at:
  assumes "m_payload m = bytes32 x @ rest"
  shows "get32 (pre @ padded m @ post) (length pre + 16) = Some x"
  using get_at(1) [of 16 "msg_bytes m" pre "m_pad m @ post"] nl_message_payload32 assms by (simp add: padded_def msg_bytes_def nl_message_fields)

lemma message_at: "take (16 + length (m_payload m)) (drop (length pre) (pre @ padded m @ post)) = msg_bytes m"
  by (simp add: padded_def)

lemma put_flags_at: "mem_put (length pre + 6) (bytes16 (m_flags m)) (pre @ padded m @ post) = Some (pre @ padded m @ post)"
proof -
  let ?a = "bytes32 (of_nat (16 + length (m_payload m))) @ bytes16 (m_type m)"
  obtain b where m: "msg_bytes m = ?a @ bytes16 (m_flags m) @ b" unfolding msg_bytes_def nl_message_def append.assoc by blast
  have "length ?a = 6" by simp
  then show ?thesis unfolding padded_def m append.assoc by (simp add: mem_put_def)
qed

lemma msg_ok_len:
  assumes "msg_ok m"
  shows "unat (of_nat (16 + length (m_payload m)) :: u32) = 16 + length (m_payload m)"
    "sint (of_nat (16 + length (m_payload m)) :: u32) = int (16 + length (m_payload m))"
    "unat (align4 (of_nat (16 + length (m_payload m)))) = length (padded m)"
    "sint (of_nat (16 + length (m_payload m)) - 16 :: u32) = int (length (m_payload m))"
  using nl_message_len [of "m_payload m"] assms by (simp_all add: msg_ok_def)

lemma nlmsg_ok_at:
  assumes "msg_ok m" "length (padded m) + n < 2 ^ 31"
  shows "nlmsg_ok (pre @ padded m @ post) (length pre) (int (length (padded m) + n)) = Some (Some (of_nat (16 + length (m_payload m))))"
proof -
  note u = msg_ok_len(1) [OF assms(1)]
  have "(16 :: u32) \<le> of_nat (16 + length (m_payload m))" unfolding word_le_nat_alt u by simp
  moreover have "int (length (padded m) + n) < int (2 ^ 31)" using assms(2) by (simp only: of_nat_less_iff)
  then have "\<not> (int (length (padded m) + n) < 16 \<or> 2 ^ 31 \<le> int (length (padded m) + n))" using length_padded [of m] by simp
  moreover have "int (16 + length (m_payload m)) \<le> int (length (padded m) + n)" using length_padded [of m] by simp
  ultimately show ?thesis unfolding nlmsg_ok_def header_at option.case u by simp
qed

section \<open>The events of a socket\<close>

text \<open>A datagram from a port, with whether its address has the right length and whether it was cut off; or a call that is interrupted, or finds nothing yet.\<close>

datatype chunk = Batch u32 "nl_msg list" bool bool | Interrupted bool

fun chunk_event :: "chunk \<Rightarrow> event" where
  "chunk_event (Batch sender ms addr_ok trunc) = Datagram (batch ms) sender addr_ok trunc"
| "chunk_event (Interrupted again) = Failure (if again then 11 else 4)"

text \<open>The messages of an event, each with the port it comes from.\<close>

fun chunk_messages :: "chunk \<Rightarrow> (u32 \<times> nl_msg) list" where
  "chunk_messages (Batch sender ms addr_ok trunc) = map (Pair sender) ms"
| "chunk_messages (Interrupted again) = []"

text \<open>A datagram has at least one message, and its length is an \<^verbatim>\<open>int\<close>.\<close>

fun chunk_ok :: "chunk \<Rightarrow> bool" where
  "chunk_ok (Batch sender ms addr_ok trunc) \<longleftrightarrow> ms \<noteq> [] \<and> (\<forall>m \<in> set ms. msg_ok m) \<and> length (batch ms) < 2 ^ 31"
| "chunk_ok (Interrupted again) \<longleftrightarrow> True"

lemma recv_datagram:
  "d \<noteq> [] \<Longrightarrow> rtnl_recvmsg True (Datagram d sender addr_ok trunc # es) = Returns (int (length d), Some (d, sender, addr_ok, trunc), es)"
  by (simp add: rtnl_recvmsg_def)

lemma recv_interrupted: "rtnl_recvmsg True (Failure (if again then 11 else 4) # es) = rtnl_recvmsg True es"
  by (auto simp: rtnl_recvmsg_def)

end
