(* ===== verification/Rtnl_Properties.thy ===== *)
theory Rtnl_Properties
  imports Rtnl_Batches
begin

text \<open>The properties of the exchange with the kernel: acknowledgements and dumps.\<close>

section \<open>Acknowledgements\<close>

text \<open>
  A message that is not the acknowledgement of the request with number \<open>seq\<close>: from another process, for another port, with a number that is higher or lower by more
  than one, or of another type.
\<close>

definition unrelated :: "u32 \<Rightarrow> u32 \<Rightarrow> u32 \<Rightarrow> nl_msg \<Rightarrow> bool" where
  "unrelated lp seq sender m \<longleftrightarrow> sender \<noteq> 0 \<or> m_pid m \<noteq> lp \<or> seq < m_seq m \<or> m_seq m < seq - 1 \<or> m_type m \<noteq> 2"

fun passed_over :: "u32 \<Rightarrow> u32 \<Rightarrow> chunk \<Rightarrow> bool" where
  "passed_over lp seq (Batch sender ms addr_ok trunc) \<longleftrightarrow> addr_ok \<and> (\<forall>m \<in> set ms. unrelated lp seq sender m)"
| "passed_over lp seq (Interrupted again) \<longleftrightarrow> True"

lemma seq_low:
  assumes "seq \<noteq> 0"
  shows "(ucast sq :: u64) < ucast seq - of_nat 1 \<longleftrightarrow> sq < (seq - 1 :: u32)"
proof -
  have n: "1 \<le> unat seq" using assms by (simp add: unat_gt_0 Suc_le_eq)
  have "unat (seq - 1) = unat seq - 1" "unat (ucast seq - 1 :: u64) = unat seq - 1" using n by (simp_all add: unat_sub word_le_nat_alt)
  then show ?thesis by (simp add: word_less_nat_alt)
qed

lemma scan_skip:
  assumes "msg_ok m" "unrelated lp seq sender m" "seq \<noteq> 0"
  shows "talk_scan lp sender seq 1 False trunc (pre @ padded m @ post) (length pre) (int (length (padded m) + n)) =
    talk_scan lp sender seq 1 False trunc (pre @ padded m @ post) (length pre + length (padded m)) (int n)"
proof -
  have "\<not> (int (length (padded m) + n) < 16)" "\<not> (int (length (padded m) + n) < int (16 + length (m_payload m)))"
    "int (length (padded m) + n) - int (length (padded m)) = int n"
    using length_padded [of m] by simp_all
  then show ?thesis
    unfolding talk_scan.simps [of lp sender seq 1 False trunc _ "length pre"] header_at option.case prod.case Let_def msg_ok_len [OF assms(1)]
      seq_low [OF assms(3)]
    using assms(2) unfolding unrelated_def by auto
qed

lemma scan_skips:
  assumes "\<forall>m \<in> set ms. msg_ok m \<and> unrelated lp seq sender m" "seq \<noteq> 0"
  shows "talk_scan lp sender seq 1 False trunc (pre @ batch ms @ post) (length pre) (int (length (batch ms) + n)) =
    talk_scan lp sender seq 1 False trunc (pre @ batch ms @ post) (length (pre @ batch ms)) (int n)"
  using assms(1)
proof (induction ms arbitrary: pre)
  case (Cons m ms)
  have "talk_scan lp sender seq 1 False trunc (pre @ padded m @ batch ms @ post) (length pre) (int (length (padded m) + (length (batch ms) + n))) =
      talk_scan lp sender seq 1 False trunc (pre @ padded m @ batch ms @ post) (length pre + length (padded m)) (int (length (batch ms) + n))"
    using Cons.prems by (intro scan_skip assms(2)) simp_all
  then show ?case using Cons.IH [of "pre @ padded m"] Cons.prems by (simp add: add.assoc)
qed simp

lemma talk_skips:
  assumes "\<forall>c \<in> set noise. chunk_ok c \<and> passed_over lp seq c" "seq \<noteq> 0"
  shows "\<exists>j. talk_loop True lp seq 1 False i (map chunk_event noise @ es) = talk_loop True lp seq 1 False j es"
  using assms(1)
proof (induction noise arbitrary: i)
  case (Cons c noise)
  have tail: "\<exists>j. talk_loop True lp seq 1 False i' (map chunk_event noise @ es) = talk_loop True lp seq 1 False j es" for i'
    by (rule Cons.IH) (use Cons.prems in simp)
  show ?case
  proof (cases c)
    case (Interrupted again)
    have "talk_loop True lp seq 1 False i (map chunk_event (c # noise) @ es) = talk_loop True lp seq 1 False i (map chunk_event noise @ es)"
      unfolding Interrupted list.map append_Cons chunk_event.simps talk_loop.simps [of True lp seq 1 False i] recv_interrupted ..
    with tail show ?thesis by simp
  next
    case (Batch sender ms addr_ok trunc)
    then have c: "addr_ok" "batch ms \<noteq> []" "\<forall>m \<in> set ms. msg_ok m \<and> unrelated lp seq sender m" using Cons.prems by (auto simp: batch_empty)
    have "talk_scan lp sender seq 1 False trunc (batch ms) 0 (int (length (batch ms))) = Returns (Left 0)"
      using scan_skips [OF c(3) assms(2), of trunc "[]" "[]" 0] by (simp add: talk_scan.simps)
    then have "talk_loop True lp seq 1 False i (map chunk_event (c # noise) @ es) = talk_loop True lp seq 1 False (Suc i) (map chunk_event noise @ es)"
      unfolding Batch list.map append_Cons chunk_event.simps talk_loop.simps [of True lp seq 1 False i] recv_datagram [OF c(2)] using c(1) by simp
    with tail show ?thesis by simp
  qed
qed auto

text \<open>The acknowledgement, with the error number of the kernel and at least the header of the request.\<close>

definition acknowledges :: "u32 \<Rightarrow> u32 \<Rightarrow> u32 \<Rightarrow> nl_msg \<Rightarrow> bool" where
  "acknowledges lp seq err m \<longleftrightarrow> msg_ok m \<and> m_type m = 2 \<and> m_pid m = lp \<and> (m_seq m = seq \<or> m_seq m = seq - 1) \<and>
     take 4 (m_payload m) = bytes32 err \<and> 20 \<le> length (m_payload m)"

lemma scan_ack:
  assumes "acknowledges lp seq err m" "seq \<noteq> 0"
  shows "talk_scan lp 0 seq 1 False trunc (pre @ padded m @ post) (length pre) (int (length (padded m) + n)) = Returns (Error_code (sint err))"
proof -
  note a = assms(1) [unfolded acknowledges_def]
  have ok: "msg_ok m" using a by simp
  have p: "m_payload m = bytes32 err @ drop 4 (m_payload m)" using a by (metis append_take_drop_id)
  have "\<not> (int (length (padded m) + n) < 16)" "\<not> (int (length (padded m) + n) < int (16 + length (m_payload m)))"
    using length_padded [of m] by simp_all
  moreover have "seq - 1 \<le> seq" using assms(2) by (simp add: word_le_nat_alt unat_sub unat_gt_0 Suc_le_eq)
  ultimately show ?thesis
    unfolding talk_scan.simps [of lp 0 seq 1 False trunc _ "length pre"] header_at option.case prod.case Let_def msg_ok_len [OF ok]
      seq_low [OF assms(2)] payload32_at [OF p]
    using a by auto
qed

lemma request_numbered:
  assumes "16 \<le> length n" "hdr_flags n 0 = Some flags"
  obtains m where "number_iov False s [n] = Some (s + 1, [m])" "hdr_seq m 0 = Some (s + 1)" "hdr_flags m 0 = Some (flags OR 4)" "length m = length n"
proof -
  obtain m1 where 1: "mem_put 8 (bytes32 (s + 1)) n = Some m1" using mem_put_Some [of 8 "bytes32 (s + 1)" n] assms(1) by auto
  note l1 = length_mem_put [OF 1]
  obtain bs where bs: "mem_get n 6 2 = Some bs" "le16 bs = flags" "length bs = 2"
    using assms by (auto simp: hdr_flags_def get16_def mem_get_def split: if_splits)
  then have "bytes_at n 6 bs" by (simp add: bytes_at_def)
  then have "bytes_at m1 6 bs" by (rule bytes_at_other [OF _ 1]) (simp add: bs(3))
  then have fl: "hdr_flags m1 0 = Some flags" using bs(2,3) by (simp add: bytes_at_def hdr_flags_def get16_def)
  obtain m where 2: "mem_put 6 (bytes16 (flags OR 4)) m1 = Some m" using mem_put_Some [of 6 "bytes16 (flags OR 4)" m1] assms(1) l1 by auto
  have "hdr_seq m 0 = Some (s + 1)" using get_bytes(2) [OF bytes_at_other [OF bytes_at_put [OF 1] 2]] by (simp add: hdr_seq_def)
  moreover have "hdr_flags m 0 = Some (flags OR 4)" using get_bytes(1) [OF bytes_at_put [OF 2]] by (simp add: hdr_flags_def)
  moreover have "number_iov False s [n] = Some (s + 1, [m])" using 1 2 fl by simp
  ultimately show thesis using that length_mem_put [OF 2] l1 by simp
qed

text \<open>
  C34. \<^verbatim>\<open>rtnl_talk\<close> reports what the kernel says. Whatever complete datagrams come before the acknowledgement, with any number of messages that are from other processes, for other ports,
  with other numbers or of other types, and whatever calls are interrupted, it returns after the acknowledgement, which may itself be anywhere among such messages, having
  sent the message once with the next number and the request for an acknowledgement set; the result is negative exactly
  when the kernel reports an error. An acknowledgement of the request before is taken for the one of this request. The number of the request is not zero.
\<close>

theorem rtnl_talk_acknowledged:
  assumes "rh_inbox rth = map chunk_event noise @ Datagram (batch ms @ padded ack @ post) 0 True trunc # es"
    and "\<forall>c \<in> set noise. chunk_ok c \<and> passed_over (rh_pid rth) (rh_seq rth + 1) c"
    and "\<forall>m \<in> set ms. msg_ok m \<and> unrelated (rh_pid rth) (rh_seq rth + 1) 0 m" "acknowledges (rh_pid rth) (rh_seq rth + 1) err ack"
    and "rh_seq rth + 1 \<noteq> 0" "0 \<le> sendmsg" "16 \<le> length n" "hdr_flags n 0 = Some flags"
  shows "\<exists>r m. rtnl_talk sendmsg True False n rth =
             Returns (r, rth\<lparr>rh_seq := rh_seq rth + 1, rh_sent := rh_sent rth @ [sent_bytes m], rh_inbox := es\<rparr>, m) \<and>
           (r < 0 \<longleftrightarrow> err \<noteq> 0) \<and> hdr_seq m 0 = Some (rh_seq rth + 1) \<and> hdr_flags m 0 = Some (flags OR 4) \<and> length m = length n"
proof -
  let ?seq = "rh_seq rth + 1" and ?d = "batch ms @ padded ack @ post"
  obtain m where m: "number_iov False (rh_seq rth) [n] = Some (?seq, [m])" "hdr_seq m 0 = Some ?seq" "hdr_flags m 0 = Some (flags OR 4)"
    "length m = length n" by (rule request_numbered [OF assms(7,8)])
  obtain j where skip: "talk_loop True (rh_pid rth) ?seq 1 False 0 (rh_inbox rth) =
      talk_loop True (rh_pid rth) ?seq 1 False j (Datagram ?d 0 True trunc # es)"
    using talk_skips [OF assms(2,5)] unfolding assms(1) by blast
  have "talk_scan (rh_pid rth) 0 ?seq 1 False trunc ?d 0 (int (length ?d)) = Returns (Error_code (sint err))"
    using scan_skips [OF assms(3,5), of trunc "[]" "padded ack @ post" "length (padded ack @ post)"]
      scan_ack [OF assms(4,5), of trunc "batch ms" post "length post"] by simp
  moreover have ne: "?d \<noteq> []" by simp
  ultimately have "talk_loop True (rh_pid rth) ?seq 1 False j (Datagram ?d 0 True trunc # es) =
      Returns (if sint err \<noteq> 0 then - int (Suc j) else 0, es)"
    unfolding talk_loop.simps [of True "rh_pid rth" ?seq 1 False j] recv_datagram [OF ne] by simp
  note loop = skip [unfolded this]
  have "rtnl_talk sendmsg True False n rth =
      Returns (if sint err \<noteq> 0 then - int (Suc j) else 0,
        rth\<lparr>rh_seq := ?seq, rh_sent := rh_sent rth @ [sent_bytes m], rh_inbox := es\<rparr>, m)"
    unfolding rtnl_talk_def rtnl_talk_iov_def m(1) option.case prod.case Let_def using assms(6) loop by simp
  moreover have "sint err = 0 \<longleftrightarrow> err = 0" by (simp add: signed_eq_0_iff)
  ultimately show ?thesis using m(2-4) by auto
qed

text \<open>The witness: the kernel refuses the request with \<^verbatim>\<open>EINVAL\<close>, after an interrupted call, acknowledgements for another port and with another number, and a notification in the same datagram.\<close>

definition demo_noise :: "chunk list" where
  "demo_noise = [Interrupted False,
     Batch 0 [\<lparr>m_type = 2, m_flags = 0, m_seq = 6, m_pid = 78, m_payload = bytes32 0 @ replicate 17 0, m_pad = [1, 2, 3]\<rparr>,
       \<lparr>m_type = 2, m_flags = 0, m_seq = 3, m_pid = 77, m_payload = bytes32 0 @ replicate 16 0, m_pad = []\<rparr>] True False]"

definition demo_notice :: nl_msg where
  "demo_notice = \<lparr>m_type = 16, m_flags = 0, m_seq = 0, m_pid = 0, m_payload = [7, 7], m_pad = [0, 0]\<rparr>"

definition demo_ack :: nl_msg where
  "demo_ack = \<lparr>m_type = 2, m_flags = 0, m_seq = 6, m_pid = 77, m_payload = bytes32 (- 22) @ replicate 16 0, m_pad = []\<rparr>"

definition demo_handle :: rtnl_handle where
  "demo_handle = \<lparr>rh_pid = 77, rh_seq = 5, rh_dump = 0, rh_dump_fp = None,
     rh_inbox = map chunk_event demo_noise @ [Datagram (batch [demo_notice] @ padded demo_ack) 0 True False], rh_sent = []\<rparr>"

theorem rtnl_talk_acknowledged_witness:
  "\<exists>r rth m. rtnl_talk 36 True False (nl_message 36 1 0 0 (replicate 20 0)) demo_handle = Returns (r, rth, m) \<and> r < 0 \<and>
     rh_inbox rth = [] \<and> hdr_seq m 0 = Some 6 \<and> hdr_flags m 0 = Some 5"
proof -
  let ?n = "nl_message 36 1 0 0 (replicate 20 0)"
  have f: "rh_pid demo_handle = 77" "rh_seq demo_handle + 1 = 6" by (simp_all add: demo_handle_def)
  have a: "rh_inbox demo_handle = map chunk_event demo_noise @ Datagram (batch [demo_notice] @ padded demo_ack @ []) 0 True False # []"
    by (simp add: demo_handle_def)
  have b: "\<forall>c \<in> set demo_noise. chunk_ok c \<and> passed_over (rh_pid demo_handle) (rh_seq demo_handle + 1) c"
    unfolding f by (simp add: demo_noise_def msg_ok_def padded_def pad4_def unrelated_def)
  have c: "\<forall>m \<in> set [demo_notice]. msg_ok m \<and> unrelated (rh_pid demo_handle) (rh_seq demo_handle + 1) 0 m"
    "acknowledges (rh_pid demo_handle) (rh_seq demo_handle + 1) (- 22) demo_ack"
    unfolding f by (simp_all add: demo_notice_def demo_ack_def acknowledges_def msg_ok_def padded_def pad4_def unrelated_def)
  have d: "rh_seq demo_handle + 1 \<noteq> 0" "(0 :: int) \<le> 36" "16 \<le> length ?n" "hdr_flags ?n 0 = Some 1"
    unfolding f by (simp_all add: nl_message_fields)
  have "(1 :: u16) OR 4 = 5" "(- 22 :: u32) \<noteq> 0" "rh_inbox (demo_handle\<lparr>rh_seq := s, rh_sent := x, rh_inbox := []\<rparr>) = []" for s x by simp_all
  with rtnl_talk_acknowledged [OF a b c d] show ?thesis unfolding f by metis
qed

section \<open>Dumps\<close>

text \<open>A message of the dump that was requested last; its entries are those that neither end it nor report an error.\<close>

definition for_dump :: "rtnl_handle \<Rightarrow> u32 \<Rightarrow> nl_msg \<Rightarrow> bool" where
  "for_dump rth sender m \<longleftrightarrow> sender = 0 \<and> m_pid m = rh_pid rth \<and> m_seq m = rh_dump rth"

definition dump_part :: "rtnl_handle \<Rightarrow> u32 \<times> nl_msg \<Rightarrow> bool" where
  "dump_part rth = (\<lambda>(sender, m). for_dump rth sender m \<longrightarrow> m_type m \<noteq> 2 \<and> m_type m \<noteq> 3)"

definition dump_entries :: "rtnl_handle \<Rightarrow> (u32 \<times> nl_msg) list \<Rightarrow> u8 list list" where
  "dump_entries rth xs = map (\<lambda>(sender, m). msg_bytes m) (filter (\<lambda>(sender, m). for_dump rth sender m) xs)"

definition filtered_state :: "rtnl_handle \<Rightarrow> 's filter \<Rightarrow> (u32 \<times> nl_msg) list \<Rightarrow> 's \<Rightarrow> 's" where
  "filtered_state rth filt xs st = (if rh_dump_fp rth = None then fold (\<lambda>m st. snd (filt m st)) (dump_entries rth xs) st else st)"

lemma filtered_state_append: "filtered_state rth filt (xs @ ys) st = filtered_state rth filt ys (filtered_state rth filt xs st)"
  by (simp add: filtered_state_def dump_entries_def)

lemma scan_part:
  assumes "msg_ok m" "dump_part rth (sender, m)" "\<forall>m st. 0 \<le> fst (filt m st)" "length (padded m) + n < 2 ^ 31"
  shows "\<exists>b. dump_scan rth sender filt 0 \<lparr>ds_buf = pre @ padded m @ post, ds_state = st, ds_intr = i\<rparr> (length pre) (int (length (padded m) + n)) =
    dump_scan rth sender filt 0 \<lparr>ds_buf = pre @ padded m @ post, ds_state = filtered_state rth filt [(sender, m)] st, ds_intr = b\<rparr>
      (length pre + length (padded m)) (int n)"
proof -
  let ?buf = "pre @ padded m @ post"
  have z: "m_flags m AND NOT 0 = m_flags m" by simp
  have d: "int (length (padded m) + n) - int (length (padded m)) = int n" by simp
  obtain e st' where e: "filt (msg_bytes m) st = (e, st')" by force
  have "0 \<le> e" using assms(3) e by (metis fst_conv)
  then show ?thesis
    unfolding dump_scan.simps [of rth sender filt 0 _ "length pre"] dump_state.simps nlmsg_ok_at [OF assms(1,4)] option.case header_at prod.case z
      put_flags_at Let_def msg_ok_len [OF assms(1)] message_at d
    using assms(2) e by (auto simp: dump_part_def for_dump_def filtered_state_def dump_entries_def)
qed

lemma scan_parts:
  assumes "\<forall>m \<in> set ms. msg_ok m \<and> dump_part rth (sender, m)" "\<forall>m st. 0 \<le> fst (filt m st)" "length (batch ms) + n < 2 ^ 31"
  shows "\<exists>b. dump_scan rth sender filt 0 \<lparr>ds_buf = pre @ batch ms @ post, ds_state = st, ds_intr = i\<rparr> (length pre) (int (length (batch ms) + n)) =
    dump_scan rth sender filt 0 \<lparr>ds_buf = pre @ batch ms @ post, ds_state = filtered_state rth filt (map (Pair sender) ms) st, ds_intr = b\<rparr>
      (length (pre @ batch ms)) (int n)"
  using assms(1,3)
proof (induction ms arbitrary: pre st i)
  case Nil
  show ?case by (auto simp: filtered_state_def dump_entries_def)
next
  case (Cons m ms)
  have 1: "msg_ok m" "dump_part rth (sender, m)" "length (padded m) + (length (batch ms) + n) < 2 ^ 31" using Cons.prems by (simp_all add: add.assoc)
  have 2: "\<forall>m \<in> set ms. msg_ok m \<and> dump_part rth (sender, m)" "length (batch ms) + n < 2 ^ 31" using Cons.prems by simp_all
  let ?st = "filtered_state rth filt [(sender, m)] st"
  from scan_part [where filt = filt and st = st and pre = pre and post = "batch ms @ post" and i = i, OF 1(1,2) assms(2) 1(3)] obtain b where
    b: "dump_scan rth sender filt 0 \<lparr>ds_buf = pre @ padded m @ batch ms @ post, ds_state = st, ds_intr = i\<rparr> (length pre) (int (length (padded m) + (length (batch ms) + n))) =
      dump_scan rth sender filt 0 \<lparr>ds_buf = pre @ padded m @ batch ms @ post, ds_state = ?st, ds_intr = b\<rparr>
        (length pre + length (padded m)) (int (length (batch ms) + n))" by blast
  from Cons.IH [OF 2, of "pre @ padded m" ?st b] obtain b' where
    "dump_scan rth sender filt 0 \<lparr>ds_buf = (pre @ padded m) @ batch ms @ post, ds_state = ?st, ds_intr = b\<rparr> (length (pre @ padded m)) (int (length (batch ms) + n)) =
      dump_scan rth sender filt 0 \<lparr>ds_buf = (pre @ padded m) @ batch ms @ post, ds_state = filtered_state rth filt (map (Pair sender) ms) ?st, ds_intr = b'\<rparr>
        (length ((pre @ padded m) @ batch ms)) (int n)" by blast
  with b filtered_state_append [of rth filt "[(sender, m)]" "map (Pair sender) ms" st] show ?case by (auto simp: add.assoc)
qed

lemma dump_write_aligned:
  assumes "4 dvd length buf" "length buf < 2 ^ 31"
  shows "dump_write junk buf fp = map_option (\<lambda>f. f @ buf) fp"
proof -
  have u: "unat (of_nat (length buf) :: u32) = length buf" by (rule unat_of_nat_len) (use assms(2) in simp)
  have "unat (align4 (of_nat (length buf))) = pad4 (length buf)" using unat_align4_pad [of "of_nat (length buf)"] u assms(2) by simp
  then show ?thesis unfolding dump_write_def using assms(1) by simp
qed

text \<open>All messages of a list of events, and their bytes.\<close>

definition all_messages :: "chunk list \<Rightarrow> (u32 \<times> nl_msg) list" where
  "all_messages cs = concat (map chunk_messages cs)"

definition all_bytes :: "chunk list \<Rightarrow> u8 list" where
  "all_bytes cs = batch (map snd (all_messages cs))"

lemma dump_parts:
  assumes "\<forall>c \<in> set cs. chunk_ok c" "\<forall>x \<in> set (all_messages cs). dump_part rth x" "\<forall>m st. 0 \<le> fst (filt m st)"
  shows "\<exists>b. dump_loop True junk rth [(filt, 0)] st i (map chunk_event cs @ es) fp =
    dump_loop True junk rth [(filt, 0)] (filtered_state rth filt (all_messages cs) st) b es (map_option (\<lambda>f. f @ all_bytes cs) fp)"
  using assms(1,2)
proof (induction cs arbitrary: st i fp)
  case Nil
  show ?case by (cases fp) (auto simp: filtered_state_def dump_entries_def all_messages_def all_bytes_def)
next
  case (Cons c cs)
  have tail: "\<exists>b. dump_loop True junk rth [(filt, 0)] st' i' (map chunk_event cs @ es) fp' =
      dump_loop True junk rth [(filt, 0)] (filtered_state rth filt (all_messages cs) st') b es (map_option (\<lambda>f. f @ all_bytes cs) fp')" for st' i' fp'
    by (rule Cons.IH) (use Cons.prems in \<open>simp_all add: all_messages_def\<close>)
  show ?case
  proof (cases c)
    case (Interrupted again)
    have "dump_loop True junk rth [(filt, 0)] st i (map chunk_event (c # cs) @ es) fp = dump_loop True junk rth [(filt, 0)] st i (map chunk_event cs @ es) fp"
      unfolding Interrupted list.map append_Cons chunk_event.simps dump_loop.simps [of True junk rth "[(filt, 0)]" st i] recv_interrupted ..
    with tail show ?thesis by (simp add: Interrupted all_messages_def all_bytes_def)
  next
    case (Batch sender ms addr_ok trunc)
    have c: "\<forall>m \<in> set ms. msg_ok m \<and> dump_part rth (sender, m)" "length (batch ms) + 0 < 2 ^ 31" "batch ms \<noteq> []" "\<forall>m \<in> set ms. msg_ok m"
      using Cons.prems Batch by (auto simp: batch_empty all_messages_def)
    let ?st = "filtered_state rth filt (map (Pair sender) ms) st"
    have fin: "dump_scan rth sender filt 0 ds k 0 = Returns (Dump_left 0, ds)" for ds k
      by (subst dump_scan.simps) (simp add: nlmsg_ok_def)
    from scan_parts [where filt = filt and st = st and pre = "[]" and post = "[]" and i = i, OF c(1) assms(3) c(2)] obtain b where
      scan: "dump_scan rth sender filt 0 \<lparr>ds_buf = batch ms, ds_state = st, ds_intr = i\<rparr> 0 (int (length (batch ms))) =
        Returns (Dump_left 0, \<lparr>ds_buf = batch ms, ds_state = ?st, ds_intr = b\<rparr>)" by (auto simp: fin)
    have w: "dump_write junk (batch ms) fp = map_option (\<lambda>f. f @ batch ms) fp"
      using dump_write_aligned batch_aligned [OF c(4)] c(2) by simp
    have "dump_loop True junk rth [(filt, 0)] st i (map chunk_event (c # cs) @ es) fp =
        dump_loop True junk rth [(filt, 0)] ?st b (map chunk_event cs @ es) (map_option (\<lambda>f. f @ batch ms) fp)"
      unfolding Batch list.map append_Cons chunk_event.simps dump_loop.simps [of True junk rth "[(filt, 0)]" st i] recv_datagram [OF c(3)]
        outcome.case prod.case option.case dump_filters.simps scan w by (simp add: Let_def)
    moreover have "all_messages (c # cs) = map (Pair sender) ms @ all_messages cs" "all_bytes (c # cs) = batch ms @ all_bytes cs"
      by (simp_all add: Batch all_messages_def all_bytes_def comp_def)
    ultimately show ?thesis using tail [of ?st b "map_option (\<lambda>f. f @ batch ms) fp"] by (auto simp: filtered_state_append option.map_comp comp_def)
  qed
qed

text \<open>The message that ends a dump without an error.\<close>

definition ends_dump :: "rtnl_handle \<Rightarrow> nl_msg \<Rightarrow> bool" where
  "ends_dump rth m \<longleftrightarrow> msg_ok m \<and> for_dump rth 0 m \<and> m_type m = 3 \<and> take 4 (m_payload m) = bytes32 0"

lemma scan_done:
  assumes "ends_dump rth m" "length (padded m) + n < 2 ^ 31"
  shows "\<exists>b. dump_scan rth 0 filt 0 \<lparr>ds_buf = pre @ padded m @ post, ds_state = st, ds_intr = i\<rparr> (length pre) (int (length (padded m) + n)) =
    Returns (Dump_found, \<lparr>ds_buf = pre @ padded m @ post, ds_state = st, ds_intr = b\<rparr>)"
proof -
  note a = assms(1) [unfolded ends_dump_def]
  have ok: "msg_ok m" using a by simp
  have p: "m_payload m = bytes32 0 @ drop 4 (m_payload m)" using a by (metis append_take_drop_id)
  have "4 \<le> length (m_payload m)" by (subst p) simp
  then have "\<not> (of_nat (16 + length (m_payload m)) :: u32) < 20" unfolding word_less_nat_alt msg_ok_len(1) [OF ok] by simp
  then have d: "rtnl_dump_done (pre @ padded m @ post) (length pre) = Returns 0"
    unfolding rtnl_dump_done_def header_at option.case payload32_at [OF p] by (simp add: Let_def)
  have z: "m_flags m AND NOT 0 = m_flags m" by simp
  show ?thesis
    unfolding dump_scan.simps [of rth 0 filt 0 _ "length pre"] dump_state.simps nlmsg_ok_at [OF ok assms(2)] option.case header_at prod.case z
      put_flags_at Let_def d
    using a by (auto simp: for_dump_def)
qed

lemma dump_end:
  assumes "\<forall>m \<in> set ms. msg_ok m \<and> dump_part rth (0, m)" "ends_dump rth m" "\<forall>m \<in> set ms'. msg_ok m" "length (batch (ms @ m # ms')) < 2 ^ 31"
    and "\<forall>m st. 0 \<le> fst (filt m st)"
  shows "dump_loop True junk rth [(filt, 0)] st i (Datagram (batch (ms @ m # ms')) 0 addr_ok trunc # es) fp =
    Returns (0, filtered_state rth filt (map (Pair 0) ms) st, es, map_option (\<lambda>f. f @ batch (ms @ m # ms')) fp)"
proof -
  let ?d = "batch ms @ padded m @ batch ms'" and ?st = "filtered_state rth filt (map (Pair 0) ms) st"
  have len: "length (batch ms) + length (padded m @ batch ms') < 2 ^ 31" "length (padded m) + length (batch ms') < 2 ^ 31" using assms(4) by simp_all
  obtain b where b: "dump_scan rth 0 filt 0 \<lparr>ds_buf = ?d, ds_state = st, ds_intr = i\<rparr> 0 (int (length ?d)) =
      dump_scan rth 0 filt 0 \<lparr>ds_buf = ?d, ds_state = ?st, ds_intr = b\<rparr> (length (batch ms)) (int (length (padded m) + length (batch ms')))"
    using scan_parts [where filt = filt and st = st and pre = "[]" and post = "padded m @ batch ms'" and i = i, OF assms(1,5) len(1)] by auto
  obtain b' where "dump_scan rth 0 filt 0 \<lparr>ds_buf = ?d, ds_state = ?st, ds_intr = b\<rparr> (length (batch ms)) (int (length (padded m) + length (batch ms'))) =
      Returns (Dump_found, \<lparr>ds_buf = ?d, ds_state = ?st, ds_intr = b'\<rparr>)"
    using scan_done [where filt = filt and st = ?st and pre = "batch ms" and post = "batch ms'" and i = b, OF assms(2) len(2)] by blast
  note scan = b [unfolded this]
  have "4 dvd length (batch (ms @ m # ms'))" by (rule batch_aligned) (use assms(1-3) in \<open>auto simp: ends_dump_def\<close>)
  then have w: "dump_write junk ?d fp = map_option (\<lambda>f. f @ ?d) fp" by (intro dump_write_aligned) (use assms(4) in simp_all)
  have ne: "?d \<noteq> []" by simp
  show ?thesis
    unfolding batch_simps dump_loop.simps [of True junk rth "[(filt, 0)]" st i] recv_datagram [OF ne] outcome.case prod.case option.case
      dump_filters.simps scan w by simp
qed

text \<open>The answer to a request for a dump: datagrams, and one in which the message that ends it has messages of the dump, or others, before it, and others after it.\<close>

definition answers ::
  "rtnl_handle \<Rightarrow> chunk list \<Rightarrow> nl_msg list \<Rightarrow> nl_msg \<Rightarrow> nl_msg list \<Rightarrow> bool" where
  "answers rth cs ms m ms' \<longleftrightarrow> (\<forall>c \<in> set cs. chunk_ok c) \<and> (\<forall>x \<in> set (all_messages cs). dump_part rth x) \<and>
     (\<forall>m \<in> set ms. msg_ok m \<and> dump_part rth (0, m)) \<and> ends_dump rth m \<and> (\<forall>m \<in> set ms'. msg_ok m) \<and> length (batch (ms @ m # ms')) < 2 ^ 31"

text \<open>
  \<^verbatim>\<open>rtnl_dump_filter\<close> reads a dump to the message that ends it and then returns zero; what comes after that datagram is left in the socket.
  Without a file it hands every entry to the filter, once and in the order of arrival. With a file it calls no filter and
  appends all datagrams, the last one included, to the file.
\<close>

lemma rtnl_dump_filter_complete:
  assumes "rh_inbox rth = map chunk_event cs @ Datagram (batch (ms @ m # ms')) 0 addr_ok trunc # es" "answers rth cs ms m ms'"
    and "\<forall>m st. 0 \<le> fst (filt m st)"
  shows "rtnl_dump_filter_nc True junk filt 0 st rth =
    Returns (0, filtered_state rth filt (all_messages cs @ map (Pair 0) ms) st,
      rth\<lparr>rh_inbox := es, rh_dump_fp := map_option (\<lambda>f. f @ all_bytes cs @ batch (ms @ m # ms')) (rh_dump_fp rth)\<rparr>)"
proof -
  note a = assms(2) [unfolded answers_def]
  let ?last = "Datagram (batch (ms @ m # ms')) 0 addr_ok trunc"
  have parts: "\<exists>b. dump_loop True junk rth [(filt, 0)] st False (map chunk_event cs @ ?last # es) (rh_dump_fp rth) =
      dump_loop True junk rth [(filt, 0)] (filtered_state rth filt (all_messages cs) st) b (?last # es) (map_option (\<lambda>f. f @ all_bytes cs) (rh_dump_fp rth))"
    by (rule dump_parts) (use a assms(3) in auto)
  have "dump_loop True junk rth [(filt, 0)] st' b (?last # es) fp =
      Returns (0, filtered_state rth filt (map (Pair 0) ms) st', es, map_option (\<lambda>f. f @ batch (ms @ m # ms')) fp)" for st' b fp
    by (rule dump_end) (use a assms(3) in auto)
  with parts show ?thesis
    unfolding rtnl_dump_filter_nc_def rtnl_dump_filter_l_def assms(1) by (auto simp: filtered_state_append option.map_comp comp_def)
qed

text \<open>
  A dump of three entries, whose lengths are not all multiples of four: two in one datagram, with a message of another dump between them, and one in the datagram that ends it.
\<close>

definition demo_msg :: "u16 \<Rightarrow> u32 \<Rightarrow> u8 list \<Rightarrow> u8 list \<Rightarrow> nl_msg" where
  "demo_msg ty sq payload pad = \<lparr>m_type = ty, m_flags = 2, m_seq = sq, m_pid = 77, m_payload = payload, m_pad = pad\<rparr>"

definition demo_chunks :: "chunk list" where
  "demo_chunks = [Batch 0 [demo_msg 16 6 (replicate 5 1) [9, 9, 9], demo_msg 16 4 [8] [0, 0, 0], demo_msg 16 6 (replicate 8 2) []] True False, Interrupted False]"

definition demo_dump :: rtnl_handle where
  "demo_dump = \<lparr>rh_pid = 77, rh_seq = 6, rh_dump = 6, rh_dump_fp = None,
     rh_inbox = map chunk_event demo_chunks @ [Datagram (batch ([demo_msg 16 6 [3] [0, 0, 0]] @ demo_msg 3 6 (bytes32 0) [] # [])) 0 True False], rh_sent = []\<rparr>"

lemma demo_answers:
  assumes "rh_pid rth = 77" "rh_dump rth = 6"
  shows "answers rth demo_chunks [demo_msg 16 6 [3] [0, 0, 0]] (demo_msg 3 6 (bytes32 0) []) []"
  using assms by (simp add: answers_def demo_chunks_def demo_msg_def msg_ok_def padded_def pad4_def all_messages_def dump_part_def ends_dump_def for_dump_def)

lemma demo_entries:
  assumes "rh_pid rth = 77" "rh_dump rth = 6"
  shows "map length (dump_entries rth (all_messages demo_chunks @ map (Pair 0) [demo_msg 16 6 [3] [0, 0, 0]])) = [21, 24, 17]"
  using assms by (simp add: dump_entries_def demo_chunks_def demo_msg_def all_messages_def for_dump_def)

end
