(* ===== verification/Rtnl_Request.thy ===== *)
theory Rtnl_Request
  imports Rtnl
begin

text \<open>
  The rest of \<^verbatim>\<open>libnetlink.c\<close>: opening a handle, the requests for dumps, the check after sending, listening, and reading messages
  from a file. The results of system calls are arguments, the first argument of a request being what \<^verbatim>\<open>send\<close> returns; a negative
  result sends nothing. A request is the bytes of its structure. The bytes between the members of a structure hold
  whatever the compiler leaves there; they are the argument \<open>pad\<close>. A filter function changes the request in place.
\<close>

section \<open>Opening and closing\<close>

record rtnl_socket = rtnl_handle +
  rs_fd :: int
  rs_proto :: u32
  rs_flags :: u32
  rs_family :: u16
  rs_groups :: u32

text \<open>What the system calls return; the name is the family, the port and the groups of the address.\<close>

record open_calls =
  oc_socket :: int
  oc_sndbuf :: int
  oc_rcvbuf :: int
  oc_bind :: int
  oc_getsockname :: int
  oc_name :: "u16 \<times> u32 \<times> u32"
  oc_name_len :: nat
  oc_time :: u64

abbreviation (input) AF_NETLINK :: u16 where "AF_NETLINK \<equiv> 16"

definition rtnl_open_byproto :: "open_calls \<Rightarrow> event list \<Rightarrow> u32 \<Rightarrow> u32 \<Rightarrow> int \<times> rtnl_socket" where
  "rtnl_open_byproto c events subscriptions protocol =
     (let rth = \<lparr>rh_pid = 0, rh_seq = 0, rh_dump = 0, rh_dump_fp = None, rh_inbox = events, rh_sent = [],
                  rs_fd = oc_socket c, rs_proto = protocol, rs_flags = 0, rs_family = 0, rs_groups = 0\<rparr>
      in if oc_socket c < 0 then (-1, rth)
         else if oc_sndbuf c < 0 then (-1, rth)
         else if oc_rcvbuf c < 0 then (-1, rth)
         else let rth = rth\<lparr>rs_family := AF_NETLINK, rs_groups := subscriptions\<rparr>
         in if oc_bind c < 0 then (-1, rth)
         else if oc_getsockname c < 0 then (-1, rth)
         else let (family, pid, groups) = oc_name c;
                  rth = rth\<lparr>rs_family := family, rh_pid := pid, rs_groups := groups\<rparr>
         in if oc_name_len c \<noteq> 12 then (-1, rth)
         else if family \<noteq> AF_NETLINK then (-1, rth)
         else (0, rth\<lparr>rh_seq := ucast (oc_time c)\<rparr>))"

definition rtnl_open :: "open_calls \<Rightarrow> event list \<Rightarrow> u32 \<Rightarrow> int \<times> rtnl_socket" where
  "rtnl_open c events subscriptions = rtnl_open_byproto c events subscriptions 0"

definition rtnl_close :: "rtnl_socket \<Rightarrow> rtnl_socket" where
  "rtnl_close rth = (if 0 \<le> rs_fd rth then rth\<lparr>rs_fd := -1\<rparr> else rth)"

definition rtnl_set_strict_dump :: "int \<Rightarrow> rtnl_socket \<Rightarrow> rtnl_socket" where
  "rtnl_set_strict_dump setsockopt rth = (if setsockopt < 0 then rth else rth\<lparr>rs_flags := rs_flags rth OR 4\<rparr>)"

definition rtnl_listen_all_nsid :: "int \<Rightarrow> rtnl_socket \<Rightarrow> int \<times> rtnl_socket" where
  "rtnl_listen_all_nsid setsockopt rth =
     (if setsockopt < 0 then (-1, rth) else (0, rth\<lparr>rs_flags := rs_flags rth OR 1\<rparr>))"

section \<open>Requests\<close>

definition rtnl_send :: "int \<Rightarrow> u8 list \<Rightarrow> rtnl_handle \<Rightarrow> int \<times> rtnl_handle" where
  "rtnl_send send buf rth = (send, if send < 0 then rth else rth\<lparr>rh_sent := rh_sent rth @ [buf]\<rparr>)"

definition nlmsghdr_bytes :: "u32 \<Rightarrow> u16 \<Rightarrow> u16 \<Rightarrow> u32 \<Rightarrow> u32 \<Rightarrow> u8 list" where
  "nlmsghdr_bytes len ty fl sq pid = bytes32 len @ bytes16 ty @ bytes16 fl @ bytes32 sq @ bytes32 pid"

text \<open>The initialiser of every request numbers it: \<^verbatim>\<open>rth->dump = ++rth->seq\<close>. The flags are \<^verbatim>\<open>NLM_F_DUMP\<close> and \<^verbatim>\<open>NLM_F_REQUEST\<close>.\<close>

definition next_dump :: "rtnl_handle \<Rightarrow> rtnl_handle" where
  "next_dump rth = rth\<lparr>rh_seq := rh_seq rth + 1, rh_dump := rh_seq rth + 1\<rparr>"

definition dump_hdr :: "u32 \<Rightarrow> u16 \<Rightarrow> rtnl_handle \<Rightarrow> u8 list" where
  "dump_hdr len ty rth = nlmsghdr_bytes len ty 0x301 (rh_dump rth) 0"

text \<open>A structure of \<open>n\<close> bytes of which only the family, its first byte, is set.\<close>

definition family_first :: "nat \<Rightarrow> u32 \<Rightarrow> u8 list" where
  "family_first n family = ucast family # replicate (n - 1) 0"

type_synonym req_filter_fn = "u8 list \<Rightarrow> int \<Rightarrow> int \<times> u8 list"

definition filtered :: "int \<Rightarrow> req_filter_fn option \<Rightarrow> u8 list \<Rightarrow> rtnl_handle \<Rightarrow> int \<times> rtnl_handle" where
  "filtered send filter_fn req rth =
     (case filter_fn of
        None \<Rightarrow> rtnl_send send req rth
      | Some f \<Rightarrow> let (err, req) = f req (int (length req)) in if err \<noteq> 0 then (err, rth) else rtnl_send send req rth)"

definition rtnl_addrdump_req :: "int \<Rightarrow> u32 \<Rightarrow> req_filter_fn option \<Rightarrow> rtnl_handle \<Rightarrow> int \<times> rtnl_handle" where
  "rtnl_addrdump_req send family filter_fn rth =
     (let rth = next_dump rth
      in filtered send filter_fn (dump_hdr (16 + 8) 22 rth @ family_first 8 family @ replicate 128 0) rth)"

definition rtnl_addrlbldump_req :: "int \<Rightarrow> u32 \<Rightarrow> rtnl_handle \<Rightarrow> int \<times> rtnl_handle" where
  "rtnl_addrlbldump_req send family rth =
     (let rth = next_dump rth in rtnl_send send (dump_hdr (16 + 12) 74 rth @ family_first 12 family) rth)"

definition rtnl_routedump_req :: "int \<Rightarrow> u32 \<Rightarrow> req_filter_fn option \<Rightarrow> rtnl_handle \<Rightarrow> int \<times> rtnl_handle" where
  "rtnl_routedump_req send family filter_fn rth =
     (let rth = next_dump rth
      in filtered send filter_fn (dump_hdr (16 + 12) 26 rth @ family_first 12 family @ replicate 128 0) rth)"

definition rtnl_ruledump_req :: "int \<Rightarrow> u32 \<Rightarrow> rtnl_handle \<Rightarrow> int \<times> rtnl_handle" where
  "rtnl_ruledump_req send family rth =
     (let rth = next_dump rth in rtnl_send send (dump_hdr (16 + 12) 34 rth @ family_first 12 family) rth)"

definition rtnl_neighdump_req :: "int \<Rightarrow> u32 \<Rightarrow> req_filter_fn option \<Rightarrow> rtnl_handle \<Rightarrow> int \<times> rtnl_handle" where
  "rtnl_neighdump_req send family filter_fn rth =
     (let rth = next_dump rth
      in filtered send filter_fn (dump_hdr (16 + 12) 30 rth @ family_first 12 family @ replicate 256 0) rth)"

definition rtnl_neightbldump_req :: "int \<Rightarrow> u32 \<Rightarrow> rtnl_handle \<Rightarrow> int \<times> rtnl_handle" where
  "rtnl_neightbldump_req send family rth =
     (let rth = next_dump rth in rtnl_send send (dump_hdr (16 + 4) 66 rth @ family_first 4 family) rth)"

definition rtnl_mdbdump_req :: "u8 list \<Rightarrow> int \<Rightarrow> u32 \<Rightarrow> rtnl_handle \<Rightarrow> int \<times> rtnl_handle" where
  "rtnl_mdbdump_req pad send family rth =
     (let rth = next_dump rth in rtnl_send send (dump_hdr (16 + 8) 86 rth @ [ucast family] @ pad @ replicate 4 0) rth)"

definition rtnl_netconfdump_req :: "u8 list \<Rightarrow> int \<Rightarrow> u32 \<Rightarrow> rtnl_handle \<Rightarrow> int \<times> rtnl_handle" where
  "rtnl_netconfdump_req pad send family rth =
     (let rth = next_dump rth in rtnl_send send (dump_hdr (16 + align4 1) 82 rth @ [ucast family] @ pad) rth)"

definition rtnl_nsiddump_req :: "u8 list \<Rightarrow> int \<Rightarrow> u32 \<Rightarrow> rtnl_handle \<Rightarrow> int \<times> rtnl_handle" where
  "rtnl_nsiddump_req pad send family rth =
     (let rth = next_dump rth in rtnl_send send (dump_hdr (16 + align4 1) 90 rth @ [ucast family] @ pad) rth)"

text \<open>Links: the request with the extended filter mask carries one attribute, \<^verbatim>\<open>IFLA_EXT_MASK\<close>.\<close>

definition linkdump_req :: "int \<Rightarrow> u32 \<Rightarrow> rtnl_handle \<Rightarrow> int \<times> rtnl_handle" where
  "linkdump_req send family rth =
     (let rth = next_dump rth in rtnl_send send (dump_hdr (16 + 16) 18 rth @ family_first 16 family) rth)"

definition rtnl_linkdump_req_filter :: "int \<Rightarrow> u32 \<Rightarrow> u32 \<Rightarrow> rtnl_handle \<Rightarrow> int \<times> rtnl_handle" where
  "rtnl_linkdump_req_filter send family filt_mask rth =
     (if family = 0 \<or> family = 7 then
        (let rth = next_dump rth
         in rtnl_send send (dump_hdr 40 18 rth @ family_first 16 family @ bytes16 (ucast (rta_length 4)) @ bytes16 29 @ bytes32 filt_mask) rth)
      else linkdump_req send family rth)"

definition rtnl_linkdump_req :: "int \<Rightarrow> u32 \<Rightarrow> rtnl_handle \<Rightarrow> int \<times> rtnl_handle" where
  "rtnl_linkdump_req send family rth =
     (if family = 0 then rtnl_linkdump_req_filter send family 1 rth else linkdump_req send family rth)"

text \<open>The filter decides how much of the block is sent; \<open>None\<close> is a read beyond it, or a call through a NULL pointer.\<close>

definition rtnl_linkdump_req_filter_fn :: "int \<Rightarrow> u32 \<Rightarrow> req_filter_fn option \<Rightarrow> rtnl_handle \<Rightarrow> (int \<times> rtnl_handle) option" where
  "rtnl_linkdump_req_filter_fn send family filter_fn rth =
     (if family = 0 \<or> family = 17 then
        (let rth = next_dump rth; req = dump_hdr (16 + 16) 18 rth @ family_first 16 family @ replicate 1024 0
         in case filter_fn of
              None \<Rightarrow> Some (- 22, rth)
            | Some f \<Rightarrow>
                let (err, req) = f req (int (length req))
                in if err \<noteq> 0 then Some (err, rth)
                   else do {
                     nlmsg_len \<leftarrow> get32 req 0;
                     buf \<leftarrow> mem_get req 0 (unat nlmsg_len);
                     Some (rtnl_send send buf rth) })
      else Some (linkdump_req send family rth))"

definition rtnl_fdb_linkdump_req_filter_fn :: "int \<Rightarrow> req_filter_fn option \<Rightarrow> rtnl_handle \<Rightarrow> (int \<times> rtnl_handle) option" where
  "rtnl_fdb_linkdump_req_filter_fn send filter_fn rth =
     (let rth = next_dump rth; req = dump_hdr (16 + 16) 30 rth @ family_first 16 7 @ replicate 128 0
      in case filter_fn of None \<Rightarrow> None | Some f \<Rightarrow> Some (filtered send (Some f) req rth))"

definition rtnl_statsdump_req_filter :: "int \<Rightarrow> u32 \<Rightarrow> u32 \<Rightarrow> rtnl_handle \<Rightarrow> int \<times> rtnl_handle" where
  "rtnl_statsdump_req_filter send fam filt_mask rth =
     (let rth = next_dump rth
      in rtnl_send send (dump_hdr (16 + 12) 94 rth @ family_first 8 fam @ bytes32 filt_mask) rth)"

text \<open>A request with a header made here, and one whose header the caller has started.\<close>

definition rtnl_dump_request :: "int \<Rightarrow> u16 \<Rightarrow> u8 list \<Rightarrow> rtnl_handle \<Rightarrow> int \<times> rtnl_handle" where
  "rtnl_dump_request sendmsg type req rth =
     (let rth = next_dump rth in rtnl_send sendmsg (dump_hdr (of_nat (length req) + 16) type rth @ req) rth)"

definition rtnl_dump_request_n :: "int \<Rightarrow> u8 list \<Rightarrow> rtnl_handle \<Rightarrow> (int \<times> rtnl_handle \<times> u8 list) option" where
  "rtnl_dump_request_n sendmsg n rth = do {
     nlmsg_len \<leftarrow> get32 n 0;
     n \<leftarrow> mem_put 6 (bytes16 0x301) n;
     n \<leftarrow> mem_put 12 (bytes32 0) n;
     let rth = next_dump rth;
     n \<leftarrow> mem_put 8 (bytes32 (rh_dump rth)) n;
     buf \<leftarrow> mem_get n 0 (unat nlmsg_len);
     let (r, rth) = rtnl_send sendmsg buf rth;
     Some (r, rth, n) }"

section \<open>The check after sending\<close>

text \<open>
  The messages that are already there are looked at, up to 1024 bytes of one datagram, and not taken. The result is the value returned
  and the error number, if one is stored.
\<close>

function check_scan :: "u8 list \<Rightarrow> nat \<Rightarrow> int \<Rightarrow> (int \<times> int option) option" where
  "check_scan resp h status =
     (case nlmsg_ok resp h status of
        None \<Rightarrow> None
      | Some None \<Rightarrow> Some (0, None)
      | Some (Some n) \<Rightarrow>
          (case hdr_type resp h of
             None \<Rightarrow> None
           | Some ty \<Rightarrow>
               if ty = NLMSG_ERROR then
                 if n < 36 then Some (-1, None)
                 else map_option (\<lambda>err. (-1, Some (- sint err))) (get32 resp (h + 16))
               else let k = unat (align4 n) in check_scan resp (h + k) (status - int k)))"
  by pat_completeness auto
termination
  by (relation "measure (\<lambda>(resp, h, status). nat status)") (auto dest!: nlmsg_ok_pos)

declare check_scan.simps [simp del]

definition rtnl_send_check :: "int \<Rightarrow> u8 list \<Rightarrow> rtnl_handle \<Rightarrow> (int \<times> int option \<times> rtnl_handle) option" where
  "rtnl_send_check send buf rth =
     (let (status, rth) = rtnl_send send buf rth
      in if status < 0 then Some (status, None, rth)
         else case rh_inbox rth of
                [] \<Rightarrow> Some (0, None, rth)
              | Failure e # es \<Rightarrow> Some (if e = 11 then 0 else -1, None, rth\<lparr>rh_inbox := es\<rparr>)
              | Datagram d pid addr_ok trunc # es \<Rightarrow>
                  let resp = take 1024 d
                  in map_option (\<lambda>(r, errno). (r, errno, rth)) (check_scan resp 0 (int (length resp))))"

section \<open>Listening\<close>

text \<open>
  A datagram may come with control messages, which name the namespace it comes from. What the kernel stores of them depends on the room for them:
  the parameter \<open>recv_control\<close> gives the messages stored in a buffer of a given length, and the length used, which \<^verbatim>\<open>recvmsg\<close> writes
  over \<^verbatim>\<open>msg_controllen\<close>. The loop sets that field once, before it starts. Without the flag for all namespaces the
  handler gets a structure that is not initialised, here \<open>None\<close>, as is the NULL pointer it gets for a message from a file.
\<close>

record cmsg =
  cm_level :: u32
  cm_type :: u32
  cm_len :: u64
  cm_data :: u32

type_synonym recv_control = "nat \<Rightarrow> cmsg list \<Rightarrow> cmsg list \<times> nat"

type_synonym 's listen_filter = "u32 option \<Rightarrow> u8 list \<Rightarrow> 's \<Rightarrow> int \<times> 's"

definition ctrl_nsid :: "cmsg list \<Rightarrow> u32" where
  "ctrl_nsid cmsgs =
     fold (\<lambda>c nsid. if cm_level c = 270 \<and> cm_type c = 8 \<and> cm_len c = 20 then cm_data c else nsid) cmsgs (- 1)"

text \<open>The scan of one datagram: the value to return, or the length that is left.\<close>

function listen_scan :: "'s listen_filter \<Rightarrow> u32 option \<Rightarrow> bool \<Rightarrow> u8 list \<Rightarrow> 's \<Rightarrow> nat \<Rightarrow> int \<Rightarrow> ((int + int) \<times> 's) outcome" where
  "listen_scan handler ctrl trunc buf st h status =
     (if 0 \<le> status \<and> status < 16 then Returns (Inr status, st)
      else case hdr_len buf h of
        None \<Rightarrow> Undefined
      | Some nlmsg_len \<Rightarrow>
          let len = sint nlmsg_len; l = sint (nlmsg_len - 16); n = unat (align4 nlmsg_len)
          in if l < 0 \<or> status < len then
               if trunc then Returns (Inl (-1), st) else Exits 1
             else let (err, st) = handler ctrl (take (unat nlmsg_len) (drop h buf)) st
             in if err < 0 then Returns (Inl err, st)
                else listen_scan handler ctrl trunc buf st (h + n) (status - int n))"
  by pat_completeness auto
termination
  by (relation "measure (\<lambda>(handler, ctrl, trunc, buf, st, h, status). length buf - h)") (auto dest: scan_advances [OF sym])

declare listen_scan.simps [simp del]

fun listen_loop ::
  "recv_control \<Rightarrow> 's listen_filter \<Rightarrow> bool \<Rightarrow> nat \<Rightarrow> 's \<Rightarrow> (event \<times> cmsg list) list \<Rightarrow> (int \<times> 's \<times> (event \<times> cmsg list) list) outcome" where
  "listen_loop recv_control handler all_nsid controllen st [] = Blocks"
| "listen_loop recv_control handler all_nsid controllen st ((Failure e, cmsgs) # es) =
     (if e = 4 \<or> e = 11 \<or> e = 105 then listen_loop recv_control handler all_nsid controllen st es else Returns (-1, st, es))"
| "listen_loop recv_control handler all_nsid controllen st ((Datagram d sender addr_ok trunc, cmsgs) # es) =
     (let (stored, controllen) = (if all_nsid then recv_control controllen cmsgs else ([], controllen))
      in if d = [] then Returns (-1, st, es)
         else if \<not> addr_ok then Exits 1
         else let ctrl = (if all_nsid then Some (ctrl_nsid stored) else None);
                  buf = take 16384 d;
                  trunc = (trunc \<or> 16384 < length d)
         in case listen_scan handler ctrl trunc buf st 0 (int (length buf)) of
              Blocks \<Rightarrow> Blocks | Exits c \<Rightarrow> Exits c | Undefined \<Rightarrow> Undefined
            | Returns (Inl r, st) \<Rightarrow> Returns (r, st, es)
            | Returns (Inr left, st) \<Rightarrow>
                if \<not> trunc \<and> left \<noteq> 0 then Exits 1
                else listen_loop recv_control handler all_nsid controllen st es)"

definition rtnl_listen ::
  "recv_control \<Rightarrow> 's listen_filter \<Rightarrow> rtnl_socket \<Rightarrow> 's \<Rightarrow> (event \<times> cmsg list) list \<Rightarrow> (int \<times> 's \<times> (event \<times> cmsg list) list) outcome" where
  "rtnl_listen recv_control handler rth st inbox = listen_loop recv_control handler (rs_flags rth AND 1 \<noteq> 0) 8192 st inbox"

section \<open>Reading from a file\<close>

text \<open>The buffer keeps what was read before, which shows when the file ends within a header.\<close>

function from_file_loop :: "'s listen_filter \<Rightarrow> u8 list \<Rightarrow> 's \<Rightarrow> u8 list \<Rightarrow> (int \<times> 's) outcome" where
  "from_file_loop handler buf st file =
     (let hdr = take 16 file; file' = drop 16 file
      in if hdr = [] then Returns (0, st)
         else case mem_put 0 hdr buf of
           None \<Rightarrow> Undefined
         | Some buf \<Rightarrow>
             (case hdr_len buf 0 of
                None \<Rightarrow> Undefined
              | Some nlmsg_len \<Rightarrow>
                  let l = sint (nlmsg_len - 16)
                  in if l < 0 \<or> (16384 :: u64) < scast nlmsg_len then Returns (-1, st)
                     else let n = unat (align4 (nlmsg_len - 16)); data = take n file'
                     in case mem_put 16 data buf of
                          None \<Rightarrow> Undefined
                        | Some buf \<Rightarrow>
                            if int (length data) < l then Returns (-1, st)
                            else let (err, st) = handler None (take (unat nlmsg_len) buf) st
                            in if err < 0 then Returns (err, st) else from_file_loop handler buf st (drop n file')))"
  by pat_completeness auto
termination
  by (relation "measure (\<lambda>(handler, buf, st, file). length file)") (auto simp: neq_Nil_conv)

declare from_file_loop.simps [simp del]

definition rtnl_from_file :: "u8 list \<Rightarrow> 's listen_filter \<Rightarrow> 's \<Rightarrow> u8 list \<Rightarrow> (int \<times> 's) outcome" where
  "rtnl_from_file buf handler st file = from_file_loop handler buf st file"

end
