(* ===== verification/Rtnl_Request_Properties.thy ===== *)
theory Rtnl_Request_Properties
  imports Rtnl_Properties Rtnl_Request
begin

text \<open>
  The properties of requests, listening and files: a dump that is requested is read to its end, a dump that is saved is replayed, and a
  listener to all namespaces loses their numbers.
\<close>

section \<open>Requests and their answers\<close>

text \<open>The requests that need no filter function, with the type of message they ask for.\<close>

definition dump_requests :: "u8 list \<Rightarrow> int \<Rightarrow> u32 \<Rightarrow> u32 \<Rightarrow> (u16 \<times> (rtnl_handle \<Rightarrow> int \<times> rtnl_handle)) list" where
  "dump_requests pad send family fmask =
     [(22, rtnl_addrdump_req send family None), (74, rtnl_addrlbldump_req send family), (26, rtnl_routedump_req send family None),
      (34, rtnl_ruledump_req send family), (30, rtnl_neighdump_req send family None), (66, rtnl_neightbldump_req send family),
      (86, rtnl_mdbdump_req pad send family), (82, rtnl_netconfdump_req pad send family), (90, rtnl_nsiddump_req pad send family),
      (18, rtnl_linkdump_req send family), (18, rtnl_linkdump_req_filter send family fmask), (94, rtnl_statsdump_req_filter send family fmask)]"

lemma request_form:
  assumes "(ty, req) \<in> set (dump_requests pad send family fmask)" "length pad = 3"
  obtains n rest where "req rth = rtnl_send send (dump_hdr n ty (next_dump rth) @ ucast family # rest) (next_dump rth)"
    "17 \<le> unat n" "unat n \<le> 17 + length rest"
proof -
  have ex: "\<exists>n' rest'. rtnl_send send (dump_hdr n t r @ c # rest) r = rtnl_send send (dump_hdr n' t r @ c # rest') r \<and>
      17 \<le> unat n' \<and> unat n' \<le> 17 + length rest'"
    if "17 \<le> unat n" "unat n \<le> 17 + length rest" for n t r c rest using that by blast
  have "align4 1 = 4" by (simp add: align4_def)
  then have "\<exists>n rest. req rth = rtnl_send send (dump_hdr n ty (next_dump rth) @ ucast family # rest) (next_dump rth) \<and>
      17 \<le> unat n \<and> unat n \<le> 17 + length rest"
    using assms unfolding dump_requests_def
    by (auto simp: rtnl_addrdump_req_def rtnl_addrlbldump_req_def rtnl_routedump_req_def rtnl_ruledump_req_def rtnl_neighdump_req_def
        rtnl_neightbldump_req_def rtnl_mdbdump_req_def rtnl_netconfdump_req_def rtnl_nsiddump_req_def rtnl_linkdump_req_def
        rtnl_linkdump_req_filter_def linkdump_req_def rtnl_statsdump_req_filter_def filtered_def family_first_def Let_def
        intro!: ex)
  then show thesis using that by blast
qed

lemma dump_hdr_fields:
  "hdr_len (dump_hdr n ty rth @ p) 0 = Some n" "hdr_type (dump_hdr n ty rth @ p) 0 = Some ty"
  "hdr_flags (dump_hdr n ty rth @ p) 0 = Some 0x301" "hdr_seq (dump_hdr n ty rth @ p) 0 = Some (rh_dump rth)"
  "length (dump_hdr n ty rth @ p) = 16 + length p" "(dump_hdr n ty rth @ p) ! 16 = p ! 0"
  by (simp_all add: dump_hdr_def nlmsghdr_bytes_def hdr_len_def hdr_type_def hdr_flags_def hdr_seq_def get16_def get32_def mem_get_def nth_append
      numeral_eq_Suc)

text \<open>
  C35. A dump that is requested is read to its end. Each of the requests sends one message, of its type, for the family, asking for a dump, whose length
  field does not exceed what is sent, and numbers it one higher than before. When the kernel answers with that number, in any number of datagrams of any number of messages, also with
  messages from or for others in between, \<^verbatim>\<open>rtnl_dump_filter\<close> on the handle returns zero after it has handed every entry of the answer to the filter, in order, and no other message. Assumed: every message is
  complete and padded to four bytes, the last one of a datagram included, the answer reports no error, and the filter accepts all entries.
\<close>

theorem dump_request_answered:
  assumes "(ty, req) \<in> set (dump_requests pad send family fmask)" "length pad = 3" "0 \<le> send" "rh_dump_fp rth = None"
    and "rh_inbox rth = map chunk_event cs @ Datagram (batch (ms @ m # ms')) 0 addr_ok trunc # es" "answers (next_dump rth) cs ms m ms'"
    and "\<forall>m st. 0 \<le> fst (filt m st)"
  shows "\<exists>rth' q n. req rth = (send, rth') \<and> rh_sent rth' = rh_sent rth @ [q] \<and> hdr_type q 0 = Some ty \<and> hdr_flags q 0 = Some 0x301 \<and>
      hdr_seq q 0 = Some (rh_seq rth + 1) \<and> hdr_len q 0 = Some n \<and> unat n \<le> length q \<and> q ! 16 = ucast family \<and>
      rtnl_dump_filter_nc True junk filt 0 st rth' =
        Returns (0, fold (\<lambda>m st. snd (filt m st)) (dump_entries (next_dump rth) (all_messages cs @ map (Pair 0) ms)) st, rth'\<lparr>rh_inbox := es\<rparr>)"
proof -
  obtain n p where form: "req rth = rtnl_send send (dump_hdr n ty (next_dump rth) @ ucast family # p) (next_dump rth)"
    "17 \<le> unat n" "unat n \<le> 17 + length p" by (rule request_form [OF assms(1,2)])
  let ?q = "dump_hdr n ty (next_dump rth) @ ucast family # p"
  let ?r = "(next_dump rth)\<lparr>rh_sent := rh_sent (next_dump rth) @ [?q]\<rparr>"
  have fields: "rh_dump_fp ?r = None" "rh_inbox ?r = rh_inbox rth" using assms(4) by (simp_all add: next_dump_def)
  have same: "for_dump ?r = for_dump (next_dump rth)" by (simp add: fun_eq_iff for_dump_def)
  have ans: "answers ?r cs ms m ms'" using assms(6) by (simp add: answers_def dump_part_def ends_dump_def same)
  have ent: "dump_entries ?r = dump_entries (next_dump rth)" by (simp add: fun_eq_iff dump_entries_def same)
  from rtnl_dump_filter_complete [where filt = filt, OF assms(5) [folded fields(2)] ans assms(7), of junk st]
  have "rtnl_dump_filter_nc True junk filt 0 st ?r =
      Returns (0, fold (\<lambda>m st. snd (filt m st)) (dump_entries (next_dump rth) (all_messages cs @ map (Pair 0) ms)) st, ?r\<lparr>rh_inbox := es\<rparr>)"
    unfolding filtered_state_def ent fields using fields(1) by simp
  moreover have "req rth = (send, ?r)" unfolding form(1) rtnl_send_def using assms(3) by simp
  moreover have "rh_sent ?r = rh_sent rth @ [?q]" by (simp add: next_dump_def)
  moreover have "rh_dump (next_dump rth) = rh_seq rth + 1" by (simp add: next_dump_def)
  then have "hdr_type ?q 0 = Some ty \<and> hdr_flags ?q 0 = Some 0x301 \<and> hdr_seq ?q 0 = Some (rh_seq rth + 1) \<and> hdr_len ?q 0 = Some n \<and>
      unat n \<le> length ?q \<and> ?q ! 16 = ucast family" unfolding dump_hdr_fields using form(3) by simp
  ultimately show ?thesis by blast
qed

lemma fold_lengths: "fold (\<lambda>m ls. snd (0 :: int, ls @ [length m])) ms ls = ls @ map length ms"
  by (induction ms arbitrary: ls) simp_all

theorem dump_request_answered_witness:
  "\<exists>rth q. rtnl_linkdump_req 40 0 (demo_dump\<lparr>rh_seq := 5\<rparr>) = (40, rth) \<and> rh_sent rth = [q] \<and> hdr_type q 0 = Some 18 \<and>
     rtnl_dump_filter_nc True [] (\<lambda>m ls. (0, ls @ [length m])) 0 [] rth = Returns (0, [21, 24, 17], rth\<lparr>rh_inbox := []\<rparr>)"
proof -
  let ?f = "\<lambda>m ls. (0 :: int, ls @ [length m])" and ?r = "demo_dump\<lparr>rh_seq := 5\<rparr>"
  have a: "(18, rtnl_linkdump_req 40 0) \<in> set (dump_requests [0, 0, 0] 40 0 0)" "length [0, 0, 0 :: u8] = 3" "(0 :: int) \<le> 40"
    "rh_dump_fp ?r = None" by (simp_all add: dump_requests_def demo_dump_def)
  have b: "rh_inbox ?r = map chunk_event demo_chunks @ Datagram (batch ([demo_msg 16 6 [3] [0, 0, 0]] @ demo_msg 3 6 (bytes32 0) [] # [])) 0 True False # []"
    by (simp add: demo_dump_def)
  have n: "rh_pid (next_dump ?r) = 77" "rh_dump (next_dump ?r) = 6" by (simp_all add: demo_dump_def next_dump_def)
  have c: "\<forall>m st. 0 \<le> fst (?f m st)" "rh_sent ?r = []" by (simp_all add: demo_dump_def)
  from dump_request_answered [where filt = ?f and st = "[]" and junk = "[]", OF a b demo_answers [OF n] c(1), unfolded c(2) fold_lengths demo_entries [OF n]]
  show ?thesis by auto
qed

section \<open>Files\<close>

lemma mem_put_prefix: "length bs \<le> length mem \<Longrightarrow> mem_put 0 bs mem = Some (bs @ drop (length bs) mem)"
  by (simp add: mem_put_def)

text \<open>Messages that a buffer of 16384 bytes can hold.\<close>

definition fits_buffer :: "nl_msg \<Rightarrow> bool" where
  "fits_buffer m \<longleftrightarrow> msg_ok m \<and> length (msg_bytes m) \<le> 16384"

lemma fits_padded: "fits_buffer m \<Longrightarrow> length (padded m) \<le> 16384"
  unfolding fits_buffer_def msg_ok_def pad4_def by (elim conjE, simp only:) simp

lemma from_file_message:
  assumes "length buf = 16384" "fits_buffer m" "handler None (msg_bytes m) st = (e, st')" "0 \<le> e"
  shows "\<exists>buf'. length buf' = 16384 \<and>
    from_file_loop handler buf st (padded m @ rest) = from_file_loop handler buf' st' rest"
proof -
  let ?n = "of_nat (16 + length (m_payload m)) :: u32" and ?p = "m_payload m @ m_pad m"
  let ?h = "bytes32 ?n @ bytes16 (m_type m) @ bytes16 (m_flags m) @ bytes32 (m_seq m) @ bytes32 (m_pid m)"
  have m: "padded m = ?h @ ?p" "msg_bytes m = ?h @ m_payload m" by (simp_all add: padded_def msg_bytes_def nl_message_def)
  have h: "length ?h = 16" by simp
  have ok: "msg_ok m" and small: "length (m_payload m) \<le> 16368" using assms(2) by (simp_all add: fits_buffer_def)
  have "pad4 (16 + n) = 16 + pad4 n" for n unfolding pad4_def by presburger
  then have pad: "length ?p = pad4 (length (m_payload m))" using ok by (simp add: msg_ok_def padded_def)
  have room: "16 + length ?p \<le> 16384" using fits_padded [OF assms(2)] by (simp add: padded_def)
  let ?b = "?h @ drop 16 buf" and ?c = "?h @ ?p @ drop (16 + length ?p) buf"
  note l = msg_ok_len [OF ok]
  have split: "take 16 (padded m @ rest) = ?h" "drop 16 (padded m @ rest) = ?p @ rest" unfolding m append.assoc using h by simp_all
  have put1: "mem_put 0 ?h buf = Some ?b" using mem_put_prefix [of ?h buf] h assms(1) by simp
  have len: "hdr_len ?b 0 = Some ?n" by (simp add: hdr_len_def get32_def mem_get_def numeral_eq_Suc)
  have d: "?n - 16 = of_nat (length (m_payload m))" by simp
  have v: "unat (of_nat (length (m_payload m)) :: u32) = length (m_payload m)" by (rule unat_of_nat_len) (use small in simp)
  have al: "unat (align4 (?n - 16)) = length ?p" unfolding d pad using unat_align4_pad [of "of_nat (length (m_payload m))"] v small by simp
  have tk: "take (length ?p) (?p @ rest) = ?p" "drop (length ?p) (?p @ rest) = rest" by simp_all
  have put2: "mem_put 16 ?p ?b = Some ?c" unfolding mem_put_def using h assms(1) room by (simp add: add.commute)
  have fits: "\<not> (16384 :: u64) < scast ?n"
  proof -
    have "(scast ?n :: u64) = of_int (sint ?n)" by (rule of_int_sint [symmetric])
    then have s: "(scast ?n :: u64) = of_nat (16 + length (m_payload m))" unfolding l(2) by simp
    have "unat (of_nat (16 + length (m_payload m)) :: u64) = 16 + length (m_payload m)" by (rule unat_of_nat_len) (use small in simp)
    then show ?thesis unfolding s word_less_nat_alt using small by simp
  qed
  have msg: "take (unat ?n) ?c = msg_bytes m" unfolding m(2) l(1) using h by simp
  have ne: "?h \<noteq> []" by (metis h length_0_conv zero_neq_numeral)
  have "\<not> int (length ?p) < int (length (m_payload m))" by simp
  moreover have "length ?c = 16384" using h assms(1) room by simp
  ultimately show ?thesis
    by (intro exI [of _ ?c] conjI)
      (simp, subst from_file_loop.simps,
       use assms(3,4) ne put1 put2 len al l(4) fits msg tk in \<open>simp only: split Let_def if_False option.case\<close>, simp)
qed

lemma from_file_messages:
  assumes "\<forall>m \<in> set ms. fits_buffer m" "\<forall>m st. 0 \<le> fst (handler None m st)" "length buf = 16384"
  shows "from_file_loop handler buf st (batch ms) = Returns (0, fold (\<lambda>m st. snd (handler None (msg_bytes m) st)) ms st)"
  using assms(1,3)
proof (induction ms arbitrary: buf st)
  case Nil
  show ?case by (subst from_file_loop.simps) (simp add: Let_def)
next
  case (Cons m ms)
  obtain e st' where e: "handler None (msg_bytes m) st = (e, st')" by force
  have "0 \<le> e" using assms(2) e by (metis fst_conv)
  moreover have "fits_buffer m" using Cons.prems(1) by simp
  ultimately obtain buf' where
    "length buf' = 16384" "from_file_loop handler buf st (padded m @ batch ms) = from_file_loop handler buf' st' (batch ms)"
    using from_file_message [where handler = handler and rest = "batch ms", OF Cons.prems(2) _ e] by blast
  then show ?case using Cons.IH [of buf' st'] Cons.prems(1) e by simp
qed

text \<open>
  C36. A dump that is saved is replayed: \<^verbatim>\<open>rtnl_dump_filter\<close> on a handle with an empty file returns zero and leaves the filter alone, and
  \<^verbatim>\<open>rtnl_from_file\<close> on what it has written hands every message that was received to the handler, without its padding, in order, and returns zero,
  whatever its buffer held before. These are the messages of all datagrams up to the one that ends the dump: also those that are not for the dump, and those that follow the
  message that ends it. Assumed: every message is complete and padded to four bytes, the last one of a datagram included; none is larger than the buffer; the answer reports no error;
  and the handler accepts all messages.
\<close>

theorem dump_file_replayed:
  assumes "rh_inbox rth = map chunk_event cs @ Datagram (batch (ms @ m # ms')) 0 addr_ok trunc # es" "answers rth cs ms m ms'"
    and "\<forall>m \<in> set (map snd (all_messages cs) @ ms @ m # ms'). fits_buffer m"
    and "rh_dump_fp rth = Some []" "\<forall>m st. 0 \<le> fst (filt m st)" "\<forall>m st. 0 \<le> fst (handler None m st)" "length buf = 16384"
  shows "\<exists>rth' file. rtnl_dump_filter_nc True junk filt 0 s rth = Returns (0, s, rth') \<and> rh_dump_fp rth' = Some file \<and>
    rtnl_from_file buf handler st file =
      Returns (0, fold (\<lambda>m st. snd (handler None (msg_bytes m) st)) (map snd (all_messages cs) @ ms @ m # ms') st)"
proof -
  let ?file = "all_bytes cs @ batch (ms @ m # ms')"
  have "?file = batch (map snd (all_messages cs) @ ms @ m # ms')" by (simp add: all_bytes_def)
  then have "rtnl_from_file buf handler st ?file =
      Returns (0, fold (\<lambda>m st. snd (handler None (msg_bytes m) st)) (map snd (all_messages cs) @ ms @ m # ms') st)"
    unfolding rtnl_from_file_def using from_file_messages [where handler = handler, OF assms(3,6,7)] by simp
  moreover have "rtnl_dump_filter_nc True junk filt 0 s rth = Returns (0, s, rth\<lparr>rh_inbox := es, rh_dump_fp := Some ?file\<rparr>)"
    using rtnl_dump_filter_complete [where filt = filt, OF assms(1,2,5), of junk s] assms(4) by (simp add: filtered_state_def)
  moreover have "rh_dump_fp (rth\<lparr>rh_inbox := es, rh_dump_fp := Some ?file\<rparr>) = Some ?file" by simp
  ultimately show ?thesis by blast
qed

theorem dump_file_replayed_witness:
  "\<exists>rth file. rtnl_dump_filter_nc True [] (\<lambda>m s. (0, s)) 0 () (demo_dump\<lparr>rh_dump_fp := Some []\<rparr>) = Returns (0, (), rth) \<and> rh_dump_fp rth = Some file \<and>
     rtnl_from_file (replicate 16384 0) (\<lambda>_ m ls. (0, ls @ [length m])) [] file = Returns (0, [21, 17, 24, 17, 20])"
proof -
  let ?h = "\<lambda>(_ :: u32 option) m ls. (0 :: int, ls @ [length m])" and ?r = "demo_dump\<lparr>rh_dump_fp := Some []\<rparr>" and ?f = "\<lambda>m s. (0 :: int, s :: unit)"
  let ?ms = "[demo_msg 16 6 [3] [0, 0, 0]]" and ?m = "demo_msg 3 6 (bytes32 0) []"
  have a: "rh_inbox ?r = map chunk_event demo_chunks @ Datagram (batch (?ms @ ?m # [])) 0 True False # []" by (simp add: demo_dump_def)
  have n: "rh_pid ?r = 77" "rh_dump ?r = 6" by (simp_all add: demo_dump_def)
  have b: "\<forall>m \<in> set (map snd (all_messages demo_chunks) @ ?ms @ ?m # []). fits_buffer m"
    by (simp add: demo_chunks_def demo_msg_def all_messages_def fits_buffer_def msg_ok_def padded_def pad4_def)
  have c: "rh_dump_fp ?r = Some []" "\<forall>m st. 0 \<le> fst (?f m st)" "\<forall>m st. 0 \<le> fst (?h None m st)" "length (replicate 16384 (0 :: u8)) = 16384"
    by simp_all
  have d: "fold (\<lambda>m st. snd (?h None (msg_bytes m) st)) (map snd (all_messages demo_chunks) @ ?ms @ ?m # []) [] = [21, 17, 24, 17, 20]"
    by (simp add: demo_chunks_def demo_msg_def all_messages_def)
  show ?thesis
    using dump_file_replayed [where filt = ?f and handler = ?h and st = "[]" and s = "()" and junk = "[]", OF a demo_answers [OF n] b c] unfolding d by blast
qed

section \<open>Listening\<close>

text \<open>A datagram with one message that needs no padding and that a buffer of 16384 bytes can hold.\<close>

definition small_message :: "u8 list \<Rightarrow> bool" where
  "small_message m \<longleftrightarrow> (\<exists>ty fl sq pid payload. m = nl_message ty fl sq pid payload \<and> 4 dvd length payload \<and> length payload \<le> 16368)"

lemma listen_message:
  assumes "4 dvd length payload" "length payload \<le> 16368" "handler ctrl (nl_message ty fl sq pid payload) st = (e, st')" "0 \<le> e"
  shows "listen_scan handler ctrl trunc (nl_message ty fl sq pid payload) st 0 (int (16 + length payload)) = Returns (Inr 0, st')"
proof -
  have small: "length payload < 2 ^ 30" using assms(2) by simp
  note f = nl_message_fields [of ty fl sq pid payload] and l = nl_message_len [OF small]
  have p: "pad4 (16 + length payload) = 16 + length payload" using assms(1) by (intro pad4_simps(4)) simp
  have t: "take (16 + length payload) (drop 0 (nl_message ty fl sq pid payload)) = nl_message ty fl sq pid payload" using f(6) by simp
  have fin: "listen_scan handler ctrl trunc buf s h 0 = Returns (Inr 0, s)" for buf s h by (subst listen_scan.simps) simp
  show ?thesis
    unfolding listen_scan.simps [of handler ctrl trunc _ st 0] f option.case Let_def l p t assms(3) prod.case
    using assms(4) fin by simp
qed

lemma listen_one:
  assumes "small_message m" "\<forall>c m st. 0 \<le> fst (handler c m st)" "(if all_nsid then recv_control n cs else ([], n)) = ([], n')"
  shows "listen_loop recv_control handler all_nsid n st ((Datagram m 0 True False, cs) # es) =
    listen_loop recv_control handler all_nsid n' (snd (handler (if all_nsid then Some (- 1) else None) m st)) es"
proof -
  let ?c = "if all_nsid then Some (ctrl_nsid []) else None"
  obtain ty fl sq pid payload where m: "m = nl_message ty fl sq pid payload" "4 dvd length payload" "length payload \<le> 16368"
    using assms(1) unfolding small_message_def by auto
  obtain e st' where e: "handler ?c m st = (e, st')" by force
  have "0 \<le> e" using assms(2) e by (metis fst_conv)
  note scan = listen_message [where handler = handler and trunc = False, OF m(2,3) e [unfolded m(1)] this, folded m(1)]
  have len: "length m = 16 + length payload" unfolding m(1) by (rule nl_message_fields(6))
  then have ne: "m \<noteq> []" and buf: "take 16384 m = m" and cut: "(False \<or> 16384 < length m) = False" using m(3) by auto
  have "ctrl_nsid [] = - 1" by (simp add: ctrl_nsid_def)
  then have "snd (handler (if all_nsid then Some (- 1) else None) m st) = st'" using e by auto
  then show ?thesis unfolding listen_loop.simps assms(3) prod.case Let_def buf cut unfolding len scan using ne by simp
qed

lemma listen_messages:
  assumes "\<forall>x \<in> set xs. small_message (fst x)" "\<forall>c m st. 0 \<le> fst (handler c m st)" "all_nsid \<longrightarrow> (\<forall>cs. recv_control n cs = ([], n))"
  shows "listen_loop recv_control handler all_nsid n st (map (\<lambda>(m, cs). (Datagram m 0 True False, cs)) xs @ es) =
    listen_loop recv_control handler all_nsid n (fold (\<lambda>m st. snd (handler (if all_nsid then Some (- 1) else None) m st)) (map fst xs) st) es"
  using assms(1)
proof (induction xs arbitrary: st)
  case (Cons x xs)
  obtain m cs where x: "x = (m, cs)" by (cases x)
  have "(if all_nsid then recv_control n cs else ([], n)) = ([], n)" using assms(3) by simp
  then have "listen_loop recv_control handler all_nsid n st ((Datagram m 0 True False, cs) # es') =
      listen_loop recv_control handler all_nsid n (snd (handler (if all_nsid then Some (- 1) else None) m st)) es'" for es'
    using Cons.prems x by (intro listen_one assms(2)) simp_all
  then show ?case using Cons unfolding x by (simp del: listen_loop.simps)
qed simp

text \<open>
  C37. \<^verbatim>\<open>rtnl_listen\<close> hands every message to the handler, once and in the order of arrival, here for datagrams of one message that needs no padding and that the buffer can hold. A listener to all namespaces should learn from
  which one a message comes; but once a message has come without control data, as those of its own namespace do, the
  length that \<^verbatim>\<open>recvmsg\<close> stores for the control buffer is zero, the loop does not set it again, and every later
  message is attributed to no namespace, whatever control data it has. Assumed of \<^verbatim>\<open>recvmsg\<close>: no control data uses no room, and no room takes no control data.
\<close>

theorem listen_loses_nsid:
  assumes "\<forall>n. recv_control n [] = ([], 0)" "\<forall>cs. recv_control 0 cs = ([], 0)"
    and "small_message m" "\<forall>x \<in> set xs. small_message (fst x)" "\<forall>c m st. 0 \<le> fst (handler c m st)"
    and "all_nsid \<longleftrightarrow> rs_flags rth AND 1 \<noteq> 0"
  shows "\<exists>n. rtnl_listen recv_control handler rth st ((Datagram m 0 True False, []) # map (\<lambda>(m, cs). (Datagram m 0 True False, cs)) xs @ es) =
    listen_loop recv_control handler all_nsid n
      (fold (\<lambda>m st. snd (handler (if all_nsid then Some (- 1) else None) m st)) (m # map fst xs) st) es"
proof -
  let ?n = "if all_nsid then 0 else 8192"
  have 1: "(if all_nsid then recv_control 8192 [] else ([], 8192)) = ([], ?n)" using assms(1) by simp
  have 2: "all_nsid \<longrightarrow> (\<forall>cs. recv_control ?n cs = ([], ?n))" using assms(2) by simp
  have "rtnl_listen recv_control handler rth st ((Datagram m 0 True False, []) # map (\<lambda>(m, cs). (Datagram m 0 True False, cs)) xs @ es) =
      listen_loop recv_control handler all_nsid ?n (fold (\<lambda>m st. snd (handler (if all_nsid then Some (- 1) else None) m st)) (map fst xs)
        (snd (handler (if all_nsid then Some (- 1) else None) m st))) es"
    unfolding rtnl_listen_def assms(6) [symmetric]
      listen_one [where handler = handler and all_nsid = all_nsid and recv_control = recv_control and n = 8192, OF assms(3,5) 1]
    by (rule listen_messages [where handler = handler and all_nsid = all_nsid and recv_control = recv_control and n = ?n, OF assms(4,5) 2])
  then show ?thesis by auto
qed

text \<open>The witness: two messages, the second with a control message that names namespace 3; the handler is told -1 both times.\<close>

theorem listen_loses_nsid_witness:
  "rtnl_listen (\<lambda>n cs. if cs = [] \<or> n = 0 then ([], 0) else (cs, 24)) (\<lambda>c m ls. (0, ls @ [c]))
     (snd (rtnl_listen_all_nsid 0 (snd (rtnl_open \<lparr>oc_socket = 3, oc_sndbuf = 0, oc_rcvbuf = 0, oc_bind = 0, oc_getsockname = 0,
       oc_name = (16, 77, 1), oc_name_len = 12, oc_time = 5\<rparr> [] 1)))) []
     [(Datagram (nl_message 16 0 0 0 (replicate 4 1)) 0 True False, []),
      (Datagram (nl_message 16 0 0 0 (replicate 8 2)) 0 True False, [\<lparr>cm_level = 270, cm_type = 8, cm_len = 20, cm_data = 3\<rparr>]),
      (Failure 9, [])] = Returns (-1, [Some (- 1), Some (- 1)], [])"
proof -
  let ?rc = "\<lambda>(n :: nat) (cs :: cmsg list). if cs = [] \<or> n = 0 then ([], 0 :: nat) else (cs, 24)"
  let ?h = "\<lambda>(c :: u32 option) (m :: u8 list) ls. (0 :: int, ls @ [c])"
  let ?rth = "snd (rtnl_listen_all_nsid 0 (snd (rtnl_open \<lparr>oc_socket = 3, oc_sndbuf = 0, oc_rcvbuf = 0, oc_bind = 0, oc_getsockname = 0,
       oc_name = (16, 77, 1), oc_name_len = 12, oc_time = 5\<rparr> [] 1)))"
  let ?xs = "[(nl_message 16 0 0 0 (replicate 8 2), [\<lparr>cm_level = 270, cm_type = 8, cm_len = 20, cm_data = 3\<rparr>])]"
  have small: "small_message (nl_message 16 0 0 0 (replicate n b))" if "n = 4 \<or> n = 8" for n b
    unfolding small_message_def by (rule exI [of _ 16], rule exI [of _ 0], rule exI [of _ 0], rule exI [of _ 0], rule exI [of _ "replicate n b"]) (use that in auto)
  have a: "\<forall>n. ?rc n [] = ([], 0)" "\<forall>cs. ?rc 0 cs = ([], 0)" "\<forall>c m st. 0 \<le> fst (?h c m st)" "True \<longleftrightarrow> rs_flags ?rth AND 1 \<noteq> 0"
    by (simp_all add: rtnl_listen_all_nsid_def rtnl_open_def rtnl_open_byproto_def Let_def)
  have b: "small_message (nl_message 16 0 0 0 (replicate 4 1))" "\<forall>x \<in> set ?xs. small_message (fst x)" using small by simp_all
  from listen_loses_nsid [where handler = ?h and xs = ?xs and es = "[(Failure 9, [])]" and st = "[]", OF a(1,2) b a(3,4)] show ?thesis by auto
qed

section \<open>The check after sending\<close>

text \<open>A message that is acknowledged at once counts as an error, with error number zero.\<close>

lemma send_check_ack_fails:
  assumes "0 \<le> send" "rh_inbox rth = Datagram (nl_message 2 fl sq pid (bytes32 0 @ rest)) 0 True False # es" "length rest = 16"
  shows "rtnl_send_check send buf rth = Some (-1, Some 0, rth\<lparr>rh_sent := rh_sent rth @ [buf]\<rparr>)"
proof -
  let ?m = "nl_message 2 fl sq pid (bytes32 0 @ rest)"
  have small: "length (bytes32 0 @ rest) < 2 ^ 30" "length (bytes32 0 @ rest) = 20" using assms(3) by simp_all
  have "length ?m = 36" using nl_message_fields(6) [of 2 fl sq pid "bytes32 0 @ rest"] assms(3) by simp
  then have t: "take 1024 ?m = ?m" "int (length ?m) = int (16 + length (bytes32 0 @ rest))" using small(2) by simp_all
  have n: "\<not> (of_nat (16 + length (bytes32 0 @ rest)) :: u32) < 36" unfolding small(2) by simp
  have "check_scan ?m 0 (int (16 + length (bytes32 0 @ rest))) = Some (-1, Some 0)"
    unfolding check_scan.simps [of ?m 0] nlmsg_ok_message [OF small(1)] option.case nl_message_fields if_not_P [OF n] add_0 nl_message_payload32 by simp
  then show ?thesis using assms(1,2) t by (simp add: rtnl_send_check_def rtnl_send_def Let_def)
qed

section \<open>Length fields\<close>

text \<open>
  A length field of \<open>0x80000000\<close> is a negative number, but the header size subtracted from it wraps around: it passes both tests, and the scan
  goes on outside of the buffer.
\<close>

lemma listen_negative_length:
  assumes "\<forall>c m st. 0 \<le> fst (handler c m st)" "length d = 16" "hdr_len d 0 = Some 0x80000000"
  shows "listen_scan handler ctrl trunc d st 0 16 = Undefined"
proof -
  have l: "\<not> (sint (0x80000000 - 16 :: u32) < 0 \<or> 16 < sint (0x80000000 :: u32))" by simp
  have al: "unat (align4 0x80000000) = 0x80000000" by (subst unat_align4) simp_all
  obtain e st' where e: "handler ctrl (take (unat (0x80000000 :: u32)) (drop 0 d)) st = (e, st')" by force
  have "0 \<le> e" using assms(1) e by (metis fst_conv)
  moreover have "hdr_len d (0 + 0x80000000) = None" using assms(2) by (simp add: hdr_len_def get32_def mem_get_def)
  then have "listen_scan handler ctrl trunc d st' (0 + 0x80000000) (16 - int 0x80000000) = Undefined" by (subst listen_scan.simps) simp
  ultimately show ?thesis
    unfolding listen_scan.simps [of handler ctrl trunc d st 0] assms(3) option.case Let_def if_not_P [OF l] e prod.case al by simp
qed

end
