(* ===== verification/Tc_Core.thy ===== *)
theory Tc_Core
  imports Complex_Main Psched
begin

text \<open>
  The time and rate table calculations of \<^verbatim>\<open>tc_core.c\<close>, with which the controllers fill their requests. The source calculates in
  doubles: an operation is the exact rational result, rounded by a function that is an argument. Where
  the language leaves the result open (a conversion to an integer type that cannot hold the value, a
  division by zero, an overflow of a signed number) the value is \<open>None\<close>.
\<close>

section \<open>Doubles and integers\<close>

text \<open>Truncation towards zero into an unsigned type of the given width.\<close>

definition to_unsigned :: "nat \<Rightarrow> rat \<Rightarrow> nat option" where
  "to_unsigned w x = (if -1 < x \<and> x < 2 ^ w then Some (nat \<lfloor>x\<rfloor>) else None)"

definition to_u32 :: "rat \<Rightarrow> u32 option" where
  "to_u32 x = map_option of_nat (to_unsigned 32 x)"

abbreviation of_u32 :: "u32 \<Rightarrow> rat" where
  "of_u32 w \<equiv> of_nat (unat w)"

text \<open>The promise of the rounding: it is monotone and leaves integers up to \<open>2^53\<close> as they are.\<close>

definition rounding :: "(rat \<Rightarrow> rat) \<Rightarrow> bool" where
  "rounding rnd \<longleftrightarrow> (\<forall>x y. x \<le> y \<longrightarrow> rnd x \<le> rnd y) \<and> (\<forall>n. \<bar>n\<bar> \<le> 2 ^ 53 \<longrightarrow> rnd (of_int n) = of_int n)"

section \<open>The clock\<close>

record tc_clock =
  tick_in_usec :: rat
  clock_factor :: rat

definition initial_clock :: tc_clock where
  "initial_clock = \<lparr>tick_in_usec = 1, clock_factor = 1\<rparr>"

text \<open>The argument is what the three fields of \<^verbatim>\<open>/proc/net/psched\<close> hold, \<open>None\<close> if they cannot be read.\<close>

definition tc_core_init :: "(rat \<Rightarrow> rat) \<Rightarrow> (u32 \<times> u32 \<times> u32) option \<Rightarrow> tc_clock \<Rightarrow> (int \<times> tc_clock) option" where
  "tc_core_init rnd psched c =
     (case psched of
        None \<Rightarrow> Some (-1, c)
      | Some (t2us, us2t, clock_res) \<Rightarrow>
          let t2us = (if clock_res = 1000000000 then us2t else t2us);
              factor = rnd (of_u32 clock_res / 1000000)
          in if us2t = 0 then None
             else Some (0, c\<lparr>clock_factor := factor, tick_in_usec := rnd (rnd (of_u32 t2us / of_u32 us2t) * factor)\<rparr>))"

definition tc_core_time2big :: "(rat \<Rightarrow> rat) \<Rightarrow> tc_clock \<Rightarrow> u32 \<Rightarrow> bool option" where
  "tc_core_time2big rnd c time =
     map_option (\<lambda>t. drop_bit 32 t \<noteq> 0) (to_unsigned 64 (rnd (of_u32 time * tick_in_usec c)))"

definition tc_core_time2tick :: "(rat \<Rightarrow> rat) \<Rightarrow> tc_clock \<Rightarrow> u32 \<Rightarrow> u32 option" where
  "tc_core_time2tick rnd c time = to_u32 (rnd (of_u32 time * tick_in_usec c))"

definition tc_core_tick2time :: "(rat \<Rightarrow> rat) \<Rightarrow> tc_clock \<Rightarrow> u32 \<Rightarrow> u32 option" where
  "tc_core_tick2time rnd c tick =
     (if tick_in_usec c = 0 then None else to_u32 (rnd (of_u32 tick / tick_in_usec c)))"

definition tc_core_time2ktime :: "(rat \<Rightarrow> rat) \<Rightarrow> tc_clock \<Rightarrow> u32 \<Rightarrow> u32 option" where
  "tc_core_time2ktime rnd c time = to_u32 (rnd (of_u32 time * clock_factor c))"

definition tc_core_ktime2time :: "(rat \<Rightarrow> rat) \<Rightarrow> tc_clock \<Rightarrow> u32 \<Rightarrow> u32 option" where
  "tc_core_ktime2time rnd c ktime =
     (if clock_factor c = 0 then None else to_u32 (rnd (of_u32 ktime / clock_factor c)))"

definition tc_calc_xmittime :: "(rat \<Rightarrow> rat) \<Rightarrow> tc_clock \<Rightarrow> u64 \<Rightarrow> u32 \<Rightarrow> u32 option" where
  "tc_calc_xmittime rnd c rate sz =
     (if rate = 0 then None
      else do {
        time \<leftarrow> to_u32 (rnd (1000000 * rnd (of_u32 sz / rnd (of_nat (unat rate)))));
        tc_core_time2tick rnd c time })"

definition tc_calc_xmitsize :: "(rat \<Rightarrow> rat) \<Rightarrow> tc_clock \<Rightarrow> u64 \<Rightarrow> u32 \<Rightarrow> u32 option" where
  "tc_calc_xmitsize rnd c rate ticks = do {
     time \<leftarrow> tc_core_tick2time rnd c ticks;
     to_u32 (rnd (rnd (rnd (of_nat (unat rate)) * of_u32 time) / 1000000)) }"

section \<open>Sizes\<close>

abbreviation (input) LINKLAYER_ETHERNET :: u32 where "LINKLAYER_ETHERNET \<equiv> 1"
abbreviation (input) LINKLAYER_ATM :: u32 where "LINKLAYER_ATM \<equiv> 2"

text \<open>The number of cells and the sz in cells are signed.\<close>

definition tc_align_to_atm :: "u32 \<Rightarrow> u32 option" where
  "tc_align_to_atm sz =
     (let cells = unat sz div 48 + (if unat sz mod 48 > 0 then 1 else 0);
          linksize = cells * 53
      in if linksize < 2 ^ 31 then Some (of_nat linksize) else None)"

definition tc_adjust_size :: "u32 \<Rightarrow> u32 \<Rightarrow> u32 \<Rightarrow> u32 option" where
  "tc_adjust_size sz mpu linklayer =
     (let sz = (if sz < mpu then mpu else sz)
      in if linklayer = LINKLAYER_ATM then tc_align_to_atm sz else Some sz)"

text \<open>\<^verbatim>\<open>(i + 1) << cell_log\<close>, a signed shift.\<close>

definition cell_size :: "nat \<Rightarrow> nat \<Rightarrow> u32 option" where
  "cell_size cell_log i =
     (let n = (i + 1) * 2 ^ cell_log in if cell_log < 32 \<and> n < 2 ^ 31 then Some (of_nat n) else None)"

section \<open>Rate tables\<close>

lemma drop_bit_smaller:
  assumes "1 \<le> drop_bit k (n :: nat)"
  shows "drop_bit (Suc k) n < drop_bit k n"
proof -
  have "n div 2 ^ Suc k = n div 2 ^ k div 2" by (simp add: div_mult2_eq [symmetric] mult.commute)
  then show ?thesis using assms by (simp add: drop_bit_eq_div)
qed

function cell_log_loop :: "u32 \<Rightarrow> nat \<Rightarrow> nat \<Rightarrow> nat" where
  "cell_log_loop mtu bound cell_log =
     (if drop_bit cell_log (unat mtu) > bound then cell_log_loop mtu bound (Suc cell_log) else cell_log)"
  by pat_completeness auto
termination
  by (relation "measure (\<lambda>(mtu, bound, cell_log). drop_bit cell_log (unat mtu))") (auto intro!: drop_bit_smaller)

declare cell_log_loop.simps [simp del]

fun collect :: "(nat \<Rightarrow> 'a option) \<Rightarrow> nat list \<Rightarrow> 'a list option" where
  "collect f [] = Some []"
| "collect f (i # is) = do { x \<leftarrow> f i; xs \<leftarrow> collect f is; Some (x # xs) }"

text \<open>The table, and the rate record with the fields the function sets; the result of the C function is the cell size.\<close>

definition tc_calc_rtable ::
  "(rat \<Rightarrow> rat) \<Rightarrow> tc_clock \<Rightarrow> tc_ratespec \<Rightarrow> int \<Rightarrow> u32 \<Rightarrow> u32 \<Rightarrow> (int \<times> tc_ratespec \<times> u32 list) option" where
  "tc_calc_rtable rnd c r cell_log mtu linklayer = do {
     let bps = rs_rate r;
     let mpu = ucast (rs_mpu r);
     let mtu = (if mtu = 0 then 2047 else mtu);
     let cell_log = (if cell_log < 0 then cell_log_loop mtu 255 0 else nat cell_log);
     rtab \<leftarrow> collect (\<lambda>i. do {
       n \<leftarrow> cell_size cell_log i;
       sz \<leftarrow> tc_adjust_size n mpu linklayer;
       tc_calc_xmittime rnd c (ucast bps) sz }) [0..<256];
     Some (int cell_log,
           r\<lparr>rs_cell_align := -1, rs_cell_log := of_nat cell_log, rs_linklayer := ucast (linklayer AND 15)\<rparr>, rtab) }"

section \<open>Size tables\<close>

record tc_sizespec =
  sz_cell_log :: u8
  sz_size_log :: u8
  sz_cell_align :: u16
  sz_overhead :: u32
  sz_linklayer :: u32
  sz_mpu :: u32
  sz_mtu :: u32
  sz_tsize :: u32

text \<open>
  One pass over the table. The source goes from the last entry down and stops at the first that does not fit 16 bits; as the
  sizes grow with the index, the last entry decides whether the pass is defined.
\<close>

definition size_pass :: "tc_sizespec \<Rightarrow> nat \<Rightarrow> u16 list option option" where
  "size_pass s size_log =
     (if 32 \<le> size_log then None
      else do {
        szs \<leftarrow> collect (\<lambda>i. do {
          n \<leftarrow> cell_size (unat (sz_cell_log s)) i;
          tc_adjust_size n (sz_mpu s) (sz_linklayer s) }) [0..<unat (sz_tsize s)];
        if \<exists>sz \<in> set szs. 65535 < drop_bit size_log sz then Some None
        else Some (Some (map (\<lambda>sz. ucast (drop_bit size_log sz)) szs)) })"

text \<open>A pass that fails is repeated with a greater shift.\<close>

function size_loop :: "tc_sizespec \<Rightarrow> nat \<Rightarrow> (nat \<times> u16 list) option" where
  "size_loop s size_log =
     (case size_pass s size_log of
        None \<Rightarrow> None
      | Some None \<Rightarrow> size_loop s (Suc size_log)
      | Some (Some stab) \<Rightarrow> Some (size_log, stab))"
  by pat_completeness auto
termination
  by (relation "measure (\<lambda>(s, size_log). 32 - size_log)") (auto simp: size_pass_def split: if_splits)

declare size_loop.simps [simp del]

text \<open>The first argument is whether \<^verbatim>\<open>malloc\<close> succeeds; the table is \<open>None\<close> for NULL.\<close>

definition tc_calc_size_table :: "bool \<Rightarrow> tc_sizespec \<Rightarrow> (int \<times> tc_sizespec \<times> u16 list option) option" where
  "tc_calc_size_table malloc s =
     (if sz_linklayer s \<le> LINKLAYER_ETHERNET \<and> sz_mpu s = 0
      then Some (0, s\<lparr>sz_mtu := 0, sz_tsize := 0, sz_cell_log := 0, sz_cell_align := 0\<rparr>, None)
      else
        let s = (if sz_mtu s = 0 then s\<lparr>sz_mtu := 2047\<rparr> else s);
            s = (if sz_tsize s = 0 then s\<lparr>sz_tsize := 512\<rparr> else s);
            s = s\<lparr>sz_cell_log := of_nat (cell_log_loop (sz_mtu s) (unat (sz_tsize s - 1)) 0)\<rparr>
        in if \<not> malloc then Some (-1, s, None)
           else map_option (\<lambda>(size_log, stab). (0, s\<lparr>sz_size_log := of_nat size_log, sz_cell_align := -1\<rparr>, Some stab))
                  (size_loop s (unat (sz_size_log s))))"

section \<open>The tables are right\<close>

lemma collect_Some:
  "collect f is = Some xs \<longleftrightarrow> length xs = length is \<and> (\<forall>k < length is. f (is ! k) = Some (xs ! k))"
proof (induction "is" arbitrary: xs)
  case (Cons i "is")
  show ?case
  proof (cases xs)
    case xs: (Cons x ys)
    have "(\<forall>k < length (i # is). f ((i # is) ! k) = Some ((x # ys) ! k)) \<longleftrightarrow>
        f i = Some x \<and> (\<forall>k < length is. f (is ! k) = Some (ys ! k))"
      by (auto simp: less_Suc_eq_0_disj)
    then show ?thesis using Cons.IH [of ys] xs by (auto split: Option.bind_splits)
  qed (auto split: Option.bind_splits)
qed auto

lemma collect_defined: "\<forall>i \<in> set is. f i \<noteq> None \<Longrightarrow> \<exists>xs. collect f is = Some xs"
  by (induction "is") auto

lemma cell_log_loop_least:
  assumes "\<forall>j < k. bound < drop_bit j (unat mtu)"
  shows "drop_bit (cell_log_loop mtu bound k) (unat mtu) \<le> bound \<and> (\<forall>j < cell_log_loop mtu bound k. bound < drop_bit j (unat mtu))"
  using assms
proof (induction mtu bound k rule: cell_log_loop.induct)
  case (1 mtu bound k)
  show ?case
  proof (cases "bound < drop_bit k (unat mtu)")
    case True
    have "\<forall>j < Suc k. bound < drop_bit j (unat mtu)" unfolding less_Suc_eq using True 1(2) by blast
    note step = 1(1) [OF True this]
    have "cell_log_loop mtu bound k = cell_log_loop mtu bound (Suc k)"
      unfolding cell_log_loop.simps [of mtu bound k] if_P [OF True] by (rule refl)
    from step [folded this] show ?thesis .
  next
    case False
    then have "cell_log_loop mtu bound k = k"
      unfolding cell_log_loop.simps [of mtu bound k] if_not_P [OF False] by (intro refl)
    then show ?thesis using False 1(2) unfolding \<open>cell_log_loop mtu bound k = k\<close> by (simp only: not_less)
  qed
qed

lemma unsigned_rat_nonneg [simp]: "0 \<le> (unsigned (w :: 'a::len word) :: rat)"
proof -
  have "0 \<le> (of_nat (unat w) :: rat)" by (rule of_nat_0_le_iff)
  then show ?thesis by (simp only: of_nat_unat)
qed

lemma unsigned_rat_mono: "a \<le> b \<Longrightarrow> (unsigned (a :: 'a::len word) :: rat) \<le> unsigned b"
proof -
  assume "a \<le> b"
  then have "(of_nat (unat a) :: rat) \<le> of_nat (unat b)" by (simp only: of_nat_le_iff word_le_nat_alt)
  then show ?thesis by (simp only: of_nat_unat)
qed

lemma to_u32_mono:
  assumes "to_u32 y = Some v" "0 \<le> x" "x \<le> y"
  shows "\<exists>u. to_u32 x = Some u \<and> u \<le> v"
proof -
  have y: "y < 2 ^ 32" "0 \<le> y" "v = of_nat (nat \<lfloor>y\<rfloor>)"
    using assms by (auto simp: to_u32_def to_unsigned_def split: if_splits)
  have f: "\<lfloor>x\<rfloor> \<le> \<lfloor>y\<rfloor>" "0 \<le> \<lfloor>x\<rfloor>" using assms(2,3) by (simp_all add: floor_mono)
  have n: "nat \<lfloor>y\<rfloor> < 2 ^ 32" by (subst nat_less_iff) (use y(1,2) in \<open>simp_all add: floor_less_iff\<close>)
  have le: "nat \<lfloor>x\<rfloor> \<le> nat \<lfloor>y\<rfloor>" using f(1) by (rule nat_mono)
  have "unat (of_nat (nat \<lfloor>x\<rfloor>) :: u32) = nat \<lfloor>x\<rfloor>" "unat (of_nat (nat \<lfloor>y\<rfloor>) :: u32) = nat \<lfloor>y\<rfloor>"
    using n le by (simp_all add: unat_of_nat take_bit_nat_eq_self)
  then have "(of_nat (nat \<lfloor>x\<rfloor>) :: u32) \<le> v" unfolding y(3) word_le_nat_alt using le by simp
  moreover have "to_u32 x = Some (of_nat (nat \<lfloor>x\<rfloor>))" using assms(2,3) y(1) by (simp add: to_u32_def to_unsigned_def)
  ultimately show ?thesis by blast
qed

lemma rounding_mono: "rounding rnd \<Longrightarrow> x \<le> y \<Longrightarrow> rnd x \<le> rnd y"
  by (simp add: rounding_def)

lemma rounding_nonneg: "rounding rnd \<Longrightarrow> 0 \<le> x \<Longrightarrow> 0 \<le> rnd x"
proof -
  assume r: "rounding rnd" "0 \<le> x"
  have "rnd (of_int 0) = of_int 0" using r(1) unfolding rounding_def by (metis abs_zero zero_le_numeral zero_le_power)
  then show "0 \<le> rnd x" using rounding_mono [OF r] by simp
qed

lemma time2tick_mono:
  assumes "rounding rnd" "0 \<le> tick_in_usec c" "tc_core_time2tick rnd c b = Some v" "a \<le> b"
  shows "\<exists>u. tc_core_time2tick rnd c a = Some u \<and> u \<le> v"
proof -
  have "of_u32 a * tick_in_usec c \<le> of_u32 b * tick_in_usec c"
    using assms(2,4) by (intro mult_right_mono) (simp_all add: unsigned_rat_mono)
  moreover have "0 \<le> of_u32 a * tick_in_usec c" using assms(2) by simp
  ultimately show ?thesis
    using to_u32_mono [OF assms(3) [unfolded tc_core_time2tick_def]] rounding_mono [OF assms(1)] rounding_nonneg [OF assms(1)]
    by (simp add: tc_core_time2tick_def)
qed

lemma xmittime_mono:
  assumes rnd: "rounding rnd" and c: "0 \<le> tick_in_usec c" and v: "tc_calc_xmittime rnd c rate b = Some v" and le: "a \<le> b"
  shows "\<exists>u. tc_calc_xmittime rnd c rate a = Some u \<and> u \<le> v"
proof -
  let ?t = "\<lambda>sz. rnd (1000000 * rnd (of_u32 sz / rnd (of_nat (unat rate))))"
  from v obtain tb where tb: "rate \<noteq> 0" "to_u32 (?t b) = Some tb" "tc_core_time2tick rnd c tb = Some v"
    by (auto simp: tc_calc_xmittime_def split: if_splits Option.bind_splits)
  have r: "0 \<le> rnd (of_nat (unat rate))" by (rule rounding_nonneg [OF rnd]) simp
  have "of_u32 a / rnd (of_nat (unat rate)) \<le> of_u32 b / rnd (of_nat (unat rate))"
    by (rule divide_right_mono [OF _ r]) (use le in \<open>simp add: unsigned_rat_mono\<close>)
  then have "?t a \<le> ?t b" by (intro rounding_mono [OF rnd] mult_left_mono) simp_all
  moreover have "0 \<le> ?t a" by (intro rounding_nonneg [OF rnd] mult_nonneg_nonneg divide_nonneg_nonneg r) simp_all
  ultimately obtain ta where ta: "to_u32 (?t a) = Some ta" "ta \<le> tb" using to_u32_mono [OF tb(2)] by blast
  from time2tick_mono [OF rnd c tb(3) ta(2)] show ?thesis using tb(1) ta(1) by (simp add: tc_calc_xmittime_def)
qed

end
