(* ===== verification/Controller.thy ===== *)
theory Controller
  imports Tc_Core Rate_Table Rtnl
begin

text \<open>
  The programs that change the bandwidth: \<^verbatim>\<open>tbf.c\<close>, \<^verbatim>\<open>netem.c\<close>, \<^verbatim>\<open>tbfnetem.c\<close>, \<^verbatim>\<open>tbfifb.c\<close> and \<^verbatim>\<open>tbfenp.c\<close> of \<^verbatim>\<open>tbf/\<close>, the five its makefile builds. Each reads its arguments, then
  repeats for ever: build a netlink request, send it for one device after the other, sleep. One round is a
  function of the state of the program and of the netlink handle; its result is the exit code of the
  program, or that it goes on. The commands that set up the qdiscs, the scheduling priority and the
  sleep itself are left out. The arguments of the rounds are the rounding of doubles, the clock of \<open>Tc_Core\<close>, the
  results of \<^verbatim>\<open>sendmsg\<close> and \<^verbatim>\<open>malloc\<close>, and the interface numbers; \<^verbatim>\<open>calloc\<close> of the settings succeeds.
\<close>

section \<open>Arguments\<close>

text \<open>\<^verbatim>\<open>strtoull\<close> in base 10: white space, a sign, digits; the greatest number if there are too many.\<close>

fun digits :: "nat \<Rightarrow> string \<Rightarrow> nat" where
  "digits acc [] = acc"
| "digits acc (ch # cs) =
     (if of_char ch \<ge> (48 :: nat) \<and> of_char ch \<le> (57 :: nat) then digits (10 * acc + (of_char ch - 48)) cs else acc)"

definition strtoull :: "string \<Rightarrow> u64" where
  "strtoull s =
     (let s = dropWhile (\<lambda>ch. of_char ch = (32 :: nat) \<or> (9 \<le> (of_char ch :: nat) \<and> of_char ch \<le> (13 :: nat))) s;
          (neg, s) = (case s of ch # cs \<Rightarrow> if ch = CHR ''-'' then (True, cs) else if ch = CHR ''+'' then (False, cs) else (False, s)
                              | [] \<Rightarrow> (False, []));
          n = digits 0 s
      in if 2 ^ 64 \<le> n then -1 else if neg then - of_nat n else of_nat n)"

text \<open>The arguments of \<^verbatim>\<open>tbf.c\<close>: the seconds and nanoseconds between two changes and the queue length; \<open>None\<close> is the exit.\<close>

definition tbf_args :: "string list \<Rightarrow> (u64 \<times> u64 \<times> u64) option" where
  "tbf_args argv = do {
     (dt_ns, ql) \<leftarrow> (case argv of
        [] \<Rightarrow> Some (0, 100)
      | [a] \<Rightarrow> Some (1000 * strtoull a, 100)
      | [a, b] \<Rightarrow> Some (1000 * strtoull a, strtoull b)
      | _ \<Rightarrow> None);
     if 999999999 < dt_ns
     then (let dt_s = dt_ns div 1000000000 in Some (dt_s, dt_ns - dt_s * 1000000000, ql))
     else Some (0, dt_ns, ql) }"

record bw_param =
  bw_bandwidth :: u64
  bw_delay :: u64
  bw_sec :: u64
  bw_nsec :: u64

fun bw_params :: "nat \<Rightarrow> string list \<Rightarrow> bw_param list option" where
  "bw_params 0 argv = Some []"
| "bw_params (Suc n) (a # b # d # argv) =
     (let t_ns = strtoull d * 1000; sec = t_ns div 1000000000
      in map_option (\<lambda>ps. \<lparr>bw_bandwidth = drop_bit 3 (strtoull a), bw_delay = strtoull b,
             bw_sec = sec, bw_nsec = t_ns - sec * 1000000000\<rparr> # ps) (bw_params n argv))"
| "bw_params (Suc n) argv = None"

text \<open>
  The arguments of the four programs other than \<^verbatim>\<open>tbf.c\<close>: the queue length, the number of settings and the settings. The number is a signed
  32-bit number.
\<close>

definition netem_args :: "string list \<Rightarrow> (u64 \<times> bw_param list) outcome" where
  "netem_args argv =
     (case argv of
        q # k # rest \<Rightarrow>
          let nbws = sint (ucast (strtoull k) :: u32); expected = nbws * 3
          in if expected < - (2 ^ 31) \<or> 2 ^ 31 \<le> expected then Undefined
             else if (of_nat (length rest) :: u32) \<noteq> of_int expected then Exits 1
             else (case bw_params (nat nbws) rest of None \<Rightarrow> Undefined | Some bws \<Rightarrow> Returns (strtoull q, bws))
      | _ \<Rightarrow> Undefined)"

section \<open>Requests\<close>

abbreviation (input) TCA_KIND :: u16 where "TCA_KIND \<equiv> 1"
abbreviation (input) TCA_OPTIONS :: u16 where "TCA_OPTIONS \<equiv> 2"
abbreviation (input) TC_H_ROOT :: u32 where "TC_H_ROOT \<equiv> 0xFFFFFFFF"

text \<open>The size of the request: message header, \<^verbatim>\<open>struct tcmsg\<close> and the buffer.\<close>

definition sizeof_req :: nat where
  "sizeof_req = 16 + 20 + 64 * 1024"

definition c_string :: "string \<Rightarrow> u8 list" where
  "c_string s = map of_char s @ [0]"

text \<open>The request as it is initialised, and the fields of its \<^verbatim>\<open>struct tcmsg\<close>.\<close>

definition new_request :: "u8 list" where
  "new_request = replicate 4 0 @ bytes16 36 @ bytes16 1 @ replicate (sizeof_req - 8) 0"

definition set_ifindex :: "u32 \<Rightarrow> u8 list \<Rightarrow> u8 list option" where
  "set_ifindex i = mem_put 20 (bytes32 i)"

definition set_handle :: "u32 \<Rightarrow> u8 list \<Rightarrow> u8 list option" where
  "set_handle i = mem_put 24 (bytes32 i)"

definition set_parent :: "u32 \<Rightarrow> u8 list \<Rightarrow> u8 list option" where
  "set_parent i = mem_put 28 (bytes32 i)"

definition start_request :: "string \<Rightarrow> u8 list \<Rightarrow> u8 list option" where
  "start_request kind mem = do {
     mem \<leftarrow> mem_put 0 (bytes32 36) mem;
     (r, mem) \<leftarrow> addattr_l (of_nat sizeof_req) TCA_KIND (c_string kind) mem;
     Some mem }"

text \<open>The rate fields of the token bucket options, with the rate table and the buffer for 50000 bytes.\<close>

definition tbf_options ::
  "(rat \<Rightarrow> rat) \<Rightarrow> tc_clock \<Rightarrow> u64 \<Rightarrow> tc_tbf_qopt \<Rightarrow> (int \<times> tc_tbf_qopt \<times> u32 list) option" where
  "tbf_options rnd c rate64 opt = do {
     let rate = (if 2 ^ 32 \<le> rate64 then -1 else ucast rate64);
     (cell_log, rs, rtab) \<leftarrow> tc_calc_rtable rnd c ((qopt_rate opt)\<lparr>rs_rate := rate\<rparr>) (-1) 0 LINKLAYER_ETHERNET;
     let opt = opt\<lparr>qopt_rate := rs\<rparr>;
     if cell_log < 0 then Some (cell_log, opt, rtab)
     else do {
       buffer \<leftarrow> tc_calc_xmittime rnd c (ucast rate) 50000;
       Some (cell_log, opt\<lparr>qopt_buffer := buffer\<rparr>, rtab) } }"

definition rtab_bytes :: "u32 list \<Rightarrow> u8 list" where
  "rtab_bytes rtab = concat (map bytes32 rtab)"

definition tbf_attributes :: "u64 \<Rightarrow> tc_tbf_qopt \<Rightarrow> u32 list \<Rightarrow> u8 list \<Rightarrow> u8 list option" where
  "tbf_attributes rate64 opt rtab mem = do {
     (tail, mem) \<leftarrow> addattr_nest 1024 TCA_OPTIONS mem;
     (r, mem) \<leftarrow> addattr_l 2024 1 (qopt_bytes opt) mem;
     (r, mem) \<leftarrow> addattr_l 2124 6 (bytes32 50000) mem;
     (r, mem) \<leftarrow> (if 2 ^ 32 \<le> rate64 then addattr_l 2124 4 (bytes64 rate64) mem else Some (0, mem));
     (r, mem) \<leftarrow> addattr_l 3024 2 (rtab_bytes rtab) mem;
     (r, mem) \<leftarrow> addattr_nest_end tail mem;
     Some mem }"

text \<open>Sending the request for the first and for the second device; the exit code is 2 when one fails.\<close>

definition talk_both ::
  "int \<Rightarrow> bool \<Rightarrow> u32 \<Rightarrow> u8 list \<Rightarrow> rtnl_handle \<Rightarrow> (int option \<times> u8 list \<times> rtnl_handle) outcome" where
  "talk_both sendmsg malloc idx2 mem rth =
     (case rtnl_talk sendmsg malloc False mem rth of
        Blocks \<Rightarrow> Blocks | Exits e \<Rightarrow> Exits e | Undefined \<Rightarrow> Undefined
      | Returns (r, rth, mem) \<Rightarrow>
          if r < 0 then Returns (Some 2, mem, rth)
          else (case set_ifindex idx2 mem of
                  None \<Rightarrow> Undefined
                | Some mem \<Rightarrow>
                    (case rtnl_talk sendmsg malloc False mem rth of
                       Blocks \<Rightarrow> Blocks | Exits e \<Rightarrow> Exits e | Undefined \<Rightarrow> Undefined
                     | Returns (r, rth, mem) \<Rightarrow> Returns (if r < 0 then Some 2 else None, mem, rth))))"

section \<open>tbf.c\<close>

record tbf_ctl =
  tc_index :: nat
  tc_opt :: tc_tbf_qopt
  tc_mem :: "u8 list"

definition zero_ratespec :: tc_ratespec where
  "zero_ratespec = \<lparr>rs_cell_log = 0, rs_linklayer = 0, rs_overhead = 0, rs_cell_align = 0, rs_mpu = 0, rs_rate = 0\<rparr>"

definition tbf_start :: "u64 \<Rightarrow> tbf_ctl option" where
  "tbf_start ql = do {
     mem \<leftarrow> set_parent TC_H_ROOT new_request;
     Some \<lparr>tc_index = 1,
       tc_opt = \<lparr>qopt_rate = zero_ratespec, qopt_peakrate = zero_ratespec, qopt_limit = ucast (1514 * ql), qopt_buffer = 0, qopt_mtu = 0\<rparr>,
       tc_mem = mem\<rparr> }"

text \<open>The two bandwidths, in bits per second, and the one that follows.\<close>

definition tbf_bws :: "nat \<Rightarrow> u64" where
  "tbf_bws i = (if i = 0 then 5000000000 else 1000000000)"

definition tbf_build :: "(rat \<Rightarrow> rat) \<Rightarrow> tc_clock \<Rightarrow> u32 \<Rightarrow> tbf_ctl \<Rightarrow> (int \<times> tbf_ctl) option" where
  "tbf_build rnd c idx1 s = do {
     mem \<leftarrow> set_ifindex idx1 (tc_mem s);
     mem \<leftarrow> start_request ''tbf'' mem;
     let i = 1 - tc_index s;
     let rate64 = drop_bit 3 (tbf_bws i);
     (cell_log, opt, rtab) \<leftarrow> tbf_options rnd c rate64 (tc_opt s);
     let s = s\<lparr>tc_index := i, tc_opt := opt\<rparr>;
     if cell_log < 0 then Some (-1, s\<lparr>tc_mem := mem\<rparr>)
     else do {
       mem \<leftarrow> tbf_attributes rate64 opt rtab mem;
       Some (0, s\<lparr>tc_mem := mem\<rparr>) } }"

definition tbf_round ::
  "(rat \<Rightarrow> rat) \<Rightarrow> tc_clock \<Rightarrow> int \<Rightarrow> bool \<Rightarrow> u32 \<Rightarrow> u32 \<Rightarrow> tbf_ctl \<Rightarrow> rtnl_handle \<Rightarrow> (int option \<times> tbf_ctl \<times> rtnl_handle) outcome" where
  "tbf_round rnd c sendmsg malloc idx1 idx2 s rth =
     (case tbf_build rnd c idx1 s of
        None \<Rightarrow> Undefined
      | Some (r, s) \<Rightarrow>
          if r < 0 then Returns (Some (-1), s, rth)
          else (case talk_both sendmsg malloc idx2 (tc_mem s) rth of
                  Blocks \<Rightarrow> Blocks | Exits e \<Rightarrow> Exits e | Undefined \<Rightarrow> Undefined
                | Returns (ret, mem, rth) \<Rightarrow> Returns (ret, s\<lparr>tc_mem := mem\<rparr>, rth)))"

section \<open>netem.c\<close>

record netem_ctl =
  nc_index :: u32
  nc_opt :: tc_netem_qopt
  nc_mem :: "u8 list"

definition netem_qopt :: "u64 \<Rightarrow> tc_netem_qopt" where
  "netem_qopt ql = \<lparr>ne_latency = 0, ne_limit = ucast ql, ne_loss = 0, ne_gap = 0, ne_duplicate = 0, ne_jitter = 0\<rparr>"

definition netem_start :: "u64 \<Rightarrow> netem_ctl option" where
  "netem_start ql = do {
     mem \<leftarrow> set_parent TC_H_ROOT new_request;
     Some \<lparr>nc_index = 0, nc_opt = netem_qopt ql, nc_mem = mem\<rparr> }"

text \<open>The next setting; the remainder of a division by zero is undefined.\<close>

definition next_index :: "bw_param list \<Rightarrow> u32 \<Rightarrow> u32 option" where
  "next_index bws i = (if bws = [] then None else Some ((i + 1) mod of_nat (length bws)))"

definition netem_options :: "(rat \<Rightarrow> rat) \<Rightarrow> tc_clock \<Rightarrow> bw_param \<Rightarrow> tc_netem_qopt \<Rightarrow> tc_netem_qopt option" where
  "netem_options rnd c bw opt = do {
     latency \<leftarrow> tc_core_time2tick rnd c (ucast (bw_delay bw));
     Some (opt\<lparr>ne_latency := latency\<rparr>) }"

definition close_options :: "nat \<Rightarrow> u8 list \<Rightarrow> u8 list option" where
  "close_options tail mem = do {
     e \<leftarrow> nlmsg_tail mem;
     mem_put tail (bytes16 (of_int (int e - int tail))) mem }"

definition netem_build :: "(rat \<Rightarrow> rat) \<Rightarrow> tc_clock \<Rightarrow> bw_param list \<Rightarrow> u32 \<Rightarrow> netem_ctl \<Rightarrow> netem_ctl option" where
  "netem_build rnd c bws idx1 s = do {
     mem \<leftarrow> set_ifindex idx1 (nc_mem s);
     mem \<leftarrow> start_request ''netem'' mem;
     tail \<leftarrow> nlmsg_tail mem;
     i \<leftarrow> next_index bws (nc_index s);
     let bw = bws ! unat i;
     opt \<leftarrow> netem_options rnd c bw (nc_opt s);
     (r, mem) \<leftarrow> addattr_l 1024 TCA_OPTIONS (netem_bytes opt) mem;
     let rate64 = bw_bandwidth bw;
     (r, mem) \<leftarrow> (if 2 ^ 32 \<le> rate64 then addattr_l 1024 8 (bytes64 rate64) mem else Some (0, mem));
     let rate = (if 2 ^ 32 \<le> rate64 then -1 else ucast rate64);
     (r, mem) \<leftarrow> addattr_l 1024 6 (netem_rate_bytes rate) mem;
     mem \<leftarrow> close_options tail mem;
     Some \<lparr>nc_index = i, nc_opt = opt, nc_mem = mem\<rparr> }"

definition netem_round ::
  "(rat \<Rightarrow> rat) \<Rightarrow> tc_clock \<Rightarrow> bw_param list \<Rightarrow> int \<Rightarrow> bool \<Rightarrow> u32 \<Rightarrow> u32 \<Rightarrow> netem_ctl \<Rightarrow> rtnl_handle \<Rightarrow>
     (int option \<times> netem_ctl \<times> rtnl_handle) outcome" where
  "netem_round rnd c bws sendmsg malloc idx1 idx2 s rth =
     (case netem_build rnd c bws idx1 s of
        None \<Rightarrow> Undefined
      | Some s \<Rightarrow>
          (case talk_both sendmsg malloc idx2 (nc_mem s) rth of
             Blocks \<Rightarrow> Blocks | Exits e \<Rightarrow> Exits e | Undefined \<Rightarrow> Undefined
           | Returns (ret, mem, rth) \<Rightarrow> Returns (ret, s\<lparr>nc_mem := mem\<rparr>, rth)))"

section \<open>tbfnetem.c\<close>

record tn_ctl =
  tn_index :: u32
  tn_opt :: tc_tbf_qopt
  tn_nopt :: tc_netem_qopt
  tn_mem :: "u8 list"

definition tn_start :: "u64 \<Rightarrow> tn_ctl" where
  "tn_start ql = \<lparr>tn_index = 0,
     tn_opt = \<lparr>qopt_rate = zero_ratespec, qopt_peakrate = zero_ratespec, qopt_limit = ucast (1514 * ql), qopt_buffer = 0, qopt_mtu = 0\<rparr>,
     tn_nopt = netem_qopt ql, tn_mem = new_request\<rparr>"

definition tn_build_tbf ::
  "(rat \<Rightarrow> rat) \<Rightarrow> tc_clock \<Rightarrow> bw_param list \<Rightarrow> u32 \<Rightarrow> tn_ctl \<Rightarrow> (int \<times> tn_ctl) option" where
  "tn_build_tbf rnd c bws idx1 s = do {
     i \<leftarrow> next_index bws (tn_index s);
     mem \<leftarrow> start_request ''tbf'' (tn_mem s);
     mem \<leftarrow> set_parent TC_H_ROOT mem;
     mem \<leftarrow> set_handle 0 mem;
     mem \<leftarrow> set_ifindex idx1 mem;
     let rate64 = bw_bandwidth (bws ! unat i);
     (cell_log, opt, rtab) \<leftarrow> tbf_options rnd c rate64 (tn_opt s);
     let s = s\<lparr>tn_index := i, tn_opt := opt\<rparr>;
     if cell_log < 0 then Some (-1, s\<lparr>tn_mem := mem\<rparr>)
     else do {
       mem \<leftarrow> tbf_attributes rate64 opt rtab mem;
       Some (0, s\<lparr>tn_mem := mem\<rparr>) } }"

definition tn_build_netem ::
  "(rat \<Rightarrow> rat) \<Rightarrow> tc_clock \<Rightarrow> bw_param list \<Rightarrow> u32 \<Rightarrow> tn_ctl \<Rightarrow> tn_ctl option" where
  "tn_build_netem rnd c bws idx1 s = do {
     mem \<leftarrow> start_request ''netem'' (tn_mem s);
     mem \<leftarrow> set_parent 0x00010001 mem;
     mem \<leftarrow> set_handle 0x00100000 mem;
     mem \<leftarrow> set_ifindex idx1 mem;
     tail \<leftarrow> nlmsg_tail mem;
     opt \<leftarrow> netem_options rnd c (bws ! unat (tn_index s)) (tn_nopt s);
     (r, mem) \<leftarrow> addattr_l 1024 TCA_OPTIONS (netem_bytes opt) mem;
     mem \<leftarrow> close_options tail mem;
     Some (s\<lparr>tn_nopt := opt, tn_mem := mem\<rparr>) }"

definition tn_round ::
  "(rat \<Rightarrow> rat) \<Rightarrow> tc_clock \<Rightarrow> bw_param list \<Rightarrow> int \<Rightarrow> bool \<Rightarrow> u32 \<Rightarrow> u32 \<Rightarrow> tn_ctl \<Rightarrow> rtnl_handle \<Rightarrow>
     (int option \<times> tn_ctl \<times> rtnl_handle) outcome" where
  "tn_round rnd c bws sendmsg malloc idx1 idx2 s rth =
     (case tn_build_tbf rnd c bws idx1 s of
        None \<Rightarrow> Undefined
      | Some (r, s) \<Rightarrow>
          if r < 0 then Returns (Some (-1), s, rth)
          else (case talk_both sendmsg malloc idx2 (tn_mem s) rth of
                  Blocks \<Rightarrow> Blocks | Exits e \<Rightarrow> Exits e | Undefined \<Rightarrow> Undefined
                | Returns (Some e, mem, rth) \<Rightarrow> Returns (Some e, s\<lparr>tn_mem := mem\<rparr>, rth)
                | Returns (None, mem, rth) \<Rightarrow>
                    (case tn_build_netem rnd c bws idx1 (s\<lparr>tn_mem := mem\<rparr>) of
                       None \<Rightarrow> Undefined
                     | Some s \<Rightarrow>
                         (case talk_both sendmsg malloc idx2 (tn_mem s) rth of
                            Blocks \<Rightarrow> Blocks | Exits e \<Rightarrow> Exits e | Undefined \<Rightarrow> Undefined
                          | Returns (ret, mem, rth) \<Rightarrow> Returns (ret, s\<lparr>tn_mem := mem\<rparr>, rth)))))"

section \<open>tbfifb.c\<close>

text \<open>
  The state is that of \<^verbatim>\<open>tbfnetem.c\<close>; the delay is set on two further devices, all at the root, so the parent is set
  once.
\<close>

definition ifb_start :: "u64 \<Rightarrow> tn_ctl option" where
  "ifb_start ql = do {
     mem \<leftarrow> set_parent TC_H_ROOT new_request;
     Some ((tn_start ql)\<lparr>tn_mem := mem\<rparr>) }"

definition ifb_tbf :: "(rat \<Rightarrow> rat) \<Rightarrow> tc_clock \<Rightarrow> bw_param list \<Rightarrow> u32 \<Rightarrow> tn_ctl \<Rightarrow> (int \<times> tn_ctl) option" where
  "ifb_tbf rnd c bws idx1 s = do {
     mem \<leftarrow> start_request ''tbf'' (tn_mem s);
     mem \<leftarrow> set_ifindex idx1 mem;
     let rate64 = bw_bandwidth (bws ! unat (tn_index s));
     (cell_log, opt, rtab) \<leftarrow> tbf_options rnd c rate64 (tn_opt s);
     let s = s\<lparr>tn_opt := opt\<rparr>;
     if cell_log < 0 then Some (-1, s\<lparr>tn_mem := mem\<rparr>)
     else do {
       mem \<leftarrow> tbf_attributes rate64 opt rtab mem;
       Some (0, s\<lparr>tn_mem := mem\<rparr>) } }"

definition ifb_netem :: "(rat \<Rightarrow> rat) \<Rightarrow> tc_clock \<Rightarrow> bw_param list \<Rightarrow> u32 \<Rightarrow> tn_ctl \<Rightarrow> tn_ctl option" where
  "ifb_netem rnd c bws idx3 s = do {
     mem \<leftarrow> start_request ''netem'' (tn_mem s);
     mem \<leftarrow> set_ifindex idx3 mem;
     tail \<leftarrow> nlmsg_tail mem;
     opt \<leftarrow> netem_options rnd c (bws ! unat (tn_index s)) (tn_nopt s);
     (r, mem) \<leftarrow> addattr_l 1024 TCA_OPTIONS (netem_bytes opt) mem;
     mem \<leftarrow> close_options tail mem;
     Some (s\<lparr>tn_nopt := opt, tn_mem := mem\<rparr>) }"

definition ifb_round ::
  "(rat \<Rightarrow> rat) \<Rightarrow> tc_clock \<Rightarrow> bw_param list \<Rightarrow> int \<Rightarrow> bool \<Rightarrow> u32 \<Rightarrow> u32 \<Rightarrow> u32 \<Rightarrow> u32 \<Rightarrow> tn_ctl \<Rightarrow> rtnl_handle \<Rightarrow>
     (int option \<times> tn_ctl \<times> rtnl_handle) outcome" where
  "ifb_round rnd c bws sendmsg malloc idx1 idx2 idx3 idx4 s rth =
     (case do { i \<leftarrow> next_index bws (tn_index s); ifb_tbf rnd c bws idx1 (s\<lparr>tn_index := i\<rparr>) } of
        None \<Rightarrow> Undefined
      | Some (r, s) \<Rightarrow>
          if r < 0 then Returns (Some (-1), s, rth)
          else (case talk_both sendmsg malloc idx2 (tn_mem s) rth of
                  Blocks \<Rightarrow> Blocks | Exits e \<Rightarrow> Exits e | Undefined \<Rightarrow> Undefined
                | Returns (Some e, mem, rth) \<Rightarrow> Returns (Some e, s\<lparr>tn_mem := mem\<rparr>, rth)
                | Returns (None, mem, rth) \<Rightarrow>
                    (case ifb_netem rnd c bws idx3 (s\<lparr>tn_mem := mem\<rparr>) of
                       None \<Rightarrow> Undefined
                     | Some s \<Rightarrow>
                         (case talk_both sendmsg malloc idx4 (tn_mem s) rth of
                            Blocks \<Rightarrow> Blocks | Exits e \<Rightarrow> Exits e | Undefined \<Rightarrow> Undefined
                          | Returns (ret, mem, rth) \<Rightarrow> Returns (ret, s\<lparr>tn_mem := mem\<rparr>, rth)))))"

section \<open>tbfenp.c\<close>

text \<open>
  The delay comes first, on a third device only, with twice the queue length. The two requests are built by the same
  statements as those of \<^verbatim>\<open>tbfifb.c\<close>.
\<close>

definition enp_start :: "u64 \<Rightarrow> tn_ctl option" where
  "enp_start ql = do {
     s \<leftarrow> ifb_start ql;
     Some (s\<lparr>tn_nopt := netem_qopt (2 * ql)\<rparr>) }"

definition enp_round ::
  "(rat \<Rightarrow> rat) \<Rightarrow> tc_clock \<Rightarrow> bw_param list \<Rightarrow> int \<Rightarrow> bool \<Rightarrow> u32 \<Rightarrow> u32 \<Rightarrow> u32 \<Rightarrow> tn_ctl \<Rightarrow> rtnl_handle \<Rightarrow>
     (int option \<times> tn_ctl \<times> rtnl_handle) outcome" where
  "enp_round rnd c bws sendmsg malloc idx1 idx2 idx3 s rth =
     (case do { i \<leftarrow> next_index bws (tn_index s); ifb_netem rnd c bws idx3 (s\<lparr>tn_index := i\<rparr>) } of
        None \<Rightarrow> Undefined
      | Some s \<Rightarrow>
          (case rtnl_talk sendmsg malloc False (tn_mem s) rth of
             Blocks \<Rightarrow> Blocks | Exits e \<Rightarrow> Exits e | Undefined \<Rightarrow> Undefined
           | Returns (r, rth, mem) \<Rightarrow>
               if r < 0 then Returns (Some 2, s\<lparr>tn_mem := mem\<rparr>, rth)
               else (case ifb_tbf rnd c bws idx1 (s\<lparr>tn_mem := mem\<rparr>) of
                       None \<Rightarrow> Undefined
                     | Some (r, s) \<Rightarrow>
                         if r < 0 then Returns (Some (-1), s, rth)
                         else (case talk_both sendmsg malloc idx2 (tn_mem s) rth of
                                 Blocks \<Rightarrow> Blocks | Exits e \<Rightarrow> Exits e | Undefined \<Rightarrow> Undefined
                               | Returns (ret, mem, rth) \<Rightarrow> Returns (ret, s\<lparr>tn_mem := mem\<rparr>, rth)))))"

end
