(* ===== verification/Control_Properties.thy ===== *)
theory Control_Properties
  imports Netlink_Attrs Controller
begin

text \<open>The properties of the control side: attributes, rate tables and requests.\<close>

section \<open>Attributes\<close>

text \<open>A sequence of calls of \<^verbatim>\<open>addattr_l\<close>; the result is that of the first that fails.\<close>

fun addattrs :: "u32 \<Rightarrow> (u16 \<times> u8 list) list \<Rightarrow> u8 list \<Rightarrow> (int \<times> u8 list) option" where
  "addattrs maxlen [] mem = Some (0, mem)"
| "addattrs maxlen ((t, d) # ats) mem = do {
     (r, mem) \<leftarrow> addattr_l maxlen t d mem;
     if r < 0 then Some (r, mem) else addattrs maxlen ats mem }"

abbreviation attrs_space :: "(u16 \<times> u8 list) list \<Rightarrow> nat" where
  "attrs_space ats \<equiv> sum_list (map (\<lambda>(t, d). attr_space d) ats)"

lemma addattrs_ok:
  assumes "message mem off xs n" "\<forall>(t, d) \<in> set ats. length d < 65532"
    and "n + attrs_space ats \<le> unat maxlen" "n + attrs_space ats \<le> length mem"
  shows "\<exists>mem'. addattrs maxlen ats mem = Some (0, mem') \<and> message mem' off (xs @ ats) (n + attrs_space ats)"
  using assms
proof (induction ats arbitrary: mem xs n)
  case (Cons a ats)
  obtain t d where a: "a = (t, d)" by force
  have d: "length d < 65532" "n + attr_space d \<le> unat maxlen" "n + attr_space d \<le> length mem"
    using Cons.prems(2-4) a by auto
  from addattr_l_ok [OF Cons.prems(1) d, of t] obtain m1 where
    1: "addattr_l maxlen t d mem = Some (0, m1)" "length m1 = length mem" "message m1 off (xs @ [(t, d)]) (n + attr_space d)"
    by blast
  have "\<exists>mem'. addattrs maxlen ats m1 = Some (0, mem') \<and>
      message mem' off ((xs @ [(t, d)]) @ ats) (n + attr_space d + attrs_space ats)"
    by (rule Cons.IH [OF 1(3)]) (use Cons.prems(2-4) a 1(2) in auto)
  then show ?case using a 1(1) by (auto simp: add.assoc)
qed auto

text \<open>
  C31. What is appended with \<^verbatim>\<open>addattr_l\<close> is found by \<^verbatim>\<open>parse_rtattr\<close>: when the attributes fit, every call succeeds, the length field of the message grows by
  exactly their padded sizes, and the parse of the appended part succeeds, with the payload of the first attribute of each type
  up to the given one, and nothing for the other types.
\<close>

theorem addattr_parse_roundtrip:
  assumes "message mem n [] n" "\<forall>(t, d) \<in> set ats. length d < 65532"
    and "n + attrs_space ats \<le> unat maxlen" "n + attrs_space ats \<le> length mem"
  shows "\<exists>mem' tb. addattrs maxlen ats mem = Some (0, mem') \<and> get32 mem' 0 = Some (of_nat (n + attrs_space ats)) \<and>
           parse_rtattr maxtype mem' n (int (attrs_space ats)) = Some (0, tb) \<and> finds maxtype mem' tb ats"
proof -
  from addattrs_ok [OF assms] obtain mem' where
    m: "addattrs maxlen ats mem = Some (0, mem')" "message mem' n ats (n + attrs_space ats)" by auto
  have "attrs_at mem' n ats (n + attrs_space ats)" using m(2) by (simp add: message_def)
  from parse_rtattr_ok [OF this, of maxtype] obtain tb where
    "parse_rtattr maxtype mem' n (int (attrs_space ats)) = Some (0, tb)" "finds maxtype mem' tb ats" by auto
  with m(1) message_len(1) [OF m(2)] show ?thesis by blast
qed

lemma fresh_message: "message (bytes32 16 @ replicate 48 0) 16 [] 16"
  by (simp add: message_def bytes_at_def mem_get_def)

theorem addattr_parse_roundtrip_witness:
  "\<exists>mem' tb rta. addattrs 64 [(1, [116, 98, 102, 0]), (2, [7])] (bytes32 16 @ replicate 48 0) = Some (0, mem') \<and>
     parse_rtattr 2 mem' 16 16 = Some (0, tb) \<and> tb 2 = Some rta \<and> attr_payload mem' rta = Some [7]"
proof -
  let ?ats = "[(1, [116, 98, 102, 0]), (2, [7])] :: (u16 \<times> u8 list) list"
  have "\<forall>(t, d) \<in> set ?ats. length d < 65532" by simp
  moreover have sp: "attrs_space ?ats = 16" by (simp add: pad4_def)
  then have "16 + attrs_space ?ats \<le> unat (64 :: u32)"
    "16 + attrs_space ?ats \<le> length (bytes32 16 @ replicate 48 (0 :: u8))" by simp_all
  ultimately obtain mem' tb where r: "addattrs 64 ?ats (bytes32 16 @ replicate 48 0) = Some (0, mem')"
    "parse_rtattr 2 mem' 16 (int (attrs_space ?ats)) = Some (0, tb)" "finds 2 mem' tb ?ats"
    using addattr_parse_roundtrip [OF fresh_message, of ?ats 64 2] by blast
  from r(3) [unfolded finds_def, rule_format, of 2] obtain rta where "tb 2 = Some rta" "attr_payload mem' rta = Some [7]" by auto
  with r(1,2) sp show ?thesis by auto
qed

section \<open>Rate tables\<close>

lemma rtable_cell_log:
  assumes "unat mtu < 2 ^ 30"
  shows "unat mtu div 2 ^ cell_log_loop mtu 255 0 \<le> 255" "\<forall>j < cell_log_loop mtu 255 0. 255 < unat mtu div 2 ^ j"
    "cell_log_loop mtu 255 0 \<le> 22"
proof -
  let ?k = "cell_log_loop mtu 255 0"
  have l: "drop_bit ?k (unat mtu) \<le> 255" "\<forall>j < ?k. 255 < drop_bit j (unat mtu)"
    using cell_log_loop_least [of 0 255 mtu] by auto
  then show "unat mtu div 2 ^ ?k \<le> 255" and least: "\<forall>j < ?k. 255 < unat mtu div 2 ^ j" by (simp_all add: drop_bit_eq_div)
  show "?k \<le> 22"
  proof (rule ccontr)
    assume "\<not> ?k \<le> 22"
    then have "22 < ?k" by simp
    from least [rule_format, OF this] have "255 < unat mtu div 2 ^ 22" .
    moreover have "unat mtu div 2 ^ 22 < 256" by (rule less_mult_imp_div_less) (use assms in simp)
    ultimately show False by simp
  qed
qed

text \<open>The size on the link of a packet: at least the smallest packet unit, and on ATM the cells of 53 bytes for 48 bytes of payload.\<close>

definition wire_size :: "nat \<Rightarrow> u32 \<Rightarrow> nat \<Rightarrow> nat" where
  "wire_size mpu linklayer n = (if linklayer = LINKLAYER_ATM then 53 * ((max n mpu + 47) div 48) else max n mpu)"

lemma wire_size_mono: "m \<le> n \<Longrightarrow> wire_size mpu linklayer m \<le> wire_size mpu linklayer n"
  by (auto simp: wire_size_def intro!: div_le_mono mult_le_mono2)

lemma wire_size_bound:
  assumes "n \<le> 2 ^ 30" "mpu < 2 ^ 16"
  shows "wire_size mpu linklayer n < 2 ^ 31"
proof -
  have m: "max n mpu \<le> 2 ^ 30" using assms by simp
  then have "(max n mpu + 47) div 48 \<le> (2 ^ 30 + 47) div 48" by (intro div_le_mono add_right_mono)
  then show ?thesis using m by (simp add: wire_size_def)
qed

lemma wire_size_unat:
  assumes "n \<le> 2 ^ 30" "mpu < 2 ^ 16"
  shows "unat (of_nat (wire_size mpu linklayer n) :: u32) = wire_size mpu linklayer n"
  by (rule unat_of_nat_len) (use wire_size_bound [OF assms, of linklayer] in simp)

lemma cells_up: "(n :: nat) div 48 + (if 0 < n mod 48 then 1 else 0) = (n + 47) div 48"
proof -
  have "n + 47 = n mod 48 + 47 + n div 48 * 48" using div_mult_mod_eq [of n 48] by linarith
  then have "(n + 47) div 48 = n div 48 + (n mod 48 + 47) div 48" by (simp only: div_mult_self1)
  moreover have "(n mod 48 + 47) div 48 = (if 0 < n mod 48 then 1 else 0)" by (auto intro!: div_nat_eqI)
  ultimately show ?thesis by simp
qed

lemma adjust_size:
  assumes "n \<le> 2 ^ 30"
  shows "tc_adjust_size (of_nat n) (ucast (mpu :: u16)) linklayer = Some (of_nat (wire_size (unat mpu) linklayer n))"
proof -
  have u: "unat (of_nat n :: u32) = n" by (rule unat_of_nat_len) (use assms in simp)
  have mpu: "unat mpu < 2 ^ 16" "unat (ucast mpu :: u32) = unat mpu" using unsigned_less [of mpu, where ?'a = nat] by simp_all
  let ?m = "max n (unat mpu)"
  have m: "(if (of_nat n :: u32) < ucast mpu then ucast mpu else of_nat n) = (of_nat ?m :: u32)"
    unfolding word_less_nat_alt u mpu(2) by (simp add: max_def)
  have um: "unat (of_nat ?m :: u32) = ?m" by (rule unat_of_nat_len) (use assms mpu(1) in simp)
  have cells: "?m div 48 + (if 0 < ?m mod 48 then 1 else 0) = (?m + 47) div 48" by (rule cells_up)
  have "(?m + 47) div 48 * 53 < 2 ^ 31" if "linklayer = LINKLAYER_ATM"
    using wire_size_bound [OF assms mpu(1), of linklayer] that by (simp add: wire_size_def mult.commute)
  then show ?thesis unfolding tc_adjust_size_def m Let_def tc_align_to_atm_def um cells by (simp add: wire_size_def mult.commute)
qed

lemma cell_size_small:
  assumes "k \<le> 22" "i < 256"
  shows "cell_size k i = Some (of_nat ((i + 1) * 2 ^ k))" "(i + 1) * 2 ^ k \<le> 2 ^ 30"
proof -
  have "(i + 1) * 2 ^ k \<le> 256 * 2 ^ 22" using assms by (intro mult_mono power_increasing) simp_all
  then show b: "(i + 1) * 2 ^ k \<le> 2 ^ 30" by simp
  have "(2 :: nat) ^ 30 < 2 ^ 31" by simp
  from le_less_trans [OF b this] show "cell_size k i = Some (of_nat ((i + 1) * 2 ^ k))" using assms(1) by (simp add: cell_size_def Let_def)
qed

text \<open>The time on the link of a packet of \<open>n\<close> bytes.\<close>

definition wire_time :: "(rat \<Rightarrow> rat) \<Rightarrow> tc_clock \<Rightarrow> tc_ratespec \<Rightarrow> u32 \<Rightarrow> nat \<Rightarrow> u32 option" where
  "wire_time rnd c r linklayer n = tc_calc_xmittime rnd c (ucast (rs_rate r)) (of_nat (wire_size (unat (rs_mpu r)) linklayer n))"

lemma wire_time_mono:
  assumes "rounding rnd" "0 \<le> tick_in_usec c" "wire_time rnd c r linklayer n = Some v" "m \<le> n" "n \<le> 2 ^ 30"
  shows "\<exists>u. wire_time rnd c r linklayer m = Some u \<and> u \<le> v"
proof -
  have mpu: "unat (rs_mpu r) < 2 ^ 16" using unsigned_less [of "rs_mpu r", where ?'a = nat] by simp
  have "(of_nat (wire_size (unat (rs_mpu r)) linklayer m) :: u32) \<le> of_nat (wire_size (unat (rs_mpu r)) linklayer n)"
    unfolding word_le_nat_alt using wire_size_unat [OF _ mpu, of m linklayer] wire_size_unat [OF assms(5) mpu, of linklayer] wire_size_mono assms(4,5) by simp
  from xmittime_mono [OF assms(1,2) assms(3) [unfolded wire_time_def] this] show ?thesis by (simp add: wire_time_def)
qed

lemma rtable_entries:
  assumes "rounding rnd" "0 \<le> tick_in_usec c" "k = (if cell_log < 0 then cell_log_loop (if mtu = 0 then 2047 else mtu) 255 0 else nat cell_log)" "k \<le> 22"
    and "wire_time rnd c r linklayer (256 * 2 ^ k) = Some v"
  shows "\<exists>rtab. tc_calc_rtable rnd c r cell_log mtu linklayer =
             Some (int k, r\<lparr>rs_cell_align := -1, rs_cell_log := of_nat k, rs_linklayer := ucast (linklayer AND 15)\<rparr>, rtab) \<and>
           length rtab = 256 \<and> (\<forall>i < 256. wire_time rnd c r linklayer ((i + 1) * 2 ^ k) = Some (rtab ! i))"
proof -
  let ?f = "\<lambda>i. wire_time rnd c r linklayer ((i + 1) * 2 ^ k)"
  let ?g = "\<lambda>i. do { n \<leftarrow> cell_size k i; sz \<leftarrow> tc_adjust_size n (ucast (rs_mpu r)) linklayer; tc_calc_xmittime rnd c (ucast (rs_rate r)) sz }"
  have "256 * 2 ^ k \<le> (2 :: nat) ^ 30" using cell_size_small(2) [OF assms(4), of 255] by simp
  moreover have "(i + 1) * 2 ^ k \<le> 256 * (2 :: nat) ^ k" if "i < 256" for i by (rule mult_le_mono1) (use that in simp)
  ultimately have def: "\<exists>u. ?f i = Some u" if "i < 256" for i
    using wire_time_mono [OF assms(1,2,5), of "(i + 1) * 2 ^ k"] that by blast
  have g: "?g i = ?f i" if "i < 256" for i
    unfolding cell_size_small(1) [OF assms(4) that] bind.bind_lunit adjust_size [OF cell_size_small(2) [OF assms(4) that]] wire_time_def ..
  have "\<exists>rtab. collect ?g [0..<256] = Some rtab" by (rule collect_defined) (use g def in auto)
  then obtain rtab where rtab: "collect ?g [0..<256] = Some rtab" by blast
  then have len: "length rtab = 256" and nth: "\<forall>i < 256. ?g i = Some (rtab ! i)" by (simp_all add: collect_Some)
  have "tc_calc_rtable rnd c r cell_log mtu linklayer =
      Some (int k, r\<lparr>rs_cell_align := -1, rs_cell_log := of_nat k, rs_linklayer := ucast (linklayer AND 15)\<rparr>, rtab)"
    using rtab unfolding tc_calc_rtable_def Let_def assms(3) [symmetric] by simp
  then show ?thesis using len g nth by auto
qed

text \<open>
  C38. The rate table has 256 entries, for the sizes up to 256 cells. An entry is the transmission time of its size as it is on the link, with the smallest packet unit and the cells of ATM, and
  the times do not decrease with the size. When no cell size is given, it is the least power of two with which the largest packet, 2047 bytes
  by default, fits the table; then the entry of a packet, at its length divided by the cell size, is at least the transmission time of the packet. The
  calculation is defined as soon as the time of the largest size can be represented, for packets of less than \<open>2^30\<close> bytes and cells of at most \<open>2^22\<close>; the clock is not negative.
\<close>

theorem tc_calc_rtable_correct:
  assumes "rounding rnd" "0 \<le> tick_in_usec c" "m = (if mtu = 0 then 2047 else mtu)" "unat m < 2 ^ 30"
    and "k = (if cell_log < 0 then cell_log_loop m 255 0 else nat cell_log)" "cell_log \<le> 22" "wire_time rnd c r linklayer (256 * 2 ^ k) = Some v"
  shows "\<exists>r' rtab. tc_calc_rtable rnd c r cell_log mtu linklayer = Some (int k, r', rtab) \<and> length rtab = 256 \<and>
           (\<forall>i < 256. wire_time rnd c r linklayer ((i + 1) * 2 ^ k) = Some (rtab ! i)) \<and>
           (\<forall>i j. i \<le> j \<and> j < 256 \<longrightarrow> rtab ! i \<le> rtab ! j) \<and>
           (cell_log < 0 \<longrightarrow> unat m div 2 ^ k \<le> 255 \<and> (\<forall>j < k. 255 < unat m div 2 ^ j) \<and>
              (\<forall>n \<le> unat m. \<exists>t. wire_time rnd c r linklayer n = Some t \<and> t \<le> rtab ! (n div 2 ^ k))) \<and>
           r' = r\<lparr>rs_cell_align := -1, rs_cell_log := of_nat k, rs_linklayer := ucast (linklayer AND 15)\<rparr>"
proof -
  note l = rtable_cell_log [OF assms(4)]
  have k: "k \<le> 22" using assms(5,6) l(3) by (simp split: if_splits)
  from rtable_entries [OF assms(1,2) assms(5) [unfolded assms(3)] k assms(7)] obtain rtab where
    r: "tc_calc_rtable rnd c r cell_log mtu linklayer =
      Some (int k, r\<lparr>rs_cell_align := -1, rs_cell_log := of_nat k, rs_linklayer := ucast (linklayer AND 15)\<rparr>, rtab)" "length rtab = 256"
    "\<forall>i < 256. wire_time rnd c r linklayer ((i + 1) * 2 ^ k) = Some (rtab ! i)" by auto
  have below: "\<exists>t. wire_time rnd c r linklayer n = Some t \<and> t \<le> rtab ! j" if "n \<le> (j + 1) * 2 ^ k" "j < 256" for n j
    using wire_time_mono [OF assms(1,2) r(3) [rule_format, OF that(2)] that(1) cell_size_small(2) [OF k that(2)]] .
  have mono: "rtab ! i \<le> rtab ! j" if "i \<le> j" "j < 256" for i j
  proof -
    have "(i + 1) * 2 ^ k \<le> (j + 1) * 2 ^ k" by (rule mult_le_mono1) (use that in simp)
    from below [OF this that(2)] r(3) [rule_format, of i] that show ?thesis by fastforce
  qed
  have entry: "\<exists>t. wire_time rnd c r linklayer n = Some t \<and> t \<le> rtab ! (n div 2 ^ k)" if "cell_log < 0" "n \<le> unat m" for n
  proof (rule below)
    have "n div 2 ^ k \<le> unat m div 2 ^ k" using that(2) by (rule div_le_mono)
    then show "n div 2 ^ k < 256" using l(1) assms(5) that(1) by simp
    show "n \<le> (n div 2 ^ k + 1) * 2 ^ k" using dividend_less_div_times [of "2 ^ k" n] by (simp add: add.commute)
  qed
  have "unat m div 2 ^ k \<le> 255 \<and> (\<forall>j < k. 255 < unat m div 2 ^ j)" if "cell_log < 0" using l(1,2) assms(5) that by simp
  with r mono entry show ?thesis by blast
qed

lemma rounding_id: "rounding (\<lambda>x. x)"
  by (simp add: rounding_def)

definition demo_clock :: tc_clock where
  "demo_clock = \<lparr>tick_in_usec = 1, clock_factor = 1\<rparr>"

definition demo_ratespec :: tc_ratespec where
  "demo_ratespec = \<lparr>rs_cell_log = 0, rs_linklayer = 0, rs_overhead = 0, rs_cell_align = 0, rs_mpu = 0, rs_rate = 1000000\<rparr>"

lemma demo_cell_log: "cell_log_loop 2047 255 0 = 3"
  by (simp add: cell_log_loop.simps drop_bit_eq_div)

lemma demo_default_cell: "3 = (if (-1 :: int) < 0 then cell_log_loop (if (0 :: u32) = 0 then 2047 else 0) 255 0 else nat (-1))"
  unfolding if_P [OF refl] demo_cell_log by simp

text \<open>The witness: no largest packet is given, the smallest unit is 64 bytes, and the link is ATM.\<close>

theorem tc_calc_rtable_correct_witness:
  "\<exists>r' rtab t. tc_calc_rtable (\<lambda>x. x) demo_clock (demo_ratespec\<lparr>rs_mpu := 64\<rparr>) (-1) 0 2 = Some (3, r', rtab) \<and> length rtab = 256 \<and>
     wire_time (\<lambda>x. x) demo_clock (demo_ratespec\<lparr>rs_mpu := 64\<rparr>) 2 1500 = Some t \<and> t \<le> rtab ! 187"
proof -
  let ?r = "demo_ratespec\<lparr>rs_mpu := 64\<rparr>" and ?m = "if (0 :: u32) = 0 then 2047 else 0 :: u32"
  have t: "wire_time (\<lambda>x. x) demo_clock ?r 2 (256 * 2 ^ 3) = Some 2279"
    by (simp add: wire_time_def wire_size_def tc_calc_xmittime_def tc_core_time2tick_def to_u32_def to_unsigned_def demo_clock_def demo_ratespec_def)
  have side: "0 \<le> tick_in_usec demo_clock" "unat ?m < 2 ^ 30" "(-1 :: int) \<le> 22" by (simp_all add: demo_clock_def)
  from tc_calc_rtable_correct [OF rounding_id side(1) refl side(2) demo_default_cell side(3) t] obtain r' rtab where
    r: "tc_calc_rtable (\<lambda>x. x) demo_clock ?r (-1) 0 2 = Some (int 3, r', rtab)" "length rtab = 256"
    "\<forall>n \<le> unat ?m. \<exists>t. wire_time (\<lambda>x. x) demo_clock ?r 2 n = Some t \<and> t \<le> rtab ! (n div 2 ^ 3)" by auto
  from r(3) [rule_format, of 1500] obtain t where "wire_time (\<lambda>x. x) demo_clock ?r 2 1500 = Some t" "t \<le> rtab ! 187" by auto
  with r(1,2) show ?thesis by auto
qed

section \<open>Requests\<close>

text \<open>Fields of the fixed headers lie before the attributes.\<close>

lemma message_put_header:
  assumes "message mem off ats n" "36 \<le> off" "4 \<le> p" "p + length bs \<le> 36"
  shows "\<exists>mem'. mem_put p bs mem = Some mem' \<and> message mem' off ats n \<and> length mem' = length mem"
proof -
  have "off \<le> n" using assms(1) attrs_at_le by (auto simp: message_def)
  then have "p + length bs \<le> length mem" using assms(1,2,4) by (auto simp: message_def)
  then obtain mem' where m: "mem_put p bs mem = Some mem'" using mem_put_Some by blast
  have "bytes_at mem' 0 (bytes32 (of_nat n))" by (rule bytes_at_other [OF _ m]) (use assms(1,3) in \<open>auto simp: message_def\<close>)
  moreover have "attrs_at mem' off ats n" by (rule attrs_at_other [OF _ m]) (use assms in \<open>auto simp: message_def\<close>)
  ultimately show ?thesis using m assms(1) length_mem_put [OF m] by (auto simp: message_def)
qed

lemma message_start:
  assumes "36 \<le> length mem" "length mem < 2 ^ 31"
  shows "\<exists>mem'. mem_put 0 (bytes32 36) mem = Some mem' \<and> message mem' 36 [] 36 \<and> length mem' = length mem"
proof -
  obtain mem' where m: "mem_put 0 (bytes32 36) mem = Some mem'" using mem_put_Some [of 0 "bytes32 36" mem] assms(1) by auto
  with bytes_at_put [OF m] length_mem_put [OF m] assms show ?thesis by (auto simp: message_def)
qed

text \<open>Opening a nest, adding attributes and closing it.\<close>

lemma nest_open:
  assumes "message mem off ats n" "n + 4 \<le> unat maxlen" "n + 4 \<le> length mem"
  shows "\<exists>mem'. addattr_nest maxlen t mem = Some (n, mem') \<and> length mem' = length mem \<and> message mem' (n + 4) [] (n + 4) \<and>
           attrs_at mem' off ats n \<and> bytes_at mem' (n + 2) (bytes16 t)"
proof -
  have sp: "attr_space ([] :: u8 list) = 4" by (simp add: pad4_def)
  from addattr_l_ok [OF assms(1), of "[]" maxlen t] assms(2,3) obtain m1 where
    1: "addattr_l maxlen t [] mem = Some (0, m1)" "length m1 = length mem" "message m1 off (ats @ [(t, [])]) (n + 4)"
    "bytes_at m1 n (attr_bytes t [])" unfolding sp by auto
  have "attrs_at m1 off ats n" using 1(3) by (auto simp: message_def attrs_at_append sp)
  moreover have "message m1 (n + 4) [] (n + 4)" using 1(3) attrs_at_le by (fastforce simp: message_def)
  moreover have "bytes_at m1 (n + 2) (bytes16 t)" using 1(4) by (simp add: attr_bytes_def bytes_at_append del: add_2_eq_Suc')
  ultimately show ?thesis using 1(1,2) message_len(3) [OF assms(1)] by (simp add: addattr_nest_def)
qed

definition nested :: "u8 list \<Rightarrow> nat \<Rightarrow> (u16 \<times> u8 list) list \<Rightarrow> nat \<Rightarrow> u16 \<Rightarrow> (u16 \<times> u8 list) list \<Rightarrow> nat \<Rightarrow> bool" where
  "nested mem off ats nest t inner n \<longleftrightarrow>
     message mem (nest + 4) inner n \<and> 4 \<le> off \<and> 4 dvd nest \<and> attrs_at mem off ats nest \<and> bytes_at mem (nest + 2) (bytes16 t)"

lemma nested_add:
  assumes "nested mem off ats nest t inner n" "length d < 65532" "n + attr_space d \<le> unat maxlen" "n + attr_space d \<le> length mem"
  shows "\<exists>mem'. addattr_l maxlen ty d mem = Some (0, mem') \<and> length mem' = length mem \<and>
           nested mem' off ats nest t (inner @ [(ty, d)]) (n + attr_space d)"
proof -
  have m: "message mem (nest + 4) inner n" "4 \<le> off" "attrs_at mem off ats nest" "bytes_at mem (nest + 2) (bytes16 t)"
    using assms(1) by (simp_all add: nested_def)
  have le: "nest + 4 \<le> n" "off \<le> nest" using m(1,3) attrs_at_le by (auto simp: message_def)
  from addattr_l_ok [OF m(1) assms(2-4), of ty] obtain mem' where
    r: "addattr_l maxlen ty d mem = Some (0, mem')" "length mem' = length mem"
    "message mem' (nest + 4) (inner @ [(ty, d)]) (n + attr_space d)"
    "\<forall>o1 b1. bytes_at mem o1 b1 \<and> 4 \<le> o1 \<and> o1 + length b1 \<le> n \<longrightarrow> bytes_at mem' o1 b1"
    "\<forall>o1 as1 e. attrs_at mem o1 as1 e \<and> 4 \<le> o1 \<and> e \<le> n \<longrightarrow> attrs_at mem' o1 as1 e" by blast
  have "attrs_at mem' off ats nest" using r(5) m(2,3) le by (meson add_leE)
  moreover have "bytes_at mem' (nest + 2) (bytes16 t)" using r(4) [rule_format, of "nest + 2" "bytes16 t"] m(2,4) le by simp
  ultimately show ?thesis using r(1-3) assms(1) by (auto simp: nested_def)
qed

lemma nested_end:
  assumes n: "nested mem off ats nest t inner n" and small: "n - nest < 65536"
  shows "\<exists>mem' d. addattr_nest_end nest mem = Some (of_nat n, mem') \<and> length mem' = length mem \<and>
           message mem' off (ats @ [(t, d)]) n \<and> attrs_at mem' (nest + 4) inner n \<and> length d = n - nest - 4"
proof -
  have m: "message mem (nest + 4) inner n" "4 \<le> off" "attrs_at mem off ats nest" "bytes_at mem (nest + 2) (bytes16 t)"
    using n by (simp_all add: nested_def)
  have le: "nest + 4 \<le> n" "off \<le> nest" "n \<le> length mem" "4 dvd n" using m(1,3) attrs_at_le by (auto simp: message_def)
  let ?l = "bytes16 (of_nat (n - nest))"
  obtain m1 where 1: "mem_put nest ?l mem = Some m1" using mem_put_Some [of nest ?l mem] le by auto
  note l1 = length_mem_put [OF 1]
  have inner: "attrs_at m1 (nest + 4) inner n" "attrs_at m1 off ats nest"
    by (rule attrs_at_other [OF _ 1], use m in \<open>simp_all add: message_def\<close>)+
  have hdr: "bytes_at m1 0 (bytes32 (of_nat n))" "bytes_at m1 (nest + 2) (bytes16 t)"
    by (rule bytes_at_other [OF _ 1], use m le in \<open>simp_all add: message_def\<close>)+
  let ?d = "take (n - nest - 4) (drop (nest + 4) m1)"
  have d: "length ?d = n - nest - 4" using le l1 by simp
  have "bytes_at m1 (nest + 4) ?d" using le l1 by (simp add: bytes_at_def mem_get_def)
  moreover have "4 + length ?d = n - nest" using d le by simp
  ultimately have "bytes_at m1 nest (attr_bytes t ?d)"
    using bytes_at_put [OF 1] hdr(2) unfolding attr_bytes_def bytes_at_append length_bytes
    by (simp add: add.assoc del: add_2_eq_Suc')
  moreover have "nest + attr_space ?d = n"
  proof -
    have "4 dvd n - nest" using le(4) n by (auto simp: nested_def intro: dvd_diff_nat)
    then show ?thesis using \<open>4 + length ?d = n - nest\<close> le by simp
  qed
  ultimately have "attrs_at m1 off (ats @ [(t, ?d)]) n" using inner(2) small d le by (auto simp: attrs_at_append)
  then have msg: "message m1 off (ats @ [(t, ?d)]) n" using hdr(1) m(1,2) l1 by (simp add: message_def)
  have "int n - int nest = int (n - nest)" using le by simp
  then have "addattr_nest_end nest mem = Some (of_nat n, m1)"
    using message_len(3) [OF m(1)] 1 message_len(1) [OF msg] by (simp add: addattr_nest_end_def)
  then show ?thesis using l1 msg inner(1) d by blast
qed

lemma nested_open:
  assumes "message mem off ats n" "n + 4 \<le> unat maxlen" "n + 4 \<le> length mem"
  shows "\<exists>mem'. addattr_nest maxlen t mem = Some (n, mem') \<and> length mem' = length mem \<and> nested mem' off ats n t [] (n + 4)"
  using nest_open [OF assms, of t] assms(1) by (auto simp: nested_def message_def)

text \<open>The parse of a nest.\<close>

lemma parse_nested_ok:
  assumes "message mem off (ats @ [(t, d)]) n" "attrs_at mem off ats nest" "attrs_at mem (nest + 4) inner n" "length d = n - nest - 4"
  shows "\<exists>tb. parse_rtattr_nested maxtype mem nest = Some (0, tb) \<and> finds maxtype mem tb inner"
proof -
  have e: "attrs_at mem nest [(t, d)] n"
  proof -
    obtain k where k: "attrs_at mem off ats k" "attrs_at mem k [(t, d)] n" using assms(1) by (auto simp: message_def attrs_at_append)
    have "attrs_at mem off ats a \<Longrightarrow> attrs_at mem off ats b \<Longrightarrow> a = b" for a b
      by (induction mem off ats a rule: attrs_at.induct) auto
    with k assms(2) show ?thesis by blast
  qed
  then have h: "bytes_at mem nest (attr_bytes t d)" "length d < 65532" by auto
  have le: "nest + 4 \<le> n" by (rule attrs_at_le [OF assms(3)])
  have "rta_payload mem nest = Some (int n - int (nest + 4))"
  proof -
    have "uint (of_nat (4 + length d) :: u16) = int (unat (of_nat (4 + length d) :: u16))" by simp
    also have "\<dots> = int (4 + length d)" unfolding attr_header(2) [OF h] by (rule refl)
    finally have u: "uint (of_nat (4 + length d) :: u16) = int (4 + length d)" .
    show ?thesis unfolding rta_payload_def attr_header(1) [OF h] option.map u using assms(4) le by simp
  qed
  then show ?thesis using parse_rtattr_ok [OF assms(3), of maxtype] by (simp add: parse_rtattr_nested_def)
qed

text \<open>The attributes of a token bucket request.\<close>

definition tbf_attr_list :: "u64 \<Rightarrow> tc_tbf_qopt \<Rightarrow> u32 list \<Rightarrow> (u16 \<times> u8 list) list" where
  "tbf_attr_list rate64 opt rtab =
     [(1, qopt_bytes opt), (6, bytes32 50000)] @ (if 2 ^ 32 \<le> rate64 then [(4, bytes64 rate64)] else []) @ [(2, rtab_bytes rtab)]"

lemma length_rtab_bytes: "length (rtab_bytes rtab) = 4 * length rtab"
  by (induction rtab) (simp_all add: rtab_bytes_def)

definition tbf_request_len :: "u64 \<Rightarrow> nat" where
  "tbf_request_len rate64 = (if 2 ^ 32 \<le> rate64 then 1136 else 1124)"

lemma tbf_attributes_ok:
  assumes msg: "message mem 36 [(1, k)] 44" and len: "length mem = sizeof_req" and rtab: "length rtab = 256"
  shows "\<exists>mem' d. tbf_attributes rate64 opt rtab mem = Some mem' \<and> length mem' = sizeof_req \<and>
           message mem' 36 [(1, k), (2, d)] (tbf_request_len rate64) \<and> attrs_at mem' 36 [(1, k)] 44 \<and>
           attrs_at mem' 48 (tbf_attr_list rate64 opt rtab) (tbf_request_len rate64) \<and> length d = tbf_request_len rate64 - 48"
proof -
  let ?n = "tbf_request_len rate64"
  have big: "1136 \<le> length mem" using len by (simp add: sizeof_req_def)
  have "\<exists>mem'. addattr_nest 1024 2 mem = Some (44, mem') \<and> length mem' = length mem \<and> nested mem' 36 [(1, k)] 44 2 [] 48"
    using nested_open [OF msg, of 1024 2] big by simp
  then obtain m0 where 0: "addattr_nest 1024 2 mem = Some (44, m0)" "length m0 = length mem" "nested m0 36 [(1, k)] 44 2 [] 48" by blast
  have "\<exists>mem'. addattr_l 2024 1 (qopt_bytes opt) m0 = Some (0, mem') \<and> length mem' = length m0 \<and>
      nested mem' 36 [(1, k)] 44 2 [(1, qopt_bytes opt)] 88"
    using nested_add [OF 0(3), of "qopt_bytes opt" 2024 1] 0(2) big by (simp add: pad4_def)
  then obtain m1 where 1: "addattr_l 2024 1 (qopt_bytes opt) m0 = Some (0, m1)" "length m1 = length m0"
    "nested m1 36 [(1, k)] 44 2 [(1, qopt_bytes opt)] 88" by blast
  have "\<exists>mem'. addattr_l 2124 6 (bytes32 50000) m1 = Some (0, mem') \<and> length mem' = length m1 \<and>
      nested mem' 36 [(1, k)] 44 2 [(1, qopt_bytes opt), (6, bytes32 50000)] 96"
    using nested_add [OF 1(3), of "bytes32 50000" 2124 6] 0(2) 1(2) big by (simp add: pad4_def)
  then obtain m2 where 2: "addattr_l 2124 6 (bytes32 50000) m1 = Some (0, m2)" "length m2 = length m1"
    "nested m2 36 [(1, k)] 44 2 [(1, qopt_bytes opt), (6, bytes32 50000)] 96" by blast
  let ?opt64 = "if 2 ^ 32 \<le> rate64 then [(4, bytes64 rate64)] else [] :: (u16 \<times> u8 list) list"
  have "\<exists>mem'. (if 2 ^ 32 \<le> rate64 then addattr_l 2124 4 (bytes64 rate64) m2 else Some (0, m2)) = Some (0, mem') \<and> length mem' = length m2 \<and>
      nested mem' 36 [(1, k)] 44 2 ([(1, qopt_bytes opt), (6, bytes32 50000)] @ ?opt64) (?n - 1028)"
    using nested_add [OF 2(3), of "bytes64 rate64" 2124 4] 2(3) 0(2) 1(2) 2(2) big by (simp add: pad4_def tbf_request_len_def)
  then obtain m3 where 3: "(if 2 ^ 32 \<le> rate64 then addattr_l 2124 4 (bytes64 rate64) m2 else Some (0, m2)) = Some (0, m3)"
    "length m3 = length m2" "nested m3 36 [(1, k)] 44 2 ([(1, qopt_bytes opt), (6, bytes32 50000)] @ ?opt64) (?n - 1028)" by blast
  have n: "1028 \<le> ?n" "?n \<le> 1136" by (simp_all add: tbf_request_len_def)
  have sp: "attr_space (rtab_bytes rtab) = 1028" using rtab by (simp add: length_rtab_bytes pad4_def)
  have "\<exists>mem'. addattr_l 3024 2 (rtab_bytes rtab) m3 = Some (0, mem') \<and> length mem' = length m3 \<and>
      nested mem' 36 [(1, k)] 44 2 (([(1, qopt_bytes opt), (6, bytes32 50000)] @ ?opt64) @ [(2, rtab_bytes rtab)]) (?n - 1028 + attr_space (rtab_bytes rtab))"
    by (rule nested_add [OF 3(3)]) (use sp n 0(2) 1(2) 2(2) 3(2) big rtab in \<open>simp_all add: length_rtab_bytes\<close>)
  then obtain m4 where 4: "addattr_l 3024 2 (rtab_bytes rtab) m3 = Some (0, m4)" "length m4 = length m3"
    "nested m4 36 [(1, k)] 44 2 (tbf_attr_list rate64 opt rtab) ?n" using sp n by (auto simp: tbf_attr_list_def)
  have "?n - 44 < 65536" using n(2) by linarith
  from nested_end [OF 4(3) this] obtain m5 d where 5: "addattr_nest_end 44 m4 = Some (of_nat ?n, m5)" "length m5 = length m4"
    "message m5 36 ([(1, k)] @ [(2, d)]) ?n" "attrs_at m5 (44 + 4) (tbf_attr_list rate64 opt rtab) ?n" "length d = ?n - 44 - 4" by auto
  have "tbf_attributes rate64 opt rtab mem = Some m5"
    unfolding tbf_attributes_def 0(1) bind.bind_lunit prod.case 1(1) 2(1) 3(1) 4(1) 5(1) by (rule refl)
  moreover have "attrs_at m5 36 [(1, k)] 44"
  proof -
    have "attr_space k = 8" using msg by (simp add: message_def)
    then show ?thesis using 5(3) by (simp add: message_def)
  qed
  ultimately show ?thesis using 5 0(2) 1(2) 2(2) 3(2) 4(2) len by auto
qed

lemma start_request_ok:
  assumes "length mem = sizeof_req" "attr_space (c_string kind) + 36 \<le> 64"
  shows "\<exists>mem'. start_request kind mem = Some mem' \<and> length mem' = sizeof_req \<and>
           message mem' 36 [(1, c_string kind)] (36 + attr_space (c_string kind))"
proof -
  have big: "36 \<le> length mem" "length mem < 2 ^ 31" "64 \<le> length mem" using assms(1) by (simp_all add: sizeof_req_def)
  from message_start [OF big(1,2)] obtain m0 where
    0: "mem_put 0 (bytes32 36) mem = Some m0" "message m0 36 [] 36" "length m0 = length mem" by blast
  have small: "length (c_string kind) < 65532" using assms(2) pad4_simps(1) [of "4 + length (c_string kind)"] by linarith
  have max: "unat (of_nat sizeof_req :: u32) = sizeof_req" by (rule unat_of_nat_len) (simp add: sizeof_req_def)
  have "\<exists>mem'. addattr_l (of_nat sizeof_req) 1 (c_string kind) m0 = Some (0, mem') \<and> length mem' = length m0 \<and>
      message mem' 36 ([] @ [(1, c_string kind)]) (36 + attr_space (c_string kind))"
    using addattr_l_ok [OF 0(2) small, of "of_nat sizeof_req" 1] max 0(3) big(3) assms by auto
  then show ?thesis using 0(1,3) assms(1) by (auto simp: start_request_def)
qed

lemma tbf_options_SomeD:
  assumes "tbf_options rnd c rate64 opt = Some (k, opt', rtab)"
  shows "0 \<le> k" "length rtab = 256" "rs_rate (qopt_rate opt') = (if 2 ^ 32 \<le> rate64 then -1 else ucast rate64)"
    "qopt_peakrate opt' = qopt_peakrate opt" "qopt_limit opt' = qopt_limit opt" "rs_linklayer (qopt_rate opt') = 1"
  using assms by (auto simp: tbf_options_def tc_calc_rtable_def Let_def collect_Some split: Option.bind_splits)

text \<open>The rates of \<^verbatim>\<open>tbf.c\<close> in bytes per second.\<close>

lemma tbf_rates: "unat (drop_bit 3 (tbf_bws i)) = (if i = 0 then 625000000 else 125000000)"
proof -
  have "drop_bit 3 (5000000000 :: u64) = 625000000" "drop_bit 3 (1000000000 :: u64) = 125000000" by code_simp+
  then show ?thesis by (simp add: tbf_bws_def)
qed

text \<open>What a round of \<^verbatim>\<open>tbf.c\<close> leaves in its buffer: two attributes, the second of which holds the options.\<close>

lemma tbf_build_ok:
  assumes "length (tc_mem s) = sizeof_req"
    and "tbf_options rnd c (drop_bit 3 (tbf_bws (1 - tc_index s))) (tc_opt s) = Some (k, opt, rtab)"
  obtains m d where "tbf_build rnd c idx1 s = Some (0, s\<lparr>tc_index := 1 - tc_index s, tc_opt := opt, tc_mem := m\<rparr>)"
    "length m = sizeof_req" "message m 36 [(1, c_string ''tbf''), (2, d)] 1124" "attrs_at m 36 [(1, c_string ''tbf'')] 44"
    "attrs_at m 48 [(1, qopt_bytes opt), (6, bytes32 50000), (2, rtab_bytes rtab)] 1124" "length d = 1076"
    "unat (rs_rate (qopt_rate opt)) = (if tc_index s = 0 then 125000000 else 625000000)"
proof -
  let ?rate = "drop_bit 3 (tbf_bws (1 - tc_index s))"
  have rate: "unat ?rate = (if tc_index s = 0 then 125000000 else 625000000)" unfolding tbf_rates by simp
  then have low: "\<not> 2 ^ 32 \<le> ?rate" by (simp add: word_le_nat_alt)
  note o = tbf_options_SomeD [OF assms(2)]
  have 32: "unat (rs_rate (qopt_rate opt)) = (if tc_index s = 0 then 125000000 else 625000000)"
    unfolding o(3) if_not_P [OF low] using rate unat_ucast_less [of ?rate, where ?'b = 32] by simp
  obtain m0 where 0: "set_ifindex idx1 (tc_mem s) = Some m0" "length m0 = sizeof_req"
    using mem_put_Some [of 20 "bytes32 idx1" "tc_mem s"] length_mem_put assms(1)
    by (fastforce simp: set_ifindex_def sizeof_req_def)
  have sp: "attr_space (c_string ''tbf'') = 8" by (simp add: c_string_def pad4_def)
  from start_request_ok [OF 0(2), of "''tbf''"] obtain m1 where
    1: "start_request ''tbf'' m0 = Some m1" "length m1 = sizeof_req" "message m1 36 [(1, c_string ''tbf'')] 44" unfolding sp by auto
  have n: "tbf_request_len ?rate = 1124" unfolding tbf_request_len_def if_not_P [OF low] by (rule refl)
  have al: "tbf_attr_list ?rate opt rtab = [(1, qopt_bytes opt), (6, bytes32 50000), (2, rtab_bytes rtab)]"
    unfolding tbf_attr_list_def if_not_P [OF low] by simp
  from tbf_attributes_ok [OF 1(3,2) o(2), of ?rate opt] obtain m2 d where
    2: "tbf_attributes ?rate opt rtab m1 = Some m2" "length m2 = sizeof_req"
    "message m2 36 [(1, c_string ''tbf''), (2, d)] 1124" "attrs_at m2 36 [(1, c_string ''tbf'')] 44"
    "attrs_at m2 48 [(1, qopt_bytes opt), (6, bytes32 50000), (2, rtab_bytes rtab)] 1124" "length d = 1124 - 48"
    unfolding n al by blast
  have "tbf_build rnd c idx1 s = Some (0, s\<lparr>tc_index := 1 - tc_index s, tc_opt := opt, tc_mem := m2\<rparr>)"
    using 0(1) 1(1) 2(1) assms(2) o(1) by (simp add: tbf_build_def Let_def)
  from that [OF this 2(2-5) _ 32] 2(6) show thesis by simp
qed

text \<open>
  C30. A round of \<^verbatim>\<open>tbf.c\<close> builds a request that fits its buffer and that says what it should: the message is 1124 bytes long, its attributes are the kind
  \<^verbatim>\<open>tbf\<close> and the options, and the options hold the parameters, the burst of 50000 bytes and the rate table, whatever the buffer held before. The rate alternates between
  625000000 and 125000000 bytes per second.
\<close>

theorem tbf_build_request:
  assumes "length (tc_mem s) = sizeof_req"
    and "tbf_options rnd c (drop_bit 3 (tbf_bws (1 - tc_index s))) (tc_opt s) = Some (k, opt, rtab)"
  shows "\<exists>s' tb. tbf_build rnd c idx1 s = Some (0, s') \<and> tc_index s' = 1 - tc_index s \<and> length (tc_mem s') = sizeof_req \<and>
           get32 (tc_mem s') 0 = Some 1124 \<and>
           parse_rtattr 2 (tc_mem s') 36 1088 = Some (0, [1 \<mapsto> 36, 2 \<mapsto> 44]) \<and>
           attr_payload (tc_mem s') 36 = Some (c_string ''tbf'') \<and>
           parse_rtattr_nested 8 (tc_mem s') 44 = Some (0, tb) \<and>
           finds 8 (tc_mem s') tb [(1, qopt_bytes opt), (6, bytes32 50000), (2, rtab_bytes rtab)] \<and>
           unat (rs_rate (qopt_rate opt)) = (if tc_index s = 0 then 125000000 else 625000000)"
proof -
  obtain m d where m: "tbf_build rnd c idx1 s = Some (0, s\<lparr>tc_index := 1 - tc_index s, tc_opt := opt, tc_mem := m\<rparr>)"
    "length m = sizeof_req" "message m 36 [(1, c_string ''tbf''), (2, d)] 1124" "attrs_at m 36 [(1, c_string ''tbf'')] 44"
    "attrs_at m 48 [(1, qopt_bytes opt), (6, bytes32 50000), (2, rtab_bytes rtab)] 1124" "length d = 1076"
    "unat (rs_rate (qopt_rate opt)) = (if tc_index s = 0 then 125000000 else 625000000)"
    by (rule tbf_build_ok [OF assms])
  have sp: "attr_space (c_string ''tbf'') = 8" by (simp add: c_string_def pad4_def)
  have "attrs_at m 36 [(1, c_string ''tbf''), (2, d)] 1124" using m(3) by (simp add: message_def)
  from parse_loop_ok [OF this, of 2 "\<lambda>_. None"] have "parse_rtattr 2 m 36 1088 = Some (0, [1 \<mapsto> 36, 2 \<mapsto> 44])"
    by (simp add: parse_rtattr_def parse_rtattr_flags_def report_deficit_def sp)
  moreover have "attr_payload m 36 = Some (c_string ''tbf'')" by (rule attr_payload_ok) (use m(4) in auto)
  moreover have "\<exists>tb. parse_rtattr_nested 8 m 44 = Some (0, tb) \<and>
      finds 8 m tb [(1, qopt_bytes opt), (6, bytes32 50000), (2, rtab_bytes rtab)]"
    by (rule parse_nested_ok [where off = 36 and ats = "[(1, c_string ''tbf'')]" and t = 2 and d = d and n = 1124])
      (use m(3-6) in simp_all)
  then obtain tb where "parse_rtattr_nested 8 m 44 = Some (0, tb)"
    "finds 8 m tb [(1, qopt_bytes opt), (6, bytes32 50000), (2, rtab_bytes rtab)]" by blast
  ultimately show ?thesis using m(1,2,7) message_len(1) [OF m(3)] by auto
qed

definition demo_ctl :: tbf_ctl where
  "demo_ctl = \<lparr>tc_index = 1,
     tc_opt = \<lparr>qopt_rate = zero_ratespec, qopt_peakrate = zero_ratespec, qopt_limit = 151400, qopt_buffer = 0, qopt_mtu = 0\<rparr>,
     tc_mem = new_request\<rparr>"

lemma demo_options:
  "\<exists>k opt rtab. tbf_options (\<lambda>x. x) demo_clock (drop_bit 3 (tbf_bws (1 - tc_index demo_ctl))) (tc_opt demo_ctl) = Some (k, opt, rtab)"
proof -
  let ?r = "zero_ratespec\<lparr>rs_rate := 625000000\<rparr>"
  have rate: "drop_bit 3 (tbf_bws (1 - tc_index demo_ctl)) = (625000000 :: u64)"
    using tbf_rates [of "1 - tc_index demo_ctl"] by (simp add: demo_ctl_def word_unat_eq_iff)
  have fl: "\<lfloor>2048 / 625 :: rat\<rfloor> = 3" by (simp add: floor_eq_iff)
  have t: "tc_calc_xmittime (\<lambda>x. x) demo_clock 625000000 2048 = Some 3" "tc_calc_xmittime (\<lambda>x. x) demo_clock 625000000 50000 = Some 80"
    by (simp_all add: tc_calc_xmittime_def tc_core_time2tick_def to_u32_def to_unsigned_def demo_clock_def fl)
  have w: "wire_time (\<lambda>x. x) demo_clock ?r 1 (256 * 2 ^ 3) = Some 3" using t(1) by (simp add: wire_time_def wire_size_def zero_ratespec_def)
  have side: "0 \<le> tick_in_usec demo_clock" "(3 :: nat) \<le> 22" by (simp_all add: demo_clock_def)
  have "\<exists>k rs rtab. tc_calc_rtable (\<lambda>x. x) demo_clock ?r (-1) 0 1 = Some (k, rs, rtab)"
    using rtable_entries [OF rounding_id side(1) demo_default_cell side(2) w] by blast
  then show ?thesis unfolding rate using t(2) by (auto simp: tbf_options_def demo_ctl_def Let_def)
qed

theorem tbf_build_request_witness:
  "\<exists>s' opt rtab tb. tbf_build (\<lambda>x. x) demo_clock 5 demo_ctl = Some (0, s') \<and> get32 (tc_mem s') 0 = Some 1124 \<and>
     parse_rtattr_nested 8 (tc_mem s') 44 = Some (0, tb) \<and>
     finds 8 (tc_mem s') tb [(1, qopt_bytes opt), (6, bytes32 50000), (2, rtab_bytes rtab)] \<and> unat (rs_rate (qopt_rate opt)) = 625000000"
proof -
  obtain k opt rtab where o: "tbf_options (\<lambda>x. x) demo_clock (drop_bit 3 (tbf_bws (1 - tc_index demo_ctl))) (tc_opt demo_ctl) = Some (k, opt, rtab)"
    using demo_options by blast
  have i: "length (tc_mem demo_ctl) = sizeof_req" "tc_index demo_ctl \<noteq> 0" by (simp_all add: demo_ctl_def new_request_def sizeof_req_def)
  from tbf_build_request [OF i(1) o, of 5] show ?thesis unfolding if_not_P [OF i(2)] by blast
qed

lemma next_index_less:
  assumes "length bws < 2 ^ 32" "next_index bws i = Some j"
  shows "unat j < length bws"
proof -
  have "unat (of_nat (length bws) :: u32) = length bws" by (rule unat_of_nat_len) (use assms(1) in simp)
  moreover have "j = (i + 1) mod of_nat (length bws)" "bws \<noteq> []" using assms(2) by (auto simp: next_index_def split: if_splits)
  ultimately show ?thesis by (simp add: unat_mod_distrib)
qed

lemma netem_build_empty: "netem_build rnd c [] idx1 s = None"
  by (simp add: netem_build_def next_index_def split: Option.bind_splits)

text \<open>
  The programs that take a list of settings accept an empty one on their command line and then divide by its length: the
  arguments pass the check, and the first round of each of the four is undefined, whatever the state. With settings, the
  index of a round is below their number.
\<close>

theorem netem_no_settings:
  "netem_args [q, ''0''] = Returns (strtoull q, []) \<and>
   netem_round rnd c [] sendmsg malloc idx1 idx2 s rth = Undefined \<and>
   tn_round rnd c [] sendmsg malloc idx1 idx2 t rth = Undefined \<and>
   ifb_round rnd c [] sendmsg malloc idx1 idx2 idx3 idx4 t rth = Undefined \<and>
   enp_round rnd c [] sendmsg malloc idx1 idx2 idx3 t rth = Undefined \<and>
   (length bws < 2 ^ 32 \<longrightarrow> next_index bws i = Some j \<longrightarrow> unat j < length bws)"
proof (intro conjI impI)
  have "strtoull ''0'' = 0" by (simp add: strtoull_def)
  then show "netem_args [q, ''0''] = Returns (strtoull q, [])" by (simp add: netem_args_def)
  show "netem_round rnd c [] sendmsg malloc idx1 idx2 s rth = Undefined" by (simp add: netem_round_def netem_build_empty)
  show "tn_round rnd c [] sendmsg malloc idx1 idx2 t rth = Undefined" by (simp add: tn_round_def tn_build_tbf_def next_index_def)
  show "ifb_round rnd c [] sendmsg malloc idx1 idx2 idx3 idx4 t rth = Undefined" by (simp add: ifb_round_def next_index_def)
  show "enp_round rnd c [] sendmsg malloc idx1 idx2 idx3 t rth = Undefined" by (simp add: enp_round_def next_index_def)
  show "unat j < length bws" if "length bws < 2 ^ 32" "next_index bws i = Some j" by (rule next_index_less [OF that])
qed

theorem netem_no_settings_witness:
  "netem_args [''100'', ''0''] = Returns (strtoull ''100'', []) \<and>
   netem_round (\<lambda>x. x) demo_clock [] 36 True 5 6 \<lparr>nc_index = 0, nc_opt = netem_qopt 100, nc_mem = new_request\<rparr>
     \<lparr>rh_pid = 77, rh_seq = 5, rh_dump = 0, rh_dump_fp = None, rh_inbox = [], rh_sent = []\<rparr> = Undefined \<and>
   tn_round (\<lambda>x. x) demo_clock [] 36 True 5 6 (tn_start 100)
     \<lparr>rh_pid = 77, rh_seq = 5, rh_dump = 0, rh_dump_fp = None, rh_inbox = [], rh_sent = []\<rparr> = Undefined \<and>
   unat (0 :: u32) < length [\<lparr>bw_bandwidth = 1, bw_delay = 0, bw_sec = 0, bw_nsec = 0\<rparr>]"
proof -
  let ?bws = "[\<lparr>bw_bandwidth = 1, bw_delay = 0, bw_sec = 0, bw_nsec = 0\<rparr>]"
  have "length ?bws < 2 ^ 32" "next_index ?bws 0 = Some 0" by (simp_all add: next_index_def)
  with netem_no_settings [where q = "''100''" and rnd = "\<lambda>x. x" and c = demo_clock and sendmsg = 36 and malloc = True and ?idx1.0 = 5 and ?idx2.0 = 6
      and s = "\<lparr>nc_index = 0, nc_opt = netem_qopt 100, nc_mem = new_request\<rparr>" and t = "tn_start 100" and rth = "\<lparr>rh_pid = 77, rh_seq = 5, rh_dump = 0, rh_dump_fp = None, rh_inbox = [], rh_sent = []\<rparr>" and bws = ?bws and i = 0 and j = 0]
  show ?thesis by blast
qed

end
