(* ===== verification/Kernel_Request.thy ===== *)
theory Kernel_Request
  imports Control_Properties Tbf_Demo
begin

text \<open>
  From the request of a controller to the qdisc. Between the two lies the attribute parser of the kernel, which is not part of
  the repository: \<open>nla_parser_ok\<close> states what its documentation promises, and \<open>library_parser\<close>, made of the functions of
  \<^verbatim>\<open>libnetlink.c\<close>, is a parser that keeps the promise. The lemmas show how \<^verbatim>\<open>tbf_change\<close> reacts to the
  attributes of a request.
\<close>

section \<open>The attribute parser of the kernel\<close>

fun policy_ok :: "nla_policy \<Rightarrow> u8 list \<Rightarrow> bool" where
  "policy_ok (Nla_min_len n) d \<longleftrightarrow> n \<le> length d"
| "policy_ok (Nla_binary n) d \<longleftrightarrow> length d \<le> n"
| "policy_ok Nla_u64 d \<longleftrightarrow> length d = 8"
| "policy_ok Nla_u32 d \<longleftrightarrow> length d = 4"
| "policy_ok Nla_s64 d \<longleftrightarrow> length d = 8"
| "policy_ok Nla_nested d \<longleftrightarrow> 4 \<le> length d"

text \<open>A stream of attributes of different types, each as its policy asks, is parsed to its payloads.\<close>

definition nla_stream :: "nat \<Rightarrow> (nat \<times> nla_policy) list \<Rightarrow> (u16 \<times> u8 list) list \<Rightarrow> bool" where
  "nla_stream maxtype policy ats \<longleftrightarrow> distinct (map fst ats) \<and>
     (\<forall>(t, d) \<in> set ats. 0 < unat t \<and> unat t \<le> maxtype \<and> (\<forall>p. map_of policy (unat t) = Some p \<longrightarrow> policy_ok p d))"

definition payloads :: "(u16 \<times> u8 list) list \<Rightarrow> nlattrs" where
  "payloads ats = map_of (map (\<lambda>(t, d). (unat t, d)) ats)"

definition nla_parser_ok :: "(nat \<Rightarrow> u8 list \<Rightarrow> (nat \<times> nla_policy) list \<Rightarrow> int + nlattrs) \<Rightarrow> bool" where
  "nla_parser_ok parse \<longleftrightarrow>
     (\<forall>maxtype d policy ats. maxtype < 2 ^ 16 \<and> attrs_at d 0 ats (length d) \<and> nla_stream maxtype policy ats \<longrightarrow>
        parse maxtype d policy = Inr (payloads ats))"

definition library_parser :: "nat \<Rightarrow> u8 list \<Rightarrow> (nat \<times> nla_policy) list \<Rightarrow> int + nlattrs" where
  "library_parser maxtype d policy =
     (case parse_rtattr maxtype d 0 (int (length d)) of
        Some (r, tb) \<Rightarrow> Inr (\<lambda>n. if n \<le> maxtype then Option.bind (tb n) (attr_payload d) else None)
      | None \<Rightarrow> Inl (- EINVAL))"

lemma payloads_unat: "payloads ats (unat t) = map_of ats t"
  by (induction ats) (auto simp: payloads_def word_unat_eq_iff)

lemma payloads_None:
  assumes "\<forall>(t, d) \<in> set ats. unat t \<le> maxtype" "\<not> n \<le> maxtype"
  shows "payloads ats n = None"
  using assms unfolding payloads_def map_of_eq_None_iff by force

lemma library_parser_stream:
  assumes m: "maxtype < 2 ^ 16" and at: "attrs_at d 0 ats (length d)" and st: "nla_stream maxtype policy ats"
  shows "library_parser maxtype d policy = Inr (payloads ats)"
proof -
  from parse_rtattr_ok [OF at, of maxtype] obtain tb where
    tb: "parse_rtattr maxtype d 0 (int (length d)) = Some (0, tb)" "finds maxtype d tb ats" by auto
  have "(if n \<le> maxtype then Option.bind (tb n) (attr_payload d) else None) = payloads ats n" for n
  proof (cases "n \<le> maxtype")
    case True
    have n: "unat (of_nat n :: u16) = n" by (rule unat_of_nat_len) (use True m in simp)
    have "Option.bind (tb (unat (of_nat n :: u16))) (attr_payload d) = map_of ats (of_nat n)"
      using tb(2) True n unfolding finds_def
      by (cases "map_of ats (of_nat n :: u16)") (auto dest!: spec [of _ "of_nat n :: u16"])
    with True n payloads_unat [of ats "of_nat n"] show ?thesis by simp
  next
    case False
    have "\<forall>(t, d) \<in> set ats. unat t \<le> maxtype" using st by (auto simp: nla_stream_def)
    from payloads_None [OF this False] False show ?thesis by simp
  qed
  then show ?thesis using tb(1) by (simp add: library_parser_def fun_eq_iff)
qed

lemma library_parser_ok: "nla_parser_ok library_parser"
  by (simp add: nla_parser_ok_def library_parser_stream)

section \<open>The payload of an attribute as a block of its own\<close>

lemma bytes_at_slice:
  assumes "bytes_at mem (base + off) bs" "off + length bs \<le> n" "base + n \<le> length mem"
  shows "bytes_at (take n (drop base mem)) off bs"
  using assms by (auto simp: bytes_at_def mem_get_def drop_take min_def add.commute)

lemma attrs_at_slice:
  assumes "attrs_at mem (base + off) ats (base + e)" "e \<le> n" "base + n \<le> length mem"
  shows "attrs_at (take n (drop base mem)) off ats e"
  using assms
proof (induction ats arbitrary: off)
  case (Cons a ats)
  obtain t d where a: "a = (t, d)" by force
  have at: "attrs_at mem (base + (off + attr_space d)) ats (base + e)" using Cons.prems(1) a by (simp add: add.assoc)
  have "off + attr_space d \<le> e" using attrs_at_le [OF at] by simp
  then have "off + length (attr_bytes t d) \<le> n" using pad4_simps(1) [of "4 + length d"] Cons.prems(2) unfolding length_attr_bytes by linarith
  then have "bytes_at (take n (drop base mem)) off (attr_bytes t d)"
    using Cons.prems(1,3) a by (intro bytes_at_slice) simp_all
  with Cons.IH [OF at Cons.prems(2,3)] Cons.prems(1) a show ?case by simp
qed simp

text \<open>The payload of the last attribute of a message is the block of its own attributes.\<close>

lemma nested_payload:
  assumes "message m off (ats @ [(t, d)]) n" "attrs_at m off ats p" "attrs_at m (p + 4) inner n" "length d = n - (p + 4)"
  shows "attr_payload m p = Some d" "attrs_at d 0 inner (length d)"
proof -
  have "attrs_at m off (ats @ [(t, d)]) n" using assms(1) by (simp only: message_def)
  then obtain p' where p': "attrs_at m off ats p'" "attrs_at m p' [(t, d)] n" unfolding attrs_at_append by blast
  have "p' = p" by (rule attrs_at_end_unique [OF assms(2) p'(1)])
  with p'(2) have at: "bytes_at m p (attr_bytes t d)" "length d < 65532" by simp_all
  then show "attr_payload m p = Some d" by (rule attr_payload_ok)
  have "attr_bytes t d = (bytes16 (of_nat (4 + length d)) @ bytes16 t) @ d" by (simp only: attr_bytes_def append_assoc)
  moreover have "length (bytes16 (of_nat (4 + length d)) @ bytes16 t) = 4" by simp
  ultimately have "bytes_at m (p + 4) d" using at(1) bytes_at_append by metis
  then have d: "p + 4 + length d \<le> length m" "take (length d) (drop (p + 4) m) = d"
    unfolding bytes_at_def mem_get_def by (simp_all split: if_splits)
  have "p + 4 \<le> n" by (rule attrs_at_le [OF assms(3)])
  then have "p + 4 + length d = n" using assms(4) by linarith
  then have "attrs_at m (p + 4 + 0) inner (p + 4 + length d)" using assms(3) by (simp only: add_0_right)
  from attrs_at_slice [OF this order_refl d(1)] show "attrs_at d 0 inner (length d)" unfolding d(2) .
qed

section \<open>The filter takes the request\<close>

lemma request_stream: "length rtab = 256 \<Longrightarrow> nla_stream 8 tbf_policy [(1, qopt_bytes opt), (6, bytes32 50000), (2, rtab_bytes rtab)]"
  by (simp add: nla_stream_def tbf_policy_def length_rtab_bytes)

lemma request_params:
  assumes "nla_parser_ok (nla_parse_nested env)" "length rtab = 256"
    and "attrs_at d 0 [(1, qopt_bytes opt), (6, bytes32 50000), (2, rtab_bytes rtab)] (length d)"
    and "rs_linklayer (qopt_rate opt) = 1" "rs_rate (qopt_peakrate opt) = 0"
    and r: "psched_ratecfg_precompute (qopt_rate opt) 0 = Some r"
  shows "tbf_change_params h env d rtabs = Some (Inr \<lparr>p_qopt = opt, p_rate = r, p_peak = ratecfg_zero,
           p_max_size = 50000, p_buffer = psched_l2t_ns h r 50000, p_mtu = min (psched_ticks2ns h (qopt_mtu opt)) 0xFFFFFFFF,
           p_burst_given = True, p_pburst_given = False\<rparr>, rtabs)"
proof -
  have p: "nla_parse_nested env 8 d tbf_policy = Inr (payloads [(1, qopt_bytes opt), (6, bytes32 50000), (2, rtab_bytes rtab)])"
    using assms(1,3) request_stream [OF assms(2)] unfolding nla_parser_ok_def by simp
  show ?thesis unfolding tbf_change_params_def p using assms(4,5) r
    by (simp add: payloads_def rtab_probe_def qdisc_get_rtab_def qdisc_put_rtab_def tbf_change_peak_def Let_def)
qed

lemma precompute_rate:
  "psched_ratecfg_precompute conf 0 = Some r \<Longrightarrow> unat (rate_bytes_ps r) = unat (rs_rate conf)"
proof -
  assume "psched_ratecfg_precompute conf 0 = Some r"
  then have "rate_bytes_ps r = ucast (rs_rate conf)"
    by (auto simp: psched_ratecfg_precompute_def Let_def max_def split: if_splits bind_splits)
  then show ?thesis by simp
qed

lemma fifo_takes_limit:
  assumes "sch_ops q \<in> {Pfifo_ops, Bfifo_ops}"
  obtains q' where "fifo_set_limit (fifo_ops h) True q limit = Some (0, q')" "sch_limit q' = limit" "sch_q q' = sch_q q"
proof -
  have id: "take 4 (tl (kind_id (sch_ops q))) = ''fifo''" "sch_ops q \<in> {Pfifo_ops, Bfifo_ops, Pfifo_head_drop_ops}" using assms by auto
  have ops: "op_id (fifo_ops h) q = kind_id (sch_ops q)" "op_change (fifo_ops h) q = Some (\<lambda>nla. fifo_init h q (Some nla))"
    using id(2) by (simp_all add: fifo_ops_def)
  let ?r = "fifo_init h q (Some (bytes32 limit))"
  have "fst ?r = 0" "sch_limit (snd ?r) = limit" "sch_q (snd ?r) = sch_q q" by (simp_all add: fifo_init_def Let_def)
  moreover have "fifo_set_limit (fifo_ops h) True q limit = Some ?r" unfolding fifo_set_limit_def ops id(1) by simp
  ultimately show thesis by (intro that [of "snd ?r"]) (simp_all add: prod_eq_iff)
qed

lemma request_installed:
  assumes "nla_parser_ok (nla_parse_nested env)" "length rtab = 256"
    and "attrs_at d 0 [(1, qopt_bytes opt), (6, bytes32 50000), (2, rtab_bytes rtab)] (length d)"
    and "rs_linklayer (qopt_rate opt) = 1" "rs_rate (qopt_peakrate opt) = 0"
    and "\<not> is_noop_qdisc env (tbf_qdisc (t_q sch))" "sch_ops (tbf_qdisc (t_q sch)) \<in> {Pfifo_ops, Bfifo_ops}" "nla_kmalloc_ok env"
  obtains q r where "psched_ratecfg_precompute (qopt_rate opt) 0 = Some r" "sch_limit q = qopt_limit opt"
    "sch_q q = sch_q (tbf_qdisc (t_q sch))"
    "tbf_change h (fifo_ops h) env d sch rtabs = Some (0, sch\<lparr>t_q := (t_q sch)\<lparr>tbf_qdisc := q, tbf_limit := qopt_limit opt,
       tbf_mtu := psched_ticks2ns h (qopt_mtu opt), tbf_max_size := 50000, tbf_buffer := psched_l2t_ns h r 50000,
       tbf_rate := r, tbf_peak := ratecfg_zero\<rparr>\<rparr>, rtabs)"
proof -
  obtain r where r: "psched_ratecfg_precompute (qopt_rate opt) 0 = Some r" using precompute_total by blast
  obtain q where q: "fifo_set_limit (fifo_ops h) True (tbf_qdisc (t_q sch)) (qopt_limit opt) = Some (0, q)"
    "sch_limit q = qopt_limit opt" "sch_q q = sch_q (tbf_qdisc (t_q sch))" by (rule fifo_takes_limit [OF assms(7)])
  have child: "tbf_change_child (fifo_ops h) env (tbf_qdisc (t_q sch)) (qopt_limit opt) = Some (0, q, None)"
    using q(1) assms(6,8) by (simp add: tbf_change_child_def)
  show thesis
    by (rule that [OF r q(2,3)])
      (simp add: tbf_change_def request_params [OF assms(1-5) r] child tbf_change_commit_def)
qed

end
