(* ===== verification/Netem_Random.thy ===== *)
theory Netem_Random
  imports Sch_Tbf "HOL-Library.Signed_Division"
begin

text \<open>
  The arithmetic of the network emulator \<^verbatim>\<open>net/sched/sch_netem.c\<close>: correlated random numbers, the loss models, delays drawn from
  a table and the time a packet takes at a rate. The random source \<^verbatim>\<open>prandom_u32\<close> of the kernel is a sequence of numbers,
  of which a counter says how many have been drawn. Signed numbers are words, as the kernel is compiled with wrapping
  arithmetic. \<open>None\<close> is a division by zero. The reciprocal division of the kernel is a parameter.
\<close>

section \<open>Random numbers\<close>

type_synonym prandom = "nat \<Rightarrow> u32"

record crndstate =
  cr_last :: u32
  cr_rho :: u32

definition init_crandom :: "prandom \<Rightarrow> u32 \<Rightarrow> nat \<Rightarrow> crndstate \<times> nat" where
  "init_crandom rnd rho k = (\<lparr>cr_last = rnd k, cr_rho = rho\<rparr>, Suc k)"

text \<open>The state may be NULL.\<close>

definition get_crandom :: "prandom \<Rightarrow> crndstate option \<Rightarrow> nat \<Rightarrow> u32 \<times> crndstate option \<times> nat" where
  "get_crandom rnd state k =
     (case state of
        None \<Rightarrow> (rnd k, None, Suc k)
      | Some s \<Rightarrow>
          if cr_rho s = 0 then (rnd k, state, Suc k)
          else let value = ucast (rnd k) :: u64;
                   rho = ucast (cr_rho s) + 1;
                   answer = ucast (drop_bit 32 (value * (2 ^ 32 - rho) + ucast (cr_last s) * rho))
               in (answer, Some (s\<lparr>cr_last := answer\<rparr>), Suc k))"

definition crandom :: "prandom \<Rightarrow> crndstate \<Rightarrow> nat \<Rightarrow> u32 \<times> crndstate \<times> nat" where
  "crandom rnd s k = (case get_crandom rnd (Some s) k of (v, s', k') \<Rightarrow> (v, case s' of None \<Rightarrow> s | Some t \<Rightarrow> t, k'))"

section \<open>Loss models\<close>

datatype loss_model = CLG_RANDOM | CLG_4_STATES | CLG_GILB_ELL

record clgstate =
  clg_state :: u8
  clg_a1 :: u32
  clg_a2 :: u32
  clg_a3 :: u32
  clg_a4 :: u32
  clg_a5 :: u32

abbreviation (input) TX_IN_GAP_PERIOD :: u8 where "TX_IN_GAP_PERIOD \<equiv> 1"
abbreviation (input) TX_IN_BURST_PERIOD :: u8 where "TX_IN_BURST_PERIOD \<equiv> 2"
abbreviation (input) LOST_IN_GAP_PERIOD :: u8 where "LOST_IN_GAP_PERIOD \<equiv> 3"
abbreviation (input) LOST_IN_BURST_PERIOD :: u8 where "LOST_IN_BURST_PERIOD \<equiv> 4"
abbreviation (input) GOOD_STATE :: u8 where "GOOD_STATE \<equiv> 1"
abbreviation (input) BAD_STATE :: u8 where "BAD_STATE \<equiv> 2"

definition loss_4state :: "prandom \<Rightarrow> clgstate \<Rightarrow> nat \<Rightarrow> bool \<times> clgstate \<times> nat" where
  "loss_4state rnd clg k =
     (let r = rnd k; to = (\<lambda>st lost. (lost, clg\<lparr>clg_state := st\<rparr>, Suc k)); stay = (False, clg, Suc k) in
      if clg_state clg = TX_IN_GAP_PERIOD then
        (if r < clg_a4 clg then to LOST_IN_BURST_PERIOD True
         else if clg_a4 clg < r \<and> r < clg_a1 clg + clg_a4 clg then to LOST_IN_GAP_PERIOD True
         else if clg_a1 clg + clg_a4 clg < r then to TX_IN_GAP_PERIOD False
         else stay)
      else if clg_state clg = TX_IN_BURST_PERIOD then
        (if r < clg_a5 clg then to LOST_IN_GAP_PERIOD True else to TX_IN_BURST_PERIOD False)
      else if clg_state clg = LOST_IN_GAP_PERIOD then
        (if r < clg_a3 clg then to TX_IN_BURST_PERIOD False
         else if clg_a3 clg < r \<and> r < clg_a2 clg + clg_a3 clg then to TX_IN_GAP_PERIOD False
         else if clg_a2 clg + clg_a3 clg < r then to LOST_IN_GAP_PERIOD True
         else stay)
      else if clg_state clg = LOST_IN_BURST_PERIOD then to TX_IN_GAP_PERIOD False
      else stay)"

definition loss_gilb_ell :: "prandom \<Rightarrow> clgstate \<Rightarrow> nat \<Rightarrow> bool \<times> clgstate \<times> nat" where
  "loss_gilb_ell rnd clg k =
     (if clg_state clg = GOOD_STATE then
        (rnd (Suc k) < clg_a4 clg, if rnd k < clg_a1 clg then clg\<lparr>clg_state := BAD_STATE\<rparr> else clg, k + 2)
      else if clg_state clg = BAD_STATE then
        (clg_a3 clg < rnd (Suc k), if rnd k < clg_a2 clg then clg\<lparr>clg_state := GOOD_STATE\<rparr> else clg, k + 2)
      else (False, clg, k))"

section \<open>Delays\<close>

abbreviation (input) NETEM_DIST_SCALE :: int where "NETEM_DIST_SCALE \<equiv> 8192"
abbreviation (input) NETEM_DIST_MAX :: nat where "NETEM_DIST_MAX \<equiv> 16384"

text \<open>A table of signed 16-bit values; its size is the length of the list.\<close>

definition tabledist ::
  "prandom \<Rightarrow> s64 \<Rightarrow> u32 \<Rightarrow> crndstate option \<Rightarrow> u16 list option \<Rightarrow> nat \<Rightarrow> (s64 \<times> crndstate option \<times> nat) option" where
  "tabledist rnd mu sigma state dist k =
     (if sigma = 0 then Some (mu, state, k)
      else let (r, state, k) = get_crandom rnd state k in
      case dist of
        None \<Rightarrow>
          if 2 * sigma = 0 then None
          else Some (ucast (r mod (2 * sigma)) + mu - scast sigma, state, k)
      | Some table \<Rightarrow>
          if table = [] then None
          else let t = sint (table ! (unat r mod length table));
                   x = (sint sigma smod NETEM_DIST_SCALE) * t;
                   x = (if 0 \<le> x then x + NETEM_DIST_SCALE div 2 else x - NETEM_DIST_SCALE div 2)
               in Some (of_int (x sdiv NETEM_DIST_SCALE + (sint sigma sdiv NETEM_DIST_SCALE) * t) + mu, state, k))"

section \<open>Transmission times\<close>

record reciprocal_value =
  rv_m :: u32
  rv_sh1 :: u8
  rv_sh2 :: u8

record recip_lib =
  recip_value :: "u32 \<Rightarrow> reciprocal_value"
  recip_divide :: "u32 \<Rightarrow> reciprocal_value \<Rightarrow> u32"

record netem_rate =
  nr_rate :: u64
  nr_packet_overhead :: u32
  nr_cell_size :: u32
  nr_cell_reciprocal :: reciprocal_value
  nr_cell_overhead :: u32

definition packet_time_ns :: "recip_lib \<Rightarrow> u64 \<Rightarrow> netem_rate \<Rightarrow> u64 option" where
  "packet_time_ns rl len q =
     (let len = len + scast (nr_packet_overhead q);
          len = (if nr_cell_size q \<noteq> 0 then
                   (let cells = recip_divide rl (ucast len) (nr_cell_reciprocal q);
                        cells = (if ucast (cells * nr_cell_size q) < len then cells + 1 else cells)
                    in ucast (cells * (nr_cell_size q + nr_cell_overhead q)))
                 else len)
      in if nr_rate q = 0 then None else Some (len * NSEC_PER_SEC div nr_rate q))"

end
