(* ===== verification/Sch_Netem.thy ===== *)
theory Sch_Netem
  imports Netem_Random Seq_Buffer
begin

text \<open>
  The network emulator, \<^verbatim>\<open>net/sched/sch_netem.c\<close>: its state, enqueue and dequeue. Packets live at addresses, because the time-ordered
  queue links them through their own fields: a chain through \<^verbatim>\<open>next\<close> from \<^verbatim>\<open>t_head\<close> to \<^verbatim>\<open>t_tail\<close>, and a red-black tree
  for the packets that are due before the end of the chain. A packet that leaves the qdisc leaves the memory.
  The red-black tree library of the kernel is not part of the repository; it is the parameter \<open>rb_lib\<close>, and so are the
  header helpers in \<open>netem_env\<close>. The socket buffer functions in \<open>netem_env\<close> that copy, split and unshare a packet and complete its checksum are in the
  repository, in \<^verbatim>\<open>net/core/skbuff.c\<close> and \<^verbatim>\<open>net/core/dev.c\<close>; the layout of a packet in pages and fragments, on which they work, is not modelled,
  so they are parameters too. \<open>None\<close> is a NULL or dangling pointer, a division by zero or a loop that
  does not end.

  Two simplifications of the memory: the pointer \<^verbatim>\<open>next\<close> and the tree node of a packet share their storage in the source, where a packet is either in the chain or in the
  tree, and are separate here, and the pointer \<^verbatim>\<open>prev\<close>, which only links segments, is left out. A packet that is handed over to be freed is
  gone at once, while the kernel keeps it on a list until its lock is released; nothing in between reads it.
\<close>

section \<open>State\<close>

record netem_pkt =
  np_skb :: sk_buff
  np_data :: "u8 list"
  np_time_to_send :: u64
  np_next :: addr

record tc_netem_slot =
  sl_min_delay :: s64
  sl_max_delay :: s64
  sl_max_packets :: u32
  sl_max_bytes :: u32
  sl_dist_delay :: s64
  sl_dist_jitter :: s64

record slotstate =
  slot_next :: u64
  packets_left :: u32
  bytes_left :: u32

record 'c netem_sched_data =
  nq_root :: addr
  nq_head :: addr
  nq_tail :: addr
  nq_qdisc :: "'c option"
  nq_watchdog :: qdisc_watchdog
  nq_latency :: s64
  nq_jitter :: s64
  nq_loss :: u32
  nq_ecn :: u32
  nq_limit :: u32
  nq_counter :: u32
  nq_gap :: u32
  nq_duplicate :: u32
  nq_reorder :: u32
  nq_corrupt :: u32
  nq_rate :: netem_rate
  nq_delay_cor :: crndstate
  nq_loss_cor :: crndstate
  nq_dup_cor :: crndstate
  nq_reorder_cor :: crndstate
  nq_corrupt_cor :: crndstate
  nq_delay_dist :: "u16 list option"
  nq_loss_model :: loss_model
  nq_clg :: clgstate
  nq_slot_config :: tc_netem_slot
  nq_slot :: slotstate
  nq_slot_dist :: "u16 list option"

text \<open>
  The \<^verbatim>\<open>struct Qdisc\<close> of the emulator, the memory of its packets and tree nodes, and how many random numbers have been drawn and
  how often the clock has been read.
\<close>

record 'c netem_sch =
  ns_limit :: u32
  ns_offloaded :: bool
  ns_deactivated :: bool
  ns_st :: qdisc_stats
  ns_requeues :: u32
  ns_queue :: "addr list"
  ns_q :: "'c netem_sched_data"
  ns_ancs :: "ancestor list"
  ns_nodes :: "addr \<rightharpoonup> rb_node"
  ns_pkts :: "addr \<rightharpoonup> netem_pkt"
  ns_rnd :: nat
  ns_clock :: nat

record rb_lib =
  lib_first :: "unit rb_mem \<Rightarrow> addr option"
  lib_last :: "unit rb_mem \<Rightarrow> addr option"
  lib_next :: "unit rb_mem \<Rightarrow> addr \<Rightarrow> addr option"
  lib_erase :: "addr \<Rightarrow> unit rb_mem \<Rightarrow> unit rb_mem option"
  lib_link_node :: "addr \<Rightarrow> addr \<Rightarrow> (unit rb_mem \<Rightarrow> unit rb_mem option) \<Rightarrow> unit rb_mem \<Rightarrow> unit rb_mem option"
  lib_insert_color :: "addr \<Rightarrow> unit rb_mem \<Rightarrow> unit rb_mem option"

record 'c netem_env =
  ne_rb :: rb_lib
  ne_recip :: recip_lib
  ne_gso :: gso_env
  prandom_u32 :: prandom
  ktime_get_ns :: "nat \<Rightarrow> u64"
  qdisc_enqueue_head :: "addr \<Rightarrow> addr list \<times> u32 \<Rightarrow> addr list \<times> u32"
  qdisc_dequeue_head0 :: "addr list \<times> u32 \<Rightarrow> addr option \<times> addr list \<times> u32"
  qdisc_qstats_backlog_inc :: "sk_buff \<Rightarrow> qdisc_stats \<Rightarrow> qdisc_stats"
  qdisc_drop_all :: "addr \<Rightarrow> (addr \<rightharpoonup> netem_pkt) \<Rightarrow> qdisc_stats \<Rightarrow> sk_buff list \<Rightarrow> (addr \<rightharpoonup> netem_pkt) \<times> qdisc_stats \<times> sk_buff list"
  INET_ECN_set_ce :: "netem_pkt \<Rightarrow> bool \<times> netem_pkt"
  skb_orphan_partial :: "netem_pkt \<Rightarrow> netem_pkt"
  skb_clone :: "addr \<Rightarrow> (addr \<rightharpoonup> netem_pkt) \<Rightarrow> (addr \<times> netem_pkt) option"
  skb_segment :: "addr \<Rightarrow> u64 \<Rightarrow> (addr \<rightharpoonup> netem_pkt) \<Rightarrow> (addr \<times> (addr \<rightharpoonup> netem_pkt)) option"
  skb_unshare :: "addr \<Rightarrow> (addr \<rightharpoonup> netem_pkt) \<Rightarrow> addr option \<times> (addr \<rightharpoonup> netem_pkt)"
  checksum_fails :: "netem_pkt \<Rightarrow> bool \<times> netem_pkt"
  inner_dequeue :: "'c \<Rightarrow> sk_buff option \<times> 'c"
  root_enqueue :: "(addr \<Rightarrow> 'c netem_sch \<Rightarrow> sk_buff list \<Rightarrow> ('c netem_sch \<times> sk_buff list) option) option"

abbreviation set_q :: "('c netem_sched_data \<Rightarrow> 'c netem_sched_data) \<Rightarrow> 'c netem_sch \<Rightarrow> 'c netem_sch" where
  "set_q f s \<equiv> s\<lparr>ns_q := f (ns_q s)\<rparr>"

abbreviation set_st :: "(qdisc_stats \<Rightarrow> qdisc_stats) \<Rightarrow> 'c netem_sch \<Rightarrow> 'c netem_sch" where
  "set_st f s \<equiv> s\<lparr>ns_st := f (ns_st s)\<rparr>"

definition time_of :: "'c netem_sch \<Rightarrow> addr \<Rightarrow> u64 option" where
  "time_of s a = map_option np_time_to_send (ns_pkts s a)"

definition loss_event :: "prandom \<Rightarrow> 'c netem_sch \<Rightarrow> bool \<times> 'c netem_sch" where
  "loss_event rnd s =
     (let q = ns_q s in
      case nq_loss_model q of
        CLG_RANDOM \<Rightarrow>
          if nq_loss q = 0 then (False, s)
          else let (v, c, k) = crandom rnd (nq_loss_cor q) (ns_rnd s)
               in (v \<le> nq_loss q, s\<lparr>ns_q := q\<lparr>nq_loss_cor := c\<rparr>, ns_rnd := k\<rparr>)
      | CLG_4_STATES \<Rightarrow>
          let (b, clg, k) = loss_4state rnd (nq_clg q) (ns_rnd s) in (b, s\<lparr>ns_q := q\<lparr>nq_clg := clg\<rparr>, ns_rnd := k\<rparr>)
      | CLG_GILB_ELL \<Rightarrow>
          let (b, clg, k) = loss_gilb_ell rnd (nq_clg q) (ns_rnd s) in (b, s\<lparr>ns_q := q\<lparr>nq_clg := clg\<rparr>, ns_rnd := k\<rparr>))"

section \<open>The queue ordered by time\<close>

definition t_mem :: "'c netem_sch \<Rightarrow> unit rb_mem" where
  "t_mem s = tree_mem (ns_nodes s) (nq_root (ns_q s))"

definition set_tree :: "unit rb_mem \<Rightarrow> 'c netem_sch \<Rightarrow> 'c netem_sch" where
  "set_tree m s = s\<lparr>ns_nodes := rb_cells m, ns_q := (ns_q s)\<lparr>nq_root := rb_root m\<rparr>\<rparr>"

text \<open>The descent of \<^verbatim>\<open>tfifo_enqueue\<close>: the parent and the link for the new node.\<close>

partial_function (option) tfifo_slot ::
  "(addr \<rightharpoonup> u64) \<Rightarrow> unit rb_mem \<Rightarrow> u64 \<Rightarrow> rb_link \<Rightarrow> addr \<Rightarrow> (addr \<times> rb_link) option" where
  "tfifo_slot key m tnext p parent = do {
     a \<leftarrow> link_deref m p;
     if a = 0 then Some (parent, p)
     else do {
       t \<leftarrow> key a;
       if t \<le> tnext then tfifo_slot key m tnext (RightLink a) a
       else tfifo_slot key m tnext (LeftLink a) a } }"

declare tfifo_slot.simps [code]

definition set_next :: "addr \<Rightarrow> addr \<Rightarrow> 'c netem_sch \<Rightarrow> 'c netem_sch option" where
  "set_next a b s = do {
     p \<leftarrow> ns_pkts s a;
     Some (s\<lparr>ns_pkts := (ns_pkts s)(a \<mapsto> p\<lparr>np_next := b\<rparr>)\<rparr>) }"

definition tfifo_enqueue :: "rb_lib \<Rightarrow> addr \<Rightarrow> 'c netem_sch \<Rightarrow> 'c netem_sch option" where
  "tfifo_enqueue lib nskb s = do {
     tnext \<leftarrow> time_of s nskb;
     let q = ns_q s;
     at_end \<leftarrow> (if nq_tail q = 0 then Some True else map_option (\<lambda>t. t \<le> tnext) (time_of s (nq_tail q)));
     s \<leftarrow> (if at_end then do {
             s \<leftarrow> (if nq_tail q \<noteq> 0 then set_next (nq_tail q) nskb s else Some (set_q (\<lambda>q. q\<lparr>nq_head := nskb\<rparr>) s));
             Some (set_q (\<lambda>q. q\<lparr>nq_tail := nskb\<rparr>) s) }
           else do {
             (parent, p) \<leftarrow> tfifo_slot (time_of s) (t_mem s) tnext RootLink 0;
             let s = s\<lparr>ns_nodes := (ns_nodes s)(nskb \<mapsto> \<lparr>pc = 0, rb_right = 0, rb_left = 0\<rparr>)\<rparr>;
             m \<leftarrow> lib_link_node lib nskb parent (link_store p nskb) (t_mem s);
             m \<leftarrow> lib_insert_color lib nskb m;
             Some (set_tree m s) });
     Some (set_st (\<lambda>st. st\<lparr>q_qlen := q_qlen st + 1\<rparr>) s) }"

text \<open>The walk of \<^verbatim>\<open>tfifo_reset\<close> over the tree, then the chain is handed to \<^verbatim>\<open>rtnl_kfree_skbs\<close>, which frees it from head to tail later on.\<close>

partial_function (option) tfifo_reset_tree :: "rb_lib \<Rightarrow> addr \<Rightarrow> 'c netem_sch \<Rightarrow> 'c netem_sch option" where
  "tfifo_reset_tree lib p s =
     (if p = 0 then Some s
      else do {
        next \<leftarrow> lib_next lib (t_mem s) p;
        m \<leftarrow> lib_erase lib p (t_mem s);
        let s = set_tree m s;
        tfifo_reset_tree lib next (s\<lparr>ns_nodes := (ns_nodes s)(p := None), ns_pkts := (ns_pkts s)(p := None)\<rparr>) })"

partial_function (option) free_chain :: "addr \<Rightarrow> addr \<Rightarrow> (addr \<rightharpoonup> netem_pkt) \<Rightarrow> (addr \<rightharpoonup> netem_pkt) option" where
  "free_chain head tail pkts =
     (if head = 0 \<or> tail = 0 then Some pkts
      else do {
        p \<leftarrow> pkts head;
        if head = tail then Some (pkts(head := None)) else free_chain (np_next p) tail (pkts(head := None)) })"

definition tfifo_reset :: "rb_lib \<Rightarrow> 'c netem_sch \<Rightarrow> 'c netem_sch option" where
  "tfifo_reset lib s = do {
     p \<leftarrow> lib_first lib (t_mem s);
     s \<leftarrow> tfifo_reset_tree lib p s;
     pkts \<leftarrow> free_chain (nq_head (ns_q s)) (nq_tail (ns_q s)) (ns_pkts s);
     Some (s\<lparr>ns_pkts := pkts, ns_q := (ns_q s)\<lparr>nq_head := 0, nq_tail := 0\<rparr>\<rparr>) }"

definition netem_peek :: "rb_lib \<Rightarrow> 'c netem_sch \<Rightarrow> addr option" where
  "netem_peek lib s = do {
     skb \<leftarrow> lib_first lib (t_mem s);
     let head = nq_head (ns_q s);
     if skb = 0 then Some head
     else if head = 0 then Some skb
     else do {
       t1 \<leftarrow> time_of s skb;
       t2 \<leftarrow> time_of s head;
       Some (if t1 < t2 then skb else head) } }"

definition netem_erase_head :: "rb_lib \<Rightarrow> addr \<Rightarrow> 'c netem_sch \<Rightarrow> 'c netem_sch option" where
  "netem_erase_head lib skb s =
     (if skb = nq_head (ns_q s) then do {
        p \<leftarrow> ns_pkts s skb;
        Some (set_q (\<lambda>q. q\<lparr>nq_head := np_next p, nq_tail := (if np_next p = 0 then 0 else nq_tail q)\<rparr>) s) }
      else do {
        m \<leftarrow> lib_erase lib skb (t_mem s);
        let s = set_tree m s;
        Some (s\<lparr>ns_nodes := (ns_nodes s)(skb := None)\<rparr>) })"

section \<open>Enqueue\<close>

text \<open>A packet that is dropped goes to the list \<^verbatim>\<open>to_free\<close> and leaves the memory.\<close>

definition release :: "addr \<Rightarrow> 'c netem_sch \<Rightarrow> 'c netem_sch" where
  "release a s = s\<lparr>ns_pkts := (ns_pkts s)(a := None)\<rparr>"

definition drop_packet ::
  "sched_hdr \<Rightarrow> addr \<Rightarrow> 'c netem_sch \<Rightarrow> sk_buff list \<Rightarrow> ('c netem_sch \<times> sk_buff list) option" where
  "drop_packet h a s to_free = do {
     p \<leftarrow> ns_pkts s a;
     let (ret, st, tf) = qdisc_drop h (np_skb p) (ns_st s) to_free;
     Some (release a (s\<lparr>ns_st := st\<rparr>), tf) }"

text \<open>\<^verbatim>\<open>p && p >= get_crandom(cor)\<close>: no number is drawn when the probability is zero.\<close>

definition chance :: "prandom \<Rightarrow> u32 \<Rightarrow> crndstate \<Rightarrow> nat \<Rightarrow> bool \<times> crndstate \<times> nat" where
  "chance rnd p cor k = (if p = 0 then (False, cor, k) else let (v, cor, k) = crandom rnd cor k in (v \<le> p, cor, k))"

text \<open>How many copies of the packet go on: duplication, then loss, where a congestion mark replaces the loss.\<close>

definition netem_count :: "sched_hdr \<Rightarrow> 'c netem_env \<Rightarrow> addr \<Rightarrow> 'c netem_sch \<Rightarrow> (nat \<times> 'c netem_sch) option" where
  "netem_count h env skb s = do {
     let q = ns_q s;
     let (dup, cor, k) = chance (prandom_u32 env) (nq_duplicate q) (nq_dup_cor q) (ns_rnd s);
     let count = (if dup then 2 else 1);
     let (lost, s) = loss_event (prandom_u32 env) (s\<lparr>ns_q := q\<lparr>nq_dup_cor := cor\<rparr>, ns_rnd := k\<rparr>);
     if lost then do {
       p \<leftarrow> ns_pkts s skb;
       let (marked, p) = (if nq_ecn (ns_q s) \<noteq> 0 then INET_ECN_set_ce env p else (False, p));
       let s = s\<lparr>ns_pkts := (ns_pkts s)(skb \<mapsto> p)\<rparr>;
       Some (if marked then (count, set_st (qdisc_qstats_drop h) s) else (count - 1, s)) }
     else Some (count, s) }"

text \<open>\<^verbatim>\<open>netem_segment\<close>: the first segment, or NULL when the packet was dropped.\<close>

definition netem_segment ::
  "sched_hdr \<Rightarrow> 'c netem_env \<Rightarrow> addr \<Rightarrow> 'c netem_sch \<Rightarrow> sk_buff list \<Rightarrow> (addr \<times> 'c netem_sch \<times> sk_buff list) option" where
  "netem_segment h env skb s to_free = do {
     p \<leftarrow> ns_pkts s skb;
     let features = netif_skb_features (ne_gso env) (np_skb p);
     case skb_segment env skb (features AND NOT (netif_f_gso_mask (ne_gso env))) (ns_pkts s) of
       None \<Rightarrow> map_option (\<lambda>(s, tf). (0, s, tf)) (drop_packet h skb s to_free)
     | Some (segs, pkts) \<Rightarrow>
         if segs = 0 then map_option (\<lambda>(s, tf). (0, s, tf)) (drop_packet h skb s to_free)
         else Some (segs, release skb (s\<lparr>ns_pkts := pkts\<rparr>), to_free) }"

definition flip_bit :: "prandom \<Rightarrow> netem_pkt \<Rightarrow> nat \<Rightarrow> (netem_pkt \<times> nat) option" where
  "flip_bit rnd p k =
     (if np_data p = [] then None
      else let i = unat (rnd k) mod length (np_data p); b = unat (rnd (Suc k) mod 8)
           in Some (p\<lparr>np_data := (np_data p)[i := np_data p ! i XOR push_bit b 1]\<rparr>, k + 2))"

text \<open>
  The corruption step. It may end the call, jump to the remaining segments, or go on with a packet and the segments behind it.
\<close>

datatype corrupt_result = Corrupt_return | Corrupt_finish addr | Corrupt_go_on addr addr

definition netem_corrupt ::
  "sched_hdr \<Rightarrow> 'c netem_env \<Rightarrow> addr \<Rightarrow> 'c netem_sch \<Rightarrow> sk_buff list \<Rightarrow>
   (corrupt_result \<times> 'c netem_sch \<times> sk_buff list) option" where
  "netem_corrupt h env skb s to_free = do {
     let (hit, cor, k) = chance (prandom_u32 env) (nq_corrupt (ns_q s)) (nq_corrupt_cor (ns_q s)) (ns_rnd s);
     let s = s\<lparr>ns_q := (ns_q s)\<lparr>nq_corrupt_cor := cor\<rparr>, ns_rnd := k\<rparr>;
     if \<not> hit then Some (Corrupt_go_on skb 0, s, to_free)
     else do {
       p \<leftarrow> ns_pkts s skb;
       (segs, s, to_free) \<leftarrow>
         (if skb_is_gso (ne_gso env) (np_skb p) then netem_segment h env skb s to_free else Some (skb, s, to_free));
       if segs = 0 then Some (Corrupt_return, s, to_free)
       else do {
         p \<leftarrow> ns_pkts s segs;
         let rest = np_next p;
         let (unshared, pkts) = skb_unshare env segs (ns_pkts s);
         let s = s\<lparr>ns_pkts := pkts\<rparr>;
         case unshared of
           None \<Rightarrow> Some (Corrupt_finish rest, set_st (qdisc_qstats_drop h) s, to_free)
         | Some skb \<Rightarrow> do {
             p \<leftarrow> ns_pkts s skb;
             let (fails, p) = checksum_fails env p;
             let s = s\<lparr>ns_pkts := (ns_pkts s)(skb \<mapsto> p)\<rparr>;
             if fails then map_option (\<lambda>(s, tf). (Corrupt_finish rest, s, tf)) (drop_packet h skb s to_free)
             else do {
               (p, k) \<leftarrow> flip_bit (prandom_u32 env) p (ns_rnd s);
               Some (Corrupt_go_on skb rest, s\<lparr>ns_pkts := (ns_pkts s)(skb \<mapsto> p), ns_rnd := k\<rparr>, to_free) } } } } }"

text \<open>The latest time at which a queued packet is to be sent, if any.\<close>

definition later :: "u64 option \<Rightarrow> u64 \<Rightarrow> u64 option" where
  "later prev t = (case prev of None \<Rightarrow> Some t | Some l \<Rightarrow> if l < t then Some t else Some l)"

definition netem_last :: "rb_lib \<Rightarrow> 'c netem_sch \<Rightarrow> u64 option option" where
  "netem_last lib s = do {
     l \<leftarrow> (if ns_queue s = [] then Some None else map_option Some (time_of s (last (ns_queue s))));
     l \<leftarrow> (if nq_root (ns_q s) = 0 then Some l
           else do { a \<leftarrow> lib_last lib (t_mem s); t \<leftarrow> time_of s a; Some (later l t) });
     (if nq_tail (ns_q s) = 0 then Some l
      else do { t \<leftarrow> time_of s (nq_tail (ns_q s)); Some (later l t) }) }"

text \<open>When the packet is to be sent.\<close>

definition netem_time :: "'c netem_env \<Rightarrow> u32 \<Rightarrow> 'c netem_sch \<Rightarrow> (u64 \<times> 'c netem_sch) option" where
  "netem_time env len s = do {
     let q = ns_q s;
     (delay, cor, k) \<leftarrow> tabledist (prandom_u32 env) (nq_latency q) (ucast (nq_jitter q)) (Some (nq_delay_cor q)) (nq_delay_dist q) (ns_rnd s);
     let now = ktime_get_ns env (ns_clock s);
     let s = s\<lparr>ns_q := q\<lparr>nq_delay_cor := (case cor of None \<Rightarrow> nq_delay_cor q | Some c \<Rightarrow> c)\<rparr>, ns_rnd := k, ns_clock := Suc (ns_clock s)\<rparr>;
     if nr_rate (nq_rate q) = 0 then Some (now + delay, s)
     else do {
       prev \<leftarrow> netem_last (ne_rb env) s;
       let (delay, now) = (case prev of
                             None \<Rightarrow> (delay, now)
                           | Some l \<Rightarrow> (s64_max_t 0 (delay - (l - now)), l));
       pt \<leftarrow> packet_time_ns (ne_recip env) (ucast len) (nq_rate q);
       Some (now + (delay + pt), s) } }"

text \<open>Queueing the packet, in time order or, one in so many, at the front.\<close>

definition set_time :: "addr \<Rightarrow> u64 \<Rightarrow> 'c netem_sch \<Rightarrow> 'c netem_sch option" where
  "set_time a t s = do {
     p \<leftarrow> ns_pkts s a;
     Some (s\<lparr>ns_pkts := (ns_pkts s)(a \<mapsto> p\<lparr>np_time_to_send := t\<rparr>)\<rparr>) }"

definition netem_in_order :: "prandom \<Rightarrow> 'c netem_sch \<Rightarrow> bool \<times> 'c netem_sch" where
  "netem_in_order rnd s =
     (let q = ns_q s in
      if nq_gap q = 0 \<or> nq_counter q < nq_gap q - 1 then (True, s)
      else let (v, cor, k) = crandom rnd (nq_reorder_cor q) (ns_rnd s)
           in (nq_reorder q < v, s\<lparr>ns_q := q\<lparr>nq_reorder_cor := cor\<rparr>, ns_rnd := k\<rparr>))"

definition netem_queue :: "'c netem_env \<Rightarrow> addr \<Rightarrow> 'c netem_sch \<Rightarrow> 'c netem_sch option" where
  "netem_queue env skb s = do {
     p \<leftarrow> ns_pkts s skb;
     let s = set_st (qdisc_qstats_backlog_inc env (np_skb p)) s;
     let (in_order, s) = netem_in_order (prandom_u32 env) s;
     if in_order then do {
       (t, s) \<leftarrow> netem_time env (pkt_len (np_skb p)) s;
       s \<leftarrow> set_time skb t s;
       tfifo_enqueue (ne_rb env) skb (set_q (\<lambda>q. q\<lparr>nq_counter := nq_counter q + 1\<rparr>) s) }
     else do {
       s \<leftarrow> set_time skb (ktime_get_ns env (ns_clock s)) (s\<lparr>ns_clock := Suc (ns_clock s)\<rparr>);
       let (queue, qlen) = qdisc_enqueue_head env skb (ns_queue s, q_qlen (ns_st s));
       Some (set_st (\<lambda>st. st\<lparr>q_qlen := qlen\<rparr>)
         (set_q (\<lambda>q. q\<lparr>nq_counter := 0\<rparr>) (s\<lparr>ns_queue := queue, ns_requeues := ns_requeues s + 1\<rparr>))) } }"

text \<open>
  The whole of \<^verbatim>\<open>netem_enqueue\<close>, which calls itself: a duplicate goes to the root of the qdisc tree, which is the emulator itself
  when \<open>root_enqueue\<close> is \<open>None\<close>, and the segments behind a corrupted packet are enqueued one by one. The second form of a call is
  that loop, with the number and the length of the segments accepted so far, which are its result. The emulator has no size table, so that
  \<^verbatim>\<open>qdisc_enqueue\<close> leaves the length of a segment as it is.
\<close>

datatype netem_op = Enqueue addr | Segments addr nat u32

abbreviation (input) NET_XMIT_BYPASS :: net_xmit where "NET_XMIT_BYPASS \<equiv> NET_XMIT_OTHER 0x00020000"

partial_function (option) netem_call ::
  "sched_hdr \<Rightarrow> 'c netem_env \<Rightarrow> netem_op \<Rightarrow> 'c netem_sch \<Rightarrow> sk_buff list \<Rightarrow>
   (net_xmit \<times> nat \<times> u32 \<times> 'c netem_sch \<times> sk_buff list) option" where
  "netem_call h env op s to_free =
     (case op of
        Enqueue skb \<Rightarrow> do {
          p \<leftarrow> ns_pkts s skb;
          let prev_len = pkt_len (np_skb p);
          (count, s) \<leftarrow> netem_count h env skb s;
          p \<leftarrow> ns_pkts s skb;
          if count = 0 then
            Some (NET_XMIT_BYPASS, 0, 0, release skb (set_st (qdisc_qstats_drop h) s), qdisc_drop_nostat h (np_skb p) to_free)
          else do {
            let q = ns_q s;
            let s = (if nq_latency q \<noteq> 0 \<or> nq_jitter q \<noteq> 0 \<or> nr_rate (nq_rate q) \<noteq> 0
                     then s\<lparr>ns_pkts := (ns_pkts s)(skb \<mapsto> skb_orphan_partial env p)\<rparr> else s);
            (rc_drop, s, to_free) \<leftarrow>
              (case (if 1 < count then skb_clone env skb (ns_pkts s) else None) of
                 None \<Rightarrow> Some (NET_XMIT_DROP, s, to_free)
               | Some (skb2, p2) \<Rightarrow> do {
                   let dupsave = nq_duplicate (ns_q s);
                   let s = set_q (\<lambda>q. q\<lparr>nq_duplicate := 0\<rparr>) (s\<lparr>ns_pkts := (ns_pkts s)(skb2 \<mapsto> p2)\<rparr>);
                   (s, to_free) \<leftarrow>
                     (case root_enqueue env of
                        Some f \<Rightarrow> f skb2 s to_free
                      | None \<Rightarrow> do {
                          (rc, nb, len, s, to_free) \<leftarrow> netem_call h env (Enqueue skb2) s to_free;
                          Some (s, to_free) });
                   Some (NET_XMIT_SUCCESS, set_q (\<lambda>q. q\<lparr>nq_duplicate := dupsave\<rparr>) s, to_free) });
            (c, s, to_free) \<leftarrow> netem_corrupt h env skb s to_free;
            (segs, s, to_free) \<leftarrow>
              (case c of
                 Corrupt_return \<Rightarrow> Some (None, s, to_free)
               | Corrupt_finish segs \<Rightarrow> Some (Some segs, s, to_free)
               | Corrupt_go_on skb segs \<Rightarrow>
                   if ns_limit s \<le> q_qlen (ns_st s) then
                     (let (pkts, st, tf) = qdisc_drop_all env skb (ns_pkts s) (ns_st s) to_free
                      in Some (None, s\<lparr>ns_pkts := pkts, ns_st := st\<rparr>, tf))
                   else do { s \<leftarrow> netem_queue env skb s; Some (Some segs, s, to_free) });
            (case segs of
               None \<Rightarrow> Some (rc_drop, 0, 0, s, to_free)
             | Some segs \<Rightarrow>
                 if segs = 0 then Some (NET_XMIT_SUCCESS, 0, 0, s, to_free)
                 else do {
                   (rc, nb, len, s, to_free) \<leftarrow> netem_call h env (Segments segs 0 0) s to_free;
                   let s = set_st (\<lambda>st. st\<lparr>q_qlen := q_qlen st + of_nat nb\<rparr>) s;
                   let ancs = (if 1 < nb
                               then qdisc_tree_reduce_backlog h (ns_offloaded s) (q_qlen (ns_st s)) (1 - of_nat nb) (prev_len - len) (ns_ancs s)
                               else ns_ancs s);
                   Some (NET_XMIT_SUCCESS, 0, 0, s\<lparr>ns_ancs := ancs\<rparr>, to_free) }) } }
      | Segments segs nb len \<Rightarrow>
          if segs = 0 then Some (NET_XMIT_SUCCESS, nb, len, s, to_free)
          else do {
            p \<leftarrow> ns_pkts s segs;
            let last_len = skb_len (np_skb p);
            let s = s\<lparr>ns_pkts := (ns_pkts s)(segs \<mapsto> p\<lparr>np_next := 0, np_skb := (np_skb p)\<lparr>pkt_len := last_len\<rparr>\<rparr>)\<rparr>;
            (rc, nb', len', s, to_free) \<leftarrow> netem_call h env (Enqueue segs) s to_free;
            if rc \<noteq> NET_XMIT_SUCCESS
            then netem_call h env (Segments (np_next p) nb len)
                   (if net_xmit_drop_count h rc then set_st (qdisc_qstats_drop h) s else s) to_free
            else netem_call h env (Segments (np_next p) (Suc nb) (len + last_len)) s to_free })"

declare netem_call.simps [code]

definition netem_enqueue ::
  "sched_hdr \<Rightarrow> 'c netem_env \<Rightarrow> addr \<Rightarrow> 'c netem_sch \<Rightarrow> sk_buff list \<Rightarrow> (net_xmit \<times> 'c netem_sch \<times> sk_buff list) option" where
  "netem_enqueue h env skb s to_free =
     map_option (\<lambda>(rc, nb, len, s, tf). (rc, s, tf)) (netem_call h env (Enqueue skb) s to_free)"

section \<open>Dequeue\<close>

definition get_slot_next :: "prandom \<Rightarrow> u64 \<Rightarrow> 'c netem_sch \<Rightarrow> 'c netem_sch option" where
  "get_slot_next rnd now s = do {
     let q = ns_q s;
     let cfg = nq_slot_config q;
     (next_delay, k) \<leftarrow>
       (case nq_slot_dist q of
          None \<Rightarrow>
            Some (sl_min_delay cfg + signed_drop_bit 32 (ucast (rnd (ns_rnd s)) * (sl_max_delay cfg - sl_min_delay cfg)), Suc (ns_rnd s))
        | Some dist \<Rightarrow>
            map_option (\<lambda>(d, c, k). (d, k)) (tabledist rnd (sl_dist_delay cfg) (ucast (sl_dist_jitter cfg)) None (Some dist) (ns_rnd s)));
     Some (s\<lparr>ns_q := q\<lparr>nq_slot := \<lparr>slot_next = now + next_delay, packets_left = sl_max_packets cfg, bytes_left = sl_max_bytes cfg\<rparr>\<rparr>,
             ns_rnd := k\<rparr>) }"

definition deliver :: "sched_hdr \<Rightarrow> sk_buff \<Rightarrow> 'c netem_sch \<Rightarrow> sk_buff option \<times> 'c netem_sch" where
  "deliver h skb s = (Some skb, set_st (qdisc_bstats_update h skb) s)"

text \<open>The inner qdisc, if there is one: its packet is delivered.\<close>

definition inner_deliver :: "sched_hdr \<Rightarrow> 'c netem_env \<Rightarrow> 'c netem_sch \<Rightarrow> sk_buff option \<times> 'c netem_sch" where
  "inner_deliver h env s =
     (case nq_qdisc (ns_q s) of
        None \<Rightarrow> (None, s)
      | Some c \<Rightarrow>
          let (r, c) = inner_dequeue env c; s = set_q (\<lambda>q. q\<lparr>nq_qdisc := Some c\<rparr>) s
          in case r of None \<Rightarrow> (None, s) | Some skb \<Rightarrow> deliver h skb s)"

text \<open>Taking a packet that is due out of the time-ordered queue, with the accounting of slots.\<close>

definition take_due :: "sched_hdr \<Rightarrow> 'c netem_env \<Rightarrow> u64 \<Rightarrow> addr \<Rightarrow> 'c netem_sch \<Rightarrow> (sk_buff \<times> 'c netem_sch) option" where
  "take_due h env now skb s = do {
     p \<leftarrow> ns_pkts s skb;
     s \<leftarrow> netem_erase_head (ne_rb env) skb s;
     let s = release skb (set_st (\<lambda>st. qdisc_qstats_backlog_dec h (np_skb p) (st\<lparr>q_qlen := q_qlen st - 1\<rparr>)) s);
     let sl = nq_slot (ns_q s);
     s \<leftarrow> (if slot_next sl = 0 then Some s
           else let sl = sl\<lparr>packets_left := packets_left sl - 1, bytes_left := bytes_left sl - pkt_len (np_skb p)\<rparr>;
                    s = set_q (\<lambda>q. q\<lparr>nq_slot := sl\<rparr>) s
                in if packets_left sl \<le>s 0 \<or> bytes_left sl \<le>s 0 then get_slot_next (prandom_u32 env) now s else Some s);
     Some (np_skb p, s) }"

text \<open>Handing a packet to the inner qdisc; what it refuses is dropped.\<close>

definition inner_enqueue :: "sched_hdr \<Rightarrow> 'c Qdisc_ops \<Rightarrow> sk_buff \<Rightarrow> 'c \<Rightarrow> 'c netem_sch \<Rightarrow> 'c netem_sch" where
  "inner_enqueue h ops skb c s =
     (let (err, c, to_free) = op_enqueue ops skb c [];
          s = set_q (\<lambda>q. q\<lparr>nq_qdisc := Some c\<rparr>) s
      in if err \<noteq> NET_XMIT_SUCCESS \<and> net_xmit_drop_count h err then
           (let s = set_st (qdisc_qstats_drop h) s
            in s\<lparr>ns_ancs := qdisc_tree_reduce_backlog h (ns_offloaded s) (q_qlen (ns_st s)) 1 (pkt_len skb) (ns_ancs s)\<rparr>)
         else s)"

partial_function (option) netem_dequeue ::
  "sched_hdr \<Rightarrow> 'c netem_env \<Rightarrow> 'c Qdisc_ops \<Rightarrow> 'c netem_sch \<Rightarrow> (sk_buff option \<times> 'c netem_sch) option" where
  "netem_dequeue h env ops s =
     (let (head, queue, qlen) = qdisc_dequeue_head0 env (ns_queue s, q_qlen (ns_st s));
          s = set_st (\<lambda>st. st\<lparr>q_qlen := qlen\<rparr>) (s\<lparr>ns_queue := queue\<rparr>)
      in case head of
           Some a \<Rightarrow> do {
             p \<leftarrow> ns_pkts s a;
             Some (deliver h (np_skb p) (release a (set_st (qdisc_qstats_backlog_dec h (np_skb p)) s))) }
         | None \<Rightarrow> do {
             a \<leftarrow> netem_peek (ne_rb env) s;
             if a = 0 then Some (inner_deliver h env s)
             else do {
               let now = ktime_get_ns env (ns_clock s);
               let s = s\<lparr>ns_clock := Suc (ns_clock s)\<rparr>;
               t \<leftarrow> time_of s a;
               let next = slot_next (nq_slot (ns_q s));
               s \<leftarrow> (if next \<noteq> 0 \<and> next < t then get_slot_next (prandom_u32 env) now s else Some s);
               let next = slot_next (nq_slot (ns_q s));
               if t \<le> now \<and> next \<le> now then do {
                 (skb, s) \<leftarrow> take_due h env now a s;
                 (case nq_qdisc (ns_q s) of
                    None \<Rightarrow> Some (deliver h skb s)
                  | Some c \<Rightarrow> netem_dequeue h env ops (inner_enqueue h ops skb c s)) }
               else
                 (case inner_deliver h env s of
                    (Some skb, s) \<Rightarrow> Some (Some skb, s)
                  | (None, s) \<Rightarrow>
                      Some (inner_deliver h env
                        (set_q (\<lambda>q. q\<lparr>nq_watchdog := qdisc_watchdog_schedule_ns (ns_deactivated s) (max t next) (nq_watchdog q)\<rparr>) s))) } })"

declare netem_dequeue.simps [code]

definition netem_reset :: "('c netem_sch \<Rightarrow> 'c netem_sch) \<Rightarrow> 'c netem_env \<Rightarrow> 'c Qdisc_ops \<Rightarrow> 'c netem_sch \<Rightarrow> 'c netem_sch option" where
  "netem_reset reset_queue env ops s = do {
     s \<leftarrow> tfifo_reset (ne_rb env) (reset_queue s);
     let s = set_q (\<lambda>q. q\<lparr>nq_qdisc := map_option (op_reset ops) (nq_qdisc q)\<rparr>) s;
     Some (set_q (\<lambda>q. q\<lparr>nq_watchdog := qdisc_watchdog_cancel (nq_watchdog q)\<rparr>) s) }"

end
