(* ===== verification/Netem_Correct.thy ===== *)
theory Netem_Correct
  imports Sch_Netem "HOL-Library.Multiset"
begin

text \<open>
  The queue of the network emulator ordered by time. The tree library it relies on is the contract \<open>rb_library\<close>, which the
  \<^verbatim>\<open>rbtree.c\<close> of the repository meets; the lemmas on the queue are proved from the contract. The invariant \<open>tfifo_ok\<close> says that
  the tree and the chain hold different packets, both sorted by time, and that the chain ends with NULL.
\<close>

section \<open>The contract of the tree library\<close>

locale rb_library =
  fixes lib :: rb_lib
  assumes first_law: "tree_ok H (D :: addr \<rightharpoonup> netem_pkt) root t \<Longrightarrow> lib_first lib (tree_mem H root) = Some (head_or_null (inorder t))"
    and last_law: "tree_ok H (D :: addr \<rightharpoonup> netem_pkt) root t \<Longrightarrow> lib_last lib (tree_mem H root) = Some (last_or_null (inorder t))"
    and next_law: "tree_ok H (D :: addr \<rightharpoonup> netem_pkt) root t \<Longrightarrow> inorder t = xs @ a # ys \<Longrightarrow>
      lib_next lib (tree_mem H root) a = Some (head_or_null ys)"
    and erase_law: "tree_ok H (D :: addr \<rightharpoonup> netem_pkt) root t \<Longrightarrow> inorder t = xs @ a # ys \<Longrightarrow>
      \<exists>m t'. lib_erase lib a (tree_mem H root) = Some m \<and>
        tree_ok ((rb_cells m)(a := None)) (D(a := None)) (rb_root m) t' \<and> inorder t' = xs @ ys \<and> a \<notin> set (xs @ ys) \<and>
        (\<forall>b. b \<notin> set (inorder t) \<longrightarrow> rb_cells m b = H b)"
    and insert_law: "tree_ok H (D :: addr \<rightharpoonup> netem_pkt) root t \<Longrightarrow> plug gs Leaf = t \<Longrightarrow> new \<noteq> 0 \<Longrightarrow> aligned new \<Longrightarrow> H new = None \<Longrightarrow>
      \<exists>m1 m t'. lib_link_node lib new (parent_of gs) (link_store (link_of gs) new) (tree_mem (H(new \<mapsto> n)) root) = Some m1 \<and>
        lib_insert_color lib new m1 = Some m \<and> tree_ok (rb_cells m) (D(new \<mapsto> d)) (rb_root m) t' \<and>
        inorder t = lefts gs @ rights gs \<and> inorder t' = lefts gs @ new # rights gs \<and> new \<notin> set (inorder t) \<and>
        (\<forall>b. b \<notin> insert new (set (inorder t)) \<longrightarrow> rb_cells m b = H b)"

definition rbtree_lib :: rb_lib where
  "rbtree_lib = \<lparr>lib_first = rb_first, lib_last = rb_last, lib_next = rb_next, lib_erase = rb_erase,
     lib_link_node = rb_link_node, lib_insert_color = rb_insert_color\<rparr>"

interpretation rbtree: rb_library rbtree_lib
proof (unfold_locales, goal_cases)
  case 1
  then show ?case by (simp add: rbtree_lib_def tree_first)
next
  case 2
  then show ?case by (simp add: rbtree_lib_def tree_ok_def rb_last_ok)
next
  case (3 H D root t xs a ys)
  from node_position [OF _ 3(2)] 3(1) obtain fs l c r where
    "rb_at (tree_mem H root) fs (Node l c a r)" "ys = inorder r @ rights fs" unfolding tree_ok_def by metis
  then show ?case using rb_next_ok by (simp add: rbtree_lib_def)
next
  case 4
  then show ?case using tree_erase by (simp add: rbtree_lib_def)
next
  case 5
  then show ?case using tree_insert_at by (simp add: rbtree_lib_def)
qed

section \<open>The descent\<close>

fun tslot :: "(addr \<rightharpoonup> u64) \<Rightarrow> u64 \<Rightarrow> frame list \<Rightarrow> rbt \<Rightarrow> frame list" where
  "tslot key tnext fs Leaf = fs"
| "tslot key tnext fs (Node l c a r) =
     (if the (key a) \<le> tnext then tslot key tnext (RightHole l c a # fs) r else tslot key tnext (LeftHole c a r # fs) l)"

lemma tfifo_slot_ok:
  assumes "rb_at m fs t" "\<forall>a \<in> set (inorder t). key a \<noteq> None"
  shows "tfifo_slot key m tnext (link_of fs) (parent_of fs) =
           Some (parent_of (tslot key tnext fs t), link_of (tslot key tnext fs t))"
  using assms
proof (induction key tnext fs t rule: tslot.induct)
  case (1 key tnext fs)
  then show ?case using link_deref_at [OF 1(1)] by (subst tfifo_slot.simps) simp
next
  case (2 key tnext fs l c a r)
  have at: "rb_at m (LeftHole c a r # fs) l" "rb_at m (RightHole l c a # fs) r"
    using 2(3) by (simp_all add: rb_repr_plug [symmetric])
  have "a \<noteq> 0" using 2(3) by (simp add: rb_at_def wf_addrs_def)
  with 2 at link_deref_at [OF 2(3)] show ?case by (subst tfifo_slot.simps) auto
qed

lemma tslot_plug: "plug (tslot key tnext fs t) Leaf = plug fs t"
  by (induction key tnext fs t rule: tslot.induct) auto

abbreviation keyed :: "(addr \<rightharpoonup> u64) \<Rightarrow> addr list \<Rightarrow> u64 list" where
  "keyed key xs \<equiv> map (the \<circ> key) xs"

lemma tslot_split:
  assumes "sorted (keyed key (inorder (plug fs t)))"
    and "\<forall>k \<in> set (keyed key (lefts fs)). k \<le> tnext" "\<forall>k \<in> set (keyed key (rights fs)). tnext < k"
  shows "(\<forall>k \<in> set (keyed key (lefts (tslot key tnext fs t))). k \<le> tnext) \<and>
         (\<forall>k \<in> set (keyed key (rights (tslot key tnext fs t))). tnext < k)"
  using assms
proof (induction key tnext fs t rule: tslot.induct)
  case (2 key tnext fs l c a r)
  have s: "\<forall>x \<in> set (inorder l). the (key x) \<le> the (key a)" "\<forall>x \<in> set (inorder r). the (key a) \<le> the (key x)"
    using 2(3) by (auto simp: sorted_append)
  show ?case
  proof (cases "the (key a) \<le> tnext")
    case True
    have "\<forall>k \<in> set (keyed key (lefts (RightHole l c a # fs))). k \<le> tnext" using True s(1) 2(4) by (auto intro: order_trans)
    with 2(1) [OF True] 2(3,5) True show ?thesis by simp
  next
    case False
    have "\<forall>k \<in> set (keyed key (rights (LeftHole c a r # fs))). tnext < k" using False s(2) 2(5) by (auto simp: not_le intro: less_le_trans)
    with 2(2) [OF False] 2(3,4) False show ?thesis by simp
  qed
qed simp

section \<open>The invariant of the queue\<close>

text \<open>The chain of packets from an address on; NULL ends it.\<close>

fun chain :: "(addr \<rightharpoonup> netem_pkt) \<Rightarrow> addr \<Rightarrow> addr list \<Rightarrow> bool" where
  "chain P a [] \<longleftrightarrow> a = 0"
| "chain P a (x # xs) \<longleftrightarrow> a = x \<and> x \<noteq> 0 \<and> (\<exists>p. P x = Some p \<and> chain P (np_next p) xs)"

abbreviation send_times :: "'c netem_sch \<Rightarrow> addr list \<Rightarrow> u64 list" where
  "send_times s xs \<equiv> keyed (time_of s) xs"

definition tfifo_ok :: "'c netem_sch \<Rightarrow> rbt \<Rightarrow> addr list \<Rightarrow> bool" where
  "tfifo_ok s t xs \<longleftrightarrow>
     tree_ok (ns_nodes s) (ns_pkts s) (nq_root (ns_q s)) t \<and> dom (ns_nodes s) = set (inorder t) \<and>
     chain (ns_pkts s) (nq_head (ns_q s)) xs \<and> nq_tail (ns_q s) = last_or_null xs \<and>
     distinct (inorder t @ xs) \<and> sorted (send_times s (inorder t)) \<and> sorted (send_times s xs)"

text \<open>The packets in the queue.\<close>

abbreviation queued :: "rbt \<Rightarrow> addr list \<Rightarrow> addr multiset" where
  "queued t xs \<equiv> mset (inorder t @ xs)"

lemma chain_addrs: "chain P a xs \<Longrightarrow> x \<in> set xs \<Longrightarrow> x \<noteq> 0 \<and> P x \<noteq> None"
  by (induction P a xs rule: chain.induct) auto

lemma chain_head: "chain P a xs \<Longrightarrow> a = head_or_null xs"
  by (cases xs) (auto simp: head_or_null_def)

lemma chain_cong: "chain P a xs \<Longrightarrow> (\<And>x. x \<in> set xs \<Longrightarrow> P' x = P x) \<Longrightarrow> chain P' a xs"
  by (induction P a xs rule: chain.induct) auto

text \<open>Appending a packet whose own pointer is NULL.\<close>

lemma chain_append:
  assumes "chain P a (ys @ [x])" "P x = Some p" "distinct (ys @ [x, new])" "new \<noteq> 0" "P new = Some pn" "np_next pn = 0"
  shows "chain (P(x \<mapsto> p\<lparr>np_next := new\<rparr>)) a (ys @ [x, new])"
  using assms
proof (induction ys arbitrary: a)
  case (Cons y ys)
  from Cons.prems(1) obtain py where y: "a = y" "y \<noteq> 0" "P y = Some py" "chain P (np_next py) (ys @ [x])" by auto
  have "chain (P(x \<mapsto> p\<lparr>np_next := new\<rparr>)) (np_next py) (ys @ [x, new])"
    by (rule Cons.IH [OF y(4)]) (use Cons.prems in auto)
  moreover have "(P(x \<mapsto> p\<lparr>np_next := new\<rparr>)) y = Some py" using y(3) Cons.prems(3) by simp
  ultimately show ?case using y(1,2) unfolding append_Cons chain.simps by blast
qed auto

lemma sorted_last_le: "sorted (send_times s (xs @ [x])) \<Longrightarrow> y \<in> set (xs @ [x]) \<Longrightarrow> the (time_of s y) \<le> the (time_of s x)"
  by (auto simp: sorted_append)

lemma tfifo_ok_parts:
  assumes "tfifo_ok s t xs"
  shows "a \<in> set (inorder t @ xs) \<Longrightarrow> a \<noteq> 0 \<and> (\<exists>p. ns_pkts s a = Some p)"
    and "xs = [] \<longleftrightarrow> nq_tail (ns_q s) = 0" "nq_head (ns_q s) = head_or_null xs"
proof -
  have c: "chain (ns_pkts s) (nq_head (ns_q s)) xs" and n: "nq_tail (ns_q s) = last_or_null xs" and
    ok: "tree_ok (ns_nodes s) (ns_pkts s) (nq_root (ns_q s)) t" using assms by (simp_all add: tfifo_ok_def)
  show "a \<in> set (inorder t @ xs) \<Longrightarrow> a \<noteq> 0 \<and> (\<exists>p. ns_pkts s a = Some p)"
    using chain_addrs [OF c, of a] ok by (auto simp: tree_ok_def rb_repr_mem wf_addrs_def)
  show "nq_head (ns_q s) = head_or_null xs" by (rule chain_head [OF c])
  show "xs = [] \<longleftrightarrow> nq_tail (ns_q s) = 0"
    using chain_addrs [OF c] n by (cases xs rule: rev_cases) (auto simp: last_or_null_def)
qed

lemma tfifo_ok_tail: "tfifo_ok s t xs \<Longrightarrow> xs \<noteq> [] \<Longrightarrow> nq_tail (ns_q s) \<in> set xs"
  by (cases xs rule: rev_cases) (simp_all add: tfifo_ok_def)

section \<open>Enqueue\<close>

text \<open>What queueing a packet in time order leaves alone.\<close>

definition same_times :: "'c netem_sch \<Rightarrow> 'c netem_sch \<Rightarrow> bool" where
  "same_times s s' \<longleftrightarrow> time_of s' = time_of s \<and> (\<forall>a. map_option np_skb (ns_pkts s' a) = map_option np_skb (ns_pkts s a)) \<and>
     ns_queue s' = ns_queue s \<and> ns_rnd s' = ns_rnd s \<and> ns_clock s' = ns_clock s \<and> ns_limit s' = ns_limit s"

lemma time_of_next: "time_of (s\<lparr>ns_pkts := (ns_pkts s)(a \<mapsto> p\<lparr>np_next := b\<rparr>)\<rparr>) = time_of s" if "ns_pkts s a = Some p"
  using that by (auto simp: time_of_def fun_eq_iff)

context rb_library
begin

lemma enqueue_at_end:
  assumes ok: "tfifo_ok s t xs" and new: "new \<noteq> 0" "ns_pkts s new = Some p" "np_next p = 0" "new \<notin> set (inorder t @ xs)"
    and "\<forall>x \<in> set xs. the (time_of s x) \<le> np_time_to_send p"
  obtains s' where "tfifo_enqueue lib new s = Some s'" "tfifo_ok s' t (xs @ [new])" "same_times s s'"
    "q_qlen (ns_st s') = q_qlen (ns_st s) + 1"
proof (cases xs rule: rev_cases)
  case Nil
  let ?s = "set_st (\<lambda>st. st\<lparr>q_qlen := q_qlen st + 1\<rparr>) (set_q (\<lambda>q. q\<lparr>nq_tail := new\<rparr>) (set_q (\<lambda>q. q\<lparr>nq_head := new\<rparr>) s))"
  have "nq_tail (ns_q s) = 0" using ok Nil by (simp add: tfifo_ok_def)
  then have "tfifo_enqueue lib new s = Some ?s" using new(2) by (simp add: tfifo_enqueue_def time_of_def)
  moreover have "tfifo_ok ?s t (xs @ [new])" using ok new Nil by (simp add: tfifo_ok_def time_of_def comp_def)
  moreover have "same_times s ?s" by (simp add: same_times_def time_of_def fun_eq_iff)
  ultimately show ?thesis by (rule that) simp
next
  case (snoc ys x)
  have x: "nq_tail (ns_q s) = x" "x \<noteq> 0" "\<exists>px. ns_pkts s x = Some px"
    using ok snoc tfifo_ok_parts(1) [OF ok, of x] by (simp_all add: tfifo_ok_def)
  then obtain px where px: "ns_pkts s x = Some px" by blast
  let ?P = "(ns_pkts s)(x \<mapsto> px\<lparr>np_next := new\<rparr>)"
  let ?s = "set_st (\<lambda>st. st\<lparr>q_qlen := q_qlen st + 1\<rparr>) (set_q (\<lambda>q. q\<lparr>nq_tail := new\<rparr>) (s\<lparr>ns_pkts := ?P\<rparr>))"
  have le: "np_time_to_send px \<le> np_time_to_send p" using assms(6) snoc px by (simp add: time_of_def)
  then have run: "tfifo_enqueue lib new s = Some ?s"
    using new(2) x(1,2) px by (simp add: tfifo_enqueue_def time_of_def set_next_def)
  have T: "time_of ?s = time_of s" using px by (auto simp: time_of_def fun_eq_iff)
  have "chain ?P (nq_head (ns_q s)) (ys @ [x, new])"
    by (rule chain_append) (use ok snoc px new in \<open>auto simp: tfifo_ok_def\<close>)
  moreover have "tree_ok (ns_nodes s) ?P (nq_root (ns_q s)) t" using ok by (auto simp: tfifo_ok_def tree_ok_def)
  moreover have "sorted (send_times s (xs @ [new]))"
    using ok assms(6) new(2) by (auto simp: tfifo_ok_def sorted_append time_of_def)
  moreover have "dom (ns_nodes s) = set (inorder t)" "distinct (inorder t @ xs @ [new])" "sorted (send_times s (inorder t))"
    using ok new(4) by (auto simp: tfifo_ok_def)
  ultimately have "tfifo_ok ?s t (xs @ [new])" unfolding tfifo_ok_def T using snoc by (simp add: last_or_null_def)
  moreover have "same_times s ?s" using T px by (auto simp: same_times_def)
  ultimately show ?thesis using that [OF run] by simp
qed

lemma enqueue_in_tree:
  assumes ok: "tfifo_ok s t xs" and new: "new \<noteq> 0" "aligned new" "ns_pkts s new = Some p" "new \<notin> set (inorder t @ xs)"
    and late: "xs \<noteq> []" "np_time_to_send p < the (time_of s (nq_tail (ns_q s)))"
  obtains s' t' where "tfifo_enqueue lib new s = Some s'" "tfifo_ok s' t' xs" "queued t' xs = add_mset new (queued t xs)"
    "same_times s s'" "q_qlen (ns_st s') = q_qlen (ns_st s) + 1"
proof -
  let ?T = "np_time_to_send p" and ?H = "ns_nodes s" and ?n = "\<lparr>pc = 0, rb_right = 0, rb_left = 0\<rparr>"
  let ?gs = "tslot (time_of s) ?T [] t"
  have tree: "tree_ok ?H (ns_pkts s) (nq_root (ns_q s)) t" and dom: "dom ?H = set (inorder t)" using ok by (simp_all add: tfifo_ok_def)
  have free: "?H new = None" using dom new(4) by auto
  have key: "\<forall>a \<in> set (inorder t). time_of s a \<noteq> None" using tfifo_ok_parts(1) [OF ok] by (auto simp: time_of_def)
  have "rb_at (t_mem s) [] t" using tree by (simp add: tree_ok_def t_mem_def rb_repr_plug [symmetric])
  from tfifo_slot_ok [OF this key, of ?T] have
    slot: "tfifo_slot (time_of s) (t_mem s) ?T RootLink 0 = Some (parent_of ?gs, link_of ?gs)" by simp
  have plug: "plug ?gs Leaf = t" using tslot_plug [of "time_of s" ?T "[]" t] by simp
  from insert_law [OF tree plug new(1,2) free, of ?n p] obtain m1 m t' where
    m: "lib_link_node lib new (parent_of ?gs) (link_store (link_of ?gs) new) (tree_mem (?H(new \<mapsto> ?n)) (nq_root (ns_q s))) = Some m1"
    "lib_insert_color lib new m1 = Some m" "tree_ok (rb_cells m) ((ns_pkts s)(new \<mapsto> p)) (rb_root m) t'"
    "inorder t = lefts ?gs @ rights ?gs" "inorder t' = lefts ?gs @ new # rights ?gs"
    "\<forall>b. b \<notin> insert new (set (inorder t)) \<longrightarrow> rb_cells m b = ?H b" by blast
  let ?s = "set_st (\<lambda>st. st\<lparr>q_qlen := q_qlen st + 1\<rparr>) (set_tree m (s\<lparr>ns_nodes := ?H(new \<mapsto> ?n)\<rparr>))"
  obtain pt where pt: "ns_pkts s (nq_tail (ns_q s)) = Some pt" "nq_tail (ns_q s) \<noteq> 0"
    using tfifo_ok_tail [OF ok late(1)] tfifo_ok_parts(1) [OF ok, of "nq_tail (ns_q s)"] by auto
  have "\<not> np_time_to_send pt \<le> ?T" using late(2) pt(1) by (simp add: time_of_def not_le)
  then have early: "map_option (\<lambda>t. t \<le> ?T) (time_of s (nq_tail (ns_q s))) = Some False" using pt(1) by (simp add: time_of_def)
  have tm: "t_mem (s\<lparr>ns_nodes := ?H(new \<mapsto> ?n)\<rparr>) = tree_mem (?H(new \<mapsto> ?n)) (nq_root (ns_q s))" by (simp add: t_mem_def)
  have tn: "time_of s new = Some ?T" using new(3) by (simp add: time_of_def)
  have run: "tfifo_enqueue lib new s = Some ?s"
    unfolding tfifo_enqueue_def tn Let_def bind.bind_lunit if_not_P [OF pt(2)] early by (simp add: slot tm m(1,2))
  have P: "(ns_pkts s)(new \<mapsto> p) = ns_pkts s" using new(3) by auto
  have T: "time_of ?s = time_of s" by (simp add: time_of_def set_tree_def fun_eq_iff)
  have in_t': "set (inorder t') = insert new (set (inorder t))" using m(4,5) by auto
  have "dom (rb_cells m) = set (inorder t')"
    using m(6) dom tree_ok_allocated [OF m(3)] unfolding in_t' by (auto simp: dom_def)
  moreover have "sorted (send_times s (inorder t'))"
    using tslot_split [of "time_of s" "[]" t ?T] ok m(4,5) new(3) by (auto simp: tfifo_ok_def sorted_append time_of_def intro: less_imp_le)
  moreover have "distinct (inorder t' @ xs)" using ok m(4,5) new(4) by (auto simp: tfifo_ok_def)
  ultimately have "tfifo_ok ?s t' xs" using ok m(3) unfolding tfifo_ok_def T P by (simp add: set_tree_def)
  moreover have "queued t' xs = add_mset new (queued t xs)" using m(4,5) by simp
  moreover have "same_times s ?s" using T by (simp add: same_times_def set_tree_def)
  ultimately show thesis using that [OF run] by (simp add: set_tree_def)
qed

text \<open>Queueing a packet whose own pointer is NULL: it is added, wherever its time puts it.\<close>

lemma enqueue_ok:
  assumes ok: "tfifo_ok s t xs" and new: "new \<noteq> 0" "aligned new" "ns_pkts s new = Some p" "np_next p = 0" "new \<notin> set (inorder t @ xs)"
  obtains s' t' xs' where "tfifo_enqueue lib new s = Some s'" "tfifo_ok s' t' xs'" "queued t' xs' = add_mset new (queued t xs)"
    "same_times s s'" "q_qlen (ns_st s') = q_qlen (ns_st s) + 1"
proof (cases "xs \<noteq> [] \<and> np_time_to_send p < the (time_of s (nq_tail (ns_q s)))")
  case True
  then show ?thesis using enqueue_in_tree [OF ok new(1-3,5)] that by blast
next
  case False
  have "the (time_of s x) \<le> np_time_to_send p" if "x \<in> set xs" for x
  proof -
    obtain ys y where xs: "xs = ys @ [y]" using \<open>x \<in> set xs\<close> by (cases xs rule: rev_cases) auto
    then have "nq_tail (ns_q s) = y" "sorted (send_times s (ys @ [y]))" using ok by (simp_all add: tfifo_ok_def)
    with sorted_last_le [of s ys y x] that xs False show ?thesis by auto
  qed
  then have le: "\<forall>x \<in> set xs. the (time_of s x) \<le> np_time_to_send p" by blast
  from enqueue_at_end [OF ok new(1,3-5) le] obtain s' where
    "tfifo_enqueue lib new s = Some s'" "tfifo_ok s' t (xs @ [new])" "same_times s s'" "q_qlen (ns_st s') = q_qlen (ns_st s) + 1" .
  moreover have "queued t (xs @ [new]) = add_mset new (queued t xs)" by (simp add: ac_simps)
  ultimately show ?thesis by (intro that)
qed

end

section \<open>Dequeue\<close>

text \<open>A packet of the queue that is due no later than any other.\<close>

definition earliest :: "'c netem_sch \<Rightarrow> rbt \<Rightarrow> addr list \<Rightarrow> addr \<Rightarrow> bool" where
  "earliest s t xs a \<longleftrightarrow> a \<in># queued t xs \<and> (\<forall>b \<in># queued t xs. the (time_of s a) \<le> the (time_of s b))"

lemma sorted_head_le: "sorted (send_times s (x # xs)) \<Longrightarrow> y \<in> set (x # xs) \<Longrightarrow> the (time_of s x) \<le> the (time_of s y)"
  by auto

text \<open>The invariant only looks at the queue.\<close>

lemma tfifo_ok_cong:
  assumes "tfifo_ok s t xs" "ns_nodes s' = ns_nodes s" "ns_pkts s' = ns_pkts s" "nq_root (ns_q s') = nq_root (ns_q s)"
    "nq_head (ns_q s') = nq_head (ns_q s)" "nq_tail (ns_q s') = nq_tail (ns_q s)"
  shows "tfifo_ok s' t xs"
proof -
  have "time_of s' = time_of s" using assms(3) by (simp add: time_of_def fun_eq_iff)
  then show ?thesis using assms by (simp add: tfifo_ok_def)
qed

context rb_library
begin

lemma peek_ok:
  assumes ok: "tfifo_ok s t xs"
  obtains "queued t xs = {#}" "netem_peek lib s = Some 0"
  | a where "netem_peek lib s = Some a" "earliest s t xs a" "a \<noteq> 0" "a = nq_head (ns_q s) \<and> xs \<noteq> [] \<or> a \<noteq> nq_head (ns_q s) \<and> inorder t = a # tl (inorder t)"
proof -
  have first: "lib_first lib (t_mem s) = Some (head_or_null (inorder t))"
    using first_law ok unfolding tfifo_ok_def t_mem_def by blast
  have head: "nq_head (ns_q s) = head_or_null xs" by (rule tfifo_ok_parts(3) [OF ok])
  note addr = tfifo_ok_parts(1) [OF ok]
  show thesis
  proof (cases "inorder t")
    case Nil
    show thesis
    proof (cases xs)
      case Nil': Nil
      then show thesis using first head Nil by (intro that(1)) (simp_all add: netem_peek_def)
    next
      case (Cons x ys)
      have "earliest s t xs x" using ok Nil Cons by (auto simp: earliest_def tfifo_ok_def)
      then show thesis using first head Nil Cons addr [of x] by (intro that(2) [of x]) (simp_all add: netem_peek_def)
    qed
  next
    case (Cons b bs)
    obtain pb where b: "b \<noteq> 0" "ns_pkts s b = Some pb" using addr [of b] Cons by auto
    show thesis
    proof (cases xs)
      case Nil
      have "earliest s t xs b" using ok Nil Cons by (auto simp: earliest_def tfifo_ok_def)
      then show thesis using first head Nil Cons b by (intro that(2) [of b]) (simp_all add: netem_peek_def)
    next
      case Cons': (Cons x ys)
      obtain px where x: "x \<noteq> 0" "ns_pkts s x = Some px" using addr [of x] Cons' by auto
      have ne: "b \<noteq> x" using ok Cons Cons' by (auto simp: tfifo_ok_def)
      let ?a = "if np_time_to_send pb < np_time_to_send px then b else x"
      have peek: "netem_peek lib s = Some ?a"
        using first head Cons Cons' b x by (simp add: netem_peek_def time_of_def)
      have lb: "\<forall>y \<in> set (inorder t). the (time_of s b) \<le> the (time_of s y)" "\<forall>y \<in> set xs. the (time_of s x) \<le> the (time_of s y)"
        using ok Cons Cons' by (auto simp: tfifo_ok_def)
      have T: "the (time_of s b) = np_time_to_send pb" "the (time_of s x) = np_time_to_send px" using b x by (simp_all add: time_of_def)
      have "earliest s t xs ?a"
      proof (cases "np_time_to_send pb < np_time_to_send px")
        case True
        then have "\<forall>y \<in> set xs. the (time_of s b) \<le> the (time_of s y)" using lb(2) T by (metis less_imp_le order_trans)
        with True lb(1) Cons show ?thesis by (auto simp: earliest_def)
      next
        case False
        then have "\<forall>y \<in> set (inorder t). the (time_of s x) \<le> the (time_of s y)" using lb(1) T by (metis not_less order_trans)
        with False lb(2) Cons' show ?thesis by (auto simp: earliest_def)
      qed
      with peek show thesis using b x ne head Cons Cons' by (intro that(2) [of ?a]) auto
    qed
  qed
qed

text \<open>Taking the head of the chain, or a packet of the tree, out of the queue.\<close>

lemma erase_chain_head:
  assumes ok: "tfifo_ok s t (x # ys)"
  obtains s' where "netem_erase_head lib x s = Some s'" "tfifo_ok (release x s') t ys" "same_times s s'" "ns_st s' = ns_st s"
    "nq_slot (ns_q s') = nq_slot (ns_q s)" "nq_qdisc (ns_q s') = nq_qdisc (ns_q s)"
proof -
  have head: "nq_head (ns_q s) = x" using tfifo_ok_parts(3) [OF ok] by simp
  obtain p where p: "ns_pkts s x = Some p" "chain (ns_pkts s) (np_next p) ys" using ok by (auto simp: tfifo_ok_def)
  let ?s = "set_q (\<lambda>q. q\<lparr>nq_head := np_next p, nq_tail := (if np_next p = 0 then 0 else nq_tail q)\<rparr>) s"
  have dist: "x \<notin> set (inorder t @ ys)" using ok by (auto simp: tfifo_ok_def)
  have T: "time_of (release x ?s) a = time_of s a" if "a \<in> set (inorder t @ ys)" for a
    using that dist by (auto simp: time_of_def release_def)
  then have S: "send_times (release x ?s) (inorder t) = send_times s (inorder t)" "send_times (release x ?s) ys = send_times s ys" by auto
  have "np_next p = 0 \<longleftrightarrow> ys = []" using p(2) by (cases ys) auto
  then have tail: "(if np_next p = 0 then 0 else nq_tail (ns_q s)) = last_or_null ys"
    using ok by (cases ys rule: rev_cases) (auto simp: tfifo_ok_def last_or_null_def)
  have "chain ((ns_pkts s)(x := None)) (np_next p) ys" by (rule chain_cong [OF p(2)]) (use dist in auto)
  moreover have "tree_ok (ns_nodes s) ((ns_pkts s)(x := None)) (nq_root (ns_q s)) t"
    using ok dist by (auto simp: tfifo_ok_def tree_ok_def)
  ultimately have "tfifo_ok (release x ?s) t ys"
    using ok tail unfolding tfifo_ok_def S by (simp add: release_def)
  moreover have "netem_erase_head lib x s = Some ?s" using head p(1) by (simp add: netem_erase_head_def)
  moreover have "same_times s ?s" by (simp add: same_times_def time_of_def fun_eq_iff)
  ultimately show thesis by (intro that [of ?s]) simp_all
qed

lemma erase_tree_head:
  assumes ok: "tfifo_ok s t xs" and t: "inorder t = a # bs" and ne: "a \<noteq> nq_head (ns_q s)"
  obtains s' t' where "netem_erase_head lib a s = Some s'" "tfifo_ok (release a s') t' xs" "inorder t' = bs" "same_times s s'" "ns_st s' = ns_st s"
    "nq_slot (ns_q s') = nq_slot (ns_q s)" "nq_qdisc (ns_q s') = nq_qdisc (ns_q s)"
proof -
  have tree: "tree_ok (ns_nodes s) (ns_pkts s) (nq_root (ns_q s)) t" and dom: "dom (ns_nodes s) = set (inorder t)"
    using ok by (simp_all add: tfifo_ok_def)
  have t': "inorder t = [] @ a # bs" using t by simp
  from erase_law [OF tree t'] obtain m t' where
    m: "lib_erase lib a (t_mem s) = Some m" "tree_ok ((rb_cells m)(a := None)) ((ns_pkts s)(a := None)) (rb_root m) t'"
    "inorder t' = bs" "a \<notin> set bs" "\<forall>b. b \<notin> set (inorder t) \<longrightarrow> rb_cells m b = ns_nodes s b" unfolding t_mem_def by auto
  let ?s = "(set_tree m s)\<lparr>ns_nodes := (rb_cells m)(a := None)\<rparr>"
  have dist: "a \<notin> set (inorder t' @ xs)" using ok t m(3,4) by (auto simp: tfifo_ok_def)
  have "time_of (release a ?s) b = time_of s b" if "b \<in> set (inorder t' @ xs)" for b
    using that dist by (auto simp: time_of_def release_def set_tree_def)
  then have S: "send_times (release a ?s) (inorder t') = send_times s (inorder t')" "send_times (release a ?s) xs = send_times s xs" by auto
  have "chain ((ns_pkts s)(a := None)) (nq_head (ns_q s)) xs"
    by (rule chain_cong [of "ns_pkts s"]) (use ok dist in \<open>auto simp: tfifo_ok_def\<close>)
  moreover have "dom ((rb_cells m)(a := None)) = set (inorder t')"
  proof (intro set_eqI iffI)
    fix b assume "b \<in> set (inorder t')"
    with tree_ok_allocated [OF m(2)] show "b \<in> dom ((rb_cells m)(a := None))" by blast
  next
    fix b assume b: "b \<in> dom ((rb_cells m)(a := None))"
    then have "b \<noteq> a" "rb_cells m b \<noteq> None" by (auto split: if_splits)
    with m(3,5) dom t show "b \<in> set (inorder t')" by (metis domI option.exhaust set_ConsD)
  qed
  ultimately have "tfifo_ok (release a ?s) t' xs"
    using ok m(2,3) t unfolding tfifo_ok_def S by (simp add: release_def set_tree_def)
  moreover have "netem_erase_head lib a s = Some ?s" using ne m(1) by (simp add: netem_erase_head_def set_tree_def)
  moreover have "same_times s ?s" by (simp add: same_times_def time_of_def fun_eq_iff set_tree_def)
  ultimately show thesis using m(3) by (intro that [of ?s]) (simp_all add: set_tree_def)
qed

lemma erase_ok:
  assumes ok: "tfifo_ok s t xs" and a: "a = nq_head (ns_q s) \<and> xs \<noteq> [] \<or> a \<noteq> nq_head (ns_q s) \<and> inorder t = a # tl (inorder t)"
  obtains s' t' xs' where "netem_erase_head lib a s = Some s'" "tfifo_ok (release a s') t' xs'" "queued t' xs' = queued t xs - {#a#}"
    "same_times s s'" "ns_st s' = ns_st s" "nq_slot (ns_q s') = nq_slot (ns_q s)" "nq_qdisc (ns_q s') = nq_qdisc (ns_q s)"
proof (cases "a = nq_head (ns_q s)")
  case True
  then obtain ys where xs: "xs = a # ys" using a tfifo_ok_parts(3) [OF ok] by (cases xs) auto
  have "queued t ys = queued t xs - {#a#}" using xs by simp
  then show ?thesis using erase_chain_head [OF ok [unfolded xs]] that by metis
next
  case False
  then have t: "inorder t = a # tl (inorder t)" using a by blast
  have "mset (inorder t) = add_mset a (mset (tl (inorder t)))" by (subst t) simp
  then have "mset (tl (inorder t) @ xs) = queued t xs - {#a#}" by simp
  then show ?thesis using erase_tree_head [OF ok t False] that by metis
qed

end

end
