(* ===== verification/Netem_Run.thy ===== *)
theory Netem_Run
  imports Netem_Correct
begin

text \<open>
  Whole operations of the network emulator: dequeue hands out the earliest packet that is due, and a packet that is queued at a
  rate is sent when the one before it has been sent; a reset empties the queue. The header helpers the operations call are parameters;
  \<open>netem_env_ok\<close> states what they are documented to do.
\<close>

definition netem_env_ok :: "'c netem_env \<Rightarrow> bool" where
  "netem_env_ok env \<longleftrightarrow>
     (\<forall>n. qdisc_dequeue_head0 env ([], n) = (None, [], n)) \<and>
     (\<forall>a q n. qdisc_dequeue_head0 env (a # q, n) = (Some a, q, n - 1)) \<and>
     (\<forall>a q n. qdisc_enqueue_head env a (q, n) = (a # q, n + 1)) \<and>
     (\<forall>skb st. qdisc_qstats_backlog_inc env skb st = st\<lparr>qs_backlog := qs_backlog st + pkt_len skb\<rparr>) \<and>
     (\<forall>p. np_skb (skb_orphan_partial env p) = np_skb p \<and> np_next (skb_orphan_partial env p) = np_next p)"

text \<open>No packet at the front, no inner qdisc and no slots: what the controllers configure.\<close>

definition plain_netem :: "'c netem_sch \<Rightarrow> bool" where
  "plain_netem s \<longleftrightarrow> ns_queue s = [] \<and> nq_qdisc (ns_q s) = None \<and> slot_next (nq_slot (ns_q s)) = 0"

section \<open>Dequeue\<close>

context rb_library
begin

lemma dequeue_step:
  assumes "netem_env_ok env" "ne_rb env = lib" "plain_netem s" "netem_peek lib s = Some a"
  shows "netem_dequeue h env ops s =
    (if a = 0 then Some (None, s)
     else let now = ktime_get_ns env (ns_clock s); s1 = s\<lparr>ns_clock := Suc (ns_clock s)\<rparr> in do {
       t \<leftarrow> time_of s a;
       if t \<le> now then do { (skb, s2) \<leftarrow> take_due h env now a s1; (case nq_qdisc (ns_q s2) of
           None \<Rightarrow> Some (deliver h skb s2) | Some c \<Rightarrow> netem_dequeue h env ops (inner_enqueue h ops skb c s2)) }
       else Some (None, set_q (\<lambda>q. q\<lparr>nq_watchdog := qdisc_watchdog_schedule_ns (ns_deactivated s) t (nq_watchdog q)\<rparr>) s1) })"
proof -
  have s: "ns_queue s = []" "nq_qdisc (ns_q s) = None" "slot_next (nq_slot (ns_q s)) = 0" using assms(3) by (simp_all add: plain_netem_def)
  have same: "s\<lparr>ns_queue := []\<rparr> = s" using s(1) by (cases s) simp
  have hd: "qdisc_dequeue_head0 env ([], n) = (None, [], n)" for n using assms(1) by (simp add: netem_env_ok_def)
  have T: "time_of (s\<lparr>ns_clock := k\<rparr>) = time_of s" for k by (simp add: time_of_def fun_eq_iff)
  have M: "max t 0 = t" for t :: u64 by (simp add: max_def)
  show ?thesis
    by (subst netem_dequeue.simps) (simp add: s hd same assms(2,4) Let_def T M inner_deliver_def cong: if_cong)
qed

lemma dequeue_ok:
  assumes env: "netem_env_ok env" "ne_rb env = lib" "stat_helpers_ok h" and ok: "tfifo_ok s t xs" and plain: "plain_netem s"
  obtains (empty) "queued t xs = {#}" "netem_dequeue h env ops s = Some (None, s)"
  | (due) a p s' t' xs' where "earliest s t xs a" "ns_pkts s a = Some p" "np_time_to_send p \<le> ktime_get_ns env (ns_clock s)"
      "netem_dequeue h env ops s = Some (Some (np_skb p), s')" "tfifo_ok s' t' xs'" "queued t' xs' = queued t xs - {#a#}" "plain_netem s'"
      "q_qlen (ns_st s') = q_qlen (ns_st s) - 1"
  | (wait) a p s' where "earliest s t xs a" "ns_pkts s a = Some p" "ktime_get_ns env (ns_clock s) < np_time_to_send p"
      "netem_dequeue h env ops s = Some (None, s')" "tfifo_ok s' t xs" "plain_netem s'" "ns_pkts s' = ns_pkts s"
      "nq_watchdog (ns_q s') = qdisc_watchdog_schedule_ns (ns_deactivated s) (np_time_to_send p) (nq_watchdog (ns_q s))"
proof (rule peek_ok [OF ok])
  assume "queued t xs = {#}" "netem_peek lib s = Some 0"
  then show thesis using dequeue_step [OF env(1,2) plain] by (intro empty) simp_all
next
  fix a assume a: "netem_peek lib s = Some a" "earliest s t xs a" "a \<noteq> 0"
    "a = nq_head (ns_q s) \<and> xs \<noteq> [] \<or> a \<noteq> nq_head (ns_q s) \<and> inorder t = a # tl (inorder t)"
  let ?now = "ktime_get_ns env (ns_clock s)" and ?s1 = "s\<lparr>ns_clock := Suc (ns_clock s)\<rparr>"
  have "a \<in> set (inorder t @ xs)" using a(2) by (simp add: earliest_def)
  then obtain p where p: "ns_pkts s a = Some p" using tfifo_ok_parts(1) [OF ok] by blast
  have T: "time_of s a = Some (np_time_to_send p)" using p by (simp add: time_of_def)
  have ok1: "tfifo_ok ?s1 t xs" by (rule tfifo_ok_cong [OF ok]) simp_all
  note step = dequeue_step [OF env(1,2) plain a(1), of h ops, unfolded T, simplified a(3), simplified]
  show thesis
  proof (cases "np_time_to_send p \<le> ?now")
    case True
    have a1: "a = nq_head (ns_q ?s1) \<and> xs \<noteq> [] \<or> a \<noteq> nq_head (ns_q ?s1) \<and> inorder t = a # tl (inorder t)" using a(4) by simp
    from erase_ok [OF ok1 a1] obtain s2 t' xs' where
      e: "netem_erase_head lib a ?s1 = Some s2" "tfifo_ok (release a s2) t' xs'" "queued t' xs' = queued t xs - {#a#}"
      "same_times ?s1 s2" "ns_st s2 = ns_st ?s1" "nq_slot (ns_q s2) = nq_slot (ns_q ?s1)" "nq_qdisc (ns_q s2) = nq_qdisc (ns_q ?s1)" .
    let ?s2 = "release a (set_st (\<lambda>st. qdisc_qstats_backlog_dec h (np_skb p) (st\<lparr>q_qlen := q_qlen st - 1\<rparr>)) s2)"
    let ?s' = "set_st (qdisc_bstats_update h (np_skb p)) ?s2"
    have take: "take_due h env ?now a ?s1 = Some (np_skb p, ?s2)"
      using e(1,6) plain p by (simp add: take_due_def env(2) release_def plain_netem_def)
    have inner: "nq_qdisc (ns_q ?s2) = None" using e(7) plain by (simp add: release_def plain_netem_def)
    have "netem_dequeue h env ops s = Some (Some (np_skb p), ?s')"
      using step True by (simp add: take inner deliver_def)
    moreover have "tfifo_ok ?s' t' xs'" by (rule tfifo_ok_cong [OF e(2)]) (simp_all add: release_def)
    moreover have "plain_netem ?s'" using e(4,6,7) plain by (simp add: plain_netem_def release_def same_times_def)
    moreover have "q_qlen (ns_st ?s') = q_qlen (ns_st s) - 1" using env(3) e(5) by (simp add: release_def stat_helpers_ok_def)
    ultimately show thesis using due [OF a(2) p True] e(3) by blast
  next
    case False
    let ?s' = "set_q (\<lambda>q. q\<lparr>nq_watchdog := qdisc_watchdog_schedule_ns (ns_deactivated s) (np_time_to_send p) (nq_watchdog q)\<rparr>) ?s1"
    have "netem_dequeue h env ops s = Some (None, ?s')" using step False by simp
    moreover have "tfifo_ok ?s' t xs" by (rule tfifo_ok_cong [OF ok]) simp_all
    moreover have "plain_netem ?s'" using plain by (simp add: plain_netem_def)
    moreover have "ktime_get_ns env (ns_clock s) < np_time_to_send p" using False by simp
    ultimately show thesis by (intro wait [OF a(2) p, of ?s']) simp_all
  qed
qed

end

section \<open>Sending at a rate\<close>

text \<open>The times at which the packets of the queue are sent.\<close>

abbreviation planned :: "'c netem_sch \<Rightarrow> rbt \<Rightarrow> addr list \<Rightarrow> u64 set" where
  "planned s t xs \<equiv> (\<lambda>a. the (time_of s a)) ` set_mset (queued t xs)"

lemma sorted_Max_last: "sorted (send_times s (xs @ [x])) \<Longrightarrow> Max ((\<lambda>a. the (time_of s a)) ` set (xs @ [x])) = the (time_of s x)"
  using sorted_last_le [of s xs x] by (intro Max_eqI) auto

lemma later_max: "later (Some l) t = Some (max l t)" "later None t = Some t"
  by (auto simp: later_def max_def)

text \<open>The delay from the latest planned time on, cut at zero, as the signed arithmetic of the code computes it.\<close>

lemma sint_sub_sub:
  fixes now :: u64
  assumes "unat now < 2 ^ 61" "unat delay < 2 ^ 61" "unat l < 2 ^ 62"
  shows "sint (delay - (l - now)) < 0 \<longleftrightarrow> unat now + unat delay < unat l"
proof -
  have b: "uint now < 2 ^ 61" "uint delay < 2 ^ 61" "uint l < 2 ^ 62"
    using assms uint_nat [of now] uint_nat [of delay] uint_nat [of l] by (simp_all only: of_nat_less_numeral_power_cancel_iff)
  have s: "sint now = uint now" "sint delay = uint delay" "sint l = uint l" using b by (simp_all add: sint_eq_uint_s64)
  have in1: "in_s64 (y - x)" and in2: "in_s64 (z - (y - x))"
    if "x < 2 ^ 61" "y < 2 ^ 62" "z < 2 ^ 61" "0 \<le> x" "0 \<le> y" "0 \<le> z" for x y z :: int
    using that by (simp_all add: in_s64_def)
  note ge = uint_ge_0 [of now] uint_ge_0 [of l] uint_ge_0 [of delay]
  have e: "sint (l - now) = uint l - uint now" using sint_sub_s64 [of l now] in1 [OF b(1,3,2) ge] by (simp only: s)
  have d: "sint (delay - (l - now)) = uint delay - (uint l - uint now)"
    using sint_sub_s64 [of delay "l - now"] in2 [OF b(1,3,2) ge] by (simp only: s e)
  show ?thesis unfolding d using uint_nat [of now] uint_nat [of delay] uint_nat [of l] by linarith
qed

lemma rate_start:
  fixes now :: u64
  assumes "unat now < 2 ^ 61" "unat delay < 2 ^ 61" "unat l < 2 ^ 62" "unat pt < 2 ^ 62"
  shows "unat (l + (s64_max_t 0 (delay - (l - now)) + pt)) = max (unat now + unat delay) (unat l) + unat pt"
proof -
  have m: "s64_max_t 0 (delay - (l - now)) = (if unat now + unat delay < unat l then 0 else delay - (l - now))"
    unfolding s64_max_t_def word_sless_alt using sint_sub_sub [OF assms(1-3)] by simp
  have u: "unat (l + pt) = unat l + unat pt" by (rule unat_add_lem [THEN iffD1]) (use assms in simp)
  have v: "unat (now + delay) = unat now + unat delay" by (rule unat_add_lem [THEN iffD1]) (use assms in simp)
  have "unat (now + delay + pt) = unat (now + delay) + unat pt" by (rule unat_add_lem [THEN iffD1]) (use assms v in simp)
  moreover have "l + (delay - (l - now) + pt) = now + delay + pt" by simp
  ultimately have w: "unat (l + (delay - (l - now) + pt)) = unat now + unat delay + unat pt" by (simp only: v)
  show ?thesis
  proof (cases "unat now + unat delay < unat l")
    case True
    then show ?thesis unfolding m using u by simp
  next
    case False
    then show ?thesis unfolding m if_not_P [OF False] w by simp
  qed
qed

text \<open>How long a packet takes at a rate, without cells and overhead.\<close>

lemma packet_time_ok:
  assumes "nr_rate q \<noteq> 0" "nr_packet_overhead q = 0" "nr_cell_size q = 0"
  obtains pt where "packet_time_ns rl (ucast (len :: u32)) q = Some pt" "unat pt = unat len * 10 ^ 9 div unat (nr_rate q)" "unat pt < 2 ^ 62"
proof (rule that)
  have len: "unat len < 2 ^ 32" using unsigned_less [of len, where ?'a = nat] by simp
  have n: "unat (ucast len :: u64) = unat len" by (simp add: unat_ucast_up)
  have "unat (ucast len * 1000000000 :: u64) = unat (ucast len :: u64) * unat (1000000000 :: u64)"
    by (rule unat_mult_lem [THEN iffD1]) (use len n in simp)
  then have m: "unat (ucast len * 1000000000 :: u64) = unat len * 10 ^ 9" unfolding n by simp
  then show pt: "unat (ucast len * 1000000000 div nr_rate q) = unat len * 10 ^ 9 div unat (nr_rate q)" by (simp only: unat_div_distrib)
  have "unat len * 10 ^ 9 < 2 ^ 62" using len by simp
  then show "unat (ucast len * 1000000000 div nr_rate q) < 2 ^ 62"
    unfolding pt using div_le_dividend [of "unat len * 10 ^ 9" "unat (nr_rate q)"] by (rule le_less_trans [rotated])
  show "packet_time_ns rl (ucast len) q = Some (ucast len * 1000000000 div nr_rate q)" using assms by (simp add: packet_time_ns_def)
qed

text \<open>A packet outside the queue may change.\<close>

lemma tfifo_ok_other:
  assumes ok: "tfifo_ok s t xs" and a: "a \<notin> set (inorder t @ xs)"
  shows "tfifo_ok (s\<lparr>ns_pkts := (ns_pkts s)(a \<mapsto> p)\<rparr>) t xs"
proof -
  let ?s = "s\<lparr>ns_pkts := (ns_pkts s)(a \<mapsto> p)\<rparr>"
  have T: "time_of ?s b = time_of s b" if "b \<in> set (inorder t @ xs)" for b using that a by (auto simp: time_of_def)
  then have S: "send_times ?s (inorder t) = send_times s (inorder t)" "send_times ?s xs = send_times s xs" by auto
  have "chain (ns_pkts ?s) (nq_head (ns_q s)) xs"
    by (rule chain_cong [of "ns_pkts s"]) (use ok a in \<open>auto simp: tfifo_ok_def\<close>)
  then show ?thesis using ok unfolding tfifo_ok_def S by (auto simp: tree_ok_def)
qed

context rb_library
begin

lemma last_ok:
  assumes ok: "tfifo_ok s t xs" and q: "ns_queue s = []"
  shows "netem_last lib s = Some (if queued t xs = {#} then None else Some (Max (planned s t xs)))"
proof -
  have last: "lib_last lib (t_mem s) = Some (last_or_null (inorder t))" using last_law ok unfolding tfifo_ok_def t_mem_def by blast
  have root: "nq_root (ns_q s) = root_of t" and tail: "nq_tail (ns_q s) = last_or_null xs"
    using ok by (simp_all add: tfifo_ok_def tree_ok_def rb_repr_mem)
  note addr = tfifo_ok_parts(1) [OF ok]
  let ?T = "\<lambda>a. the (time_of s a)"
  have T: "time_of s a = Some (?T a)" if "a \<in> set (inorder t @ xs)" for a using addr [OF that] by (auto simp: time_of_def)
  have tree: "(if nq_root (ns_q s) = 0 then Some None else do { a \<leftarrow> lib_last lib (t_mem s); u \<leftarrow> time_of s a; Some (later None u) }) =
      Some (if inorder t = [] then None else Some (Max (?T ` set (inorder t))))"
  proof (cases "inorder t" rule: rev_cases)
    case Nil
    then show ?thesis using root by (cases t) simp_all
  next
    case (snoc ys y)
    have "t \<noteq> Leaf" using snoc by auto
    then have "root_of t \<in> set (inorder t)" by (cases t) simp_all
    then have "root_of t \<noteq> 0" using addr [of "root_of t"] by simp
    moreover obtain v where "time_of s y = Some v" using T [of y] snoc by simp
    moreover have "?T y = Max (?T ` set (inorder t))" using ok snoc sorted_Max_last [of s ys y] by (simp add: tfifo_ok_def)
    ultimately show ?thesis using root last snoc by (simp add: later_max)
  qed
  show ?thesis
  proof (cases xs rule: rev_cases)
    case Nil
    then show ?thesis using tree tail q unfolding netem_last_def by simp
  next
    case (snoc ys y)
    have "?T y = Max (?T ` set xs)" using ok snoc sorted_Max_last [of s ys y] by (simp add: tfifo_ok_def)
    moreover have "nq_tail (ns_q s) = y" "y \<noteq> 0" using tail snoc addr [of y] by simp_all
    moreover obtain v where "time_of s y = Some v" using T [of y] snoc by simp
    moreover have "xs \<noteq> []" using snoc by simp
    ultimately show ?thesis using tree q unfolding netem_last_def by (simp add: later_max image_Un Max_Un)
  qed
qed

text \<open>When a packet is sent: one transmission after the latest of the packets before it, and not before its latency is over.\<close>

lemma time_ok_rate:
  assumes env: "ne_rb env = lib" and ok: "tfifo_ok s t xs" and q: "ns_queue s = []" "nq_jitter (ns_q s) = 0"
    and rate: "nr_rate (nq_rate (ns_q s)) \<noteq> 0" "nr_packet_overhead (nq_rate (ns_q s)) = 0" "nr_cell_size (nq_rate (ns_q s)) = 0"
    and bounds: "unat (ktime_get_ns env (ns_clock s)) < 2 ^ 61" "unat (nq_latency (ns_q s)) < 2 ^ 61" "\<forall>u \<in> planned s t xs. unat u < 2 ^ 62"
  obtains T where "netem_time env len s = Some (T, s\<lparr>ns_clock := Suc (ns_clock s)\<rparr>)"
    "unat T = Max (insert (unat (ktime_get_ns env (ns_clock s)) + unat (nq_latency (ns_q s))) (unat ` planned s t xs)) +
       unat len * 10 ^ 9 div unat (nr_rate (nq_rate (ns_q s)))"
proof -
  let ?now = "ktime_get_ns env (ns_clock s)" and ?L = "nq_latency (ns_q s)" and ?s = "s\<lparr>ns_clock := Suc (ns_clock s)\<rparr>"
  from packet_time_ok [OF rate, of "ne_recip env" len] obtain pt where
    pt: "packet_time_ns (ne_recip env) (ucast len) (nq_rate (ns_q s)) = Some pt"
    "unat pt = unat len * 10 ^ 9 div unat (nr_rate (nq_rate (ns_q s)))" "unat pt < 2 ^ 62" .
  have T: "time_of ?s = time_of s" by (simp add: time_of_def fun_eq_iff)
  have "tfifo_ok ?s t xs" by (rule tfifo_ok_cong [OF ok]) simp_all
  from last_ok [OF this] have last: "netem_last lib ?s = Some (if queued t xs = {#} then None else Some (Max (planned s t xs)))"
    using q(1) by (simp add: T)
  show thesis
  proof (cases "queued t xs = {#}")
    case True
    have "unat (?now + ?L) = unat ?now + unat ?L" by (rule unat_add_lem [THEN iffD1]) (use bounds in simp)
    moreover from this have "unat (?now + ?L + pt) = unat (?now + ?L) + unat pt" by (intro unat_add_lem [THEN iffD1]) (use bounds pt(3) in simp)
    ultimately have "unat (?now + (?L + pt)) = unat ?now + unat ?L + unat pt" by (simp add: ac_simps)
    moreover have "netem_time env len s = Some (?now + (?L + pt), ?s)"
      using last True q(2) rate(1) pt(1) by (simp add: netem_time_def tabledist_def env Let_def)
    ultimately show thesis using True by (intro that) (simp_all add: pt(2))
  next
    case False
    let ?l = "Max (planned s t xs)"
    have "?l \<in> planned s t xs" using False by (intro Max_in) auto
    then have l: "unat ?l < 2 ^ 62" using bounds(3) by blast
    have "netem_last lib ?s = Some (Some ?l)" using last by (simp only: False if_False)
    then have "netem_time env len s = Some (?l + (s64_max_t 0 (?L - (?l - ?now)) + pt), ?s)"
      using q(2) rate(1) pt(1) by (simp add: netem_time_def tabledist_def env Let_def)
    moreover have "unat ?l = Max (unat ` planned s t xs)"
      using False by (intro mono_Max_commute) (auto simp: mono_def word_le_nat_alt)
    moreover have "Max (insert x (unat ` planned s t xs)) = max x (Max (unat ` planned s t xs))" for x using False by (intro Max_insert) auto
    ultimately show thesis using rate_start [OF bounds(1,2) l pt(3)] by (intro that) (simp_all only: pt(2))
  qed
qed

lemma queue_ok_rate:
  assumes env: "ne_rb env = lib" "netem_env_ok env" and ok: "tfifo_ok s t xs" and plain: "plain_netem s"
    and q: "nq_jitter (ns_q s) = 0" "nq_gap (ns_q s) = 0"
    and rate: "nr_rate (nq_rate (ns_q s)) \<noteq> 0" "nr_packet_overhead (nq_rate (ns_q s)) = 0" "nr_cell_size (nq_rate (ns_q s)) = 0"
    and bounds: "unat (ktime_get_ns env (ns_clock s)) < 2 ^ 61" "unat (nq_latency (ns_q s)) < 2 ^ 61" "\<forall>u \<in> planned s t xs. unat u < 2 ^ 62"
    and new: "skb \<noteq> 0" "aligned skb" "ns_pkts s skb = Some p" "np_next p = 0" "skb \<notin> set (inorder t @ xs)"
  obtains s' t' xs' T where "netem_queue env skb s = Some s'" "tfifo_ok s' t' xs'" "queued t' xs' = add_mset skb (queued t xs)"
    "time_of s' = (time_of s)(skb \<mapsto> T)" "q_qlen (ns_st s') = q_qlen (ns_st s) + 1"
    "unat T = Max (insert (unat (ktime_get_ns env (ns_clock s)) + unat (nq_latency (ns_q s))) (unat ` planned s t xs)) +
       unat (pkt_len (np_skb p)) * 10 ^ 9 div unat (nr_rate (nq_rate (ns_q s)))"
proof -
  let ?s1 = "set_st (qdisc_qstats_backlog_inc env (np_skb p)) s" and ?len = "pkt_len (np_skb p)"
  have ok1: "tfifo_ok ?s1 t xs" by (rule tfifo_ok_cong [OF ok]) simp_all
  have T1: "time_of ?s1 = time_of s" by (simp add: time_of_def fun_eq_iff)
  have bounds1: "unat (ktime_get_ns env (ns_clock ?s1)) < 2 ^ 61" "unat (nq_latency (ns_q ?s1)) < 2 ^ 61" "\<forall>u \<in> planned ?s1 t xs. unat u < 2 ^ 62"
    using bounds unfolding T1 by simp_all
  have s1: "ns_queue ?s1 = []" "nq_jitter (ns_q ?s1) = 0" "nr_rate (nq_rate (ns_q ?s1)) \<noteq> 0" "nr_packet_overhead (nq_rate (ns_q ?s1)) = 0"
    "nr_cell_size (nq_rate (ns_q ?s1)) = 0" using plain q rate by (simp_all add: plain_netem_def)
  obtain T where time: "netem_time env ?len ?s1 = Some (T, ?s1\<lparr>ns_clock := Suc (ns_clock s)\<rparr>)"
    "unat T = Max (insert (unat (ktime_get_ns env (ns_clock s)) + unat (nq_latency (ns_q s))) (unat ` planned s t xs)) +
       unat ?len * 10 ^ 9 div unat (nr_rate (nq_rate (ns_q s)))"
    using time_ok_rate [OF env(1) ok1 s1 bounds1, of ?len] unfolding T1 by auto
  let ?p = "p\<lparr>np_time_to_send := T\<rparr>"
  let ?s2 = "set_q (\<lambda>q. q\<lparr>nq_counter := nq_counter q + 1\<rparr>) (?s1\<lparr>ns_clock := Suc (ns_clock s), ns_pkts := (ns_pkts s)(skb \<mapsto> ?p)\<rparr>)"
  have ok2: "tfifo_ok ?s2 t xs" by (rule tfifo_ok_cong [OF tfifo_ok_other [OF ok new(5), of ?p]]) simp_all
  have p2: "ns_pkts ?s2 skb = Some ?p" "np_next ?p = 0" using new(4) by simp_all
  from enqueue_ok [OF ok2 new(1,2) p2 new(5)] obtain s' t' xs' where s': "tfifo_enqueue lib skb ?s2 = Some s'" "tfifo_ok s' t' xs'" "queued t' xs' = add_mset skb (queued t xs)"
    "same_times ?s2 s'" "q_qlen (ns_st s') = q_qlen (ns_st ?s2) + 1" .
  have "netem_queue env skb s = Some s'"
    using time(1) s'(1) new(3) q(2) by (simp add: netem_queue_def netem_in_order_def set_time_def env(1) Let_def)
  moreover have "time_of s' = (time_of s)(skb \<mapsto> T)" using s'(4) by (auto simp: same_times_def time_of_def fun_eq_iff)
  moreover have "q_qlen (ns_st s') = q_qlen (ns_st s) + 1" using s'(5) env(2) by (simp add: netem_env_ok_def)
  ultimately show thesis using that s'(2,3) time(2) by blast
qed

end

section \<open>A constant rate\<close>

text \<open>
  What a request of a controller leaves in the emulator: a rate without overhead and cells, and no jitter, loss, duplication,
  corruption, reordering and slots.
\<close>

definition constant_rate :: "'c netem_sched_data \<Rightarrow> bool" where
  "constant_rate q \<longleftrightarrow> nq_jitter q = 0 \<and> nq_gap q = 0 \<and> nq_loss_model q = CLG_RANDOM \<and> nq_loss q = 0 \<and> nq_duplicate q = 0 \<and>
     nq_corrupt q = 0 \<and> nr_rate (nq_rate q) \<noteq> 0 \<and> nr_packet_overhead (nq_rate q) = 0 \<and> nr_cell_size (nq_rate q) = 0"

lemma enqueue_constant_rate:
  assumes "constant_rate (ns_q s)" "ns_pkts s skb = Some p" "q_qlen (ns_st s) < ns_limit s"
  shows "netem_enqueue h env skb s to_free =
    map_option (\<lambda>s. (NET_XMIT_SUCCESS, s, to_free)) (netem_queue env skb (s\<lparr>ns_pkts := (ns_pkts s)(skb \<mapsto> skb_orphan_partial env p)\<rparr>))"
proof -
  have q: "nq_duplicate (ns_q s) = 0" "nq_loss_model (ns_q s) = CLG_RANDOM" "nq_loss (ns_q s) = 0" "nq_corrupt (ns_q s) = 0"
    "nr_rate (nq_rate (ns_q s)) \<noteq> 0" using assms(1) by (simp_all add: constant_rate_def)
  let ?s = "s\<lparr>ns_pkts := (ns_pkts s)(skb \<mapsto> skb_orphan_partial env p)\<rparr>"
  have count: "netem_count h env skb s = Some (1, s)" using q by (simp add: netem_count_def chance_def loss_event_def)
  have corrupt: "netem_corrupt h env skb ?s to_free = Some (Corrupt_go_on skb 0, ?s, to_free)"
    using q by (simp add: netem_corrupt_def chance_def)
  show ?thesis unfolding netem_enqueue_def
    by (subst netem_call.simps) (use assms(2,3) q in \<open>simp add: count corrupt Let_def not_le [symmetric] option.map_comp comp_def map_option_bind split: bind_splits\<close>)
qed

section \<open>Reset\<close>

lemma tfifo_ok_same:
  assumes "ns_nodes s' = ns_nodes s" "ns_pkts s' = ns_pkts s" "nq_root (ns_q s') = nq_root (ns_q s)"
    and "nq_head (ns_q s') = nq_head (ns_q s)" "nq_tail (ns_q s') = nq_tail (ns_q s)"
  shows "tfifo_ok s' t xs = tfifo_ok s t xs"
proof -
  have "time_of s' = time_of s" using assms(2) by (simp add: time_of_def fun_eq_iff)
  then show ?thesis using assms by (simp only: tfifo_ok_def)
qed

lemma dequeue_nothing:
  assumes "netem_env_ok env" "ns_queue s = []" "nq_qdisc (ns_q s) = None" "netem_peek (ne_rb env) s = Some 0"
  shows "netem_dequeue h env ops s = Some (None, s)"
proof -
  have same: "s\<lparr>ns_queue := []\<rparr> = s" using assms(2) by (cases s) simp
  have hd: "qdisc_dequeue_head0 env ([], n) = (None, [], n)" for n using assms(1) by (simp add: netem_env_ok_def)
  show ?thesis by (subst netem_dequeue.simps) (simp add: assms(2-4) hd same Let_def inner_deliver_def)
qed

lemma free_chain_ok:
  assumes "chain P a xs" "distinct xs" "tail = last_or_null xs"
  shows "free_chain a tail P = Some (P |` (- set xs))"
  using assms
proof (induction xs arbitrary: a P)
  case Nil
  moreover have "P |` UNIV = P" by (simp add: restrict_map_def fun_eq_iff)
  ultimately show ?case by (subst free_chain.simps) simp
next
  case (Cons x xs)
  obtain p where p: "a = x" "x \<noteq> 0" "P x = Some p" "chain P (np_next p) xs" using Cons.prems(1) by auto
  have out: "P(x := None) |` (- set xs) = P |` (- set (x # xs))" by (auto simp: restrict_map_def fun_eq_iff)
  show ?case
  proof (cases xs)
    case Nil
    then have "tail = x" using Cons.prems(3) by simp
    moreover have "P |` (- {x}) = P(x := None)" by (auto simp: restrict_map_def fun_eq_iff)
    ultimately show ?thesis using p Nil by (subst free_chain.simps) simp
  next
    case (Cons y ys)
    then obtain zs z where xs: "xs = zs @ [z]" by (metis list.distinct(1) rev_exhaust)
    have t: "tail = last_or_null xs" "tail \<in> set xs" using Cons.prems(3) xs by (simp_all add: last_or_null_def)
    have c: "chain (P(x := None)) (np_next p) xs" by (rule chain_cong [OF p(4)]) (use Cons.prems(2) in auto)
    have "tail \<noteq> 0" "x \<noteq> tail" using t(2) chain_addrs [OF p(4)] Cons.prems(2) by auto
    then show ?thesis using p Cons.IH [OF c _ t(1)] Cons.prems(2) unfolding out [symmetric] by (subst free_chain.simps) (simp del: fun_upd_apply)
  qed
qed

context rb_library
begin

lemma reset_tree_ok:
  assumes "tree_ok (ns_nodes s) (ns_pkts s) (nq_root (ns_q s)) t" "dom (ns_nodes s) = set (inorder t)"
  shows "tfifo_reset_tree lib (head_or_null (inorder t)) s =
    Some (s\<lparr>ns_nodes := Map.empty, ns_pkts := ns_pkts s |` (- set (inorder t)), ns_q := (ns_q s)\<lparr>nq_root := 0\<rparr>\<rparr>)"
  using assms
proof (induction "inorder t" arbitrary: s t)
  case Nil
  then have "t = Leaf" by (cases t) auto
  with Nil have "nq_root (ns_q s) = 0" "ns_nodes s = Map.empty" by (simp_all add: tree_ok_def rb_repr_mem)
  moreover have "ns_pkts s |` UNIV = ns_pkts s" by (simp add: restrict_map_def fun_eq_iff)
  ultimately show ?case using Nil(1) by (subst tfifo_reset_tree.simps) (simp flip: Nil(1))
next
  case (Cons a bs)
  have t: "inorder t = [] @ a # bs" using Cons.hyps(2) by simp
  have a: "a \<noteq> 0" using Cons.prems(1) t by (auto simp: tree_ok_def rb_repr_mem wf_addrs_def)
  have nxt: "lib_next lib (t_mem s) a = Some (head_or_null bs)" unfolding t_mem_def by (rule next_law [OF Cons.prems(1) t])
  from erase_law [OF Cons.prems(1) t] obtain m t' where
    m: "lib_erase lib a (t_mem s) = Some m" "tree_ok ((rb_cells m)(a := None)) ((ns_pkts s)(a := None)) (rb_root m) t'"
    "bs = inorder t'" "\<forall>b. b \<notin> set (inorder t) \<longrightarrow> rb_cells m b = ns_nodes s b" unfolding t_mem_def by auto
  let ?s = "(set_tree m s)\<lparr>ns_nodes := (rb_cells m)(a := None), ns_pkts := (ns_pkts s)(a := None)\<rparr>"
  have dom: "dom ((rb_cells m)(a := None)) = set (inorder t')"
  proof (intro set_eqI iffI)
    fix b assume "b \<in> set (inorder t')"
    with tree_ok_allocated [OF m(2)] show "b \<in> dom ((rb_cells m)(a := None))" by blast
  next
    fix b assume "b \<in> dom ((rb_cells m)(a := None))"
    then have "b \<noteq> a" "rb_cells m b \<noteq> None" by (auto split: if_splits)
    with m(3,4) Cons.prems(2) t show "b \<in> set (inorder t')" by (metis append_Nil domI option.exhaust set_ConsD)
  qed
  have "tfifo_reset_tree lib (head_or_null (inorder t')) ?s =
      Some (?s\<lparr>ns_nodes := Map.empty, ns_pkts := ns_pkts ?s |` (- set (inorder t')), ns_q := (ns_q ?s)\<lparr>nq_root := 0\<rparr>\<rparr>)"
    by (rule Cons.hyps(1) [OF m(3)]) (use m(2) dom in \<open>simp_all add: set_tree_def\<close>)
  moreover have "(ns_pkts s)(a := None) |` (- set bs) = ns_pkts s |` (- set (a # bs))" by (auto simp: restrict_map_def fun_eq_iff)
  moreover have "tfifo_reset_tree lib a s = tfifo_reset_tree lib (head_or_null bs) ?s"
    using a nxt m(1) by (subst tfifo_reset_tree.simps) (simp add: Let_def set_tree_def)
  ultimately show ?case using t by (simp add: set_tree_def m(3) [symmetric])
qed

lemma tfifo_reset_ok:
  assumes ok: "tfifo_ok s t xs"
  obtains s' where "tfifo_reset lib s = Some s'" "tfifo_ok s' Leaf []" "ns_pkts s' = ns_pkts s |` (- set_mset (queued t xs))"
    "ns_st s' = ns_st s" "ns_queue s' = ns_queue s" "nq_qdisc (ns_q s') = nq_qdisc (ns_q s)" "nq_watchdog (ns_q s') = nq_watchdog (ns_q s)"
proof -
  have tree: "tree_ok (ns_nodes s) (ns_pkts s) (nq_root (ns_q s)) t" "dom (ns_nodes s) = set (inorder t)"
    and c: "chain (ns_pkts s) (nq_head (ns_q s)) xs" "nq_tail (ns_q s) = last_or_null xs" "distinct (inorder t @ xs)"
    using ok by (simp_all add: tfifo_ok_def)
  let ?P = "ns_pkts s |` (- set (inorder t))"
  let ?s1 = "s\<lparr>ns_nodes := Map.empty, ns_pkts := ?P, ns_q := (ns_q s)\<lparr>nq_root := 0\<rparr>\<rparr>"
  let ?s2 = "?s1\<lparr>ns_pkts := ?P |` (- set xs), ns_q := (ns_q ?s1)\<lparr>nq_head := 0, nq_tail := 0\<rparr>\<rparr>"
  have "lib_first lib (t_mem s) = Some (head_or_null (inorder t))" using first_law [OF tree(1)] by (simp add: t_mem_def)
  moreover have "chain ?P (nq_head (ns_q s)) xs" by (rule chain_cong [OF c(1)]) (use c(3) in \<open>auto simp: restrict_map_def\<close>)
  then have "free_chain (nq_head (ns_q s)) (nq_tail (ns_q s)) ?P = Some (?P |` (- set xs))" by (rule free_chain_ok) (use c in simp_all)
  ultimately have "tfifo_reset lib s = Some ?s2" by (simp add: tfifo_reset_def reset_tree_ok [OF tree])
  moreover have "tfifo_ok ?s2 Leaf []" by (simp add: tfifo_ok_def tree_ok_def rb_repr_mem wf_addrs_def rb_tree_def last_or_null_def)
  moreover have "?P |` (- set xs) = ns_pkts s |` (- set_mset (queued t xs))" by (auto simp: restrict_map_def fun_eq_iff)
  ultimately show thesis by (intro that [of ?s2]) simp_all
qed

end

end
