(* ===== verification/Netem_Config.thy ===== *)
theory Netem_Config
  imports Sch_Netem
begin

text \<open>
  The configuration of the network emulator, the second half of \<^verbatim>\<open>net/sched/sch_netem.c\<close>: how a request changes the parameters, the
  dump of the parameters and the class operations. The attribute library of the kernel and the allocator are parameters.
\<close>

section \<open>Reading attributes\<close>

abbreviation (input) TCA_NETEM_CORR :: nat where "TCA_NETEM_CORR \<equiv> 1"
abbreviation (input) TCA_NETEM_DELAY_DIST :: nat where "TCA_NETEM_DELAY_DIST \<equiv> 2"
abbreviation (input) TCA_NETEM_REORDER :: nat where "TCA_NETEM_REORDER \<equiv> 3"
abbreviation (input) TCA_NETEM_CORRUPT :: nat where "TCA_NETEM_CORRUPT \<equiv> 4"
abbreviation (input) TCA_NETEM_LOSS :: nat where "TCA_NETEM_LOSS \<equiv> 5"
abbreviation (input) TCA_NETEM_RATE :: nat where "TCA_NETEM_RATE \<equiv> 6"
abbreviation (input) TCA_NETEM_ECN :: nat where "TCA_NETEM_ECN \<equiv> 7"
abbreviation (input) TCA_NETEM_RATE64 :: nat where "TCA_NETEM_RATE64 \<equiv> 8"
abbreviation (input) TCA_NETEM_PAD :: nat where "TCA_NETEM_PAD \<equiv> 9"
abbreviation (input) TCA_NETEM_LATENCY64 :: nat where "TCA_NETEM_LATENCY64 \<equiv> 10"
abbreviation (input) TCA_NETEM_JITTER64 :: nat where "TCA_NETEM_JITTER64 \<equiv> 11"
abbreviation (input) TCA_NETEM_SLOT :: nat where "TCA_NETEM_SLOT \<equiv> 12"
abbreviation (input) TCA_NETEM_SLOT_DIST :: nat where "TCA_NETEM_SLOT_DIST \<equiv> 13"
abbreviation (input) TCA_NETEM_MAX :: nat where "TCA_NETEM_MAX \<equiv> 13"
abbreviation (input) NETEM_LOSS_GI :: u16 where "NETEM_LOSS_GI \<equiv> 1"
abbreviation (input) NETEM_LOSS_GE :: u16 where "NETEM_LOSS_GE \<equiv> 2"
abbreviation (input) INT_MAX :: u32 where "INT_MAX \<equiv> 0x7FFFFFFF"

record netem_change_env =
  nla_parse :: "nat \<Rightarrow> u8 list \<Rightarrow> (nat \<times> nla_policy) list \<Rightarrow> int + nlattrs"
  nla_nested :: "u8 list \<Rightarrow> (u16 \<times> u8 list) list"
  delay_kvmalloc :: bool
  slot_kvmalloc :: bool

definition word_at :: "u8 list \<Rightarrow> nat \<Rightarrow> u32" where
  "word_at bs i = le32 (drop (4 * i) bs)"

fun dist_values :: "u8 list \<Rightarrow> u16 list" where
  "dist_values (a # b # bs) = le16 [a, b] # dist_values bs"
| "dist_values bs = []"

text \<open>The new table, or an error number. A payload of less than two bytes gives an empty table.\<close>

definition get_dist_table :: "bool \<Rightarrow> u8 list \<Rightarrow> int + u16 list" where
  "get_dist_table kvmalloc attr =
     (let n = length attr div 2
      in if NETEM_DIST_MAX < n then Inl (- EINVAL)
         else if \<not> kvmalloc then Inl (- ENOMEM)
         else Inr (dist_values attr))"

definition slot_of_bytes :: "u8 list \<Rightarrow> tc_netem_slot" where
  "slot_of_bytes bs = \<lparr>sl_min_delay = le64 bs, sl_max_delay = le64 (drop 8 bs), sl_max_packets = le32 (drop 16 bs),
     sl_max_bytes = le32 (drop 20 bs), sl_dist_delay = le64 (drop 24 bs), sl_dist_jitter = le64 (drop 32 bs)\<rparr>"

definition slot_active :: "tc_netem_slot \<Rightarrow> bool" where
  "slot_active c \<longleftrightarrow> (sl_min_delay c OR sl_max_delay c OR sl_dist_jitter c) \<noteq> 0"

definition get_slot :: "'c netem_env \<Rightarrow> u8 list \<Rightarrow> 'c netem_sch \<Rightarrow> 'c netem_sch" where
  "get_slot env attr s =
     (let c = slot_of_bytes attr;
          c = (if sl_max_packets c = 0 then c\<lparr>sl_max_packets := INT_MAX\<rparr> else c);
          c = (if sl_max_bytes c = 0 then c\<lparr>sl_max_bytes := INT_MAX\<rparr> else c);
          next = (if slot_active c then ktime_get_ns env (ns_clock s) else 0);
          s = (if slot_active c then s\<lparr>ns_clock := Suc (ns_clock s)\<rparr> else s)
      in set_q (\<lambda>q. q\<lparr>nq_slot_config := c,
                       nq_slot := \<lparr>slot_next = next, packets_left = sl_max_packets c, bytes_left = sl_max_bytes c\<rparr>\<rparr>) s)"

definition get_correlation :: "prandom \<Rightarrow> u8 list \<Rightarrow> 'c netem_sch \<Rightarrow> 'c netem_sch" where
  "get_correlation rnd attr s =
     (let (d, k) = init_crandom rnd (word_at attr 0) (ns_rnd s);
          (l, k) = init_crandom rnd (word_at attr 1) k;
          (u, k) = init_crandom rnd (word_at attr 2) k
      in set_q (\<lambda>q. q\<lparr>nq_delay_cor := d, nq_loss_cor := l, nq_dup_cor := u\<rparr>) (s\<lparr>ns_rnd := k\<rparr>))"

definition get_reorder :: "prandom \<Rightarrow> u8 list \<Rightarrow> 'c netem_sch \<Rightarrow> 'c netem_sch" where
  "get_reorder rnd attr s =
     (let (c, k) = init_crandom rnd (word_at attr 1) (ns_rnd s)
      in set_q (\<lambda>q. q\<lparr>nq_reorder := word_at attr 0, nq_reorder_cor := c\<rparr>) (s\<lparr>ns_rnd := k\<rparr>))"

definition get_corrupt :: "prandom \<Rightarrow> u8 list \<Rightarrow> 'c netem_sch \<Rightarrow> 'c netem_sch" where
  "get_corrupt rnd attr s =
     (let (c, k) = init_crandom rnd (word_at attr 1) (ns_rnd s)
      in set_q (\<lambda>q. q\<lparr>nq_corrupt := word_at attr 0, nq_corrupt_cor := c\<rparr>) (s\<lparr>ns_rnd := k\<rparr>))"

definition get_rate :: "recip_lib \<Rightarrow> u8 list \<Rightarrow> netem_rate" where
  "get_rate rl attr =
     \<lparr>nr_rate = ucast (word_at attr 0), nr_packet_overhead = word_at attr 1, nr_cell_size = word_at attr 2,
      nr_cell_reciprocal = (if word_at attr 2 \<noteq> 0 then recip_value rl (word_at attr 2) else \<lparr>rv_m = 0, rv_sh1 = 0, rv_sh2 = 0\<rparr>),
      nr_cell_overhead = word_at attr 3\<rparr>"

text \<open>The loss model is set attribute by attribute; an error leaves what was set before it.\<close>

fun get_loss_clg :: "(u16 \<times> u8 list) list \<Rightarrow> loss_model \<times> clgstate \<Rightarrow> int \<times> loss_model \<times> clgstate" where
  "get_loss_clg [] mc = (0, mc)"
| "get_loss_clg ((type, d) # las) (model, clg) =
     (if type = NETEM_LOSS_GI then
        (if length d < 20 then (- EINVAL, model, clg)
         else get_loss_clg las (CLG_4_STATES,
                \<lparr>clg_state = TX_IN_GAP_PERIOD, clg_a1 = word_at d 0, clg_a2 = word_at d 1, clg_a3 = word_at d 2,
                 clg_a4 = word_at d 3, clg_a5 = word_at d 4\<rparr>))
      else if type = NETEM_LOSS_GE then
        (if length d < 16 then (- EINVAL, model, clg)
         else get_loss_clg las (CLG_GILB_ELL,
                clg\<lparr>clg_state := GOOD_STATE, clg_a1 := word_at d 0, clg_a2 := word_at d 1, clg_a3 := word_at d 2,
                    clg_a4 := word_at d 3\<rparr>))
      else (- EINVAL, model, clg))"

definition netem_policy :: "(nat \<times> nla_policy) list" where
  "netem_policy = [(TCA_NETEM_CORR, Nla_min_len 12), (TCA_NETEM_REORDER, Nla_min_len 8), (TCA_NETEM_CORRUPT, Nla_min_len 8),
     (TCA_NETEM_RATE, Nla_min_len 16), (TCA_NETEM_LOSS, Nla_nested), (TCA_NETEM_ECN, Nla_u32), (TCA_NETEM_RATE64, Nla_u64),
     (TCA_NETEM_LATENCY64, Nla_s64), (TCA_NETEM_JITTER64, Nla_s64), (TCA_NETEM_SLOT, Nla_min_len 40)]"

text \<open>The attributes behind a structure of \<open>len\<close> bytes, a multiple of four.\<close>

definition parse_attr ::
  "netem_change_env \<Rightarrow> nat \<Rightarrow> u8 list \<Rightarrow> (nat \<times> nla_policy) list \<Rightarrow> nat \<Rightarrow> int + nlattrs" where
  "parse_attr cenv maxtype nla policy len =
     (if length nla < len then Inl (- EINVAL)
      else if 4 \<le> length nla - len then nla_parse cenv maxtype (drop len nla) policy
      else Inr (\<lambda>_. None))"

section \<open>Change\<close>

text \<open>The part that can fail: loss model and tables. The result is the error number.\<close>

definition netem_change_tables :: "netem_change_env \<Rightarrow> nlattrs \<Rightarrow> 'c netem_sched_data \<Rightarrow> int \<times> 'c netem_sched_data" where
  "netem_change_tables cenv tb q =
     (let old_clg = nq_clg q; old_loss_model = nq_loss_model q;
          (ret, model, clg) = (case tb TCA_NETEM_LOSS of
                                 Some a \<Rightarrow> get_loss_clg (nla_nested cenv a) (nq_loss_model q, nq_clg q)
                               | None \<Rightarrow> (0, CLG_RANDOM, nq_clg q));
          q = q\<lparr>nq_loss_model := model, nq_clg := clg\<rparr>;
          fail = (\<lambda>q. q\<lparr>nq_clg := old_clg, nq_loss_model := old_loss_model\<rparr>)
      in if ret \<noteq> 0 then (ret, q\<lparr>nq_loss_model := old_loss_model\<rparr>)
         else
         case (case tb TCA_NETEM_DELAY_DIST of
                 None \<Rightarrow> Inr q
               | Some a \<Rightarrow> (case get_dist_table (delay_kvmalloc cenv) a of
                              Inl err \<Rightarrow> Inl err | Inr d \<Rightarrow> Inr (q\<lparr>nq_delay_dist := Some d\<rparr>))) of
           Inl err \<Rightarrow> (err, fail q)
         | Inr q \<Rightarrow>
             (case tb TCA_NETEM_SLOT_DIST of
                None \<Rightarrow> (0, q)
              | Some a \<Rightarrow> (case get_dist_table (slot_kvmalloc cenv) a of
                             Inl err \<Rightarrow> (err, fail q) | Inr d \<Rightarrow> (0, q\<lparr>nq_slot_dist := Some d\<rparr>))))"

definition netem_change_qopt :: "sched_hdr \<Rightarrow> tc_netem_qopt \<Rightarrow> 'c netem_sch \<Rightarrow> 'c netem_sch" where
  "netem_change_qopt h qopt s =
     set_q (\<lambda>q. q\<lparr>nq_latency := psched_ticks2ns h (ne_latency qopt), nq_jitter := psched_ticks2ns h (ne_jitter qopt),
                   nq_limit := ne_limit qopt, nq_gap := ne_gap qopt, nq_counter := 0, nq_loss := ne_loss qopt,
                   nq_duplicate := ne_duplicate qopt, nq_reorder := (if ne_gap qopt \<noteq> 0 then -1 else nq_reorder q)\<rparr>)
       (s\<lparr>ns_limit := ne_limit qopt\<rparr>)"

definition when_attr :: "u8 list option \<Rightarrow> (u8 list \<Rightarrow> 's \<Rightarrow> 's) \<Rightarrow> 's \<Rightarrow> 's" where
  "when_attr a f s = (case a of None \<Rightarrow> s | Some d \<Rightarrow> f d s)"

definition netem_change_attrs :: "'c netem_env \<Rightarrow> nlattrs \<Rightarrow> 'c netem_sch \<Rightarrow> 'c netem_sch" where
  "netem_change_attrs env tb s =
     (let s = when_attr (tb TCA_NETEM_CORR) (get_correlation (prandom_u32 env)) s;
          s = when_attr (tb TCA_NETEM_REORDER) (get_reorder (prandom_u32 env)) s;
          s = when_attr (tb TCA_NETEM_CORRUPT) (get_corrupt (prandom_u32 env)) s;
          s = when_attr (tb TCA_NETEM_RATE) (\<lambda>d. set_q (\<lambda>q. q\<lparr>nq_rate := get_rate (ne_recip env) d\<rparr>)) s;
          s = when_attr (tb TCA_NETEM_RATE64)
                (\<lambda>d. set_q (\<lambda>q. q\<lparr>nq_rate := (nq_rate q)\<lparr>nr_rate := max (nr_rate (nq_rate q)) (le64 d)\<rparr>\<rparr>)) s;
          s = when_attr (tb TCA_NETEM_LATENCY64) (\<lambda>d. set_q (\<lambda>q. q\<lparr>nq_latency := le64 d\<rparr>)) s;
          s = when_attr (tb TCA_NETEM_JITTER64) (\<lambda>d. set_q (\<lambda>q. q\<lparr>nq_jitter := le64 d\<rparr>)) s;
          s = when_attr (tb TCA_NETEM_ECN) (\<lambda>d. set_q (\<lambda>q. q\<lparr>nq_ecn := le32 d\<rparr>)) s
      in when_attr (tb TCA_NETEM_SLOT) (get_slot env) s)"

definition netem_change ::
  "sched_hdr \<Rightarrow> 'c netem_env \<Rightarrow> netem_change_env \<Rightarrow> u8 list option \<Rightarrow> 'c netem_sch \<Rightarrow> int \<times> 'c netem_sch" where
  "netem_change h env cenv opt s =
     (case opt of
        None \<Rightarrow> (- EINVAL, s)
      | Some opt \<Rightarrow>
          (case parse_attr cenv TCA_NETEM_MAX opt netem_policy 24 of
             Inl err \<Rightarrow> (err, s)
           | Inr tb \<Rightarrow>
               (let (ret, q) = netem_change_tables cenv tb (ns_q s); s = s\<lparr>ns_q := q\<rparr>
                in if ret \<noteq> 0 then (ret, s)
                   else (0, netem_change_attrs env tb (netem_change_qopt h (netem_qopt_of_bytes opt) s)))))"

definition netem_init ::
  "sched_hdr \<Rightarrow> 'c netem_env \<Rightarrow> netem_change_env \<Rightarrow> u8 list option \<Rightarrow> 'c netem_sch \<Rightarrow> int \<times> 'c netem_sch" where
  "netem_init h env cenv opt s =
     (let s = set_q (\<lambda>q. q\<lparr>nq_watchdog := qdisc_watchdog_init (nq_watchdog q)\<rparr>) s
      in if opt = None then (- EINVAL, s)
         else netem_change h env cenv opt (set_q (\<lambda>q. q\<lparr>nq_loss_model := CLG_RANDOM\<rparr>) s))"

text \<open>The inner qdisc whose reference is dropped is returned.\<close>

definition netem_destroy :: "'c netem_sch \<Rightarrow> 'c netem_sch \<times> 'c option" where
  "netem_destroy s =
     (set_q (\<lambda>q. q\<lparr>nq_watchdog := qdisc_watchdog_cancel (nq_watchdog q), nq_delay_dist := None, nq_slot_dist := None\<rparr>) s,
      nq_qdisc (ns_q s))"

section \<open>Dump and class operations\<close>

definition words_bytes :: "u32 list \<Rightarrow> u8 list" where
  "words_bytes ws = concat (map bytes32 ws)"

definition slot_bytes :: "tc_netem_slot \<Rightarrow> u8 list" where
  "slot_bytes c = bytes64 (sl_min_delay c) @ bytes64 (sl_max_delay c) @ bytes32 (sl_max_packets c) @ bytes32 (sl_max_bytes c) @
     bytes64 (sl_dist_delay c) @ bytes64 (sl_dist_jitter c)"

text \<open>The loss model; \<open>None\<close> is the failure, after which the message is cut back.\<close>

definition dump_loss_model :: "'m nla_ops \<Rightarrow> 'c netem_sched_data \<Rightarrow> 'm \<Rightarrow> 'm option" where
  "dump_loss_model n q skb = do {
     m \<leftarrow> nla_nest_start n skb TCA_NETEM_LOSS;
     let clg = nq_clg q;
     (case nq_loss_model q of
        CLG_RANDOM \<Rightarrow> Some (nla_nest_cancel n m)
      | CLG_4_STATES \<Rightarrow> do {
          m \<leftarrow> nla_put n m (unat NETEM_LOSS_GI) (words_bytes [clg_a1 clg, clg_a2 clg, clg_a3 clg, clg_a4 clg, clg_a5 clg]);
          Some (snd (nla_nest_end n m)) }
      | CLG_GILB_ELL \<Rightarrow> do {
          m \<leftarrow> nla_put n m (unat NETEM_LOSS_GE) (words_bytes [clg_a1 clg, clg_a2 clg, clg_a3 clg, clg_a4 clg]);
          Some (snd (nla_nest_end n m)) }) }"

text \<open>\<open>ns2ticks\<close> is \<^verbatim>\<open>PSCHED_NS2TICKS\<close>; the result saturates.\<close>

definition dump_ticks :: "(s64 \<Rightarrow> s64) \<Rightarrow> s64 \<Rightarrow> u32" where
  "dump_ticks ns2ticks t = ucast (if ns2ticks t <s 0xFFFFFFFF then ns2ticks t else 0xFFFFFFFF)"

definition netem_dump_opt :: "(s64 \<Rightarrow> s64) \<Rightarrow> 'c netem_sched_data \<Rightarrow> tc_netem_qopt" where
  "netem_dump_opt ns2ticks q = \<lparr>ne_latency = dump_ticks ns2ticks (nq_latency q), ne_limit = nq_limit q, ne_loss = nq_loss q,
     ne_gap = nq_gap q, ne_duplicate = nq_duplicate q, ne_jitter = dump_ticks ns2ticks (nq_jitter q)\<rparr>"

definition dump_slot :: "tc_netem_slot \<Rightarrow> tc_netem_slot" where
  "dump_slot c =
     (let c = (if sl_max_packets c = INT_MAX then c\<lparr>sl_max_packets := 0\<rparr> else c)
      in if sl_max_bytes c = INT_MAX then c\<lparr>sl_max_bytes := 0\<rparr> else c)"

text \<open>\<open>close\<close> ends the nest that starts where the message ended before; on failure the message is trimmed to that.\<close>

definition netem_dump ::
  "(s64 \<Rightarrow> s64) \<Rightarrow> 'm nla_ops \<Rightarrow> ('m \<Rightarrow> 'm \<Rightarrow> int \<times> 'm) \<Rightarrow> 'c netem_sch \<Rightarrow> 'm \<Rightarrow> int \<times> 'm" where
  "netem_dump ns2ticks n close s skb =
     (let q = ns_q s; r = nq_rate q; big = 2 ^ 32 \<le> nr_rate r;
          full = do {
            m \<leftarrow> nla_put n skb TCA_OPTIONS (netem_bytes (netem_dump_opt ns2ticks q));
            m \<leftarrow> nla_put n m TCA_NETEM_LATENCY64 (bytes64 (nq_latency q));
            m \<leftarrow> nla_put n m TCA_NETEM_JITTER64 (bytes64 (nq_jitter q));
            m \<leftarrow> nla_put n m TCA_NETEM_CORR
                   (words_bytes [cr_rho (nq_delay_cor q), cr_rho (nq_loss_cor q), cr_rho (nq_dup_cor q)]);
            m \<leftarrow> nla_put n m TCA_NETEM_REORDER (words_bytes [nq_reorder q, cr_rho (nq_reorder_cor q)]);
            m \<leftarrow> nla_put n m TCA_NETEM_CORRUPT (words_bytes [nq_corrupt q, cr_rho (nq_corrupt_cor q)]);
            m \<leftarrow> (if big then nla_put_u64_64bit n m TCA_NETEM_RATE64 (nr_rate r) TCA_NETEM_PAD else Some m);
            m \<leftarrow> nla_put n m TCA_NETEM_RATE
                   (words_bytes [if big then -1 else ucast (nr_rate r), nr_packet_overhead r, nr_cell_size r, nr_cell_overhead r]);
            m \<leftarrow> (if nq_ecn q \<noteq> 0 then nla_put n m TCA_NETEM_ECN (bytes32 (nq_ecn q)) else Some m);
            m \<leftarrow> dump_loss_model n q m;
            (if slot_active (nq_slot_config q) then nla_put n m TCA_NETEM_SLOT (slot_bytes (dump_slot (nq_slot_config q)))
             else Some m) }
      in case full of None \<Rightarrow> (-1, skb) | Some m \<Rightarrow> close skb m)"

definition netem_dump_class :: "('c \<Rightarrow> u32) \<Rightarrow> u64 \<Rightarrow> u32 \<Rightarrow> 'c netem_sch \<Rightarrow> int + u32 \<times> u32" where
  "netem_dump_class handle cl tcm_handle s =
     (case nq_qdisc (ns_q s) of
        Some c \<Rightarrow> if cl \<noteq> 1 then Inl (- 2) else Inr (tcm_handle OR (1 AND 0x0000FFFF), handle c)
      | None \<Rightarrow> Inl (- 2))"

text \<open>\<open>replace\<close> is the header function \<^verbatim>\<open>qdisc_replace\<close>.\<close>

definition netem_graft ::
  "('c netem_sch \<Rightarrow> 'c option \<Rightarrow> 'c option \<times> 'c netem_sch) \<Rightarrow> 'c option \<Rightarrow> 'c netem_sch \<Rightarrow> int \<times> 'c option \<times> 'c netem_sch" where
  "netem_graft replace new s = (let (old, s) = replace s new in (0, old, s))"

definition netem_leaf :: "'c netem_sch \<Rightarrow> 'c option" where
  "netem_leaf s = nq_qdisc (ns_q s)"

definition netem_find :: "u32 \<Rightarrow> u64" where
  "netem_find classid = 1"

definition netem_walk ::
  "('c netem_sch \<Rightarrow> nat \<Rightarrow> 'a \<Rightarrow> int \<times> 'a) \<Rightarrow> 'c netem_sch \<Rightarrow> 'a qdisc_walker \<Rightarrow> 'a qdisc_walker" where
  "netem_walk fn s w =
     (if w_stop w then w
      else if w_skip w \<le> w_count w then
        (let (r, d) = fn s 1 (w_data w); w = w\<lparr>w_data := d\<rparr>
         in if r < 0 then w\<lparr>w_stop := True\<rparr> else w\<lparr>w_count := w_count w + 1\<rparr>)
      else w\<lparr>w_count := w_count w + 1\<rparr>)"

end
