(* ===== verification/Netem_Request.thy ===== *)
theory Netem_Request
  imports Netem_Run Netem_Config Kernel_Request
begin

text \<open>
  From a request of \<^verbatim>\<open>netem.c\<close> to the emulator. The options of such a request are a structure with attributes behind it, which the
  controller writes as attributes of the message and then draws into the options by changing their length.
\<close>

section \<open>The message\<close>

lemma options_closed:
  assumes msg: "message m off (ats @ (t, d0) # inner) n" and p: "attrs_at m off ats p" and d0: "4 dvd length d0" and n: "n - p < 65536"
  obtains m' d where "close_options p m = Some m'" "length m' = length m" "attr_payload m' p = Some (d0 @ d)" "attrs_at d 0 inner (length d)"
    "length d = n - (p + 4 + length d0)"
proof -
  let ?q = "p + 4 + length d0" and ?l = "bytes16 (of_nat (n - p))"
  have "attrs_at m off (ats @ (t, d0) # inner) n" and len: "n \<le> length m" using msg by (simp_all add: message_def)
  then obtain p' where p': "attrs_at m off ats p'" "attrs_at m p' ((t, d0) # inner) n" unfolding attrs_at_append by blast
  have "p' = p" by (rule attrs_at_end_unique [OF p p'(1)])
  moreover have "pad4 (4 + length d0) = 4 + length d0" using d0 by simp
  ultimately have at: "bytes_at m p (attr_bytes t d0)" "attrs_at m ?q inner n" using p'(2) by (simp_all add: add.assoc)
  have le: "?q \<le> n" by (rule attrs_at_le [OF at(2)])
  have "attr_bytes t d0 = (bytes16 (of_nat (4 + length d0)) @ bytes16 t) @ d0" by (simp only: attr_bytes_def append_assoc)
  moreover have "length (bytes16 (of_nat (4 + length d0)) @ bytes16 t) = 4" by simp
  ultimately have b: "bytes_at m (p + 4) d0" using at(1) bytes_at_append by metis
  obtain m1 where 1: "mem_put p ?l m = Some m1" using mem_put_Some [of p ?l m] le len by auto
  note l1 = length_mem_put [OF 1]
  have b1: "bytes_at m1 (p + 4) d0" by (rule bytes_at_other [OF b 1]) simp
  have in1: "attrs_at m1 (?q + 0) inner (?q + (n - ?q))" using attrs_at_other [OF at(2) 1] le by simp
  let ?d = "take (n - ?q) (drop ?q m1)"
  have d: "length ?d = n - ?q" using le len l1 by simp
  have "int n - int p = int (n - p)" using le by simp
  then have close: "close_options p m = Some m1" using message_len(3) [OF msg] 1 by (simp add: close_options_def)
  have "get16 m1 p = Some (of_nat (n - p))" by (rule get_bytes) (rule bytes_at_put [OF 1])
  moreover have "unat (of_nat (n - p) :: u16) = n - p" by (rule unat_of_nat_len) (use n in simp)
  moreover have "take (n - p - 4) (drop (p + 4) m1) = d0 @ ?d"
  proof -
    have "n - p - 4 = length d0 + (n - ?q)" using le by simp
    moreover have "take (length d0) (drop (p + 4) m1) = d0" using b1 by (simp add: bytes_at_def mem_get_def split: if_splits)
    moreover have "drop (length d0) (drop (p + 4) m1) = drop ?q m1" by (simp add: add.commute)
    ultimately show ?thesis by (simp only: take_add)
  qed
  ultimately have "attr_payload m1 p = Some (d0 @ ?d)" using le len l1 by (simp add: attr_payload_def mem_get_def)
  moreover have "attrs_at ?d 0 inner (length ?d)"
    unfolding d by (rule attrs_at_slice [OF in1]) (use le len l1 in simp_all)
  ultimately show thesis using that [OF close l1] d by blast
qed

text \<open>What follows the structure in the options.\<close>

definition netem_attr_list :: "u64 \<Rightarrow> (u16 \<times> u8 list) list" where
  "netem_attr_list rate64 =
     (if 2 ^ 32 \<le> rate64 then [(8, bytes64 rate64), (6, netem_rate_bytes (-1))] else [(6, netem_rate_bytes (ucast rate64))])"

lemma addattr_message:
  assumes "message mem off ats n" "length d < 65532" "n + attr_space d = n'" "n' \<le> unat maxlen" "n' \<le> length mem"
  obtains mem' where "addattr_l maxlen t d mem = Some (0, mem')" "length mem' = length mem" "message mem' off (ats @ [(t, d)]) n'"
  using addattr_l_ok [OF assms(1,2), of maxlen t] assms(3-5) by blast

lemma netem_build_ok:
  assumes len: "length (nc_mem s) = sizeof_req" and i: "next_index bws (nc_index s) = Some i"
    and opt: "netem_options rnd c (bws ! unat i) (nc_opt s) = Some opt"
  obtains m d where "netem_build rnd c bws idx1 s = Some \<lparr>nc_index = i, nc_opt = opt, nc_mem = m\<rparr>" "length m = sizeof_req"
    "attr_payload m 48 = Some (netem_bytes opt @ d)" "attrs_at d 0 (netem_attr_list (bw_bandwidth (bws ! unat i))) (length d)" "4 \<le> length d"
proof -
  let ?k = "c_string ''netem''" and ?r = "bw_bandwidth (bws ! unat i)"
  obtain m0 where 0: "set_ifindex idx1 (nc_mem s) = Some m0" "length m0 = sizeof_req"
    using mem_put_Some [of 20 "bytes32 idx1" "nc_mem s"] length_mem_put len
    by (fastforce simp: set_ifindex_def sizeof_req_def)
  have sp: "attr_space ?k = 12" by (simp add: c_string_def pad4_def)
  from start_request_ok [OF 0(2), of "''netem''"] obtain m1 where
    1: "start_request ''netem'' m0 = Some m1" "length m1 = sizeof_req" "message m1 36 [(1, ?k)] 48" unfolding sp by auto
  have big: "1024 \<le> sizeof_req" by (simp add: sizeof_req_def)
  obtain m2 where 2: "addattr_l 1024 2 (netem_bytes opt) m1 = Some (0, m2)" "length m2 = length m1"
    "message m2 36 ([(1, ?k)] @ [(2, netem_bytes opt)]) 76"
    by (rule addattr_message [OF 1(3), of "netem_bytes opt" 76 1024 2]) (use big 1(2) in \<open>simp_all add: pad4_def\<close>)
  let ?a = "if 2 ^ 32 \<le> ?r then [(8, bytes64 ?r)] else [] :: (u16 \<times> u8 list) list" and ?n = "if 2 ^ 32 \<le> ?r then 88 else 76 :: nat"
  have "\<exists>m. (if 2 ^ 32 \<le> ?r then addattr_l 1024 8 (bytes64 ?r) m2 else Some (0, m2)) = Some (0, m) \<and> length m = length m2 \<and>
      message m 36 (([(1, ?k)] @ [(2, netem_bytes opt)]) @ ?a) ?n"
  proof (cases "2 ^ 32 \<le> ?r")
    case True
    obtain m where "addattr_l 1024 8 (bytes64 ?r) m2 = Some (0, m)" "length m = length m2"
      "message m 36 (([(1, ?k)] @ [(2, netem_bytes opt)]) @ [(8, bytes64 ?r)]) 88"
      by (rule addattr_message [OF 2(3), of "bytes64 ?r" 88 1024 8]) (use big 1(2) 2(2) in \<open>simp_all add: pad4_def\<close>)
    then show ?thesis unfolding if_P [OF True] by blast
  next
    case False
    then show ?thesis unfolding if_not_P [OF False] append_Nil2 using 2(3) by blast
  qed
  then obtain m3 where 3: "(if 2 ^ 32 \<le> ?r then addattr_l 1024 8 (bytes64 ?r) m2 else Some (0, m2)) = Some (0, m3)" "length m3 = length m2"
    "message m3 36 (([(1, ?k)] @ [(2, netem_bytes opt)]) @ ?a) ?n" by blast
  let ?b = "netem_rate_bytes (if 2 ^ 32 \<le> ?r then -1 else ucast ?r)"
  obtain m4 where 4: "addattr_l 1024 6 ?b m3 = Some (0, m4)" "length m4 = length m3"
    "message m4 36 ((([(1, ?k)] @ [(2, netem_bytes opt)]) @ ?a) @ [(6, ?b)]) (?n + 20)"
    by (rule addattr_message [OF 3(3), of ?b "?n + 20" 1024 6]) (use big 1(2) 2(2) 3(2) in \<open>simp_all add: pad4_def\<close>)
  have al: "(([(1, ?k)] @ [(2, netem_bytes opt)]) @ ?a) @ [(6, ?b)] = [(1, ?k)] @ (2, netem_bytes opt) # netem_attr_list ?r"
    by (simp add: netem_attr_list_def)
  have at: "attrs_at m4 36 [(1, ?k)] 48" using 4(3) sp unfolding al message_def by simp
  have small: "4 dvd length (netem_bytes opt)" "?n + 20 - 48 < 65536" by simp_all
  from options_closed [OF 4(3) [unfolded al] at small] obtain m5 d where
    5: "close_options 48 m4 = Some m5" "length m5 = length m4" "attr_payload m5 48 = Some (netem_bytes opt @ d)"
    "attrs_at d 0 (netem_attr_list ?r) (length d)" "length d = ?n + 20 - (48 + 4 + length (netem_bytes opt))" .
  have "netem_build rnd c bws idx1 s = Some \<lparr>nc_index = i, nc_opt = opt, nc_mem = m5\<rparr>"
    using 0(1) 1(1) message_len(3) [OF 1(3)] i opt 2(1) 3(1) 4(1) 5(1) by (simp add: netem_build_def Let_def)
  moreover have "4 \<le> length d" unfolding 5(5) by simp
  ultimately show thesis using that 1(2) 2(2) 3(2) 4(2) 5(2-4) by metis
qed

section \<open>The emulator takes the request\<close>

lemma netem_stream: "nla_stream 13 netem_policy (netem_attr_list rate64)"
  by (simp add: nla_stream_def netem_attr_list_def netem_policy_def)

lemma netem_request_attrs:
  assumes "nla_parser_ok (nla_parse cenv)" "attrs_at d 0 (netem_attr_list rate64) (length d)" "4 \<le> length d"
  shows "parse_attr cenv 13 (netem_bytes opt @ d) netem_policy 24 = Inr (payloads (netem_attr_list rate64))"
proof -
  have "nla_parse cenv 13 d netem_policy = Inr (payloads (netem_attr_list rate64))"
    using assms(1,2) netem_stream [of rate64] unfolding nla_parser_ok_def by simp
  then show ?thesis using assms(3) by (simp add: parse_attr_def)
qed

text \<open>A rate below four gigabytes per second is sent in 32 bits; otherwise the larger of the two attributes counts.\<close>

lemma netem_rate_sent:
  "max (ucast (-1 :: u32)) rate64 = rate64" if "2 ^ 32 \<le> rate64" for rate64 :: u64
proof -
  have "ucast (-1 :: u32) = (2 ^ 32 - 1 :: u64)" by code_simp
  moreover have "2 ^ 32 - 1 \<le> (2 ^ 32 :: u64)" by simp
  ultimately show ?thesis using that by (simp only: max_absorb2 order_trans)
qed

lemma ucast_rate_sent:
  "ucast (ucast rate64 :: u32) = rate64" if "\<not> 2 ^ 32 \<le> rate64" for rate64 :: u64
  using that unat_ucast_less [of rate64, where ?'b = 32]
  by (simp add: word_le_nat_alt word_unat_eq_iff)

lemma netem_request_rate:
  "netem_change_attrs env (payloads (netem_attr_list rate64)) s =
     set_q (\<lambda>q. q\<lparr>nq_rate := \<lparr>nr_rate = rate64, nr_packet_overhead = 0, nr_cell_size = 0,
       nr_cell_reciprocal = \<lparr>rv_m = 0, rv_sh1 = 0, rv_sh2 = 0\<rparr>, nr_cell_overhead = 0\<rparr>\<rparr>) s"
proof -
  have w0: "word_at (netem_rate_bytes r) 0 = r" for r by (simp add: word_at_def netem_rate_bytes_def)
  have w: "word_at (netem_rate_bytes r) (Suc 0) = 0" "word_at (netem_rate_bytes r) 2 = 0" "word_at (netem_rate_bytes r) 3 = 0" for r
    by (simp_all add: word_at_def netem_rate_bytes_def le32_def eval_nat_numeral)
  show ?thesis
    by (cases "2 ^ 32 \<le> rate64")
      (simp_all add: netem_change_attrs_def netem_attr_list_def payloads_def when_attr_def get_rate_def w0 w netem_rate_sent ucast_rate_sent Let_def)
qed

lemma netem_request_installed:
  assumes "nla_parser_ok (nla_parse cenv)" "attrs_at d 0 (netem_attr_list rate64) (length d)" "4 \<le> length d"
  shows "netem_change h env cenv (Some (netem_bytes opt @ d)) s =
    (0, set_q (\<lambda>q. q\<lparr>nq_rate := \<lparr>nr_rate = rate64, nr_packet_overhead = 0, nr_cell_size = 0,
          nr_cell_reciprocal = \<lparr>rv_m = 0, rv_sh1 = 0, rv_sh2 = 0\<rparr>, nr_cell_overhead = 0\<rparr>\<rparr>)
        (netem_change_qopt h opt (set_q (\<lambda>q. q\<lparr>nq_loss_model := CLG_RANDOM\<rparr>) s)))"
proof -
  have no: "payloads (netem_attr_list rate64) 5 = None" "payloads (netem_attr_list rate64) 2 = None" "payloads (netem_attr_list rate64) 13 = None"
    by (simp_all add: payloads_def netem_attr_list_def)
  have "netem_change_tables cenv (payloads (netem_attr_list rate64)) (ns_q s) = (0, (ns_q s)\<lparr>nq_loss_model := CLG_RANDOM\<rparr>)"
    by (simp add: netem_change_tables_def no Let_def)
  then show ?thesis by (simp add: netem_change_def netem_request_attrs [OF assms] netem_request_rate Let_def)
qed

end
