(* ===== verification/Netem_Corrupt.thy ===== *)
theory Netem_Corrupt
  imports Netem_Run
begin

text \<open>
  Corruption of a packet that has to be segmented, in an emulator that only delays and corrupts: the first segment is queued with its pointer
  to the second one, whatever becomes of that.
\<close>

section \<open>The corruption step\<close>

definition always_corrupt :: "'c netem_sched_data \<Rightarrow> bool" where
  "always_corrupt q \<longleftrightarrow> nq_jitter q = 0 \<and> nq_gap q = 0 \<and> nq_loss_model q = CLG_RANDOM \<and> nq_loss q = 0 \<and> nq_duplicate q = 0 \<and>
     nq_corrupt q = - 1 \<and> nr_rate (nq_rate q) = 0"

text \<open>The packets are not shared and have no checksum pending, and the helper that drops a packet drops the one it is given.\<close>

definition corrupt_env_ok :: "'c netem_env \<Rightarrow> bool" where
  "corrupt_env_ok env \<longleftrightarrow> netem_env_ok env \<and> (\<forall>a P. skb_unshare env a P = (Some a, P)) \<and> (\<forall>p. checksum_fails env p = (False, p)) \<and>
     (\<forall>p. np_data (skb_orphan_partial env p) = np_data p) \<and>
     (\<forall>a P st tf. fst (qdisc_drop_all env a P st tf) = P(a := None) \<and> q_qlen (fst (snd (qdisc_drop_all env a P st tf))) = q_qlen st)"

definition corrupted :: "addr \<Rightarrow> netem_pkt \<Rightarrow> crndstate \<Rightarrow> nat \<Rightarrow> 'c netem_sch \<Rightarrow> 'c netem_sch" where
  "corrupted a p cor k s = s\<lparr>ns_q := (ns_q s)\<lparr>nq_corrupt_cor := cor\<rparr>, ns_rnd := k, ns_pkts := (ns_pkts s)(a \<mapsto> p)\<rparr>"

lemma corrupted_simps [simp]:
  "ns_pkts (corrupted a p cor k s) = (ns_pkts s)(a \<mapsto> p)" "ns_st (corrupted a p cor k s) = ns_st s" "ns_limit (corrupted a p cor k s) = ns_limit s"
  "ns_q (corrupted a p cor k s) = (ns_q s)\<lparr>nq_corrupt_cor := cor\<rparr>" "ns_clock (corrupted a p cor k s) = ns_clock s"
  "ns_queue (corrupted a p cor k s) = ns_queue s" "ns_nodes (corrupted a p cor k s) = ns_nodes s"
  by (simp_all add: corrupted_def)

lemma always_hit: "\<exists>cor' k'. chance rnd (- 1) cor k = (True, cor', k')"
  by (simp add: chance_def split: prod.split)

lemma flip_ok:
  assumes "np_data p \<noteq> []"
  shows "\<exists>p' k'. flip_bit rnd p k = Some (p', k') \<and> np_next p' = np_next p \<and> np_skb p' = np_skb p"
  using assms by (simp add: flip_bit_def Let_def)

lemma corrupt_plain:
  assumes "corrupt_env_ok env" "always_corrupt (ns_q s)" "ns_pkts s skb = Some p" "np_data p \<noteq> []" "\<not> skb_is_gso (ne_gso env) (np_skb p)" "skb \<noteq> 0"
  shows "\<exists>cor k p'. netem_corrupt h env skb s to_free = Some (Corrupt_go_on skb (np_next p), corrupted skb p' cor k s, to_free) \<and>
    np_next p' = np_next p \<and> np_skb p' = np_skb p"
proof -
  obtain cor k where hit: "chance (prandom_u32 env) (- 1) (nq_corrupt_cor (ns_q s)) (ns_rnd s) = (True, cor, k)" using always_hit by blast
  obtain p' k' where f: "flip_bit (prandom_u32 env) p k = Some (p', k')" "np_next p' = np_next p" "np_skb p' = np_skb p"
    using flip_ok [OF assms(4)] by blast
  have e: "skb_unshare env a P = (Some a, P)" "checksum_fails env p = (False, p)" for a P p using assms(1) by (simp_all add: corrupt_env_ok_def)
  have c: "nq_corrupt (ns_q s) = - 1" using assms(2) by (simp add: always_corrupt_def)
  have "netem_corrupt h env skb s to_free = Some (Corrupt_go_on skb (np_next p), corrupted skb p' cor k' s, to_free)"
    using assms(3,5,6) by (simp add: netem_corrupt_def c hit e f(1) corrupted_def)
  then show ?thesis using f(2,3) by blast
qed

lemma corrupt_gso:
  assumes "corrupt_env_ok env" "always_corrupt (ns_q s)" "ns_pkts s skb = Some p" "skb_is_gso (ne_gso env) (np_skb p)"
    and "\<forall>f P. skb_segment env skb f P = Some (a, P(a \<mapsto> pa, b \<mapsto> pb))" "a \<noteq> 0" "a \<noteq> b" "a \<noteq> skb" "np_data pa \<noteq> []"
  shows "\<exists>cor k p'. netem_corrupt h env skb s to_free =
      Some (Corrupt_go_on a (np_next pa), corrupted a p' cor k (s\<lparr>ns_pkts := (ns_pkts s)(b \<mapsto> pb, skb := None)\<rparr>), to_free) \<and>
    np_next p' = np_next pa \<and> np_skb p' = np_skb pa"
proof -
  obtain cor k where hit: "chance (prandom_u32 env) (- 1) (nq_corrupt_cor (ns_q s)) (ns_rnd s) = (True, cor, k)" using always_hit by blast
  obtain p' k' where f: "flip_bit (prandom_u32 env) pa k = Some (p', k')" "np_next p' = np_next pa" "np_skb p' = np_skb pa"
    using flip_ok [OF assms(9)] by blast
  have e: "skb_unshare env a P = (Some a, P)" "checksum_fails env p = (False, p)" for a P p using assms(1) by (simp_all add: corrupt_env_ok_def)
  have c: "nq_corrupt (ns_q s) = - 1" using assms(2) by (simp add: always_corrupt_def)
  let ?q = "s\<lparr>ns_q := (ns_q s)\<lparr>nq_corrupt_cor := cor\<rparr>, ns_rnd := k\<rparr>"
  have seg: "netem_segment h env skb ?q to_free = Some (a, release skb (?q\<lparr>ns_pkts := (ns_pkts s)(a \<mapsto> pa, b \<mapsto> pb)\<rparr>), to_free)"
    using assms(3,5,6) by (simp add: netem_segment_def Let_def)
  have m: "(ns_pkts s)(a \<mapsto> pa, b \<mapsto> pb, skb := None, a \<mapsto> p') = (ns_pkts s)(b \<mapsto> pb, skb := None, a \<mapsto> p')"
    using assms(7,8) by (auto simp: fun_eq_iff)
  have "netem_corrupt h env skb s to_free =
      Some (Corrupt_go_on a (np_next pa), corrupted a p' cor k' (s\<lparr>ns_pkts := (ns_pkts s)(b \<mapsto> pb, skb := None)\<rparr>), to_free)"
    unfolding netem_corrupt_def c hit Let_def prod.case using assms(3,4,6-8) by (simp add: seg e f(1) corrupted_def release_def m)
  then show ?thesis using f(2,3) by blast
qed

section \<open>Queueing and dropping a segment\<close>

lemma count_one: "always_corrupt (ns_q s) \<Longrightarrow> netem_count h env skb s = Some (1, s)"
  by (simp add: always_corrupt_def netem_count_def chance_def loss_event_def)

definition orphan :: "'c netem_env \<Rightarrow> 'c netem_sch \<Rightarrow> netem_pkt \<Rightarrow> netem_pkt" where
  "orphan env s p = (if nq_latency (ns_q s) \<noteq> 0 \<or> nq_jitter (ns_q s) \<noteq> 0 \<or> nr_rate (nq_rate (ns_q s)) \<noteq> 0 then skb_orphan_partial env p else p)"

lemma orphan_same:
  assumes "corrupt_env_ok env"
  shows "np_skb (orphan env s p) = np_skb p" "np_next (orphan env s p) = np_next p" "np_data (orphan env s p) = np_data p"
  using assms by (simp_all add: orphan_def corrupt_env_ok_def netem_env_ok_def)

lemma orphan_state:
  assumes "ns_pkts s skb = Some p"
  shows "(if nq_latency (ns_q s) \<noteq> 0 \<or> nq_jitter (ns_q s) \<noteq> 0 \<or> nr_rate (nq_rate (ns_q s)) \<noteq> 0
     then s\<lparr>ns_pkts := (ns_pkts s)(skb \<mapsto> skb_orphan_partial env p)\<rparr> else s) = s\<lparr>ns_pkts := (ns_pkts s)(skb \<mapsto> orphan env s p)\<rparr>"
  using assms by (simp add: orphan_def fun_upd_idem)

text \<open>What the calls leave alone.\<close>

definition same_netem :: "'c netem_sch \<Rightarrow> 'c netem_sch \<Rightarrow> bool" where
  "same_netem s s' \<longleftrightarrow> (\<exists>cor. ns_q s' = (ns_q s)\<lparr>nq_corrupt_cor := cor\<rparr>) \<and> ns_queue s' = ns_queue s \<and> ns_nodes s' = ns_nodes s \<and>
     ns_limit s' = ns_limit s \<and> ns_clock s' = ns_clock s \<and> q_qlen (ns_st s') = q_qlen (ns_st s)"

lemma segment_dropped:
  assumes "corrupt_env_ok env" "always_corrupt (ns_q s)" "ns_pkts s b = Some p" "np_data p \<noteq> []" "\<not> skb_is_gso (ne_gso env) (np_skb p)" "b \<noteq> 0"
    and "ns_limit s \<le> q_qlen (ns_st s)"
  shows "\<exists>s' tf. netem_call h env (Enqueue b) s to_free = Some (NET_XMIT_DROP, 0, 0, s', tf) \<and>
    ns_pkts s' = (ns_pkts s)(b := None) \<and> same_netem s s'"
proof -
  let ?s = "s\<lparr>ns_pkts := (ns_pkts s)(b \<mapsto> orphan env s p)\<rparr>"
  have 1: "always_corrupt (ns_q ?s)" "ns_pkts ?s b = Some (orphan env s p)" "np_data (orphan env s p) \<noteq> []"
    "\<not> skb_is_gso (ne_gso env) (np_skb (orphan env s p))" using assms(2,4,5) orphan_same [OF assms(1)] by simp_all
  obtain cor k p' where c: "netem_corrupt h env b ?s to_free = Some (Corrupt_go_on b (np_next (orphan env s p)), corrupted b p' cor k ?s, to_free)"
    using corrupt_plain [OF assms(1) 1 assms(6)] by blast
  let ?c = "corrupted b p' cor k ?s"
  obtain P st tf where d: "qdisc_drop_all env b (ns_pkts ?c) (ns_st ?c) to_free = (P, st, tf)" by (metis prod_cases3)
  then have e: "P = (ns_pkts ?c)(b := None)" "q_qlen st = q_qlen (ns_st ?c)"
    using assms(1) unfolding corrupt_env_ok_def by (metis fst_conv snd_conv)+
  have "netem_call h env (Enqueue b) s to_free = Some (NET_XMIT_DROP, 0, 0, ?c\<lparr>ns_pkts := P, ns_st := st\<rparr>, tf)"
    unfolding netem_call.simps [of h env "Enqueue b"] netem_op.case assms(3) bind.bind_lunit Let_def count_one [OF assms(2)] prod.case orphan_state [OF assms(3)]
    using assms(7) c d by simp
  moreover have "ns_pkts (?c\<lparr>ns_pkts := P, ns_st := st\<rparr>) = (ns_pkts s)(b := None)" "same_netem s (?c\<lparr>ns_pkts := P, ns_st := st\<rparr>)"
    using e by (auto simp: same_netem_def)
  ultimately show ?thesis by blast
qed

lemma queue_delay:
  assumes "netem_env_ok env" "always_corrupt (ns_q s)" "ns_pkts s a = Some p" "T = ktime_get_ns env (ns_clock s) + nq_latency (ns_q s)"
    and "nq_tail (ns_q s) = 0 \<or> nq_tail (ns_q s) \<noteq> a \<and> (\<exists>t. time_of s (nq_tail (ns_q s)) = Some t \<and> t \<le> T)"
  shows "\<exists>s'. netem_queue env a s = Some s' \<and> ns_pkts s' a = Some (p\<lparr>np_time_to_send := T\<rparr>) \<and>
    (\<forall>x. x \<noteq> a \<and> x \<noteq> nq_tail (ns_q s) \<longrightarrow> ns_pkts s' x = ns_pkts s x) \<and> (nq_tail (ns_q s) = 0 \<longrightarrow> (\<forall>x. x \<noteq> a \<longrightarrow> ns_pkts s' x = ns_pkts s x)) \<and>
    q_qlen (ns_st s') = q_qlen (ns_st s) + 1 \<and>
    ns_q s' = (ns_q s)\<lparr>nq_counter := nq_counter (ns_q s) + 1, nq_head := (if nq_tail (ns_q s) = 0 then a else nq_head (ns_q s)), nq_tail := a\<rparr> \<and>
    ns_queue s' = ns_queue s \<and> ns_nodes s' = ns_nodes s \<and> ns_limit s' = ns_limit s"
proof -
  let ?st = "set_st (qdisc_qstats_backlog_inc env (np_skb p)) s"
  have q: "nq_jitter (ns_q s) = 0" "nq_gap (ns_q s) = 0" "nr_rate (nq_rate (ns_q s)) = 0" using assms(2) by (simp_all add: always_corrupt_def)
  have o: "netem_in_order rnd ?st = (True, ?st)" for rnd using q by (simp add: netem_in_order_def)
  have t: "netem_time env len ?st = Some (T, ?st\<lparr>ns_clock := Suc (ns_clock s)\<rparr>)" for len
    using q by (simp add: netem_time_def tabledist_def assms(4))
  let ?s = "?st\<lparr>ns_clock := Suc (ns_clock s), ns_pkts := (ns_pkts s)(a \<mapsto> p\<lparr>np_time_to_send := T\<rparr>), ns_q := (ns_q s)\<lparr>nq_counter := nq_counter (ns_q s) + 1\<rparr>\<rparr>"
  have run: "netem_queue env a s = tfifo_enqueue (ne_rb env) a ?s" using assms(3) by (simp add: netem_queue_def o t set_time_def Let_def)
  have l: "q_qlen (qdisc_qstats_backlog_inc env (np_skb p) (ns_st s)) = q_qlen (ns_st s)" using assms(1) by (simp add: netem_env_ok_def)
  have n: "time_of ?s a = Some T" by (simp add: time_of_def)
  show ?thesis
  proof (cases "nq_tail (ns_q s) = 0")
    case True
    then show ?thesis unfolding run tfifo_enqueue_def n using l by simp
  next
    case False
    then obtain u v where u: "nq_tail (ns_q s) \<noteq> a" "ns_pkts s (nq_tail (ns_q s)) = Some u" "np_time_to_send u \<le> T"
      using assms(5) by (auto simp: time_of_def)
    then have "time_of ?s (nq_tail (ns_q s)) = Some (np_time_to_send u)" by (simp add: time_of_def)
    then show ?thesis unfolding run tfifo_enqueue_def n using l u False by (simp add: set_next_def)
  qed
qed

section \<open>A packet of two segments\<close>

text \<open>The kernel splits the packet \<open>skb\<close> into the segments at \<open>a\<close> and \<open>b\<close>, linked in this order, which need no further splitting.\<close>

definition two_segments :: "'c netem_env \<Rightarrow> addr \<Rightarrow> addr \<Rightarrow> netem_pkt \<Rightarrow> addr \<Rightarrow> netem_pkt \<Rightarrow> bool" where
  "two_segments env skb a pa b pb \<longleftrightarrow> (\<forall>f P. skb_segment env skb f P = Some (a, P(a \<mapsto> pa, b \<mapsto> pb))) \<and>
     a \<noteq> 0 \<and> b \<noteq> 0 \<and> a \<noteq> b \<and> a \<noteq> skb \<and> b \<noteq> skb \<and> np_next pa = b \<and> np_next pb = 0 \<and> np_data pa \<noteq> [] \<and> np_data pb \<noteq> [] \<and>
     (\<forall>n. \<not> skb_is_gso (ne_gso env) ((np_skb pb)\<lparr>pkt_len := n\<rparr>))"

text \<open>A segment that finds the queue full ends the loop over the segments.\<close>

lemma last_segment_dropped:
  assumes "corrupt_env_ok env" "stat_helpers_ok h" "always_corrupt (ns_q s)" "two_segments env skb a pa b pb" "ns_pkts s b = Some pb"
    and "ns_limit s \<le> q_qlen (ns_st s)"
  shows "\<exists>s' tf. netem_call h env (Segments b 0 0) s to_free = Some (NET_XMIT_SUCCESS, 0, 0, s', tf) \<and>
    ns_pkts s' = (ns_pkts s)(b := None) \<and> same_netem s s'"
proof -
  note seg = assms(4) [unfolded two_segments_def]
  let ?p = "pb\<lparr>np_next := 0, np_skb := (np_skb pb)\<lparr>pkt_len := skb_len (np_skb pb)\<rparr>\<rparr>"
  let ?s = "s\<lparr>ns_pkts := (ns_pkts s)(b \<mapsto> ?p)\<rparr>"
  have 1: "always_corrupt (ns_q ?s)" "ns_pkts ?s b = Some ?p" "np_data ?p \<noteq> []" "\<not> skb_is_gso (ne_gso env) (np_skb ?p)" "b \<noteq> 0"
    "ns_limit ?s \<le> q_qlen (ns_st ?s)" using assms(3,6) seg by simp_all
  obtain s' tf where e: "netem_call h env (Enqueue b) ?s to_free = Some (NET_XMIT_DROP, 0, 0, s', tf)"
    "ns_pkts s' = (ns_pkts ?s)(b := None)" "same_netem ?s s'" using segment_dropped [OF assms(1) 1] by blast
  let ?r = "if net_xmit_drop_count h NET_XMIT_DROP then set_st (qdisc_qstats_drop h) s' else s'"
  have fin: "netem_call h env (Segments 0 0 0) ?r tf = Some (NET_XMIT_SUCCESS, 0, 0, ?r, tf)"
    by (subst netem_call.simps) simp
  have "netem_call h env (Segments b 0 0) s to_free = Some (NET_XMIT_SUCCESS, 0, 0, ?r, tf)"
    unfolding netem_call.simps [of h env "Segments b 0 0" s] netem_op.case assms(5) bind.bind_lunit Let_def e(1) prod.case using seg fin by simp
  moreover have "ns_pkts ?r = (ns_pkts s)(b := None)" using e(2) by simp
  moreover have "same_netem s ?r" using e(3) assms(2) by (auto simp: same_netem_def stat_helpers_ok_def)
  ultimately show ?thesis by blast
qed

lemma enqueue_dangles:
  assumes env: "corrupt_env_ok env" "stat_helpers_ok h" and q: "always_corrupt (ns_q s)" and seg: "two_segments env skb a pa b pb"
    and p: "ns_pkts s skb = Some p" "skb_is_gso (ne_gso env) (np_skb p)"
    and full: "q_qlen (ns_st s) + 1 = ns_limit s" "ns_limit s \<noteq> 0"
    and T: "T = ktime_get_ns env (ns_clock s) + nq_latency (ns_q s)"
    and tail: "nq_tail (ns_q s) = 0 \<or> nq_tail (ns_q s) \<notin> {skb, a, b} \<and> (\<exists>t. time_of s (nq_tail (ns_q s)) = Some t \<and> t \<le> T)"
  shows "\<exists>s' tf p' cor. netem_enqueue h env skb s to_free = Some (NET_XMIT_SUCCESS, s', tf) \<and>
    ns_pkts s' a = Some p' \<and> np_next p' = b \<and> np_time_to_send p' = T \<and> np_skb p' = np_skb pa \<and> ns_pkts s' b = None \<and>
    q_qlen (ns_st s') = ns_limit s \<and> ns_queue s' = ns_queue s \<and> ns_nodes s' = ns_nodes s \<and>
    ns_q s' = (ns_q s)\<lparr>nq_corrupt_cor := cor, nq_counter := nq_counter (ns_q s) + 1,
      nq_head := (if nq_tail (ns_q s) = 0 then a else nq_head (ns_q s)), nq_tail := a\<rparr>"
proof -
  note sg = seg [unfolded two_segments_def]
  let ?s0 = "s\<lparr>ns_pkts := (ns_pkts s)(skb \<mapsto> orphan env s p)\<rparr>"
  have 0: "always_corrupt (ns_q ?s0)" "ns_pkts ?s0 skb = Some (orphan env s p)" "skb_is_gso (ne_gso env) (np_skb (orphan env s p))"
    "\<forall>f P. skb_segment env skb f P = Some (a, P(a \<mapsto> pa, b \<mapsto> pb))" "a \<noteq> 0" "a \<noteq> b" "a \<noteq> skb" "np_data pa \<noteq> []"
    using q p(2) sg orphan_same [OF env(1)] by simp_all
  obtain cor k p' where c: "netem_corrupt h env skb ?s0 to_free =
      Some (Corrupt_go_on a (np_next pa), corrupted a p' cor k (?s0\<lparr>ns_pkts := (ns_pkts ?s0)(b \<mapsto> pb, skb := None)\<rparr>), to_free)"
    "np_next p' = np_next pa" "np_skb p' = np_skb pa" using corrupt_gso [OF env(1) 0] by blast
  let ?c = "corrupted a p' cor k (?s0\<lparr>ns_pkts := (ns_pkts ?s0)(b \<mapsto> pb, skb := None)\<rparr>)"
  have 1: "netem_env_ok env" "always_corrupt (ns_q ?c)" "ns_pkts ?c a = Some p'" "T = ktime_get_ns env (ns_clock ?c) + nq_latency (ns_q ?c)"
    using env(1) q T by (simp_all add: corrupt_env_ok_def always_corrupt_def)
  have 2: "nq_tail (ns_q ?c) = 0 \<or> nq_tail (ns_q ?c) \<noteq> a \<and> (\<exists>t. time_of ?c (nq_tail (ns_q ?c)) = Some t \<and> t \<le> T)"
    using tail by (auto simp: time_of_def)
  obtain s2 where s2: "netem_queue env a ?c = Some s2" "ns_pkts s2 a = Some (p'\<lparr>np_time_to_send := T\<rparr>)"
    "\<forall>x. x \<noteq> a \<and> x \<noteq> nq_tail (ns_q ?c) \<longrightarrow> ns_pkts s2 x = ns_pkts ?c x" "nq_tail (ns_q ?c) = 0 \<longrightarrow> (\<forall>x. x \<noteq> a \<longrightarrow> ns_pkts s2 x = ns_pkts ?c x)"
    "q_qlen (ns_st s2) = q_qlen (ns_st ?c) + 1"
    "ns_q s2 = (ns_q ?c)\<lparr>nq_counter := nq_counter (ns_q ?c) + 1, nq_head := (if nq_tail (ns_q ?c) = 0 then a else nq_head (ns_q ?c)), nq_tail := a\<rparr>"
    "ns_queue s2 = ns_queue ?c" "ns_nodes s2 = ns_nodes ?c" "ns_limit s2 = ns_limit ?c" using queue_delay [OF 1 2] by blast
  have b: "ns_pkts s2 b = Some pb" using s2(3,4) sg tail by (cases "nq_tail (ns_q s) = 0") auto
  have 3: "always_corrupt (ns_q s2)" "ns_limit s2 \<le> q_qlen (ns_st s2)"
    using q s2(5,6,9) full(1) by (simp_all add: always_corrupt_def)
  obtain s3 tf where s3: "netem_call h env (Segments b 0 0) s2 to_free = Some (NET_XMIT_SUCCESS, 0, 0, s3, tf)"
    "ns_pkts s3 = (ns_pkts s2)(b := None)" "same_netem s2 s3" using last_segment_dropped [OF env 3(1) seg b 3(2)] by blast
  have room: "\<not> ns_limit s \<le> q_qlen (ns_st s)"
    using full unatSuc [of "q_qlen (ns_st s)"] unfolding word_le_nat_alt by (simp add: add.commute)
  have nx: "np_next pa = b" "b \<noteq> 0" using sg by simp_all
  have "netem_enqueue h env skb s to_free = Some (NET_XMIT_SUCCESS, s3, tf)"
    unfolding netem_enqueue_def netem_call.simps [of h env "Enqueue skb"] netem_op.case p(1) bind.bind_lunit Let_def count_one [OF q] prod.case
      orphan_state [OF p(1)] using c(1) s2(1) s3(1) room nx by simp
  moreover obtain cor' where "ns_q s3 = (ns_q s2)\<lparr>nq_corrupt_cor := cor'\<rparr>" using s3(3) by (auto simp: same_netem_def)
  then have "ns_q s3 = (ns_q s)\<lparr>nq_corrupt_cor := cor', nq_counter := nq_counter (ns_q s) + 1,
      nq_head := (if nq_tail (ns_q s) = 0 then a else nq_head (ns_q s)), nq_tail := a\<rparr>" using s2(6) by simp
  moreover have "ns_pkts s3 a = Some (p'\<lparr>np_time_to_send := T\<rparr>)" "ns_pkts s3 b = None" using s3(2) s2(2) 0(6) by simp_all
  moreover have "q_qlen (ns_st s3) = ns_limit s" "ns_queue s3 = ns_queue s" "ns_nodes s3 = ns_nodes s"
    using s3(3) s2(5,7,8) full(1) by (simp_all add: same_netem_def)
  moreover have "np_next (p'\<lparr>np_time_to_send := T\<rparr>) = b" "np_time_to_send (p'\<lparr>np_time_to_send := T\<rparr>) = T" "np_skb (p'\<lparr>np_time_to_send := T\<rparr>) = np_skb pa"
    using c(2,3) nx by simp_all
  ultimately show ?thesis by blast
qed

section \<open>The dangling pointer\<close>

lemma chain_last: "chain P a xs \<Longrightarrow> xs \<noteq> [] \<Longrightarrow> P (last xs) = Some p \<Longrightarrow> np_next p = 0"
  by (induction P a xs rule: chain.induct) (auto split: if_splits simp: neq_Nil_conv)

lemma dangling_not_ok:
  assumes "nq_tail (ns_q s) = a" "a \<noteq> 0" "ns_pkts s a = Some p" "np_next p \<noteq> 0"
  shows "\<not> tfifo_ok s t xs"
proof
  assume ok: "tfifo_ok s t xs"
  then have "xs \<noteq> []" using tfifo_ok_parts(2) [OF ok] assms(1,2) by simp
  moreover from this have "last xs = a" using ok assms(1) by (cases xs rule: rev_cases) (auto simp: tfifo_ok_def last_or_null_def)
  ultimately show False using chain_last [of "ns_pkts s" "nq_head (ns_q s)" xs p] ok assms(3,4) by (simp add: tfifo_ok_def)
qed

lemma dangling_dequeue:
  assumes "rb_library (ne_rb env)" "netem_env_ok env" "stat_helpers_ok h" "plain_netem s" "nq_root (ns_q s) = 0" "nq_head (ns_q s) = a"
    and "ns_pkts s a = Some p" "np_next p = b" "a \<noteq> 0" "b \<noteq> 0" "ns_pkts s b = None" "np_time_to_send p \<le> ktime_get_ns env (ns_clock s)"
  shows "\<exists>s'. netem_dequeue h env ops s = Some (Some (np_skb p), s') \<and> q_qlen (ns_st s') = q_qlen (ns_st s) - 1 \<and>
    nq_head (ns_q s') = b \<and> ns_pkts s' b = None \<and> netem_dequeue h env ops s' = None"
proof -
  have tree: "tree_ok H (\<lambda>_. None :: netem_pkt option) 0 Leaf" for H by (simp add: tree_ok_def rb_repr_mem wf_addrs_def rb_tree_def)
  have peek: "netem_peek (ne_rb env) r = Some (nq_head (ns_q r))" if "nq_root (ns_q r) = 0" for r :: "'a netem_sch"
    using rb_library.first_law [OF assms(1) tree, of "ns_nodes r"] that by (simp add: netem_peek_def t_mem_def)
  note step = rb_library.dequeue_step [OF assms(1,2) refl]
  let ?c = "s\<lparr>ns_clock := Suc (ns_clock s)\<rparr>"
  let ?e = "set_q (\<lambda>q. q\<lparr>nq_head := b, nq_tail := nq_tail q\<rparr>) ?c"
  let ?r = "release a (set_st (\<lambda>st. qdisc_qstats_backlog_dec h (np_skb p) (st\<lparr>q_qlen := q_qlen st - 1\<rparr>)) ?e)"
  let ?s = "set_st (qdisc_bstats_update h (np_skb p)) ?r"
  have "take_due h env (ktime_get_ns env (ns_clock s)) a ?c = Some (np_skb p, ?r)"
    using assms(4,6-8,10) by (simp add: take_due_def netem_erase_head_def plain_netem_def release_def Let_def)
  then have 1: "netem_dequeue h env ops s = Some (Some (np_skb p), ?s)"
    using step [OF assms(4) peek [OF assms(5)], of h ops] assms(4,6,7,9,12) by (simp add: time_of_def deliver_def plain_netem_def release_def Let_def)
  have 2: "plain_netem ?s" "nq_root (ns_q ?s) = 0" "nq_head (ns_q ?s) = b" "ns_pkts ?s b = None" "q_qlen (ns_st ?s) = q_qlen (ns_st s) - 1"
    using assms(3-5,11) by (simp_all add: plain_netem_def release_def stat_helpers_ok_def)
  have "netem_dequeue h env ops ?s = None"
    using step [OF 2(1) peek [OF 2(2)], of h ops] 2(3,4) assms(10) by (simp add: time_of_def Let_def)
  with 1 2 show ?thesis by blast
qed

lemma tail_planned:
  assumes "tfifo_ok s t xs" "A \<inter> set (inorder t @ xs) = {}" "\<forall>u \<in> planned s t xs. u \<le> T"
  shows "nq_tail (ns_q s) = 0 \<or> nq_tail (ns_q s) \<notin> A \<and> (\<exists>u. time_of s (nq_tail (ns_q s)) = Some u \<and> u \<le> T)"
proof (cases xs rule: rev_cases)
  case Nil
  then show ?thesis using tfifo_ok_parts(2) [OF assms(1)] by simp
next
  case (snoc ys a)
  then have tail: "nq_tail (ns_q s) = a" using assms(1) by (simp add: tfifo_ok_def last_or_null_def)
  obtain p where p: "ns_pkts s a = Some p" using tfifo_ok_parts(1) [OF assms(1), of a] snoc by auto
  then have "np_time_to_send p \<in> planned s t xs" using snoc by (force simp: time_of_def)
  then show ?thesis unfolding tail using p snoc assms(2,3) by (auto simp: time_of_def)
qed

end
