(* ===== verification/Netem_Properties.thy ===== *)
theory Netem_Properties
  imports Netem_Corrupt Netem_Config Tbf_Demo
begin

text \<open>
  Properties of the network emulator: the order and the pace in which packets leave it, what a failed change of its configuration
  leaves behind, and a corrupted packet that leaves a dangling pointer in the queue. The small emulator at the start is the example the
  witnesses use: it holds one packet in the tree and one behind it in the chain.
\<close>

section \<open>An example\<close>

definition demo_netem_q :: "Qdisc netem_sched_data" where
  "demo_netem_q = \<lparr>nq_root = 16, nq_head = 8, nq_tail = 8, nq_qdisc = None, nq_watchdog = \<lparr>wd_last_expires = 0, wd_timer = None\<rparr>,
     nq_latency = 50, nq_jitter = 0, nq_loss = 0, nq_ecn = 0, nq_limit = 9, nq_counter = 2, nq_gap = 0, nq_duplicate = 0,
     nq_reorder = 0, nq_corrupt = 0,
     nq_rate = \<lparr>nr_rate = 1000000, nr_packet_overhead = 0, nr_cell_size = 0,
       nr_cell_reciprocal = \<lparr>rv_m = 0, rv_sh1 = 0, rv_sh2 = 0\<rparr>, nr_cell_overhead = 0\<rparr>,
     nq_delay_cor = \<lparr>cr_last = 0, cr_rho = 0\<rparr>, nq_loss_cor = \<lparr>cr_last = 0, cr_rho = 0\<rparr>, nq_dup_cor = \<lparr>cr_last = 0, cr_rho = 0\<rparr>,
     nq_reorder_cor = \<lparr>cr_last = 0, cr_rho = 0\<rparr>, nq_corrupt_cor = \<lparr>cr_last = 0, cr_rho = 0\<rparr>, nq_delay_dist = None,
     nq_loss_model = CLG_RANDOM, nq_clg = \<lparr>clg_state = 0, clg_a1 = 0, clg_a2 = 0, clg_a3 = 0, clg_a4 = 0, clg_a5 = 0\<rparr>,
     nq_slot_config = \<lparr>sl_min_delay = 0, sl_max_delay = 0, sl_max_packets = 0, sl_max_bytes = 0, sl_dist_delay = 0, sl_dist_jitter = 0\<rparr>,
     nq_slot = \<lparr>slot_next = 0, packets_left = 0, bytes_left = 0\<rparr>, nq_slot_dist = None\<rparr>"

definition demo_pkt :: "nat \<Rightarrow> u64 \<Rightarrow> addr \<Rightarrow> netem_pkt" where
  "demo_pkt n time next = \<lparr>np_skb = demo_skb n, np_data = [1], np_time_to_send = time, np_next = next\<rparr>"

definition demo_netem :: "Qdisc netem_sch" where
  "demo_netem = \<lparr>ns_limit = 9, ns_offloaded = False, ns_deactivated = False,
     ns_st = qdisc_stats_zero\<lparr>q_qlen := 2, qs_backlog := 20\<rparr>, ns_requeues = 0, ns_queue = [], ns_q = demo_netem_q, ns_ancs = [],
     ns_nodes = [16 \<mapsto> \<lparr>pc = 1, rb_right = 0, rb_left = 0\<rparr>],
     ns_pkts = [8 \<mapsto> demo_pkt 1 200 0, 16 \<mapsto> demo_pkt 2 100 0, 24 \<mapsto> demo_pkt 3 0 0], ns_rnd = 0, ns_clock = 0\<rparr>"

definition demo_netem_env :: "Qdisc netem_env" where
  "demo_netem_env = \<lparr>ne_rb = rbtree_lib,
     ne_recip = \<lparr>recip_value = (\<lambda>d. \<lparr>rv_m = d, rv_sh1 = 0, rv_sh2 = 0\<rparr>), recip_divide = (\<lambda>a r. a div rv_m r)\<rparr>,
     ne_gso = demo_gso, prandom_u32 = (\<lambda>_. 0), ktime_get_ns = (\<lambda>k. 150 + of_nat k),
     qdisc_enqueue_head = (\<lambda>a (q, n). (a # q, n + 1)),
     qdisc_dequeue_head0 = (\<lambda>(q, n). case q of [] \<Rightarrow> (None, [], n) | a # q \<Rightarrow> (Some a, q, n - 1)),
     qdisc_qstats_backlog_inc = (\<lambda>skb st. st\<lparr>qs_backlog := qs_backlog st + pkt_len skb\<rparr>),
     qdisc_drop_all = (\<lambda>a P st tf. (P(a := None), st\<lparr>qs_drops := qs_drops st + 1\<rparr>, tf)),
     INET_ECN_set_ce = (\<lambda>p. (False, p)), skb_orphan_partial = (\<lambda>p. p), skb_clone = (\<lambda>_ _. None),
     skb_segment = (\<lambda>a _ P. Some (32, P(32 \<mapsto> demo_pkt 4 0 40, 40 \<mapsto> demo_pkt 5 0 0))),
     skb_unshare = (\<lambda>a P. (Some a, P)), checksum_fails = (\<lambda>p. (False, p)), inner_dequeue = (\<lambda>q. (None, q)),
     root_enqueue = None\<rparr>"

text \<open>An empty emulator that corrupts every packet and has room for one, and a packet of two segments on its way.\<close>

definition demo_corrupt :: "Qdisc netem_sch" where
  "demo_corrupt = demo_netem\<lparr>ns_limit := 1, ns_st := qdisc_stats_zero, ns_nodes := Map.empty, ns_pkts := [24 \<mapsto> demo_pkt 3 0 0],
     ns_q := demo_netem_q\<lparr>nq_root := 0, nq_head := 0, nq_tail := 0, nq_corrupt := -1,
       nq_rate := (nq_rate demo_netem_q)\<lparr>nr_rate := 0\<rparr>\<rparr>\<rparr>"

definition demo_gso_env :: "Qdisc netem_env" where
  "demo_gso_env = demo_netem_env\<lparr>ne_gso := demo_gso\<lparr>skb_is_gso := (\<lambda>skb. skb_id skb = 3)\<rparr>,
     ktime_get_ns := (\<lambda>k. 150 + 1000000 * of_nat k)\<rparr>"

abbreviation demo_rbt :: rbt where "demo_rbt \<equiv> Node Leaf Black 16 Leaf"

lemma demo_netem_ok: "tfifo_ok demo_netem demo_rbt [8]"
  by (simp add: tfifo_ok_def demo_netem_def demo_netem_q_def demo_pkt_def tree_ok_def rb_repr_mem wf_addrs_def aligned_def
      rb_tree_def time_of_def last_or_null_def)

lemma demo_netem_plain: "plain_netem demo_netem"
  by (simp add: plain_netem_def demo_netem_def demo_netem_q_def)

lemma demo_netem_env_ok: "netem_env_ok demo_netem_env" "ne_rb demo_netem_env = rbtree_lib"
  by (simp_all add: netem_env_ok_def demo_netem_env_def)

lemma demo_netem_rate: "constant_rate (ns_q demo_netem)"
  by (simp add: constant_rate_def demo_netem_def demo_netem_q_def)

section \<open>Order and pace\<close>

text \<open>
  C6. Over any red-black tree library that keeps its promise, dequeueing from an emulator without an inner qdisc and slots returns,
  and hands out the right packet. An empty emulator hands out nothing and is left alone. Otherwise a packet is chosen that no queued
  packet precedes in time. When its time has come, it is handed out and exactly it leaves the queue, which stays in order, and the
  length drops by one. When it has not, nothing is handed out, the queue is as before and the watchdog is set for its time.
\<close>

theorem netem_dequeue_earliest:
  assumes "rb_library (ne_rb env)" "netem_env_ok env" "stat_helpers_ok h" "tfifo_ok s t xs" "plain_netem s"
  shows "\<exists>r s'. netem_dequeue h env ops s = Some (r, s') \<and>
    (if queued t xs = {#} then r = None \<and> s' = s
     else \<exists>a p. earliest s t xs a \<and> ns_pkts s a = Some p \<and>
       (if np_time_to_send p \<le> ktime_get_ns env (ns_clock s)
        then r = Some (np_skb p) \<and> q_qlen (ns_st s') = q_qlen (ns_st s) - 1 \<and>
          (\<exists>t' xs'. tfifo_ok s' t' xs' \<and> queued t' xs' = queued t xs - {#a#})
        else r = None \<and> tfifo_ok s' t xs \<and> ns_pkts s' = ns_pkts s \<and>
          nq_watchdog (ns_q s') = qdisc_watchdog_schedule_ns (ns_deactivated s) (np_time_to_send p) (nq_watchdog (ns_q s))))"
proof (rule rb_library.dequeue_ok [OF assms(1,2) refl assms(3-5), of ops])
  assume "queued t xs = {#}" "netem_dequeue h env ops s = Some (None, s)"
  then show ?thesis by auto
next
  fix a p s' t' xs'
  assume a: "earliest s t xs a" "ns_pkts s a = Some p" "np_time_to_send p \<le> ktime_get_ns env (ns_clock s)"
    "netem_dequeue h env ops s = Some (Some (np_skb p), s')" "tfifo_ok s' t' xs'" "queued t' xs' = queued t xs - {#a#}"
    "q_qlen (ns_st s') = q_qlen (ns_st s) - 1"
  then have "queued t xs \<noteq> {#}" by (auto simp: earliest_def)
  with a show ?thesis unfolding if_not_P [OF \<open>queued t xs \<noteq> {#}\<close>] by (metis (full_types))
next
  fix a p s'
  assume a: "earliest s t xs a" "ns_pkts s a = Some p" "ktime_get_ns env (ns_clock s) < np_time_to_send p"
    "netem_dequeue h env ops s = Some (None, s')" "tfifo_ok s' t xs" "ns_pkts s' = ns_pkts s"
    "nq_watchdog (ns_q s') = qdisc_watchdog_schedule_ns (ns_deactivated s) (np_time_to_send p) (nq_watchdog (ns_q s))"
  then have "queued t xs \<noteq> {#}" "\<not> np_time_to_send p \<le> ktime_get_ns env (ns_clock s)" by (auto simp: earliest_def)
  with a show ?thesis unfolding if_not_P [OF \<open>queued t xs \<noteq> {#}\<close>] by (metis (full_types))
qed

theorem netem_dequeue_earliest_witness:
  "\<exists>s'. netem_dequeue list_hdr demo_netem_env (fifo_ops list_hdr) demo_netem = Some (Some (demo_skb 2), s') \<and> q_qlen (ns_st s') = 1"
proof -
  have a: "a = 16" if "earliest demo_netem demo_rbt [8] a" for a
    using that by (auto simp: earliest_def time_of_def demo_netem_def demo_pkt_def)
  have p: "ns_pkts demo_netem 16 = Some (demo_pkt 2 100 0)" "q_qlen (ns_st demo_netem) = 2" "ktime_get_ns demo_netem_env (ns_clock demo_netem) = 150"
    by (simp_all add: demo_netem_def demo_netem_env_def qdisc_stats_zero_def)
  have lib: "rb_library (ne_rb demo_netem_env)" unfolding demo_netem_env_ok by (rule rbtree.rb_library_axioms)
  have ne: "queued demo_rbt [8] \<noteq> {#}" by simp
  from netem_dequeue_earliest [OF lib demo_netem_env_ok(1) list_hdr_stat_ok demo_netem_ok demo_netem_plain, of "fifo_ops list_hdr",
      unfolded if_not_P [OF ne] p(2,3)]
  obtain r s' b q where r: "netem_dequeue list_hdr demo_netem_env (fifo_ops list_hdr) demo_netem = Some (r, s')"
    "earliest demo_netem demo_rbt [8] b" "ns_pkts demo_netem b = Some q"
    "np_time_to_send q \<le> 150 \<longrightarrow> r = Some (np_skb q) \<and> q_qlen (ns_st s') = 2 - 1" by metis
  have "q = demo_pkt 2 100 0" using r(3) unfolding a [OF r(2)] p(1) by simp
  then show ?thesis using r(1,4) by (simp add: demo_pkt_def)
qed

text \<open>
  C9. Over any red-black tree library that keeps its promise, resetting the emulator returns and empties it. The requeued list is empty,
  so that \<open>qdisc_reset_queue\<close> only clears the length and the backlog. Afterwards tree and chain are empty, exactly the queued packets
  have been freed, the watchdog is cancelled, the child qdisc, if any, has been reset, and a dequeue from an emulator without
  a child hands out nothing.
\<close>

theorem netem_reset_empties:
  assumes "rb_library (ne_rb env)" "netem_env_ok env" "tfifo_ok s t xs" "ns_queue s = []"
    and "reset_queue s = set_st (\<lambda>st. st\<lparr>q_qlen := 0, qs_backlog := 0\<rparr>) s"
  shows "\<exists>s'. netem_reset reset_queue env ops s = Some s' \<and> tfifo_ok s' Leaf [] \<and>
    q_qlen (ns_st s') = 0 \<and> qs_backlog (ns_st s') = 0 \<and> ns_pkts s' = ns_pkts s |` (- set_mset (queued t xs)) \<and>
    nq_watchdog (ns_q s') = qdisc_watchdog_cancel (nq_watchdog (ns_q s)) \<and>
    nq_qdisc (ns_q s') = map_option (op_reset ops) (nq_qdisc (ns_q s)) \<and>
    (nq_qdisc (ns_q s) = None \<longrightarrow> netem_dequeue h env ops s' = Some (None, s'))"
proof -
  let ?s = "set_st (\<lambda>st. st\<lparr>q_qlen := 0, qs_backlog := 0\<rparr>) s"
  have "tfifo_ok ?s t xs" using assms(3) by (subst tfifo_ok_same [of _ s]) simp_all
  from rb_library.tfifo_reset_ok [OF assms(1) this] obtain s1 where
    s1: "tfifo_reset (ne_rb env) ?s = Some s1" "tfifo_ok s1 Leaf []" "ns_pkts s1 = ns_pkts ?s |` (- set_mset (queued t xs))"
    "ns_st s1 = ns_st ?s" "ns_queue s1 = ns_queue ?s" "nq_qdisc (ns_q s1) = nq_qdisc (ns_q ?s)" "nq_watchdog (ns_q s1) = nq_watchdog (ns_q ?s)" .
  let ?q = "set_q (\<lambda>q. q\<lparr>nq_qdisc := map_option (op_reset ops) (nq_qdisc q)\<rparr>) s1"
  let ?r = "set_q (\<lambda>q. q\<lparr>nq_watchdog := qdisc_watchdog_cancel (nq_watchdog q)\<rparr>) ?q"
  have run: "netem_reset reset_queue env ops s = Some ?r" using s1(1) assms(5) by (simp add: netem_reset_def)
  have ok: "tfifo_ok ?r Leaf []" using s1(2) by (subst tfifo_ok_same [of _ s1]) simp_all
  have "netem_peek (ne_rb env) ?r = Some 0"
    by (rule rb_library.peek_ok [OF assms(1) ok]) (simp_all add: earliest_def)
  moreover have "ns_queue ?r = []" using s1(5) assms(4) by simp
  ultimately have "netem_dequeue h env ops ?r = Some (None, ?r)" if "nq_qdisc (ns_q s) = None"
    using that s1(6) by (intro dequeue_nothing [OF assms(2)]) simp_all
  then show ?thesis using run ok s1(3,4,6,7) by (intro exI [of _ ?r]) simp
qed

theorem netem_reset_empties_witness:
  "\<exists>s'. netem_reset (set_st (\<lambda>st. st\<lparr>q_qlen := 0, qs_backlog := 0\<rparr>)) demo_netem_env (fifo_ops list_hdr) demo_netem = Some s' \<and>
    ns_pkts s' = [24 \<mapsto> demo_pkt 3 0 0] \<and> netem_dequeue list_hdr demo_netem_env (fifo_ops list_hdr) s' = Some (None, s')"
proof -
  have lib: "rb_library (ne_rb demo_netem_env)" unfolding demo_netem_env_ok by (rule rbtree.rb_library_axioms)
  have q: "ns_queue demo_netem = []" "nq_qdisc (ns_q demo_netem) = None" by (simp_all add: demo_netem_def demo_netem_q_def)
  have p: "ns_pkts demo_netem |` (- set_mset (queued demo_rbt [8])) = [24 \<mapsto> demo_pkt 3 0 0]"
    by (simp add: demo_netem_def restrict_map_def fun_eq_iff)
  show ?thesis
    using netem_reset_empties [OF lib demo_netem_env_ok(1) demo_netem_ok q(1),
        of "set_st (\<lambda>st. st\<lparr>q_qlen := 0, qs_backlog := 0\<rparr>)" "fifo_ops list_hdr" list_hdr, OF refl] q(2)
    unfolding p by metis
qed

text \<open>
  C7. At a constant rate packets leave one after the other. Enqueueing a packet into an emulator that has room for it succeeds; the packet joins
  the queue, which stays in order, no other packet is rescheduled, and the new one is sent one transmission time, its length divided by the rate, after
  the end of the latency or after the last packet before it, whichever is later. The bounds on the clock, the latency and
  the times in the queue keep the arithmetic from wrapping.
\<close>

theorem netem_enqueue_rate:
  assumes "rb_library (ne_rb env)" "netem_env_ok env" "tfifo_ok s t xs" "plain_netem s" "constant_rate (ns_q s)"
    and "q_qlen (ns_st s) < ns_limit s" "unat (ktime_get_ns env (ns_clock s)) < 2 ^ 61" "unat (nq_latency (ns_q s)) < 2 ^ 61"
    and "\<forall>u \<in> planned s t xs. unat u < 2 ^ 62"
    and "skb \<noteq> 0" "aligned skb" "ns_pkts s skb = Some p" "np_next p = 0" "skb \<notin># queued t xs"
  shows "\<exists>s' t' xs' T. netem_enqueue h env skb s to_free = Some (NET_XMIT_SUCCESS, s', to_free) \<and>
    tfifo_ok s' t' xs' \<and> queued t' xs' = add_mset skb (queued t xs) \<and> q_qlen (ns_st s') = q_qlen (ns_st s) + 1 \<and>
    time_of s' = (time_of s)(skb \<mapsto> T) \<and>
    unat T = Max (insert (unat (ktime_get_ns env (ns_clock s)) + unat (nq_latency (ns_q s))) (unat ` planned s t xs)) +
      unat (pkt_len (np_skb p)) * 10 ^ 9 div unat (nr_rate (nq_rate (ns_q s)))"
proof -
  let ?p = "skb_orphan_partial env p"
  let ?s = "s\<lparr>ns_pkts := (ns_pkts s)(skb \<mapsto> ?p)\<rparr>"
  have out: "skb \<notin> set (inorder t @ xs)" using assms(14) by simp
  have ok: "tfifo_ok ?s t xs" by (rule tfifo_ok_other [OF assms(3) out])
  have times: "planned ?s t xs = planned s t xs" using out by (intro image_cong) (auto simp: time_of_def)
  have bound: "\<forall>u \<in> planned ?s t xs. unat u < 2 ^ 62" using assms(9) by (simp only: times)
  have p: "np_skb ?p = np_skb p" "np_next ?p = 0" "ns_pkts ?s skb = Some ?p" using assms(2,13) by (simp_all add: netem_env_ok_def)
  have c: "plain_netem ?s" "nq_jitter (ns_q ?s) = 0" "nq_gap (ns_q ?s) = 0" "nr_rate (nq_rate (ns_q ?s)) \<noteq> 0"
    "nr_packet_overhead (nq_rate (ns_q ?s)) = 0" "nr_cell_size (nq_rate (ns_q ?s)) = 0"
    "unat (ktime_get_ns env (ns_clock ?s)) < 2 ^ 61" "unat (nq_latency (ns_q ?s)) < 2 ^ 61"
    using assms(4,5,7,8) by (simp_all add: plain_netem_def constant_rate_def)
  from rb_library.queue_ok_rate [OF assms(1) refl assms(2) ok c bound assms(10,11) p(3,2) out] obtain s' t' xs' T where
    s': "netem_queue env skb ?s = Some s'" "tfifo_ok s' t' xs'" "queued t' xs' = add_mset skb (queued t xs)"
    "time_of s' = (time_of ?s)(skb \<mapsto> T)" "q_qlen (ns_st s') = q_qlen (ns_st ?s) + 1"
    "unat T = Max (insert (unat (ktime_get_ns env (ns_clock ?s)) + unat (nq_latency (ns_q ?s))) (unat ` planned ?s t xs)) +
      unat (pkt_len (np_skb ?p)) * 10 ^ 9 div unat (nr_rate (nq_rate (ns_q ?s)))" .
  have "netem_enqueue h env skb s to_free = Some (NET_XMIT_SUCCESS, s', to_free)"
    using enqueue_constant_rate [OF assms(5,12,6)] s'(1) by simp
  moreover have "time_of s' = (time_of s)(skb \<mapsto> T)" unfolding s'(4) by (auto simp: time_of_def fun_eq_iff)
  moreover have "q_qlen (ns_st s') = q_qlen (ns_st s) + 1" using s'(5) by simp
  ultimately show ?thesis using s'(2,3,6) unfolding times p(1) by auto
qed

theorem netem_enqueue_rate_witness:
  "\<exists>s' T. netem_enqueue list_hdr demo_netem_env 24 demo_netem [] = Some (NET_XMIT_SUCCESS, s', []) \<and>
     time_of s' 24 = Some T \<and> unat T = 200 + 10000"
proof -
  have lib: "rb_library (ne_rb demo_netem_env)" unfolding demo_netem_env_ok by (rule rbtree.rb_library_axioms)
  have pl: "planned demo_netem demo_rbt [8] = {100, 200}" by (auto simp: time_of_def demo_netem_def demo_pkt_def)
  have s: "q_qlen (ns_st demo_netem) < ns_limit demo_netem" "unat (ktime_get_ns demo_netem_env (ns_clock demo_netem)) = 150"
    "unat (nq_latency (ns_q demo_netem)) = 50" "ns_pkts demo_netem 24 = Some (demo_pkt 3 0 0)" "aligned 24"
    "np_next (demo_pkt 3 0 0) = 0" "unat (nr_rate (nq_rate (ns_q demo_netem))) = 1000000" "unat (pkt_len (np_skb (demo_pkt 3 0 0))) = 10"
    by (simp_all add: demo_netem_def demo_netem_q_def demo_netem_env_def demo_pkt_def demo_skb_def qdisc_stats_zero_def aligned_def)
  have "unat (ktime_get_ns demo_netem_env (ns_clock demo_netem)) < 2 ^ 61" "unat (nq_latency (ns_q demo_netem)) < 2 ^ 61"
    "\<forall>u \<in> planned demo_netem demo_rbt [8]. unat u < 2 ^ 62" "(24 :: addr) \<noteq> 0" "24 \<notin># queued demo_rbt [8]"
    unfolding pl s by simp_all
  from netem_enqueue_rate [OF lib demo_netem_env_ok(1) demo_netem_ok demo_netem_plain demo_netem_rate s(1) this(1-4) s(5,4,6) this(5),
      of list_hdr "[]", unfolded s pl]
  show ?thesis by auto
qed

section \<open>Corrupted packets\<close>

text \<open>
  C19. Corrupting a packet that has to be segmented breaks the queue when it fills up. In an emulator that delays by a constant and corrupts every packet, whose queue is in order and has room for one packet, a packet
  of two segments is accepted: the first segment joins the end of the queue with its pointer to the second one, which is then dropped because the queue is full; the call reports success, and
  the queue is no longer a proper one. If it was empty before, the next dequeue after the delay hands out the first segment and
  makes the dropped one the head of the queue, and the dequeue after that follows the dangling pointer. Assumed: the segments are not shared and have no checksum pending, the queued packets are due no later than the new one, and
  the drop helper and the tree library do what they promise.
\<close>

theorem netem_corrupt_dangling:
  assumes "corrupt_env_ok env" "stat_helpers_ok h" "tfifo_ok s t xs" "always_corrupt (ns_q s)" "two_segments env skb a pa b pb"
    and "{skb, a, b} \<inter> set (inorder t @ xs) = {}" "ns_pkts s skb = Some p" "skb_is_gso (ne_gso env) (np_skb p)"
    and "q_qlen (ns_st s) + 1 = ns_limit s" "ns_limit s \<noteq> 0"
    and "T = ktime_get_ns env (ns_clock s) + nq_latency (ns_q s)" "\<forall>u \<in> planned s t xs. u \<le> T"
  shows "\<exists>s' tf p'. netem_enqueue h env skb s to_free = Some (NET_XMIT_SUCCESS, s', tf) \<and> q_qlen (ns_st s') = ns_limit s \<and>
    nq_tail (ns_q s') = a \<and> ns_pkts s' a = Some p' \<and> np_next p' = b \<and> ns_pkts s' b = None \<and> (\<forall>t' xs'. \<not> tfifo_ok s' t' xs') \<and>
    (rb_library (ne_rb env) \<and> plain_netem s \<and> t = Leaf \<and> xs = [] \<longrightarrow>
       (\<forall>k. T \<le> ktime_get_ns env k \<longrightarrow> (\<exists>s2. netem_dequeue h env ops (s'\<lparr>ns_clock := k\<rparr>) = Some (Some (np_skb pa), s2) \<and>
          nq_head (ns_q s2) = b \<and> ns_pkts s2 b = None \<and> netem_dequeue h env ops s2 = None)))"
proof -
  note seg = assms(5) [unfolded two_segments_def]
  have tail: "nq_tail (ns_q s) = 0 \<or> nq_tail (ns_q s) \<notin> {skb, a, b} \<and> (\<exists>u. time_of s (nq_tail (ns_q s)) = Some u \<and> u \<le> T)"
    by (rule tail_planned [OF assms(3,6,12)])
  obtain s' tf p' cor where s': "netem_enqueue h env skb s to_free = Some (NET_XMIT_SUCCESS, s', tf)"
    "ns_pkts s' a = Some p'" "np_next p' = b" "np_time_to_send p' = T" "np_skb p' = np_skb pa" "ns_pkts s' b = None"
    "q_qlen (ns_st s') = ns_limit s" "ns_queue s' = ns_queue s" "ns_nodes s' = ns_nodes s"
    "ns_q s' = (ns_q s)\<lparr>nq_corrupt_cor := cor, nq_counter := nq_counter (ns_q s) + 1,
      nq_head := (if nq_tail (ns_q s) = 0 then a else nq_head (ns_q s)), nq_tail := a\<rparr>"
    using enqueue_dangles [OF assms(1,2,4,5,7-11) tail] by blast
  have last: "nq_tail (ns_q s') = a" using s'(10) by simp
  have "\<exists>s2. netem_dequeue h env ops (s'\<lparr>ns_clock := k\<rparr>) = Some (Some (np_skb pa), s2) \<and>
      nq_head (ns_q s2) = b \<and> ns_pkts s2 b = None \<and> netem_dequeue h env ops s2 = None"
    if lib: "rb_library (ne_rb env)" and plain: "plain_netem s" and "t = Leaf" "xs = []" and k: "T \<le> ktime_get_ns env k" for k
  proof -
    have e: "nq_tail (ns_q s) = 0" "nq_root (ns_q s) = 0" using assms(3) that(3,4) by (simp_all add: tfifo_ok_def tree_ok_def rb_repr_mem last_or_null_def)
    let ?s = "s'\<lparr>ns_clock := k\<rparr>"
    have 1: "netem_env_ok env" "plain_netem ?s" "nq_root (ns_q ?s) = 0" "nq_head (ns_q ?s) = a" "ns_pkts ?s a = Some p'"
      "a \<noteq> 0" "b \<noteq> 0" "ns_pkts ?s b = None" "np_time_to_send p' \<le> ktime_get_ns env (ns_clock ?s)"
      using assms(1) plain e s' k seg by (simp_all add: corrupt_env_ok_def plain_netem_def)
    from dangling_dequeue [OF lib 1(1) assms(2) 1(2-5) s'(3) 1(6-9), of ops] show ?thesis unfolding s'(5) by blast
  qed
  moreover have "\<not> tfifo_ok s' t' xs'" for t' xs' using dangling_not_ok [OF last _ s'(2)] s'(3) seg by simp
  ultimately show ?thesis using s'(1-3,6,7) last by blast
qed

text \<open>The witness: an empty emulator with room for one packet.\<close>

theorem netem_corrupt_dangling_witness:
  "\<exists>s1 tf s2. netem_enqueue list_hdr demo_gso_env 24 demo_corrupt [] = Some (NET_XMIT_SUCCESS, s1, tf) \<and>
     netem_dequeue list_hdr demo_gso_env (fifo_ops list_hdr) (s1\<lparr>ns_clock := 1\<rparr>) = Some (Some (demo_skb 4), s2) \<and>
     nq_head (ns_q s2) = 40 \<and> ns_pkts s2 40 = None \<and> netem_dequeue list_hdr demo_gso_env (fifo_ops list_hdr) s2 = None"
proof -
  have env: "corrupt_env_ok demo_gso_env" by (simp add: corrupt_env_ok_def netem_env_ok_def demo_gso_env_def demo_netem_env_def)
  have ok: "tfifo_ok demo_corrupt Leaf []"
    by (simp add: tfifo_ok_def demo_corrupt_def demo_netem_def demo_netem_q_def tree_ok_def rb_repr_mem wf_addrs_def rb_tree_def last_or_null_def)
  have q: "always_corrupt (ns_q demo_corrupt)" by (simp add: always_corrupt_def demo_corrupt_def demo_netem_q_def)
  have seg: "two_segments demo_gso_env 24 32 (demo_pkt 4 0 40) 40 (demo_pkt 5 0 0)"
    by (simp add: two_segments_def demo_gso_env_def demo_netem_env_def demo_pkt_def demo_skb_def)
  have p: "{24, 32, 40} \<inter> set (inorder Leaf @ []) = {}" "ns_pkts demo_corrupt 24 = Some (demo_pkt 3 0 0)"
    "skb_is_gso (ne_gso demo_gso_env) (np_skb (demo_pkt 3 0 0))" "q_qlen (ns_st demo_corrupt) + 1 = ns_limit demo_corrupt" "ns_limit demo_corrupt \<noteq> 0"
    "\<forall>u \<in> planned demo_corrupt Leaf []. u \<le> T" for T
    by (simp_all add: demo_corrupt_def demo_gso_env_def demo_pkt_def demo_skb_def qdisc_stats_zero_def)
  have r: "rb_library (ne_rb demo_gso_env) \<and> plain_netem demo_corrupt \<and> Leaf = Leaf \<and> ([] :: addr list) = []"
    using rbtree.rb_library_axioms
    by (simp add: demo_gso_env_def demo_netem_env_def plain_netem_def demo_corrupt_def demo_netem_def demo_netem_q_def)
  have k: "ktime_get_ns demo_gso_env (ns_clock demo_corrupt) + nq_latency (ns_q demo_corrupt) \<le> ktime_get_ns demo_gso_env 1"
    by (simp add: demo_gso_env_def demo_corrupt_def demo_netem_def demo_netem_q_def)
  have s: "np_skb (demo_pkt 4 0 40) = demo_skb 4" by (simp add: demo_pkt_def)
  from netem_corrupt_dangling [OF env list_hdr_stat_ok ok q seg p(1-5) refl p(6), of "[]" "fifo_ops list_hdr"] r k
  show ?thesis unfolding s by blast
qed

section \<open>Configuration\<close>

text \<open>
  C18. A change of the configuration that fails leaves the emulator as it was, up to the parameters of the loss model and the table of
  delays: rates, delays, limits, probabilities, the choice of the loss model and the queue are untouched, and at most one
  of the two has changed.
\<close>

theorem netem_change_error:
  assumes "netem_change h env cenv opt s = (ret, s')" "ret \<noteq> 0"
  shows "s' = s\<lparr>ns_q := (ns_q s)\<lparr>nq_clg := nq_clg (ns_q s'), nq_delay_dist := nq_delay_dist (ns_q s')\<rparr>\<rparr> \<and>
    (nq_clg (ns_q s') = nq_clg (ns_q s) \<or> nq_delay_dist (ns_q s') = nq_delay_dist (ns_q s))"
proof (cases opt)
  case None
  then show ?thesis using assms by (auto simp: netem_change_def)
next
  case (Some d)
  show ?thesis
  proof (cases "parse_attr cenv 13 d netem_policy 24")
    case (Inl err)
    then show ?thesis using assms Some by (auto simp: netem_change_def)
  next
    case (Inr tb)
    obtain r q where r: "netem_change_tables cenv tb (ns_q s) = (r, q)" by force
    then have "r \<noteq> 0" "s' = s\<lparr>ns_q := q\<rparr>" using assms Some Inr by (auto simp: netem_change_def Let_def split: if_splits)
    moreover from r this(1) have
      "q = (ns_q s)\<lparr>nq_clg := nq_clg q, nq_delay_dist := nq_delay_dist q\<rparr> \<and>
       (nq_clg q = nq_clg (ns_q s) \<or> nq_delay_dist q = nq_delay_dist (ns_q s))"
      by (auto simp: netem_change_tables_def Let_def split: prod.splits if_splits option.splits sum.splits)
    ultimately show ?thesis by simp
  qed
qed

text \<open>A loss model of the second kind, followed by one that is too short.\<close>

definition demo_loss_env :: netem_change_env where
  "demo_loss_env = \<lparr>nla_parse = (\<lambda>_ _ _. Inr [TCA_NETEM_LOSS \<mapsto> []]),
     nla_nested = (\<lambda>_. [(NETEM_LOSS_GE, words_bytes [1, 2, 3, 4]), (NETEM_LOSS_GI, [])]), delay_kvmalloc = True, slot_kvmalloc = True\<rparr>"

definition demo_loss_request :: "u8 list" where
  "demo_loss_request = replicate 28 0"

lemma demo_loss_change:
  "netem_change list_hdr demo_netem_env demo_loss_env (Some demo_loss_request) demo_netem =
     (- 22, demo_netem\<lparr>ns_q := demo_netem_q\<lparr>nq_clg := \<lparr>clg_state = GOOD_STATE, clg_a1 = 1, clg_a2 = 2, clg_a3 = 3, clg_a4 = 4, clg_a5 = 0\<rparr>\<rparr>\<rparr>)"
proof -
  have "length (words_bytes [1, 2, 3, 4]) = 16" "word_at (words_bytes [1, 2, 3, 4]) 0 = 1" "word_at (words_bytes [1, 2, 3, 4]) 1 = 2"
    "word_at (words_bytes [1, 2, 3, 4]) 2 = 3" "word_at (words_bytes [1, 2, 3, 4]) 3 = 4"
    by code_simp+
  then show ?thesis
    by (simp add: netem_change_def parse_attr_def demo_loss_env_def demo_loss_request_def netem_change_tables_def demo_netem_def demo_netem_q_def)
qed

theorem netem_change_error_witness:
  "\<exists>s'. netem_change list_hdr demo_netem_env demo_loss_env (Some demo_loss_request) demo_netem = (- 22, s') \<and>
     nq_delay_dist (ns_q s') = None \<and> nq_rate (ns_q s') = nq_rate (ns_q demo_netem) \<and> ns_pkts s' = ns_pkts demo_netem"
proof -
  obtain s' where s': "netem_change list_hdr demo_netem_env demo_loss_env (Some demo_loss_request) demo_netem = (- 22, s')"
    "nq_delay_dist (ns_q s') = None" using demo_loss_change by (auto simp: demo_netem_q_def)
  define clg dist where "clg = nq_clg (ns_q s')" and "dist = nq_delay_dist (ns_q s')"
  have "s' = demo_netem\<lparr>ns_q := (ns_q demo_netem)\<lparr>nq_clg := clg, nq_delay_dist := dist\<rparr>\<rparr>"
    using netem_change_error [OF s'(1)] unfolding clg_def dist_def by simp
  then have "nq_rate (ns_q s') = nq_rate (ns_q demo_netem)" "ns_pkts s' = ns_pkts demo_netem" by simp_all
  with s' show ?thesis by blast
qed

text \<open>The parameters of the loss model are not restored when its attributes are rejected.\<close>

lemma netem_change_keeps_clg:
  "\<exists>s'. netem_change list_hdr demo_netem_env demo_loss_env (Some demo_loss_request) demo_netem = (- 22, s') \<and>
     nq_loss_model (ns_q s') = nq_loss_model (ns_q demo_netem) \<and> nq_clg (ns_q s') \<noteq> nq_clg (ns_q demo_netem)"
  unfolding demo_loss_change by (simp add: demo_netem_def demo_netem_q_def)

end
