(* ===== verification/Tc_Util.thy ===== *)
theory Tc_Util
  imports Rtnl Tc_Core
begin

text \<open>
  The text functions of traffic control, \<^verbatim>\<open>tbf/tc_util.c\<close>: class identifiers, rates, actions and link layers, with the number
  parser and the abbreviations of \<^verbatim>\<open>iproute2-master/lib/utils.c\<close> they call. Strings end where the list ends. A result that is written through a pointer is
  returned; \<open>None\<close> is the error value -1. In the functions that read the argument list, \<open>Exits\<close> is the exit in \<^verbatim>\<open>NEXT_ARG\<close> and
  \<open>Undefined\<close> a read past the arguments or a number that \<^verbatim>\<open>sscanf\<close> cannot store.
\<close>

section \<open>Numbers in text\<close>

fun digit_val :: "char \<Rightarrow> nat option" where
  "digit_val c =
     (let n = of_char c :: nat
      in if 48 \<le> n \<and> n \<le> 57 then Some (n - 48)
         else if 97 \<le> n \<and> n \<le> 122 then Some (n - 87)
         else if 65 \<le> n \<and> n \<le> 90 then Some (n - 55)
         else None)"

definition is_digit :: "nat \<Rightarrow> char \<Rightarrow> bool" where
  "is_digit base c = (case digit_val c of None \<Rightarrow> False | Some d \<Rightarrow> d < base)"

definition is_space :: "char \<Rightarrow> bool" where
  "is_space c \<longleftrightarrow> (let n = of_char c :: nat in n = 32 \<or> 9 \<le> n \<and> n \<le> 13)"

fun read_digits :: "nat \<Rightarrow> nat \<Rightarrow> string \<Rightarrow> nat \<times> string" where
  "read_digits base acc [] = (acc, [])"
| "read_digits base acc (c # cs) =
     (if is_digit base c then read_digits base (base * acc + the (digit_val c)) cs else (acc, c # cs))"

definition read_sign :: "string \<Rightarrow> bool \<times> string" where
  "read_sign s = (case s of [] \<Rightarrow> (False, []) | c # cs \<Rightarrow> if c = CHR ''-'' then (True, cs) else if c = CHR ''+'' then (False, cs) else (False, s))"

text \<open>The base is 0, 10 or 16. A hexadecimal prefix counts only when a digit follows; base 0 takes the base from the prefix.\<close>

fun read_base :: "nat \<Rightarrow> string \<Rightarrow> nat \<times> string" where
  "read_base base (z # x # c # cs) =
     (if (base = 16 \<or> base = 0) \<and> z = CHR ''0'' \<and> (x = CHR ''x'' \<or> x = CHR ''X'') \<and> is_digit 16 c then (16, c # cs)
      else (if base = 0 then if z = CHR ''0'' then 8 else 10 else base, z # x # c # cs))"
| "read_base base s = (if base = 0 then if s \<noteq> [] \<and> hd s = CHR ''0'' then 8 else 10 else base, s)"

text \<open>What the C library reads: white space, a sign, a prefix and digits; \<open>None\<close> if there is no digit.\<close>

definition read_number :: "nat \<Rightarrow> string \<Rightarrow> (bool \<times> nat \<times> string) option" where
  "read_number base s =
     (let (neg, s) = read_sign (dropWhile is_space s); (base, s) = read_base base s
      in case s of
           [] \<Rightarrow> None
         | c # cs \<Rightarrow> if is_digit base c then (let (n, rest) = read_digits base 0 s in Some (neg, n, rest)) else None)"

definition strtoul :: "nat \<Rightarrow> string \<Rightarrow> u64 \<times> string" where
  "strtoul base s =
     (case read_number base s of
        None \<Rightarrow> (0, s)
      | Some (neg, n, rest) \<Rightarrow> (if 2 ^ 64 \<le> n then -1 else if neg then - of_nat n else of_nat n, rest))"

text \<open>
  The parser of \<^verbatim>\<open>utils.c\<close>. The value of \<^verbatim>\<open>errno\<close> does not matter: the limit of the C type that it qualifies lies outside the range
  that is accepted afterwards.
\<close>

definition get_u32 :: "string \<Rightarrow> nat \<Rightarrow> u32 option" where
  "get_u32 arg base =
     (if arg = [] then None
      else let (res, ptr) = strtoul base arg
           in if ptr = arg \<or> ptr \<noteq> [] then None
              else if 0xFFFFFFFF < res then None
              else Some (ucast res))"

text \<open>Zero when the argument abbreviates the pattern.\<close>

definition matches :: "string \<Rightarrow> string \<Rightarrow> bool" where
  "matches cmd pattern \<longleftrightarrow> length cmd \<le> length pattern \<and> take (length cmd) pattern = cmd"

text \<open>\<^verbatim>\<open>%x\<close>, \<^verbatim>\<open>%u\<close> and \<^verbatim>\<open>%d\<close>, and the cut of \<^verbatim>\<open>snprintf\<close>.\<close>

definition digit_char :: "nat \<Rightarrow> char" where
  "digit_char d = char_of (if d < 10 then 48 + d else 87 + d)"

fun print_base :: "nat \<Rightarrow> nat \<Rightarrow> string" where
  "print_base base n = (if n < base \<or> base < 2 then [digit_char n] else print_base base (n div base) @ [digit_char (n mod base)])"

declare print_base.simps [simp del]

definition print_int :: "int \<Rightarrow> string" where
  "print_int i = (if i < 0 then CHR ''-'' # print_base 10 (nat (- i)) else print_base 10 (nat i))"

definition snprintf :: "nat \<Rightarrow> string \<Rightarrow> string" where
  "snprintf len s = take (len - 1) s"

abbreviation (input) SPRINT_BSIZE :: nat where "SPRINT_BSIZE \<equiv> 64"

section \<open>Class identifiers\<close>

abbreviation (input) TC_H_UNSPEC :: u32 where "TC_H_UNSPEC \<equiv> 0"
abbreviation (input) H_ROOT :: u32 where "H_ROOT \<equiv> 0xFFFFFFFF"
abbreviation (input) TC_H_MAJ :: "u32 \<Rightarrow> u32" where "TC_H_MAJ h \<equiv> h AND 0xFFFF0000"
abbreviation (input) TC_H_MIN :: "u32 \<Rightarrow> u32" where "TC_H_MIN h \<equiv> h AND 0xFFFF"

text \<open>The 64-bit result of \<^verbatim>\<open>strtoul\<close> is stored in 32 bits before it is tested.\<close>

definition get_qdisc_handle :: "string \<Rightarrow> u32 option" where
  "get_qdisc_handle str =
     (if str = ''none'' then Some TC_H_UNSPEC
      else let (v, p) = strtoul 16 str; maj = ucast v :: u32
           in if p = str \<or> 2 ^ 16 \<le> maj then None
              else if p \<noteq> [] \<and> hd p \<noteq> CHR '':'' then None
              else Some (push_bit 16 maj))"

definition get_tc_classid :: "string \<Rightarrow> u32 option" where
  "get_tc_classid str =
     (if str = ''root'' then Some H_ROOT
      else if str = ''none'' then Some TC_H_UNSPEC
      else let (v, p) = strtoul 16 str; maj = ucast v :: u32
           in if p = str \<and> (p = [] \<or> hd p \<noteq> CHR '':'') then None
              else let maj = (if p = str then 0 else maj)
              in case p of
                   [] \<Rightarrow> Some maj
                 | c # str \<Rightarrow>
                     if c \<noteq> CHR '':'' then None
                     else if 2 ^ 16 \<le> maj then None
                     else let (v, p) = strtoul 16 str; min = ucast v :: u32
                          in if p \<noteq> [] then None
                             else if 2 ^ 16 \<le> min then None
                             else Some (push_bit 16 maj OR min))"

text \<open>\<open>names\<close> is the table of class names, \<open>None\<close> unless names are asked for.\<close>

definition print_tc_classid :: "(u32 \<Rightarrow> string option) option \<Rightarrow> nat \<Rightarrow> u32 \<Rightarrow> string" where
  "print_tc_classid names blen h =
     (let hlen = SPRINT_BSIZE - 1;
          handle = (if h = H_ROOT then ''root''
                    else if h = TC_H_UNSPEC then snprintf hlen ''none''
                    else if TC_H_MAJ h = 0 then snprintf hlen ('':'' @ print_base 16 (unat (TC_H_MIN h)))
                    else if TC_H_MIN h = 0 then snprintf hlen (print_base 16 (unat (drop_bit 16 (TC_H_MAJ h))) @ '':'')
                    else snprintf hlen (print_base 16 (unat (drop_bit 16 (TC_H_MAJ h))) @ '':'' @ print_base 16 (unat (TC_H_MIN h))))
      in case names of
           None \<Rightarrow> snprintf blen handle
         | Some id_to_name \<Rightarrow>
             (case id_to_name h of None \<Rightarrow> snprintf blen handle | Some clname \<Rightarrow> snprintf blen (clname @ ''#'' @ handle)))"

definition sprint_tc_classid :: "(u32 \<Rightarrow> string option) option \<Rightarrow> u32 \<Rightarrow> string" where
  "sprint_tc_classid names h = print_tc_classid names (SPRINT_BSIZE - 1) h"

section \<open>Rates\<close>

text \<open>The loop over the units: the index of the unit and the number in it.\<close>

fun rate_unit :: "u64 \<Rightarrow> nat \<Rightarrow> nat \<Rightarrow> u64 \<Rightarrow> nat \<times> u64" where
  "rate_unit kilo 0 i rate = (i, rate)"
| "rate_unit kilo (Suc n) i rate =
     (if rate < kilo then (i, rate)
      else if rate mod kilo \<noteq> 0 \<and> rate < 1000 * kilo then (i, rate)
      else rate_unit kilo n (Suc i) (rate div kilo))"

definition rate_units :: "string list" where
  "rate_units = [[], ''K'', ''M'', ''G'', ''T'']"

text \<open>The number is printed as a double without decimals; \<open>rnd\<close> rounds to doubles.\<close>

definition print_rate :: "(rat \<Rightarrow> rat) \<Rightarrow> bool \<Rightarrow> nat \<Rightarrow> u64 \<Rightarrow> string" where
  "print_rate rnd use_iec len rate =
     (let kilo = (if use_iec then 1024 else 1000); str = (if use_iec then ''i'' else '''');
          (i, rate) = rate_unit kilo (length rate_units - 1) 0 (push_bit 3 rate)
      in snprintf len (print_base 10 (nat \<lfloor>rnd (of_nat (unat rate))\<rfloor>) @ rate_units ! i @ str @ ''bit''))"

definition sprint_rate :: "(rat \<Rightarrow> rat) \<Rightarrow> bool \<Rightarrow> u64 \<Rightarrow> string" where
  "sprint_rate rnd use_iec rate = print_rate rnd use_iec (SPRINT_BSIZE - 1) rate"

section \<open>Link layers\<close>

definition get_linklayer :: "string \<Rightarrow> u32 option" where
  "get_linklayer arg =
     (if matches arg ''ethernet'' then Some 1
      else if matches arg ''atm'' then Some 2
      else if matches arg ''adsl'' then Some 2
      else None)"

definition print_linklayer :: "nat \<Rightarrow> u32 \<Rightarrow> string" where
  "print_linklayer len linklayer =
     snprintf len (if linklayer = 0 then ''unspec'' else if linklayer = 1 then ''ethernet''
                   else if linklayer = 2 then ''atm'' else ''unknown'')"

definition sprint_linklayer :: "u32 \<Rightarrow> string" where
  "sprint_linklayer linklayer = print_linklayer (SPRINT_BSIZE - 1) linklayer"

section \<open>Actions\<close>

text \<open>Actions are signed 32-bit numbers; the upper four bits of the extended ones are an opcode.\<close>

abbreviation (input) TC_ACT_UNSPEC :: u32 where "TC_ACT_UNSPEC \<equiv> -1"
abbreviation (input) TC_ACT_STOLEN :: u32 where "TC_ACT_STOLEN \<equiv> 4"
abbreviation (input) TC_ACT_EXT_VAL_MASK :: u32 where "TC_ACT_EXT_VAL_MASK \<equiv> 0x0FFFFFFF"
abbreviation (input) TC_ACT_JUMP :: u32 where "TC_ACT_JUMP \<equiv> 0x10000000"
abbreviation (input) TC_ACT_GOTO_CHAIN :: u32 where "TC_ACT_GOTO_CHAIN \<equiv> 0x20000000"

definition TC_ACT_EXT_CMP :: "u32 \<Rightarrow> u32 \<Rightarrow> bool" where
  "TC_ACT_EXT_CMP combined opcode \<longleftrightarrow> combined AND NOT TC_ACT_EXT_VAL_MASK = opcode"

definition action_n2a :: "u32 \<Rightarrow> string" where
  "action_n2a action =
     (if TC_ACT_EXT_CMP action TC_ACT_GOTO_CHAIN then ''goto''
      else if TC_ACT_EXT_CMP action TC_ACT_JUMP then ''jump''
      else if action = TC_ACT_UNSPEC then ''continue''
      else if action = 0 then ''pass''
      else if action = 2 then ''drop''
      else if action = 1 then ''reclassify''
      else if action = 3 then ''pipe''
      else if action = TC_ACT_STOLEN then ''stolen''
      else if action = 8 then ''trap''
      else snprintf 64 (print_int (sint action)))"

definition a2n :: "(string \<times> u32) list" where
  "a2n = [(''continue'', TC_ACT_UNSPEC), (''drop'', 2), (''shot'', 2), (''pass'', 0), (''ok'', 0), (''reclassify'', 1),
     (''pipe'', 3), (''goto'', TC_ACT_GOTO_CHAIN), (''jump'', TC_ACT_JUMP), (''trap'', 8)]"

text \<open>\<^verbatim>\<open>sscanf(arg, "%d%c", &n, &dummy) == 1\<close>: a decimal number and nothing behind it.\<close>

definition sscanf_int :: "string \<Rightarrow> u32 option outcome" where
  "sscanf_int arg =
     (case read_number 10 arg of
        None \<Rightarrow> Returns None
      | Some (neg, n, rest) \<Rightarrow>
          let i = (if neg then - int n else int n)
          in if i < - (2 ^ 31) \<or> 2 ^ 31 \<le> i then Undefined
             else Returns (if rest = [] then Some (of_int i) else None))"

definition action_a2n :: "string \<Rightarrow> bool \<Rightarrow> u32 option outcome" where
  "action_a2n arg allow_num =
     (case find (\<lambda>(a, n). matches arg a) a2n of
        Some (a, n) \<Rightarrow> Returns (Some n)
      | None \<Rightarrow> if allow_num then sscanf_int arg else Returns None)"

text \<open>The next argument; \<^verbatim>\<open>incomplete_command\<close> ends the program.\<close>

fun next_arg :: "string list \<Rightarrow> string list outcome" where
  "next_arg (a # b # argv) = Returns (b # argv)"
| "next_arg argv = Exits (-1)"

text \<open>The number behind an extended action, which is added to it.\<close>

definition action_value :: "u32 \<Rightarrow> string list \<Rightarrow> (u32 \<times> string list) option" where
  "action_value result argv =
     (case get_u32 (hd argv) 10 of
        None \<Rightarrow> None
      | Some v \<Rightarrow> if TC_ACT_EXT_VAL_MASK < v then None else Some (result OR v, tl argv))"

text \<open>The action and the arguments behind it.\<close>

definition parse_action_control :: "string list \<Rightarrow> bool \<Rightarrow> (u32 \<times> string list) option outcome" where
  "parse_action_control argv allow_num =
     (case argv of
        [] \<Rightarrow> Returns None
      | arg # rest \<Rightarrow>
          (case action_a2n arg allow_num of
             Exits e \<Rightarrow> Exits e | Blocks \<Rightarrow> Blocks | Undefined \<Rightarrow> Undefined
           | Returns None \<Rightarrow> Returns None
           | Returns (Some result) \<Rightarrow>
               if result = TC_ACT_GOTO_CHAIN then
                 (case next_arg argv of
                    Exits e \<Rightarrow> Exits e | Blocks \<Rightarrow> Blocks | Undefined \<Rightarrow> Undefined
                  | Returns argv \<Rightarrow>
                      if \<not> matches (hd argv) ''chain'' then Returns None
                      else
                        (case next_arg argv of
                           Exits e \<Rightarrow> Exits e | Blocks \<Rightarrow> Blocks | Undefined \<Rightarrow> Undefined
                         | Returns argv \<Rightarrow> Returns (action_value result argv)))
               else if result = TC_ACT_JUMP then
                 (case next_arg argv of
                    Exits e \<Rightarrow> Exits e | Blocks \<Rightarrow> Blocks | Undefined \<Rightarrow> Undefined
                  | Returns argv \<Rightarrow> Returns (action_value result argv))
               else Returns (Some (result, rest))))"

definition parse_action_control_dflt :: "string list \<Rightarrow> bool \<Rightarrow> u32 \<Rightarrow> (u32 \<times> string list) outcome" where
  "parse_action_control_dflt argv allow_num default_result =
     (case parse_action_control argv allow_num of
        Exits e \<Rightarrow> Exits e | Blocks \<Rightarrow> Blocks | Undefined \<Rightarrow> Undefined
      | Returns None \<Rightarrow> Returns (default_result, argv)
      | Returns (Some r) \<Rightarrow> Returns r)"

text \<open>
  The loop of \<^verbatim>\<open>parse_action_control_slash_spaces\<close>: \<open>ok\<close> counts the actions read. The result has the second action only if there were
  exactly two.
\<close>

function slash_loop :: "bool \<Rightarrow> nat \<Rightarrow> u32 \<Rightarrow> u32 option \<Rightarrow> string list \<Rightarrow> (u32 \<times> u32 option \<times> string list) option outcome" where
  "slash_loop allow_num ok result1 result2 argv =
     (let out = Returns (Some (result1, if ok = 2 then result2 else None, argv)) in
      if argv = [] \<or> 3 \<le> ok \<or> ok = 1 \<and> hd argv \<noteq> ''/'' then out
      else
        (case (if ok = 1 then next_arg argv else Returns argv) of
           Exits e \<Rightarrow> Exits e | Blocks \<Rightarrow> Blocks | Undefined \<Rightarrow> Undefined
         | Returns argv \<Rightarrow>
             (case parse_action_control argv allow_num of
                Exits e \<Rightarrow> Exits e | Blocks \<Rightarrow> Blocks | Undefined \<Rightarrow> Undefined
              | Returns None \<Rightarrow> Returns None
              | Returns (Some (v, argv)) \<Rightarrow>
                  if ok = 0 then slash_loop allow_num (Suc ok) v result2 argv
                  else slash_loop allow_num (Suc ok) result1 (Some v) argv)))"
  by pat_completeness auto
termination by (relation "measure (\<lambda>(allow_num, ok, result1, result2, argv). 3 - ok)") auto

declare slash_loop.simps [simp del]

definition parse_action_control_slash :: "string list \<Rightarrow> bool \<Rightarrow> (u32 \<times> u32 option \<times> string list) option outcome" where
  "parse_action_control_slash argv allow_num =
     (case argv of
        [] \<Rightarrow> Undefined
      | arg # rest \<Rightarrow>
          if CHR ''/'' \<notin> set arg then slash_loop allow_num 0 (-1) None argv
          else
            (case action_a2n (takeWhile (\<lambda>c. c \<noteq> CHR ''/'') arg) allow_num of
               Exits e \<Rightarrow> Exits e | Blocks \<Rightarrow> Blocks | Undefined \<Rightarrow> Undefined
             | Returns None \<Rightarrow> Returns None
             | Returns (Some result1) \<Rightarrow>
                 (case action_a2n (tl (dropWhile (\<lambda>c. c \<noteq> CHR ''/'') arg)) allow_num of
                    Exits e \<Rightarrow> Exits e | Blocks \<Rightarrow> Blocks | Undefined \<Rightarrow> Undefined
                  | Returns None \<Rightarrow> Returns None
                  | Returns (Some result2) \<Rightarrow> Returns (Some (result1, Some result2, rest)))))"

text \<open>What \<^verbatim>\<open>print_action_control\<close> writes as text.\<close>

definition print_action_control :: "string \<Rightarrow> u32 \<Rightarrow> string \<Rightarrow> string" where
  "print_action_control prefix action suffix =
     prefix @ action_n2a action @
     (if TC_ACT_EXT_CMP action TC_ACT_GOTO_CHAIN then '' chain '' @ print_base 10 (unat (action AND TC_ACT_EXT_VAL_MASK)) else []) @
     (if TC_ACT_EXT_CMP action TC_ACT_JUMP then '' '' @ print_base 10 (unat (action AND TC_ACT_EXT_VAL_MASK)) else []) @ suffix"

end
