(* ===== verification/Tc_Util_Properties.thy ===== *)
theory Tc_Util_Properties
  imports Tc_Util Netlink_Attrs
begin

text \<open>
  The text functions of traffic control: what is printed is read back, for class identifiers and for actions, and how exact a printed
  rate is. The lemmas on digits are shared by the round trips.
\<close>

section \<open>Printed numbers are read back\<close>

lemma of_digit_char: "d < 16 \<Longrightarrow> (of_char (digit_char d) :: nat) = (if d < 10 then 48 + d else 87 + d)"
  by (simp add: digit_char_def)

lemma digit_char_neq:
  "d < 16 \<Longrightarrow> (of_char c :: nat) < 48 \<or> (of_char c :: nat) = 58 \<or> (of_char c :: nat) = 88 \<or> (of_char c :: nat) = 120 \<Longrightarrow> digit_char d \<noteq> c"
  using of_digit_char [of d] by (auto split: if_splits)

lemma digit_char_simps:
  assumes "d < 16"
  shows "digit_val (digit_char d) = Some d" "\<not> is_space (digit_char d)" "digit_char d \<noteq> CHR ''-''" "digit_char d \<noteq> CHR ''+''"
    "digit_char d \<noteq> CHR '':''" "digit_char d \<noteq> CHR ''x''" "digit_char d \<noteq> CHR ''X''"
proof -
  show "digit_val (digit_char d) = Some d" "\<not> is_space (digit_char d)"
    using assms by (simp_all add: of_digit_char is_space_def)
qed (rule digit_char_neq [OF assms]; simp)+

abbreviation value_of :: "nat \<Rightarrow> nat \<Rightarrow> nat list \<Rightarrow> nat" where
  "value_of base \<equiv> foldl (\<lambda>a d. base * a + d)"

lemma print_base_small: "n < base \<Longrightarrow> print_base base n = [digit_char n]"
  by (subst print_base.simps) simp

lemma print_base_step: "\<not> n < base \<Longrightarrow> 2 \<le> base \<Longrightarrow> print_base base n = print_base base (n div base) @ [digit_char (n mod base)]"
  by (subst print_base.simps) simp

lemma print_base_nonempty [simp]: "print_base base n \<noteq> []"
  by (subst print_base.simps) simp

definition prints :: "nat \<Rightarrow> nat \<Rightarrow> nat list \<Rightarrow> bool" where
  "prints base n ds \<longleftrightarrow> print_base base n = map digit_char ds \<and> ds \<noteq> [] \<and> (\<forall>d \<in> set ds. d < base) \<and> value_of base 0 ds = n"

lemma print_base_digits: "2 \<le> base \<Longrightarrow> \<exists>ds. prints base n ds"
proof (induction n rule: less_induct)
  case (less n)
  show ?case
  proof (cases "n < base")
    case True
    then have "prints base n [n]" by (simp add: prints_def print_base_small)
    then show ?thesis ..
  next
    case False
    then have "n div base < n" using less(2) by (intro div_less_dividend) simp_all
    then obtain ds where ds: "prints base (n div base) ds" using less by blast
    have "n mod base < base" using less(2) by simp
    moreover have "base * (n div base) + n mod base = n" by (rule mult_div_mod_eq)
    ultimately have "prints base n (ds @ [n mod base])" using ds print_base_step [OF False less(2)] unfolding prints_def by auto
    then show ?thesis ..
  qed
qed

lemma length_print_base: "n < base ^ k \<Longrightarrow> 0 < k \<Longrightarrow> 2 \<le> base \<Longrightarrow> length (print_base base n) \<le> k"
proof (induction k arbitrary: n)
  case (Suc k)
  show ?case
  proof (cases "n < base")
    case True
    then show ?thesis by (simp add: print_base_small)
  next
    case False
    then have "0 < k" using Suc.prems(1) by (cases k) auto
    moreover have "n div base < base ^ k" using Suc.prems(1,3) by (simp add: less_mult_imp_div_less mult.commute)
    ultimately have "length (print_base base (n div base)) \<le> k" using Suc by blast
    with print_base_step [OF False Suc.prems(3)] show ?thesis by simp
  qed
qed simp

lemma read_digits_print:
  assumes "\<forall>d \<in> set ds. d < base" "base \<le> 16" "rest = [] \<or> \<not> is_digit base (hd rest)"
  shows "read_digits base acc (map digit_char ds @ rest) = (value_of base acc ds, rest)"
  using assms
proof (induction ds arbitrary: acc)
  case Nil
  then show ?case by (cases rest) simp_all
next
  case (Cons d ds)
  then show ?case by (simp add: is_digit_def digit_char_simps(1) del: digit_val.simps)
qed

lemma read_base_plain: "base \<noteq> 0 \<Longrightarrow> base \<noteq> 16 \<or> length s < 2 \<or> s ! 1 \<noteq> CHR ''x'' \<and> s ! 1 \<noteq> CHR ''X'' \<Longrightarrow> read_base base s = (base, s)"
  by (cases "(base, s)" rule: read_base.cases) auto

lemma print_parts:
  assumes b: "2 \<le> base" "base \<le> 16" and r: "rest = [] \<or> hd rest = CHR '':''"
  obtains d cs where "print_base base n @ rest = digit_char d # cs" "d < 16" "is_digit base (digit_char d)"
    "read_base base (digit_char d # cs) = (base, digit_char d # cs)" "read_digits base 0 (digit_char d # cs) = (n, rest)"
proof -
  obtain ds where ds: "print_base base n = map digit_char ds" "ds \<noteq> []" "\<forall>d \<in> set ds. d < base" "value_of base 0 ds = n"
    using print_base_digits [OF b(1), of n] unfolding prints_def by blast
  obtain d es where d: "ds = d # es" "d < 16" using ds(2,3) b(2) by (cases ds) auto
  let ?s = "map digit_char ds @ rest"
  have colon: "\<not> is_digit base CHR '':''" by (simp add: is_digit_def)
  have rest: "rest = [] \<or> \<not> is_digit base (hd rest)" using r colon by metis
  have "read_base base ?s = (base, ?s)"
  proof (rule read_base_plain)
    have "?s ! 1 \<noteq> CHR ''x'' \<and> ?s ! 1 \<noteq> CHR ''X''" if "2 \<le> length ?s"
    proof (cases es)
      case Nil
      then show ?thesis using that d r by (cases rest) auto
    next
      case (Cons e fs)
      then have "e < 16" using d ds(3) b(2) by auto
      then show ?thesis using d Cons digit_char_simps(6,7) by simp
    qed
    then show "base \<noteq> 16 \<or> length ?s < 2 \<or> ?s ! 1 \<noteq> CHR ''x'' \<and> ?s ! 1 \<noteq> CHR ''X''" by linarith
  qed (use b in simp)
  moreover have "is_digit base (digit_char d)" using d ds(3) by (simp add: is_digit_def digit_char_simps(1) del: digit_val.simps)
  moreover have "read_digits base 0 ?s = (n, rest)" using read_digits_print [OF ds(3) b(2) rest, of 0] ds(4) by simp
  ultimately show thesis using that [of d "map digit_char es @ rest"] d ds(1) by simp
qed

lemma read_number_print:
  assumes "2 \<le> base" "base \<le> 16" "rest = [] \<or> hd rest = CHR '':''"
  shows "read_number base (print_base base n @ rest) = Some (False, n, rest)"
    and "read_number base (CHR ''-'' # print_base base n @ rest) = Some (True, n, rest)"
proof -
  obtain d cs where d: "print_base base n @ rest = digit_char d # cs" "d < 16" "is_digit base (digit_char d)"
    "read_base base (digit_char d # cs) = (base, digit_char d # cs)" "read_digits base 0 (digit_char d # cs) = (n, rest)"
    by (rule print_parts [OF assms])
  show "read_number base (print_base base n @ rest) = Some (False, n, rest)" unfolding d(1)
    using d(2-5) digit_char_simps(2-4) by (simp add: read_number_def read_sign_def del: read_digits.simps)
  show "read_number base (CHR ''-'' # print_base base n @ rest) = Some (True, n, rest)" unfolding d(1)
    using d(2-5) by (simp add: read_number_def read_sign_def is_space_def del: read_digits.simps)
qed

lemma strtoul_print:
  assumes "2 \<le> base" "base \<le> 16" "rest = [] \<or> hd rest = CHR '':''" "n < 2 ^ 64"
  shows "strtoul base (print_base base n @ rest) = (of_nat n, rest)"
  using assms(4) by (simp add: strtoul_def read_number_print(1) [OF assms(1-3)])

section \<open>Class identifiers\<close>

text \<open>The two halves of an identifier.\<close>

lemma halves:
  fixes h :: u32
  shows "h AND 0xFFFF = take_bit 16 h" "drop_bit 16 (h AND 0xFFFF0000) = drop_bit 16 h" "h AND 0xFFFF0000 = 0 \<longleftrightarrow> drop_bit 16 h = 0"
    "push_bit 16 (drop_bit 16 h) OR take_bit 16 h = h"
proof -
  show "h AND 0xFFFF = take_bit 16 h" by (simp add: take_bit_eq_mask mask_numeral)
  have hi: "h AND 0xFFFF0000 = push_bit 16 (drop_bit 16 h)"
  proof -
    have "(0xFFFF0000 :: u32) = NOT (mask 16)" by (simp add: mask_numeral)
    moreover have "h AND NOT (mask 16) = push_bit 16 (drop_bit 16 h)" by (rule bit_word_eqI) (auto simp: bit_simps)
    ultimately show ?thesis by (simp only:)
  qed
  show d: "drop_bit 16 (h AND 0xFFFF0000) = drop_bit 16 h" unfolding hi
    by (rule bit_word_eqI) (auto simp: bit_simps dest: bit_imp_le_length)
  then show "h AND 0xFFFF0000 = 0 \<longleftrightarrow> drop_bit 16 h = 0" unfolding hi by (metis drop_bit_of_0 push_bit_of_0)
  show "push_bit 16 (drop_bit 16 h) OR take_bit 16 h = h" by (rule bit_word_eqI) (auto simp: bit_simps)
qed

lemma halves_small: "unat (drop_bit 16 (h :: u32)) < 2 ^ 16" "unat (take_bit 16 h) < 2 ^ 16"
proof -
  have "unat h < 2 ^ 32" using unsigned_less [of h, where ?'a = nat] by simp
  then show "unat (drop_bit 16 h) < 2 ^ 16" by (simp add: drop_bit_eq_div unat_div_distrib less_mult_imp_div_less)
  show "unat (take_bit 16 h) < 2 ^ 16" using take_bit_nat_less_exp [of 16 "unat h"] by (simp add: unsigned_take_bit_eq)
qed

lemma print_half: "unat w < 2 ^ 16 \<Longrightarrow> length (print_base 16 (unat w)) \<le> 4"
  using length_print_base [of "unat w" 16 4] by simp

text \<open>The handle is short enough for the buffers.\<close>

lemma sprint_tc_classid_None:
  "sprint_tc_classid None h =
     (if h = H_ROOT then ''root'' else if h = 0 then ''none''
      else (if drop_bit 16 h = 0 then [] else print_base 16 (unat (drop_bit 16 h))) @ '':'' @
           (if take_bit 16 h = 0 then [] else print_base 16 (unat (take_bit 16 h))))"
proof -
  have s: "length (print_base 16 (unat (drop_bit 16 h))) \<le> 4" "length (print_base 16 (unat (take_bit 16 h))) \<le> 4"
    by (rule print_half, rule halves_small)+
  have "take_bit 16 h \<noteq> 0" if "drop_bit 16 h = 0" "h \<noteq> 0" using halves(4) [of h] that by auto
  moreover have "take_bit 16 (drop_bit 16 h) = drop_bit 16 h"
    by (rule bit_word_eqI) (auto simp: bit_simps dest: bit_imp_le_length)
  ultimately show ?thesis using s by (auto simp: sprint_tc_classid_def print_tc_classid_def snprintf_def halves Let_def)
qed

lemma strtoul_colon: "strtoul 16 (CHR '':'' # s) = (0, CHR '':'' # s)" "strtoul 16 [] = (0, [])"
proof -
  have "read_base 16 (CHR '':'' # s) = (16, CHR '':'' # s)" by (cases "(16 :: nat, CHR '':'' # s)" rule: read_base.cases) auto
  then show "strtoul 16 (CHR '':'' # s) = (0, CHR '':'' # s)"
    by (simp add: strtoul_def read_number_def is_space_def read_sign_def is_digit_def)
  show "strtoul 16 [] = (0, [])" by (simp add: strtoul_def read_number_def read_sign_def)
qed

lemma strtoul_half:
  assumes "rest = [] \<or> hd rest = CHR '':''" "unat (w :: u32) < 2 ^ 16"
  obtains v where "strtoul 16 (print_base 16 (unat w) @ rest) = (v, rest)" "ucast v = w"
proof
  show "strtoul 16 (print_base 16 (unat w) @ rest) = (of_nat (unat w), rest)"
    by (rule strtoul_print) (use assms in simp_all)
  have "unat (of_nat (unat w) :: u64) = unat w" by (rule unat_of_nat_len) (use assms(2) in simp)
  then show "ucast (of_nat (unat w) :: u64) = w"
    using unat_ucast_less [of "of_nat (unat w) :: u64", where ?'b = 32] assms(2) by (simp add: word_unat_eq_iff)
qed

lemma colon_no_name: "CHR '':'' \<in> set s \<Longrightarrow> s \<noteq> ''root'' \<and> s \<noteq> ''none''"
  by auto

lemma half_lt: "unat (w :: u32) < 2 ^ 16 \<Longrightarrow> \<not> 2 ^ 16 \<le> w"
  by (simp add: word_le_nat_alt)

text \<open>Reading an identifier of two halves, either of which may be empty.\<close>

lemma get_tc_classid_halves:
  assumes "unat (a :: u32) < 2 ^ 16" "unat (b :: u32) < 2 ^ 16"
  shows "get_tc_classid ((if a = 0 then [] else print_base 16 (unat a)) @ '':'' @ (if b = 0 then [] else print_base 16 (unat b))) =
    Some (push_bit 16 a OR b)" (is "get_tc_classid (?x @ '':'' @ ?y) = _")
proof -
  have y: "\<exists>v. strtoul 16 ?y = (v, []) \<and> ucast v = b"
  proof (cases "b = 0")
    case False
    obtain v where "strtoul 16 (print_base 16 (unat b) @ []) = (v, [])" "ucast v = b" by (rule strtoul_half [OF _ assms(2), of "[]"]) simp
    with False show ?thesis by simp
  qed (simp add: strtoul_colon)
  then obtain v where v: "strtoul 16 ?y = (v, [])" "ucast v = b" by blast
  have "CHR '':'' \<in> set (?x @ '':'' @ ?y)" by simp
  from colon_no_name [OF this] have names: "?x @ '':'' @ ?y \<noteq> ''root''" "?x @ '':'' @ ?y \<noteq> ''none''" by blast+
  note small = half_lt [OF assms(1)] half_lt [OF assms(2)]
  show ?thesis
  proof (cases "a = 0")
    case True
    then show ?thesis using names v small(2) by (simp add: get_tc_classid_def strtoul_colon Let_def)
  next
    case False
    obtain u where "strtoul 16 (print_base 16 (unat a) @ '':'' @ ?y) = (u, '':'' @ ?y)" "ucast u = a"
      by (rule strtoul_half [OF _ assms(1), of "'':'' @ ?y"]) simp
    then show ?thesis using False names v small by (simp add: get_tc_classid_def Let_def)
  qed
qed

text \<open>
  C32. A class identifier that is printed is read back: for every 32-bit identifier, \<^verbatim>\<open>get_tc_classid\<close> applied to what \<^verbatim>\<open>sprint_tc_classid\<close>
  writes, without a table of names, gives the identifier. When its minor number is zero, \<^verbatim>\<open>get_qdisc_handle\<close> reads the same text to the same handle.
\<close>

theorem tc_classid_roundtrip:
  "get_tc_classid (sprint_tc_classid None h) = Some h \<and>
   (h AND 0xFFFF = 0 \<longrightarrow> get_qdisc_handle (sprint_tc_classid None h) = Some h)"
proof (intro conjI impI)
  note small = halves_small [of h]
  show "get_tc_classid (sprint_tc_classid None h) = Some h"
  proof (cases "h = H_ROOT \<or> h = 0")
    case True
    then show ?thesis by (auto simp: sprint_tc_classid_None get_tc_classid_def)
  next
    case False
    then have n: "h \<noteq> H_ROOT" "h \<noteq> 0" by simp_all
    show ?thesis unfolding sprint_tc_classid_None if_not_P [OF n(1)] if_not_P [OF n(2)] get_tc_classid_halves [OF small] halves(4) ..
  qed
  assume "h AND 0xFFFF = 0"
  then have t: "take_bit 16 h = 0" by (simp add: halves)
  show "get_qdisc_handle (sprint_tc_classid None h) = Some h"
  proof (cases "h = 0")
    case True
    then show ?thesis by (simp add: sprint_tc_classid_None get_qdisc_handle_def)
  next
    case False
    then have d: "drop_bit 16 h \<noteq> 0" "h \<noteq> H_ROOT" "push_bit 16 (drop_bit 16 h) = h" using halves(4) [of h] t by auto
    let ?x = "print_base 16 (unat (drop_bit 16 h))"
    obtain v where v: "strtoul 16 (?x @ '':'') = (v, '':'')" "ucast v = drop_bit 16 h" 
      by (rule strtoul_half [OF _ small(1), of "'':''"]) simp
    have "CHR '':'' \<in> set (?x @ '':'')" by simp
    then have "?x @ '':'' \<noteq> ''none''" using colon_no_name by blast
    with v d t False half_lt [OF small(1)] show ?thesis by (simp add: sprint_tc_classid_None get_qdisc_handle_def Let_def)
  qed
qed

theorem tc_classid_roundtrip_witness:
  "get_tc_classid (sprint_tc_classid None 0x10000) = Some 0x10000 \<and> get_qdisc_handle (sprint_tc_classid None 0x10000) = Some 0x10000"
  using tc_classid_roundtrip [of "0x10000"] by simp

text \<open>A major number of more than 32 bits is cut before it is tested, so that it is accepted as another one.\<close>

lemma tc_classid_truncates: "get_tc_classid ''100000001:2'' = Some 0x00010002"
  by (simp add: get_tc_classid_def strtoul_def read_number_def read_sign_def is_space_def is_digit_def Let_def)

section \<open>Actions\<close>

lemma get_u32_print: "n < 2 ^ 32 \<Longrightarrow> get_u32 (print_base 10 n) 10 = Some (of_nat n)"
proof -
  assume n: "n < 2 ^ 32"
  have s: "strtoul 10 (print_base 10 n @ []) = (of_nat n, [])" by (rule strtoul_print) (use n in simp_all)
  have u: "unat (of_nat n :: u64) = n" by (rule unat_of_nat_len) (use n in simp)
  have v: "unat (of_nat n :: u32) = n" by (rule unat_of_nat_len) (use n in simp)
  have "ucast (of_nat n :: u64) = (of_nat n :: u32)"
    using unat_ucast_less [of "of_nat n :: u64", where ?'b = 32] n u v by (simp add: word_unat_eq_iff)
  moreover have "\<not> (0xFFFFFFFF :: u64) < of_nat n" using n u by (simp add: word_less_nat_alt)
  ultimately show ?thesis using s print_base_nonempty [of 10 n] by (simp add: get_u32_def del: print_base_nonempty)
qed

lemma sscanf_print:
  assumes "- (2 ^ 31) \<le> i" "i < 2 ^ 31"
  shows "sscanf_int (print_int i) = Returns (Some (of_int i))"
proof (cases "i < 0")
  case True
  have "read_number 10 (CHR ''-'' # print_base 10 (nat (- i)) @ []) = Some (True, nat (- i), [])" by (rule read_number_print) simp_all
  with True assms show ?thesis by (simp add: sscanf_int_def print_int_def)
next
  case False
  have "read_number 10 (print_base 10 (nat i) @ []) = Some (False, nat i, [])" by (rule read_number_print) simp_all
  with False assms show ?thesis by (simp add: sscanf_int_def print_int_def)
qed

text \<open>No printed number abbreviates the name of an action.\<close>

lemma number_no_action: "find (\<lambda>(a, n). matches (print_int i) a) a2n = None"
proof -
  have "\<exists>c cs. print_int i = c # cs \<and> (of_char c :: nat) < 97"
  proof (cases "i < 0")
    case False
    obtain d cs where "print_base 10 (nat i) @ [] = digit_char d # cs" "is_digit 10 (digit_char d)" "d < 16" by (rule print_parts [of 10 "[]" "nat i"]) simp_all
    then show ?thesis using False by (auto simp: print_int_def is_digit_def digit_char_simps(1) of_digit_char simp del: digit_val.simps)
  qed (simp add: print_int_def)
  then obtain c cs where c: "print_int i = c # cs" "(of_char c :: nat) < 97" by blast
  have "c \<noteq> CHR ''c''" "c \<noteq> CHR ''d''" "c \<noteq> CHR ''s''" "c \<noteq> CHR ''p''" "c \<noteq> CHR ''o''" "c \<noteq> CHR ''r''" "c \<noteq> CHR ''g''"
    "c \<noteq> CHR ''j''" "c \<noteq> CHR ''t''" using c(2) by auto
  then show ?thesis unfolding c(1) by (auto simp: a2n_def matches_def)
qed

text \<open>The words of an action as they are printed.\<close>

definition control_words :: "u32 \<Rightarrow> string list" where
  "control_words a =
     (if TC_ACT_EXT_CMP a TC_ACT_GOTO_CHAIN then [''goto'', ''chain'', print_base 10 (unat (a AND TC_ACT_EXT_VAL_MASK))]
      else if TC_ACT_EXT_CMP a TC_ACT_JUMP then [''jump'', print_base 10 (unat (a AND TC_ACT_EXT_VAL_MASK))]
      else [action_n2a a])"

lemma action_value_print:
  assumes "a AND NOT TC_ACT_EXT_VAL_MASK = opcode"
  shows "action_value opcode (print_base 10 (unat (a AND TC_ACT_EXT_VAL_MASK)) # rest) = Some (a, rest)"
proof -
  have "unat (a AND TC_ACT_EXT_VAL_MASK) < 2 ^ 32" using unsigned_less [of "a AND TC_ACT_EXT_VAL_MASK", where ?'a = nat] by simp
  from get_u32_print [OF this] have "get_u32 (print_base 10 (unat (a AND TC_ACT_EXT_VAL_MASK))) 10 = Some (a AND TC_ACT_EXT_VAL_MASK)" by simp
  moreover have "\<not> TC_ACT_EXT_VAL_MASK < a AND TC_ACT_EXT_VAL_MASK" by (simp add: not_less word_and_le1)
  moreover have "opcode OR (a AND TC_ACT_EXT_VAL_MASK) = a"
  proof -
    have "(a AND NOT m) OR (a AND m) = a" for m by (rule bit_word_eqI) (auto simp: bit_simps)
    then show ?thesis unfolding assms [symmetric] .
  qed
  ultimately show ?thesis by (simp add: action_value_def)
qed

lemma action_a2n_names:
  "action_a2n ''goto'' b = Returns (Some TC_ACT_GOTO_CHAIN)" "action_a2n ''jump'' b = Returns (Some TC_ACT_JUMP)"
  "action_a2n ''continue'' b = Returns (Some (-1))" "action_a2n ''pass'' b = Returns (Some 0)" "action_a2n ''drop'' b = Returns (Some 2)"
  "action_a2n ''reclassify'' b = Returns (Some 1)" "action_a2n ''pipe'' b = Returns (Some 3)" "action_a2n ''trap'' b = Returns (Some 8)"
  "action_a2n ''stolen'' b = Returns None"
  by (simp_all add: action_a2n_def a2n_def matches_def sscanf_int_def read_number_def read_sign_def is_space_def is_digit_def)

lemma action_n2a_print:
  assumes "\<not> TC_ACT_EXT_CMP a TC_ACT_GOTO_CHAIN" "\<not> TC_ACT_EXT_CMP a TC_ACT_JUMP" "a \<noteq> TC_ACT_STOLEN"
  shows "action_a2n (action_n2a a) True = Returns (Some a)"
proof (cases "a \<in> {-1, 0, 1, 2, 3, 8}")
  case True
  then show ?thesis using assms by (auto simp: action_n2a_def action_a2n_names)
next
  case False
  have r: "- (2 ^ 31) \<le> sint a" "sint a < 2 ^ 31" using sint_range_size [of a] by (simp_all add: word_size)
  have "length (print_int (sint a)) \<le> 63"
  proof -
    have "nat \<bar>sint a\<bar> < 10 ^ 10" using r by simp
    then have "length (print_base 10 (nat \<bar>sint a\<bar>)) \<le> 10" by (rule length_print_base) simp_all
    then show ?thesis by (cases "sint a < 0") (simp_all add: print_int_def)
  qed
  then have "action_n2a a = print_int (sint a)" using False assms by (simp add: action_n2a_def snprintf_def)
  then show ?thesis using sscanf_print [OF r] by (simp add: action_a2n_def number_no_action)
qed

text \<open>
  C33. An action that is printed is read back: the words of every action but \<open>stolen\<close>, extended ones with their chain or jump count and unknown
  ones as numbers included, are parsed to the action, with the arguments behind them left over; the text that
  \<^verbatim>\<open>print_action_control\<close> writes consists of these words. The word for \<open>stolen\<close> is not accepted.
\<close>

theorem action_control_roundtrip:
  "print_action_control prefix a suffix = prefix @ concat (map (\<lambda>w. w @ '' '') (butlast (control_words a))) @ last (control_words a) @ suffix \<and>
   parse_action_control (control_words a @ rest) True = Returns (if a = TC_ACT_STOLEN then None else Some (a, rest))"
proof (intro conjI)
  show "print_action_control prefix a suffix = prefix @ concat (map (\<lambda>w. w @ '' '') (butlast (control_words a))) @ last (control_words a) @ suffix"
    by (auto simp: print_action_control_def control_words_def action_n2a_def TC_ACT_EXT_CMP_def)
  have small: "\<not> TC_ACT_EXT_CMP TC_ACT_STOLEN TC_ACT_GOTO_CHAIN" "\<not> TC_ACT_EXT_CMP TC_ACT_STOLEN TC_ACT_JUMP"
    by (simp_all add: TC_ACT_EXT_CMP_def)
  consider "TC_ACT_EXT_CMP a TC_ACT_GOTO_CHAIN" | "TC_ACT_EXT_CMP a TC_ACT_JUMP" "\<not> TC_ACT_EXT_CMP a TC_ACT_GOTO_CHAIN" | "a = TC_ACT_STOLEN"
    | "\<not> TC_ACT_EXT_CMP a TC_ACT_GOTO_CHAIN" "\<not> TC_ACT_EXT_CMP a TC_ACT_JUMP" "a \<noteq> TC_ACT_STOLEN" by blast
  then show "parse_action_control (control_words a @ rest) True = Returns (if a = TC_ACT_STOLEN then None else Some (a, rest))"
  proof cases
    case 1
    then have "a AND NOT TC_ACT_EXT_VAL_MASK = TC_ACT_GOTO_CHAIN" "a \<noteq> TC_ACT_STOLEN" using small by (auto simp: TC_ACT_EXT_CMP_def)
    with 1 action_value_print [OF this(1)] show ?thesis by (simp add: control_words_def parse_action_control_def action_a2n_names matches_def)
  next
    case 2
    then have "a AND NOT TC_ACT_EXT_VAL_MASK = TC_ACT_JUMP" "a \<noteq> TC_ACT_STOLEN" using small by (auto simp: TC_ACT_EXT_CMP_def)
    with 2 action_value_print [OF this(1)] show ?thesis by (simp add: control_words_def parse_action_control_def action_a2n_names)
  next
    case 3
    then show ?thesis using small by (simp add: control_words_def parse_action_control_def action_n2a_def action_a2n_names)
  next
    case 4
    have "a \<noteq> TC_ACT_GOTO_CHAIN" "a \<noteq> TC_ACT_JUMP" using 4(1,2) by (auto simp: TC_ACT_EXT_CMP_def)
    with 4 action_n2a_print [OF 4] show ?thesis by (simp add: control_words_def parse_action_control_def)
  qed
qed

text \<open>
  After two actions with a slash between them as arguments of their own, the loop goes on and takes a further argument for an action: an option there is
  an error, and a third action hides the second.
\<close>

lemma slash_third_argument:
  "parse_action_control_slash [''drop'', ''/'', ''pass'', ''mtu''] False = Returns None"
  "parse_action_control_slash [''drop'', ''/'', ''pass'', ''pipe''] False = Returns (Some (2, None, []))"
  by (simp_all add: parse_action_control_slash_def slash_loop.simps parse_action_control_def action_a2n_def a2n_def matches_def)

section \<open>Rates\<close>

text \<open>How much of a number the loop over the units has lost.\<close>

definition in_unit :: "nat \<Rightarrow> nat \<Rightarrow> nat \<Rightarrow> nat \<Rightarrow> bool" where
  "in_unit kilo whole i n \<longleftrightarrow> n = whole div kilo ^ i \<and> 1000 * (whole - n * kilo ^ i) \<le> whole"

lemma in_unit_step:
  assumes "in_unit kilo whole i n" "0 < kilo" "n mod kilo = 0 \<or> 1000 * kilo \<le> n"
  shows "in_unit kilo whole (Suc i) (n div kilo)"
proof -
  have n: "n = whole div kilo ^ i" "1000 * (whole - n * kilo ^ i) \<le> whole" using assms(1) unfolding in_unit_def by blast+
  have q: "n div kilo = whole div kilo ^ Suc i" unfolding n(1) power_Suc2 by (rule div_mult2_eq [symmetric])
  have "1000 * (whole - n div kilo * kilo ^ Suc i) \<le> whole"
  proof (cases "n mod kilo = 0")
    case True
    then have "n div kilo * kilo = n" by auto
    then have "n div kilo * kilo ^ Suc i = n * kilo ^ i" unfolding power_Suc mult.assoc [symmetric] by (rule arg_cong)
    then show ?thesis using n(2) by (simp only:)
  next
    case False
    then have "1000 * kilo * kilo ^ i \<le> n * kilo ^ i" using assms(3) by (intro mult_right_mono) simp_all
    also have "\<dots> \<le> whole" unfolding n(1) by (rule div_times_less_eq_dividend)
    finally have big: "1000 * kilo ^ Suc i \<le> whole" by (simp add: mult.assoc)
    have "whole - n div kilo * kilo ^ Suc i = whole mod kilo ^ Suc i" unfolding q by (rule minus_div_mult_eq_mod)
    also have "\<dots> \<le> kilo ^ Suc i" using assms(2) by (intro less_imp_le mod_less_divisor) simp
    finally show ?thesis using big by linarith
  qed
  with q show ?thesis by (simp add: in_unit_def)
qed

lemma rate_unit_ok:
  assumes "in_unit (unat kilo) whole i (unat rate)" "kilo = 1000 \<or> kilo = 1024"
  shows "\<exists>j n. rate_unit kilo k i rate = (j, n) \<and> i \<le> j \<and> j \<le> i + k \<and> in_unit (unat kilo) whole j (unat n)"
  using assms(1)
proof (induction k arbitrary: i rate)
  case (Suc k)
  show ?case
  proof (cases "rate < kilo \<or> rate mod kilo \<noteq> 0 \<and> rate < 1000 * kilo")
    case True
    then show ?thesis using Suc.prems by auto
  next
    case False
    have k: "unat (1000 * kilo) = 1000 * unat kilo" "0 < unat kilo" using assms(2) by auto
    have "rate mod kilo = 0 \<or> 1000 * kilo \<le> rate" using False by auto
    then have "unat (rate mod kilo) = 0 \<or> unat (1000 * kilo) \<le> unat rate" by (simp only: word_le_nat_alt unat_eq_zero)
    then have "unat rate mod unat kilo = 0 \<or> 1000 * unat kilo \<le> unat rate" unfolding k(1) unat_mod_distrib .
    from in_unit_step [OF Suc.prems k(2) this] have "in_unit (unat kilo) whole (Suc i) (unat (rate div kilo))" unfolding unat_div_distrib .
    from Suc.IH [OF this] obtain j n where "rate_unit kilo k (Suc i) (rate div kilo) = (j, n)" "Suc i \<le> j" "j \<le> Suc i + k"
      "in_unit (unat kilo) whole j (unat n)" by blast
    moreover have "rate_unit kilo (Suc k) i rate = rate_unit kilo k (Suc i) (rate div kilo)"
      using False unfolding rate_unit.simps by presburger
    ultimately show ?thesis by (intro exI [of _ j] exI [of _ n]) simp
  qed
qed simp

text \<open>
  A printed rate is exact to one part in a thousand: the number that \<^verbatim>\<open>print_rate\<close> prints, before it is converted to a double, times its
  unit is at most the rate in bits per second, and what is missing is at most a thousandth of the rate. The unit is one of the five of the table.
\<close>

theorem print_rate_precise:
  "\<exists>i n. print_rate rnd use_iec len rate =
       snprintf len (print_base 10 (nat \<lfloor>rnd (of_nat n)\<rfloor>) @ rate_units ! i @ (if use_iec then ''i'' else []) @ ''bit'') \<and>
     i < length rate_units \<and> n * (if use_iec then 1024 else 1000) ^ i \<le> unat (push_bit 3 rate) \<and>
     1000 * (unat (push_bit 3 rate) - n * (if use_iec then 1024 else 1000) ^ i) \<le> unat (push_bit 3 rate)"
proof -
  let ?k = "if use_iec then 1024 else 1000 :: u64" and ?R = "push_bit 3 rate"
  have len: "length rate_units - 1 = 4" by (simp add: rate_units_def)
  have k: "unat ?k = (if use_iec then 1024 else 1000)" by simp
  have "in_unit (unat ?k) (unat ?R) 0 (unat ?R)" by (simp add: in_unit_def)
  from rate_unit_ok [OF this, of 4] obtain i n where
    r: "rate_unit ?k 4 0 ?R = (i, n)" "i \<le> 4" "in_unit (unat ?k) (unat ?R) i (unat n)" by (cases use_iec) auto
  have "unat n * unat ?k ^ i \<le> unat ?R" "1000 * (unat ?R - unat n * unat ?k ^ i) \<le> unat ?R"
    using r(3) div_times_less_eq_dividend [of "unat ?R" "unat ?k ^ i"] unfolding in_unit_def by metis+
  moreover have "print_rate rnd use_iec len rate =
      snprintf len (print_base 10 (nat \<lfloor>rnd (of_nat (unat n))\<rfloor>) @ rate_units ! i @ (if use_iec then ''i'' else []) @ ''bit'')"
    unfolding print_rate_def Let_def len r(1) prod.case ..
  moreover have "i < length rate_units" using r(2) by (simp add: rate_units_def)
  ultimately show ?thesis unfolding k by blast
qed

end
