(* ===== verification/Spec2Isabelle.thy ===== *)
theory Spec2Isabelle
  imports Tbf_Properties Rb_Properties Nfqueue_Properties Rtnl_Request_Properties Kernel_Request Netem_Request Netem_Properties Tc_Util_Properties
begin

text \<open>
  A verification library for \<^verbatim>\<open>dynbandwidth\<close>, a testbed for networks whose bandwidth changes on the fly.

  \<^bold>\<open>Parts.\<close> A controller (\<^verbatim>\<open>tbf/tbf.c\<close> and its relatives) computes rate parameters with \<^verbatim>\<open>tbf/tc_core.c\<close>, writes them
  into a netlink request with the attribute functions of \<^verbatim>\<open>tbf/libnetlink.c\<close> and sends it to the kernel, again and again.
  There the modified token bucket filter \<^verbatim>\<open>sch_tbf.c\<close> takes the new rate without refilling its buckets. It drives an inner
  qdisc of \<^verbatim>\<open>net/sched\<close>. Other controllers configure the network emulator \<^verbatim>\<open>net/sched/sch_netem.c\<close>, which delays packets and sends
  them at a rate. On the receiving side, the programs of \<^verbatim>\<open>reordering_buffer\<close> count packets that
  arrive out of order, or hold them back and release them in order; they keep packets in the red-black trees of
  \<^verbatim>\<open>rbtree.c\<close>.

  \<^bold>\<open>Theories and sources.\<close>
  \<open>Net_Prelude\<close>: machine integers and shared lemmas.
  \<open>Psched\<close>, \<open>Qdisc\<close>, \<open>Rate_Table\<close>: rate arithmetic, the FIFOs of \<^verbatim>\<open>sch_fifo.c\<close>, the no-op qdisc of \<^verbatim>\<open>sch_generic.c\<close>, the
  watchdog with its timer and the list of rate tables of \<^verbatim>\<open>sch_api.c\<close>. The locale \<open>inner_qdisc\<close> is the contract of an inner qdisc; the FIFOs
  are its interpretation.
  \<open>Sch_Tbf\<close>: \<^verbatim>\<open>sch_tbf.c\<close>, one definition per operation, and the change operation of the mainline version \<^verbatim>\<open>net/sched/sch_tbf.c\<close>, translated on its own. \<open>Tbf_Correct\<close>, \<open>Tbf_Run\<close> and \<open>Tbf_Live\<close> hold its lemmas (token
  arithmetic, runs of events, progress and accounting), \<open>Tbf_Demo\<close> a concrete filter.
  \<open>Rbtree\<close>: \<^verbatim>\<open>rbtree.c\<close> and its headers on an explicit memory. \<open>Rb_Spec\<close> is the specification on trees; \<open>Rb_Heap\<close>,
  \<open>Rb_Insert\<close>, \<open>Rb_Erase\<close>, \<open>Rb_Unlink\<close> and \<open>Rb_Traverse\<close> show that the memory operations implement it.
  \<open>Seq_Buffer\<close>, \<open>Reorder_Counter\<close>: \<^verbatim>\<open>reorder_counter.c\<close>, \<^verbatim>\<open>tcp_reordercounter.c\<close> and \<^verbatim>\<open>ip_reordercounter.c\<close>.
  \<open>Reorder_Correct\<close> treats one flow, \<open>Reorder_Flows\<close> the table of flows.
  \<open>Nfqueue\<close>: \<^verbatim>\<open>nfqueue.c\<close>, including the code after the early return of \<^verbatim>\<open>nfq_cb\<close>, which does not run as the file stands.
  \<open>Nfqueue_Correct\<close> holds its lemmas.
  \<open>Netlink\<close>, \<open>Netlink_Attrs\<close>: the attribute functions of \<^verbatim>\<open>libnetlink.c\<close>, and blocks of memory as lists of attributes.
  \<open>Rtnl\<close>: \<^verbatim>\<open>rtnl_talk\<close> and \<^verbatim>\<open>rtnl_dump_filter\<close>. \<open>Rtnl_Request\<close>: opening, the requests for dumps, listening and reading from a file.
  \<open>Rtnl_Batches\<close>: datagrams as batches of padded messages, with the position of each header.
  \<open>Tc_Core\<close>: \<^verbatim>\<open>tc_core.c\<close>.
  \<open>Controller\<close>: the five programs that \<^verbatim>\<open>tbf/Makefile\<close> builds.
  \<open>Kernel_Request\<close>: the attribute parser of the kernel as a contract, and how \<^verbatim>\<open>tbf_change\<close> takes the request of a controller.
  \<open>Netem_Random\<close>, \<open>Sch_Netem\<close>, \<open>Netem_Config\<close>: \<^verbatim>\<open>sch_netem.c\<close>, its arithmetic and loss models, its queue and its configuration.
  The locale \<open>rb_library\<close> in \<open>Netem_Correct\<close> is the contract of the tree library it uses; \<^verbatim>\<open>rbtree.c\<close> is its interpretation.
  \<open>Netem_Correct\<close> treats the queue ordered by time, \<open>Netem_Run\<close> whole operations, \<open>Netem_Corrupt\<close> the corruption of a packet that is segmented, \<open>Netem_Request\<close> the request of \<^verbatim>\<open>netem.c\<close>.
  \<open>Tc_Util\<close>: class identifiers, rates, actions and link layers as text, from \<^verbatim>\<open>tc_util.c\<close>.

  \<^bold>\<open>What is shown.\<close>
  \<open>Tbf_Properties\<close>: the filter refines the bucket of its own description in every run of enqueues, dequeues and
  reconfigurations, so traffic is bounded in every window; order, progress, accounting, and the effect of accepted and
  rejected requests.
  \<open>Rb_Properties\<close>: insertion, removal, replacement and traversal, with termination and a frame.
  \<open>Reorder_Properties\<close>: the packet handler always returns and implements its list specification; what the counters count, and
  where they go wrong.
  \<open>Nfqueue_Properties\<close>: every packet gets one verdict or is held; release in order; the timer.
  \<open>Control_Properties\<close>: attributes that are appended are parsed back; the rate table; the request of \<^verbatim>\<open>tbf.c\<close>; the division
  by zero on an empty list of settings.
  \<open>Rtnl_Properties\<close>, \<open>Rtnl_Request_Properties\<close>: an acknowledgement is found among any other messages; a dump that is requested is read to its end, one that is saved is
  replayed, in whatever batches it comes; a listener loses the namespaces.
  \<open>Netem_Properties\<close>: the emulator hands out packets in the order of their times and at its rate; a reset returns and empties it;
  a rejected change of the configuration; a dangling pointer after a corrupted packet was segmented.
  \<open>Tc_Util_Properties\<close>: class identifiers and actions that are printed are read back; how precise a printed rate is.
  This theory: what a round of \<^verbatim>\<open>tbf.c\<close> or \<^verbatim>\<open>netem.c\<close> sends is what the qdisc does afterwards.
  Some of these theorems describe faults of the code; their text says so.

  \<^bold>\<open>State, errors and loops.\<close> Structures are records, C integers are words of their width, pointers are addresses of a
  partial map or offsets of a block. \<open>None\<close>, or \<open>Undefined\<close> in \<open>Rtnl\<close>, \<open>Rtnl_Request\<close>, \<open>Controller\<close> and \<open>Tc_Util\<close>, is behaviour that C leaves undefined.
  Loops that get shorter in some measure are total functions; the others are partial functions in the option type, where \<open>None\<close> also means that the loop does not
  end; the theorems state that a result is returned. No loop has a fuel argument. The endless loops of the controllers are
  given by one round.

  \<^bold>\<open>Parameters.\<close> Code that is not in the repository is an argument: the inline helpers of the kernel headers, the
  attribute library, the reciprocal division and the random numbers of the kernel, its red-black trees where \<^verbatim>\<open>sch_netem.c\<close> uses them,
  allocation, the verdicts and the clock of the event loop, the events of a socket, the
  results of system calls, the rounding of doubles (monotone, and exact on integers up to 2 to the 53). What is assumed of them is stated in each theorem, and an
  instance shows that it can hold. The functions of \<^verbatim>\<open>net/core\<close> that split, copy and unshare a packet and complete its checksum are arguments as well, though they are in the repository: they work
  on the pages and fragments of a packet, which the model of a packet does not have.

  \<^bold>\<open>Not modelled.\<close> The extended error reports of \<^verbatim>\<open>libnetlink.c\<close>, which need a library that is not there. In the controllers: shell commands, interface lookup,
  scheduling priority, sleeping and printing. The controllers that no makefile builds, three of which do not compile.
  In \<^verbatim>\<open>tc_util.c\<close>, which no controller calls: numbers with a fraction as text, statistics, JSON output and the files of names.
  \<^verbatim>\<open>tun.c\<close> and \<^verbatim>\<open>socket_intercept.c\<close>, which only read and print. The scripts for the experiments. The rest of the vendored trees
  \<^verbatim>\<open>net\<close> and \<^verbatim>\<open>iproute2-master\<close>, which the testbed does not change. Concurrency: every operation
  runs to its end, as under the qdisc lock or in the event loop.
\<close>

section \<open>From the controller to the filter\<close>

text \<open>
  C5. What a round of \<^verbatim>\<open>tbf.c\<close> sends is what the filter does: given a parser of the kernel that keeps its promise, the options of the
  request, handed to \<^verbatim>\<open>tbf_change\<close> of a filter over a FIFO, are accepted. The filter then runs at the rate of the round, 625000000 or
  125000000 bytes per second, without a peak rate, admits packets of up to 50000 bytes and has the limit of the controller, as has its
  FIFO. Bucket levels, their time, queued packets and the list of rate tables are as before.
\<close>

theorem tbf_round_reconfigures:
  assumes "length (tc_mem s) = sizeof_req"
    and "tbf_options rnd c (drop_bit 3 (tbf_bws (1 - tc_index s))) (tc_opt s) = Some (k, opt, rtab)"
    and "rs_rate (qopt_peakrate (tc_opt s)) = 0"
    and "nla_parser_ok (nla_parse_nested env)" "nla_kmalloc_ok env"
    and "\<not> is_noop_qdisc env (tbf_qdisc (t_q sch))" "sch_ops (tbf_qdisc (t_q sch)) \<in> {Pfifo_ops, Bfifo_ops}"
  shows "\<exists>s' d sch'. tbf_build rnd c idx1 s = Some (0, s') \<and> attr_payload (tc_mem s') 44 = Some d \<and>
           tbf_change h (fifo_ops h) env d sch rtabs = Some (0, sch', rtabs) \<and>
           unat (rate_bytes_ps (tbf_rate (t_q sch'))) = (if tc_index s = 0 then 125000000 else 625000000) \<and>
           \<not> tbf_peak_present (t_q sch') \<and> tbf_max_size (t_q sch') = 50000 \<and>
           tbf_limit (t_q sch') = qopt_limit (tc_opt s) \<and> sch_limit (tbf_qdisc (t_q sch')) = qopt_limit (tc_opt s) \<and>
           sch_q (tbf_qdisc (t_q sch')) = sch_q (tbf_qdisc (t_q sch)) \<and>
           tbf_tokens (t_q sch') = tbf_tokens (t_q sch) \<and> tbf_ptokens (t_q sch') = tbf_ptokens (t_q sch) \<and>
           tbf_t_c (t_q sch') = tbf_t_c (t_q sch)"
proof -
  note o = tbf_options_SomeD [OF assms(2)]
  obtain m d where m: "tbf_build rnd c idx1 s = Some (0, s\<lparr>tc_index := 1 - tc_index s, tc_opt := opt, tc_mem := m\<rparr>)"
    "message m 36 ([(1, c_string ''tbf'')] @ [(2, d)]) 1124" "attrs_at m 36 [(1, c_string ''tbf'')] 44"
    "attrs_at m (44 + 4) [(1, qopt_bytes opt), (6, bytes32 50000), (2, rtab_bytes rtab)] 1124" "length d = 1124 - (44 + 4)"
    "unat (rs_rate (qopt_rate opt)) = (if tc_index s = 0 then 125000000 else 625000000)"
    by (rule tbf_build_ok [OF assms(1,2), of idx1]) simp
  note d = nested_payload [OF m(2-5)]
  have peak: "rs_rate (qopt_peakrate opt) = 0" unfolding o(4) by (rule assms(3))
  obtain q r where r: "psched_ratecfg_precompute (qopt_rate opt) 0 = Some r" "sch_limit q = qopt_limit opt"
    "sch_q q = sch_q (tbf_qdisc (t_q sch))"
    "tbf_change h (fifo_ops h) env d sch rtabs = Some (0, sch\<lparr>t_q := (t_q sch)\<lparr>tbf_qdisc := q, tbf_limit := qopt_limit opt,
       tbf_mtu := psched_ticks2ns h (qopt_mtu opt), tbf_max_size := 50000, tbf_buffer := psched_l2t_ns h r 50000,
       tbf_rate := r, tbf_peak := ratecfg_zero\<rparr>\<rparr>, rtabs)"
    by (rule request_installed [OF assms(4) o(2) d(2) o(6) peak assms(6,7,5), of h rtabs])
  have "unat (rate_bytes_ps r) = unat (rs_rate (qopt_rate opt))" by (rule precompute_rate [OF r(1)])
  with m(1,6) d(1) r(2-4) o(5) show ?thesis by (simp add: tbf_peak_present_def ratecfg_zero_def)
qed

theorem tbf_round_reconfigures_witness:
  "\<exists>s' d sch'. tbf_build (\<lambda>x. x) demo_clock 5 demo_ctl = Some (0, s') \<and> attr_payload (tc_mem s') 44 = Some d \<and>
     tbf_change list_hdr (fifo_ops list_hdr) (demo_env\<lparr>nla_parse_nested := library_parser\<rparr>) d (demo_sch 500 5000000000 [demo_skb 1]) [] =
       Some (0, sch', []) \<and>
     unat (rate_bytes_ps (tbf_rate (t_q sch'))) = 625000000 \<and> tbf_tokens (t_q sch') = 5000000000"
proof -
  let ?env = "demo_env\<lparr>nla_parse_nested := library_parser\<rparr>" and ?sch = "demo_sch 500 5000000000 [demo_skb 1]"
  obtain k opt rtab where o: "tbf_options (\<lambda>x. x) demo_clock (drop_bit 3 (tbf_bws (1 - tc_index demo_ctl))) (tc_opt demo_ctl) = Some (k, opt, rtab)"
    using demo_options by blast
  have c: "length (tc_mem demo_ctl) = sizeof_req" "tc_index demo_ctl \<noteq> 0" "rs_rate (qopt_peakrate (tc_opt demo_ctl)) = 0"
    by (simp_all add: demo_ctl_def new_request_def sizeof_req_def zero_ratespec_def)
  have e: "nla_parser_ok (nla_parse_nested ?env)" "nla_kmalloc_ok ?env" "\<not> is_noop_qdisc ?env (tbf_qdisc (t_q ?sch))"
    "sch_ops (tbf_qdisc (t_q ?sch)) \<in> {Pfifo_ops, Bfifo_ops}"
    using library_parser_ok by (simp_all add: demo_env_def demo_sch_def demo_fifo_def)
  from tbf_round_reconfigures [OF c(1) o c(3) e, of 5 list_hdr "[]"] c(2) show ?thesis by (auto simp: demo_fields)
qed

section \<open>From the controller to the emulator\<close>

text \<open>
  C8. What a round of \<^verbatim>\<open>netem.c\<close> sends is what the emulator does: the request is built, and its options, handed to \<^verbatim>\<open>netem_change\<close>,
  are accepted. The emulator then has the bandwidth of the setting as its rate, whether it fits in 32 bits or not, and the delay of the setting as its
  latency, in the ticks the controller computed; its limit is that of the controller. Neither jitter nor loss, duplication or
  reordering is left from an earlier configuration, so that an emulator that does not corrupt packets sends at a constant rate. The packets in its queue stay as they are.
\<close>

theorem netem_round_reconfigures:
  assumes "length (nc_mem s) = sizeof_req" "next_index bws (nc_index s) = Some i"
    and "netem_options rnd c (bws ! unat i) (nc_opt s) = Some opt" "nc_opt s = (netem_qopt ql)\<lparr>ne_latency := l\<rparr>"
    and "nla_parser_ok (nla_parse cenv)" "psched_ticks2ns h 0 = 0"
  shows "\<exists>s' d sch'. netem_build rnd c bws idx1 s = Some s' \<and> attr_payload (nc_mem s') 48 = Some d \<and>
           netem_change h env cenv (Some d) sch = (0, sch') \<and>
           nr_rate (nq_rate (ns_q sch')) = bw_bandwidth (bws ! unat i) \<and>
           nq_latency (ns_q sch') = psched_ticks2ns h (ne_latency opt) \<and> ns_limit sch' = ucast ql \<and>
           (nq_corrupt (ns_q sch) = 0 \<and> bw_bandwidth (bws ! unat i) \<noteq> 0 \<longrightarrow> constant_rate (ns_q sch')) \<and>
           (\<forall>t xs. tfifo_ok sch t xs \<longrightarrow> tfifo_ok sch' t xs) \<and> ns_pkts sch' = ns_pkts sch"
proof -
  let ?r = "bw_bandwidth (bws ! unat i)"
  obtain m d where m: "netem_build rnd c bws idx1 s = Some \<lparr>nc_index = i, nc_opt = opt, nc_mem = m\<rparr>"
    "attr_payload m 48 = Some (netem_bytes opt @ d)" "attrs_at d 0 (netem_attr_list ?r) (length d)" "4 \<le> length d"
    by (rule netem_build_ok [OF assms(1-3), of idx1]) simp
  have opt: "ne_limit opt = ucast ql" "ne_gap opt = 0" "ne_loss opt = 0" "ne_duplicate opt = 0" "ne_jitter opt = 0"
    using assms(3,4) by (auto simp: netem_options_def netem_qopt_def split: bind_splits)
  obtain sch' where sch': "netem_change h env cenv (Some (netem_bytes opt @ d)) sch = (0, sch')" "nr_rate (nq_rate (ns_q sch')) = ?r"
    "nq_latency (ns_q sch') = psched_ticks2ns h (ne_latency opt)" "ns_limit sch' = ucast ql"
    "nq_corrupt (ns_q sch) = 0 \<and> ?r \<noteq> 0 \<longrightarrow> constant_rate (ns_q sch')" "ns_pkts sch' = ns_pkts sch" "ns_nodes sch' = ns_nodes sch"
    "nq_root (ns_q sch') = nq_root (ns_q sch)" "nq_head (ns_q sch') = nq_head (ns_q sch)" "nq_tail (ns_q sch') = nq_tail (ns_q sch)"
    using opt assms(6) by (simp add: netem_request_installed [OF assms(5) m(3,4)] netem_change_qopt_def constant_rate_def)
  have "tfifo_ok sch' t xs" if "tfifo_ok sch t xs" for t xs by (rule tfifo_ok_cong [OF that sch'(7,6,8-10)])
  with m(1,2) sch'(1-6) show ?thesis by auto
qed

text \<open>A setting of 48 gigabit per second and a delay of ten microseconds.\<close>

definition demo_bw :: bw_param where
  "demo_bw = \<lparr>bw_bandwidth = 6000000000, bw_delay = 10, bw_sec = 1, bw_nsec = 0\<rparr>"

theorem netem_round_reconfigures_witness:
  "\<exists>s' d sch'. netem_build (\<lambda>x. x) demo_clock [demo_bw] 5 \<lparr>nc_index = 0, nc_opt = netem_qopt 100, nc_mem = new_request\<rparr> = Some s' \<and>
     attr_payload (nc_mem s') 48 = Some d \<and>
     netem_change list_hdr demo_netem_env (demo_loss_env\<lparr>nla_parse := library_parser\<rparr>) (Some d) demo_netem = (0, sch') \<and>
     nr_rate (nq_rate (ns_q sch')) = 6000000000 \<and> ns_limit sch' = 100 \<and> constant_rate (ns_q sch') \<and> tfifo_ok sch' demo_rbt [8]"
proof -
  let ?s = "\<lparr>nc_index = 0, nc_opt = netem_qopt 100, nc_mem = new_request\<rparr>"
  have i: "length (nc_mem ?s) = sizeof_req" "next_index [demo_bw] (nc_index ?s) = Some 0"
    by (simp_all add: new_request_def sizeof_req_def next_index_def)
  obtain opt where o: "netem_options (\<lambda>x. x) demo_clock ([demo_bw] ! unat (0 :: u32)) (nc_opt ?s) = Some opt"
    by (simp add: netem_options_def demo_bw_def tc_core_time2tick_def demo_clock_def to_u32_def to_unsigned_def)
  have q: "nc_opt ?s = (netem_qopt 100)\<lparr>ne_latency := 0\<rparr>" by (simp add: netem_qopt_def)
  have c: "nla_parser_ok (nla_parse (demo_loss_env\<lparr>nla_parse := library_parser\<rparr>))" using library_parser_ok by simp
  have h: "psched_ticks2ns list_hdr 0 = 0" by (simp add: list_hdr_def)
  from netem_round_reconfigures [OF i o q c h, of 5 demo_netem_env demo_netem] demo_netem_ok show ?thesis
    by (fastforce simp: demo_bw_def demo_netem_def demo_netem_q_def)
qed

end
